(* ===== verification/Prelude.thy ===== *)
theory Prelude
  imports Main "HOL-Library.Word"
begin

text \<open>
  What every component theory shares: the machine integer types of
  \<^verbatim>\<open>sanitizer_internal_defs.h\<close>, the flat byte memory with the libc block
  operations the runtime calls, the outcome type for code that may call \<^verbatim>\<open>Die()\<close>
  or fail a \<^verbatim>\<open>CHECK\<close>, the arithmetic helpers of \<^verbatim>\<open>sanitizer_common.h\<close>, and the
  lemmas on words and address ranges that carry the component proofs.
\<close>

unbundle bit_operations_syntax

section \<open>Machine types, memory and outcomes\<close>

type_synonym u8 = "8 word"
type_synonym u16 = "16 word"
type_synonym u32 = "32 word"
type_synonym u64 = "64 word"
type_synonym uptr = "64 word"
type_synonym memory = "uptr \<Rightarrow> u8"

text \<open>
  The ways control leaves the runtime without returning: a failed \<^verbatim>\<open>CHECK\<close>, an explicit
  \<^verbatim>\<open>Die()\<close>, and one of the allocator's fatal reports (which end in \<^verbatim>\<open>Die()\<close>).
\<close>

datatype death = CheckFailed | DieCalled | Fatal string

datatype 'a outcome = Died death | Ok 'a

primrec bind_ok :: "'a outcome \<Rightarrow> ('a \<Rightarrow> 'b outcome) \<Rightarrow> 'b outcome" where
  "bind_ok (Died d) f = Died d"
| "bind_ok (Ok x) f = f x"

definition check :: "bool \<Rightarrow> 'a outcome \<Rightarrow> 'a outcome" where
  "check b k = (if b then k else Died CheckFailed)"

named_theorems outcome_simps "unfolding of the outcome type"
named_theorems mem_simps "reading memory after a block operation"
named_theorems range_simps "membership in address ranges"

lemma bind_ok_eq_Ok [outcome_simps]:
  "(bind_ok m f = Ok y) \<longleftrightarrow> (\<exists>x. m = Ok x \<and> f x = Ok y)"
  by (cases m) auto

lemma check_eq_Ok [outcome_simps]: "(check b k = Ok y) \<longleftrightarrow> b \<and> k = Ok y"
  by (simp add: check_def)

lemma check_True [simp]: "check True k = k"
  by (simp add: check_def)

lemma check_False [simp]: "check False k = Died CheckFailed"
  by (simp add: check_def)

section \<open>Arithmetic helpers of the common library\<close>

definition IsPowerOfTwo :: "uptr \<Rightarrow> bool" where
  "IsPowerOfTwo x \<longleftrightarrow> x AND (x - 1) = 0"

definition RoundUpTo :: "uptr \<Rightarrow> uptr \<Rightarrow> uptr" where
  "RoundUpTo sz boundary = (sz + boundary - 1) AND NOT (boundary - 1)"

definition RoundDownTo :: "uptr \<Rightarrow> uptr \<Rightarrow> uptr" where
  "RoundDownTo x boundary = x AND NOT (boundary - 1)"

definition IsAligned :: "uptr \<Rightarrow> uptr \<Rightarrow> bool" where
  "IsAligned a alignment \<longleftrightarrow> a AND (alignment - 1) = 0"

section \<open>Address ranges\<close>

text \<open>
  \<open>in_range a p n\<close>: the address \<open>a\<close> is one of the \<open>n\<close> bytes from \<open>p\<close> on. The
  subtraction wraps, as the address computation \<^verbatim>\<open>p + i\<close> of the code does.
\<close>

definition in_range :: "uptr \<Rightarrow> uptr \<Rightarrow> uptr \<Rightarrow> bool" where
  "in_range a p n \<longleftrightarrow> a - p < n"

definition real_memset :: "memory \<Rightarrow> uptr \<Rightarrow> u8 \<Rightarrow> uptr \<Rightarrow> memory" where
  "real_memset m p v n = (\<lambda>a. if in_range a p n then v else m a)"

definition real_memmove :: "memory \<Rightarrow> uptr \<Rightarrow> uptr \<Rightarrow> uptr \<Rightarrow> memory" where
  "real_memmove m d s n = (\<lambda>a. if in_range a d n then m (s + (a - d)) else m a)"

text \<open>Little-endian 32-bit and 64-bit accesses, byte by byte.\<close>

definition load32 :: "memory \<Rightarrow> uptr \<Rightarrow> u32" where
  "load32 m a = ucast (m a) OR push_bit 8 (ucast (m (a + 1)))
     OR push_bit 16 (ucast (m (a + 2))) OR push_bit 24 (ucast (m (a + 3)))"

definition store32 :: "memory \<Rightarrow> uptr \<Rightarrow> u32 \<Rightarrow> memory" where
  "store32 m a v = m(a := ucast v, a + 1 := ucast (drop_bit 8 v),
     a + 2 := ucast (drop_bit 16 v), a + 3 := ucast (drop_bit 24 v))"

definition store64 :: "memory \<Rightarrow> uptr \<Rightarrow> u64 \<Rightarrow> memory" where
  "store64 m a v = store32 (store32 m a (ucast v)) (a + 4) (ucast (drop_bit 32 v))"

definition load64 :: "memory \<Rightarrow> uptr \<Rightarrow> u64" where
  "load64 m a = ucast (load32 m a) OR push_bit 32 (ucast (load32 m (a + 4)))"

subsection \<open>Lemmas on ranges and block operations\<close>

lemma real_memset_in [mem_simps]: "in_range a p n \<Longrightarrow> real_memset m p v n a = v"
  by (simp add: real_memset_def)

lemma real_memset_out [mem_simps]: "\<not> in_range a p n \<Longrightarrow> real_memset m p v n a = m a"
  by (simp add: real_memset_def)

lemma real_memset_0 [simp]: "real_memset m p v 0 = m"
  by (simp add: real_memset_def in_range_def)

lemma real_memmove_0 [simp]: "real_memmove m d s 0 = m"
  by (simp add: real_memmove_def in_range_def)

lemma real_memmove_in [mem_simps]:
  "in_range a d n \<Longrightarrow> real_memmove m d s n a = m (s + (a - d))"
  by (simp add: real_memmove_def)

lemma real_memmove_out [mem_simps]: "\<not> in_range a d n \<Longrightarrow> real_memmove m d s n a = m a"
  by (simp add: real_memmove_def)

lemma in_range_0 [simp]: "\<not> in_range a p 0"
  by (simp add: in_range_def)

lemma in_range_offset [simp]: "in_range (p + i) p n \<longleftrightarrow> i < n"
  by (simp add: in_range_def)

lemma in_rangeE:
  assumes "in_range a p n"
  obtains i where "i < n" and "a = p + i"
proof
  show "a - p < n" using assms by (simp add: in_range_def)
  show "a = p + (a - p)" by simp
qed

text \<open>A range is cut in two at any inner offset.\<close>

lemma in_range_split:
  assumes "k \<le> n"
  shows "in_range a p n \<longleftrightarrow> in_range a p k \<or> in_range a (p + k) (n - k)"
proof -
  have eq: "a - (p + k) = (a - p) - k" by simp
  show ?thesis
    unfolding in_range_def eq using assms by uint_arith
qed

lemma real_memset_split:
  assumes "k \<le> n"
  shows "real_memset (real_memset m p v k) (p + k) v (n - k) = real_memset m p v n"
  using in_range_split [OF assms] by (auto simp: real_memset_def fun_eq_iff)

lemma real_memset_commute:
  "real_memset (real_memset m p v k) q v n = real_memset (real_memset m q v n) p v k"
  by (auto simp: real_memset_def fun_eq_iff)

subsection \<open>Rounding to powers of two\<close>

lemma and_not_mask: "x AND NOT (mask k) = push_bit k (drop_bit k x)" for x :: "'a::len word"
  by (rule bit_eqI) (auto simp: bit_simps)

lemma unat_push_drop: "unat (push_bit k (drop_bit k x)) = unat x div 2 ^ k * 2 ^ k" for x :: "'a::len word"
proof -
  have "unat (push_bit k (drop_bit k x)) = take_bit LENGTH('a) (push_bit k (drop_bit k (unat x)))"
    by (simp add: unsigned_push_bit_eq unat_drop_bit_eq)
  also have "\<dots> = unat x div 2 ^ k * 2 ^ k mod 2 ^ LENGTH('a)"
    by (simp add: push_bit_eq_mult drop_bit_eq_div take_bit_eq_mod)
  also have "\<dots> = unat x div 2 ^ k * 2 ^ k"
  proof -
    have "unat x div 2 ^ k * 2 ^ k \<le> unat x" by simp
    then have "unat x div 2 ^ k * 2 ^ k < 2 ^ LENGTH('a)"
      using unsigned_less [of x] by (rule le_less_trans)
    then show ?thesis by simp
  qed
  finally show ?thesis .
qed

lemma RoundDownTo_exp: "RoundDownTo x (2 ^ k) = push_bit k (drop_bit k x)"
  by (simp add: RoundDownTo_def and_not_mask flip: mask_eq_exp_minus_1)

lemma unat_RoundDownTo: "unat (RoundDownTo x (2 ^ k)) = unat x div 2 ^ k * 2 ^ k"
  by (simp add: RoundDownTo_exp unat_push_drop)

lemma RoundUpTo_RoundDownTo: "RoundUpTo x b = RoundDownTo (x + b - 1) b"
  by (simp add: RoundUpTo_def RoundDownTo_def)

lemma unat_exp:
  assumes "k < 64"
  shows "unat (2 ^ k :: uptr) = 2 ^ k"
proof -
  have "unat (push_bit k 1 :: uptr) = take_bit 64 (push_bit k 1)"
    by (subst unsigned_push_bit_eq) simp
  also have "\<dots> = 2 ^ k mod 2 ^ 64" by (simp add: push_bit_eq_mult take_bit_eq_mod)
  also have "\<dots> = 2 ^ k"
    by (rule mod_less, rule power_strict_increasing) (use assms in auto)
  finally show ?thesis by (simp add: push_bit_eq_mult)
qed

lemma unat_RoundUpTo:
  assumes "k < 64" and "unat x + 2 ^ k \<le> 2 ^ 64"
  shows "unat (RoundUpTo x (2 ^ k)) = (unat x + 2 ^ k - 1) div 2 ^ k * 2 ^ k"
proof -
  have pk: "unat (2 ^ k :: uptr) = 2 ^ k" using assms(1) by (rule unat_exp)
  have m1: "unat (2 ^ k - 1 :: uptr) = 2 ^ k - 1"
    using pk by (simp add: mask_eq_exp_minus_1 unat_sub_if_size)
  have "unat (x + (2 ^ k - 1)) = unat x + (2 ^ k - 1)"
    using assms(2) by (subst unat_add_lem [THEN iffD1]) (auto simp: m1 )
  then have "unat (x + 2 ^ k - 1) = unat x + 2 ^ k - 1"
    by (simp add: add_diff_eq)
  then show ?thesis by (simp add: RoundUpTo_RoundDownTo unat_RoundDownTo)
qed

lemma RoundUpTo_bounds:
  assumes "k < 64" and "unat x + 2 ^ k \<le> 2 ^ 64"
  shows "x \<le> RoundUpTo x (2 ^ k)" and "unat (RoundUpTo x (2 ^ k)) < unat x + 2 ^ k"
proof -
  have *: "n \<le> (n + p - 1) div p * p \<and> (n + p - 1) div p * p < n + p" if "0 < p" for n p :: nat
  proof -
    have "(n + p - 1) div p * p + (n + p - 1) mod p = n + p - 1" by (rule div_mult_mod_eq)
    moreover have "(n + p - 1) mod p < p" using that by simp
    ultimately show ?thesis using that by linarith
  qed
  from * [of "2 ^ k" "unat x"]
  show "x \<le> RoundUpTo x (2 ^ k)" and "unat (RoundUpTo x (2 ^ k)) < unat x + 2 ^ k"
    by (simp_all add: unat_RoundUpTo [OF assms] word_le_nat_alt)
qed

lemma RoundDownTo_le: "RoundDownTo x (2 ^ k) \<le> x"
  by (simp add: word_le_nat_alt unat_RoundDownTo)

lemma low_bits_shift:
  fixes f :: "uptr \<Rightarrow> uptr"
  assumes "drop_bit k a = drop_bit k b" and "drop_bit k (f a) = drop_bit k (f b)"
    and "take_bit k (f a) = take_bit k a" and "take_bit k (f b) = take_bit k b"
  shows "f b = f a + (b - a)"
proof -
  have "a = push_bit k (drop_bit k a) + take_bit k a" by (simp add: bits_ident)
  moreover have "b = push_bit k (drop_bit k a) + take_bit k b" by (simp add: bits_ident assms(1))
  ultimately have "b - a = take_bit k b - take_bit k a"
    by (metis add_diff_cancel_left)
  moreover have "f a = push_bit k (drop_bit k (f a)) + take_bit k a"
      "f b = push_bit k (drop_bit k (f a)) + take_bit k b"
    using bits_ident [of k "f a"] bits_ident [of k "f b"] assms by simp_all
  ultimately show ?thesis by (metis (no_types, lifting) add.assoc add_diff_cancel_left' diff_add_cancel add_diff_eq)
qed

lemma IsPowerOfTwo_exp: "k < 64 \<Longrightarrow> IsPowerOfTwo (2 ^ k)"
  unfolding IsPowerOfTwo_def
  by (rule bit_eqI) (auto simp: bit_simps simp flip: mask_eq_exp_minus_1)

lemma IsPowerOfTwo_cases:
  assumes "IsPowerOfTwo b" "b \<noteq> 0"
  obtains k where "k < 64" "b = 2 ^ k"
proof -
  define k where "k = (LEAST n. bit b n)"
  have ex: "\<exists>n. bit b n" using assms(2) by (auto simp: bit_eq_iff)
  have k: "bit b k" unfolding k_def using ex by (rule LeastI_ex)
  have below: "\<not> bit b n" if "n < k" for n using that not_less_Least unfolding k_def by blast
  have k64: "k < 64" using k bit_imp_le_length by fastforce
  have "unset_bit k b + 2 ^ k = b"
    by (subst disjunctive_add) (auto simp: bit_simps k intro!: bit_eqI)
  then have "b - 1 = unset_bit k b + mask k"
    by (simp add: mask_eq_exp_minus_1 algebra_simps)
  also have "\<dots> = unset_bit k b OR mask k"
    by (rule disjunctive_add) (auto simp: bit_simps below)
  finally have b1: "b - 1 = unset_bit k b OR mask k" .
  have "\<not> bit b n" if "n \<noteq> k" for n
  proof
    assume "bit b n"
    with that have "bit (b AND (b - 1)) n" unfolding b1 by (auto simp: bit_simps)
    with assms(1) show False by (simp add: IsPowerOfTwo_def)
  qed
  then have "b = 2 ^ k" using k by (intro bit_eqI) (auto simp: bit_simps)
  with k64 that show ?thesis by blast
qed

lemma xor_cancel: "a XOR c = b XOR c \<longleftrightarrow> a = b" for a b c :: "'a::len word"
  by (auto simp: bit_eq_iff bit_simps)

subsection \<open>Bytes, words and zero\<close>

lemma unat64_less: "unat (x :: uptr) < 2 ^ 64"
  using unsigned_less [where 'a = nat and 'b = 64, of x] by simp

lemma push_ucast_eq_0:
  fixes b :: "'b::len word"
  assumes "k + LENGTH('b) \<le> LENGTH('a::len)"
  shows "push_bit k (ucast b :: 'a word) = 0 \<longleftrightarrow> b = 0"
proof
  assume z: "push_bit k (ucast b :: 'a word) = 0"
  show "b = 0"
  proof (rule bit_word_eqI)
    fix n assume n: "n < LENGTH('b)"
    have "\<not> bit (push_bit k (ucast b :: 'a word)) (k + n)" using z by simp
    with n assms show "bit b n = bit 0 n" by (simp add: bit_simps)
  qed
qed simp

lemma scast_eq_0_iff: "(scast (b :: 8 word) :: 64 word) = 0 \<longleftrightarrow> b = 0"
proof
  assume z: "(scast b :: 64 word) = 0"
  show "b = 0"
  proof (rule bit_word_eqI)
    fix n assume n: "n < LENGTH(8)"
    have "\<not> bit (scast b :: 64 word) n" using z by simp
    with n show "bit b n = bit 0 n" by (auto simp: bit_simps split: if_splits)
  qed
qed simp

lemma load32_eq_0_iff:
  "load32 m a = 0 \<longleftrightarrow> m a = 0 \<and> m (a + 1) = 0 \<and> m (a + 2) = 0 \<and> m (a + 3) = 0"
  unfolding load32_def or_eq_0_iff
  using push_ucast_eq_0 [where k = 0 and 'a = 32, of "m a"]
    push_ucast_eq_0 [where k = 8 and 'a = 32, of "m (a + 1)"]
    push_ucast_eq_0 [where k = 16 and 'a = 32, of "m (a + 2)"]
    push_ucast_eq_0 [where k = 24 and 'a = 32, of "m (a + 3)"] by simp

lemma load64_eq_0_iff: "load64 m a = 0 \<longleftrightarrow> load32 m a = 0 \<and> load32 m (a + 4) = 0"
  unfolding load64_def or_eq_0_iff
  using push_ucast_eq_0 [where k = 0 and 'a = 64, of "load32 m a"]
    push_ucast_eq_0 [where k = 32 and 'a = 64, of "load32 m (a + 4)"] by simp

lemma sint_uint_small:
  fixes x :: uptr
  assumes "uint x < 2 ^ 63"
  shows "sint x = uint x"
proof -
  have "sint x = signed_take_bit 63 (uint x)" by (simp add: sint_uint)
  also have "\<dots> = uint x"
    by (rule signed_take_bit_int_eq_self) (use assms in \<open>auto intro: order.trans [OF _ uint_ge_0]\<close>)
  finally show ?thesis .
qed

section \<open>Word accesses\<close>

lemma less_4_cases: "x < 4 \<longleftrightarrow> x = 0 \<or> x = 1 \<or> x = 2 \<or> x = 3" for x :: uptr
  by unat_arith

lemma load32_store32: "load32 (store32 m a v) a = v"
proof -
  have "load32 (store32 m a v) a = ucast (ucast v :: u8) OR push_bit 8 (ucast (ucast (drop_bit 8 v) :: u8)) OR
      push_bit 16 (ucast (ucast (drop_bit 16 v) :: u8)) OR push_bit 24 (ucast (ucast (drop_bit 24 v) :: u8))"
    by (simp add: load32_def store32_def)
  also have "\<dots> = v"
  proof (rule bit_word_eqI)
    fix n assume "n < LENGTH(32)"
    then show "bit (ucast (ucast v :: u8) OR push_bit 8 (ucast (ucast (drop_bit 8 v) :: u8)) OR
        push_bit 16 (ucast (ucast (drop_bit 16 v) :: u8)) OR
        push_bit 24 (ucast (ucast (drop_bit 24 v) :: u8)) :: u32) n = bit v n"
      by (cases "n < 8"; cases "n < 16"; cases "n < 24") (auto simp: bit_simps)
  qed
  finally show ?thesis .
qed

lemma store32_out: "\<not> in_range x a 4 \<Longrightarrow> store32 m a v x = m x"
proof -
  assume "\<not> in_range x a 4"
  then have "x \<noteq> a + i" if "i < 4" for i using that by auto
  from this [of 0] this [of 1] this [of 2] this [of 3] show ?thesis by (simp add: store32_def)
qed

lemma load32_cong: "(\<And>i. i < 4 \<Longrightarrow> m (a + i) = m' (a + i)) \<Longrightarrow> load32 m a = load32 m' a"
proof -
  assume *: "\<And>i. i < 4 \<Longrightarrow> m (a + i) = m' (a + i)"
  show ?thesis using * [of 0] * [of 1] * [of 2] * [of 3] by (simp add: load32_def)
qed

lemma store64_out: "\<not> in_range x a 8 \<Longrightarrow> store64 m a v x = m x"
  using in_range_split [of 4 8 x a] by (simp add: store64_def store32_out)

lemma load64_cong: "(\<And>i. i < 8 \<Longrightarrow> m (a + i) = m' (a + i)) \<Longrightarrow> load64 m a = load64 m' a"
proof -
  assume *: "\<And>i. i < 8 \<Longrightarrow> m (a + i) = m' (a + i)"
  have "load32 m a = load32 m' a" by (rule load32_cong, rule *, erule less_trans) simp
  moreover have "load32 m (a + 4) = load32 m' (a + 4)"
  proof (rule load32_cong)
    fix i :: uptr assume "i < 4"
    then have "4 + i < 8" by unat_arith
    from * [OF this] show "m (a + 4 + i) = m' (a + 4 + i)" by (simp add: add.assoc)
  qed
  ultimately show ?thesis by (simp add: load64_def)
qed

lemma load64_store64: "load64 (store64 m a v) a = v"
proof -
  let ?lo = "ucast v :: u32" and ?hi = "ucast (drop_bit 32 v) :: u32"
  have "load32 (store64 m a v) a = load32 (store32 m a ?lo) a"
  proof (rule load32_cong)
    fix i :: uptr assume i: "i < 4"
    have "\<not> in_range (a + i) (a + 4) 4"
    proof -
      have "a + i - (a + 4) = i - 4" by simp
      moreover have "\<not> i - 4 < 4" using i by (auto simp: less_4_cases)
      ultimately show ?thesis unfolding in_range_def by simp
    qed
    then show "store64 m a v (a + i) = store32 m a ?lo (a + i)" by (simp add: store64_def store32_out)
  qed
  then have lo: "load32 (store64 m a v) a = ?lo" by (simp add: load32_store32)
  have hi: "load32 (store64 m a v) (a + 4) = ?hi" by (simp add: store64_def load32_store32)
  show ?thesis
    unfolding load64_def lo hi
  proof (rule bit_word_eqI)
    fix n assume "n < LENGTH(64)"
    then show "bit (ucast ?lo OR push_bit 32 (ucast ?hi) :: u64) n = bit v n"
      by (cases "n < 32") (auto simp: bit_simps)
  qed
qed

lemma load64_store64_other:
  assumes "\<And>i. i < 8 \<Longrightarrow> \<not> in_range (b + i) a 8"
  shows "load64 (store64 m a v) b = load64 m b"
  by (rule load64_cong) (simp add: assms store64_out)

end
