(* ===== verification/Layout.thy ===== *)
theory Layout
  imports Prelude
begin

text \<open>
  The address space layout of \<^verbatim>\<open>cqmsan.h\<close>: the table \<^verbatim>\<open>kMemoryLayout\<close> and the macros
  \<^verbatim>\<open>MEM_TO_SHADOW\<close> and \<^verbatim>\<open>SHADOW_TO_ORIGIN\<close> of every supported platform, the
  classification of addresses, and the start-up check \<^verbatim>\<open>CheckMemoryLayoutSanity\<close> of
  \<^verbatim>\<open>cqmsan_linux.cpp\<close>. The check probes three addresses of each region; the lemmas here
  show its conclusions for every application address.
\<close>

section \<open>The table\<close>

datatype MappingType = INVALID | ALLOCATOR | APP | SHADOW | ORIGIN

fun type_code :: "MappingType \<Rightarrow> u32" where
  "type_code INVALID = 1"
| "type_code ALLOCATOR = 2"
| "type_code APP = 4"
| "type_code SHADOW = 8"
| "type_code ORIGIN = 16"

record MappingDesc =
  start :: uptr
  endp :: uptr
  mtype :: MappingType
  mname :: string

abbreviation desc :: "uptr \<Rightarrow> uptr \<Rightarrow> MappingType \<Rightarrow> string \<Rightarrow> MappingDesc" where
  "desc s e t n \<equiv> \<lparr>start = s, endp = e, mtype = t, mname = n\<rparr>"

record platform =
  kMemoryLayout :: "MappingDesc list"
  MEM_TO_SHADOW :: "uptr \<Rightarrow> uptr"
  SHADOW_TO_ORIGIN :: "uptr \<Rightarrow> uptr"

definition linux_mips64 :: platform where
  "linux_mips64 = \<lparr>kMemoryLayout =
    [desc 0x000000000000 0x000200000000 APP ''app-1'',
     desc 0x000200000000 0x002200000000 INVALID ''invalid'',
     desc 0x002200000000 0x004000000000 SHADOW ''shadow-2'',
     desc 0x004000000000 0x004200000000 INVALID ''invalid'',
     desc 0x004200000000 0x006000000000 ORIGIN ''origin-2'',
     desc 0x006000000000 0x006200000000 INVALID ''invalid'',
     desc 0x006200000000 0x008000000000 SHADOW ''shadow-3'',
     desc 0x008000000000 0x008200000000 SHADOW ''shadow-1'',
     desc 0x008200000000 0x00a000000000 ORIGIN ''origin-3'',
     desc 0x00a000000000 0x00a200000000 ORIGIN ''origin-1'',
     desc 0x00a200000000 0x00c000000000 APP ''app-2'',
     desc 0x00c000000000 0x00e200000000 INVALID ''invalid'',
     desc 0x00e200000000 0x00ffffffffff APP ''app-3''],
    MEM_TO_SHADOW = (\<lambda>mem. mem XOR 0x8000000000),
    SHADOW_TO_ORIGIN = (\<lambda>shadow. shadow + 0x2000000000)\<rparr>"

definition linux_aarch64 :: platform where
  "linux_aarch64 = \<lparr>kMemoryLayout =
    [desc 0x0000000000000 0x0100000000000 APP ''app-10-13'',
     desc 0x0100000000000 0x0200000000000 SHADOW ''shadow-14'',
     desc 0x0200000000000 0x0300000000000 INVALID ''invalid'',
     desc 0x0300000000000 0x0400000000000 ORIGIN ''origin-14'',
     desc 0x0400000000000 0x0600000000000 SHADOW ''shadow-15'',
     desc 0x0600000000000 0x0800000000000 ORIGIN ''origin-15'',
     desc 0x0800000000000 0x0A00000000000 INVALID ''invalid'',
     desc 0x0A00000000000 0x0B00000000000 APP ''app-14'',
     desc 0x0B00000000000 0x0C00000000000 SHADOW ''shadow-10-13'',
     desc 0x0C00000000000 0x0D00000000000 INVALID ''invalid'',
     desc 0x0D00000000000 0x0E00000000000 ORIGIN ''origin-10-13'',
     desc 0x0E00000000000 0x0E40000000000 ALLOCATOR ''allocator'',
     desc 0x0E40000000000 0x1000000000000 APP ''app-15''],
    MEM_TO_SHADOW = (\<lambda>mem. mem XOR 0xB00000000000),
    SHADOW_TO_ORIGIN = (\<lambda>shadow. shadow + 0x200000000000)\<rparr>"

definition linux_loongarch64 :: platform where
  "linux_loongarch64 = \<lparr>kMemoryLayout =
    [desc 0x000000000000 0x010000000000 APP ''app-1'',
     desc 0x010000000000 0x100000000000 SHADOW ''shadow-2'',
     desc 0x100000000000 0x110000000000 INVALID ''invalid'',
     desc 0x110000000000 0x200000000000 ORIGIN ''origin-2'',
     desc 0x200000000000 0x300000000000 SHADOW ''shadow-3'',
     desc 0x300000000000 0x400000000000 ORIGIN ''origin-3'',
     desc 0x400000000000 0x500000000000 INVALID ''invalid'',
     desc 0x500000000000 0x510000000000 SHADOW ''shadow-1'',
     desc 0x510000000000 0x600000000000 APP ''app-2'',
     desc 0x600000000000 0x610000000000 ORIGIN ''origin-1'',
     desc 0x610000000000 0x700000000000 INVALID ''invalid'',
     desc 0x700000000000 0x740000000000 ALLOCATOR ''allocator'',
     desc 0x740000000000 0x800000000000 APP ''app-3''],
    MEM_TO_SHADOW = (\<lambda>mem. mem XOR 0x500000000000),
    SHADOW_TO_ORIGIN = (\<lambda>shadow. shadow + 0x100000000000)\<rparr>"

definition linux_ppc64 :: platform where
  "linux_ppc64 = \<lparr>kMemoryLayout =
    [desc 0x000000000000 0x000200000000 APP ''low memory'',
     desc 0x000200000000 0x080000000000 INVALID ''invalid'',
     desc 0x080000000000 0x180200000000 SHADOW ''shadow'',
     desc 0x180200000000 0x1C0000000000 INVALID ''invalid'',
     desc 0x1C0000000000 0x2C0200000000 ORIGIN ''origin'',
     desc 0x2C0200000000 0x300000000000 INVALID ''invalid'',
     desc 0x300000000000 0x320000000000 ALLOCATOR ''allocator'',
     desc 0x320000000000 0x800000000000 APP ''high memory''],
    MEM_TO_SHADOW =
      (\<lambda>mem. ((mem AND NOT 0xE00000000000) XOR 0x100000000000) + 0x080000000000),
    SHADOW_TO_ORIGIN = (\<lambda>shadow. shadow + 0x140000000000)\<rparr>"

definition linux_s390_64 :: platform where
  "linux_s390_64 = \<lparr>kMemoryLayout =
    [desc 0x000000000000 0x040000000000 APP ''low memory'',
     desc 0x040000000000 0x080000000000 INVALID ''invalid'',
     desc 0x080000000000 0x180000000000 SHADOW ''shadow'',
     desc 0x180000000000 0x1C0000000000 INVALID ''invalid'',
     desc 0x1C0000000000 0x2C0000000000 ORIGIN ''origin'',
     desc 0x2C0000000000 0x440000000000 INVALID ''invalid'',
     desc 0x440000000000 0x460000000000 ALLOCATOR ''allocator'',
     desc 0x460000000000 0x500000000000 APP ''high memory''],
    MEM_TO_SHADOW = (\<lambda>mem. (mem AND NOT 0xC00000000000) + 0x080000000000),
    SHADOW_TO_ORIGIN = (\<lambda>shadow. shadow + 0x140000000000)\<rparr>"

definition freebsd_aarch64 :: platform where
  "freebsd_aarch64 = \<lparr>kMemoryLayout =
    [desc 0x000000000000 0x020000000000 APP ''low memory'',
     desc 0x020000000000 0x200000000000 INVALID ''invalid'',
     desc 0x200000000000 0x620000000000 SHADOW ''shadow'',
     desc 0x620000000000 0x700000000000 INVALID ''invalid'',
     desc 0x700000000000 0xb20000000000 ORIGIN ''origin'',
     desc 0xb20000000000 0xc00000000000 INVALID ''invalid'',
     desc 0xc00000000000 0x1000000000000 APP ''high memory''],
    MEM_TO_SHADOW =
      (\<lambda>mem. ((mem AND NOT 0x1800000000000) XOR 0x400000000000) + 0x200000000000),
    SHADOW_TO_ORIGIN = (\<lambda>shadow. shadow + 0x500000000000)\<rparr>"

definition freebsd_64 :: platform where
  "freebsd_64 = \<lparr>kMemoryLayout =
    [desc 0x000000000000 0x010000000000 APP ''low memory'',
     desc 0x010000000000 0x100000000000 INVALID ''invalid'',
     desc 0x100000000000 0x310000000000 SHADOW ''shadow'',
     desc 0x310000000000 0x380000000000 INVALID ''invalid'',
     desc 0x380000000000 0x590000000000 ORIGIN ''origin'',
     desc 0x590000000000 0x600000000000 INVALID ''invalid'',
     desc 0x600000000000 0x800000000000 APP ''high memory''],
    MEM_TO_SHADOW =
      (\<lambda>mem. ((mem AND NOT 0xc00000000000) XOR 0x200000000000) + 0x100000000000),
    SHADOW_TO_ORIGIN = (\<lambda>shadow. shadow + 0x280000000000)\<rparr>"

definition linux_64 :: platform where
  "linux_64 = \<lparr>kMemoryLayout =
    [desc 0x000000000000 0x010000000000 APP ''app-1'',
     desc 0x010000000000 0x100000000000 SHADOW ''shadow-2'',
     desc 0x100000000000 0x110000000000 INVALID ''invalid'',
     desc 0x110000000000 0x200000000000 ORIGIN ''origin-2'',
     desc 0x200000000000 0x300000000000 SHADOW ''shadow-3'',
     desc 0x300000000000 0x400000000000 ORIGIN ''origin-3'',
     desc 0x400000000000 0x500000000000 INVALID ''invalid'',
     desc 0x500000000000 0x510000000000 SHADOW ''shadow-1'',
     desc 0x510000000000 0x600000000000 APP ''app-2'',
     desc 0x600000000000 0x610000000000 ORIGIN ''origin-1'',
     desc 0x610000000000 0x700000000000 INVALID ''invalid'',
     desc 0x700000000000 0x740000000000 ALLOCATOR ''allocator'',
     desc 0x740000000000 0x800000000000 APP ''app-3''],
    MEM_TO_SHADOW = (\<lambda>mem. mem XOR 0x500000000000),
    SHADOW_TO_ORIGIN = (\<lambda>mem. mem + 0x100000000000)\<rparr>"

text \<open>The branches of the \<^verbatim>\<open>#if\<close> chain, in its order.\<close>

definition platforms :: "platform list" where
  "platforms = [linux_mips64, linux_aarch64, linux_loongarch64, linux_ppc64, linux_s390_64,
     freebsd_aarch64, freebsd_64, linux_64]"

lemmas platform_defs = linux_mips64_def linux_aarch64_def linux_loongarch64_def linux_ppc64_def
  linux_s390_64_def freebsd_aarch64_def freebsd_64_def linux_64_def

section \<open>Classification of addresses\<close>

definition MEM_TO_ORIGIN :: "platform \<Rightarrow> uptr \<Rightarrow> uptr" where
  "MEM_TO_ORIGIN p mem = SHADOW_TO_ORIGIN p (MEM_TO_SHADOW p mem)"

fun scan_layout :: "MappingDesc list \<Rightarrow> uptr \<Rightarrow> u32 \<Rightarrow> bool" where
  "scan_layout [] addr mapping_types = False"
| "scan_layout (d # ds) addr mapping_types =
     (if type_code (mtype d) AND mapping_types \<noteq> 0 \<and> start d \<le> addr \<and> addr < endp d
      then True else scan_layout ds addr mapping_types)"

definition addr_is_type :: "platform \<Rightarrow> uptr \<Rightarrow> u32 \<Rightarrow> bool" where
  "addr_is_type p addr mapping_types = scan_layout (kMemoryLayout p) addr mapping_types"

definition MEM_IS_APP :: "platform \<Rightarrow> uptr \<Rightarrow> bool" where
  "MEM_IS_APP p mem = addr_is_type p mem (type_code APP OR type_code ALLOCATOR)"

definition MEM_IS_SHADOW :: "platform \<Rightarrow> uptr \<Rightarrow> bool" where
  "MEM_IS_SHADOW p mem = addr_is_type p mem (type_code SHADOW)"

definition MEM_IS_ORIGIN :: "platform \<Rightarrow> uptr \<Rightarrow> bool" where
  "MEM_IS_ORIGIN p mem = addr_is_type p mem (type_code ORIGIN)"

section \<open>The start-up check\<close>

definition check_app_addr :: "platform \<Rightarrow> uptr \<Rightarrow> bool" where
  "check_app_addr p addr \<longleftrightarrow>
     MEM_IS_SHADOW p (MEM_TO_SHADOW p addr) \<and> MEM_IS_ORIGIN p (MEM_TO_ORIGIN p addr) \<and>
     MEM_TO_ORIGIN p addr = SHADOW_TO_ORIGIN p (MEM_TO_SHADOW p addr)"

fun check_regions :: "platform \<Rightarrow> uptr \<Rightarrow> MappingDesc list \<Rightarrow> unit outcome" where
  "check_regions p prev_end [] = Ok ()"
| "check_regions p prev_end (d # ds) =
     check (start d < endp d)
    (check (prev_end = start d)
    (check (addr_is_type p (start d) (type_code (mtype d)))
    (check (addr_is_type p ((start d + endp d) div 2) (type_code (mtype d)))
    (check (addr_is_type p (endp d - 1) (type_code (mtype d)))
    (if mtype d = APP \<or> mtype d = ALLOCATOR then
       check (check_app_addr p (start d))
      (check (check_app_addr p ((start d + endp d) div 2))
      (check (check_app_addr p (endp d - 1))
      (check_regions p (endp d) ds)))
     else check_regions p (endp d) ds)))))"

definition CheckMemoryLayoutSanity :: "platform \<Rightarrow> unit outcome" where
  "CheckMemoryLayoutSanity p = check_regions p 0 (kMemoryLayout p)"

section \<open>Every application address has a shadow and an origin\<close>

text \<open>
  The address mappings change only high bits (and add a constant), so they are translations
  on every aligned block of \<open>2 ^ k\<close> bytes. A finite list of blocks that covers the
  application addresses, each checked at its first byte, then speaks for all of them.
\<close>

definition linear_blocks :: "nat \<Rightarrow> (uptr \<Rightarrow> uptr) \<Rightarrow> bool" where
  "linear_blocks k f \<longleftrightarrow> (\<forall>a b. drop_bit k a = drop_bit k b \<longrightarrow> f b = f a + (b - a))"

definition fits :: "MappingDesc list \<Rightarrow> MappingType \<Rightarrow> uptr \<Rightarrow> uptr \<Rightarrow> bool" where
  "fits ds t x n \<longleftrightarrow>
     list_ex (\<lambda>d. mtype d = t \<and> start d \<le> x \<and> x \<le> endp d \<and> n \<le> endp d - x) ds"

definition block_maps :: "platform \<Rightarrow> nat \<Rightarrow> uptr \<times> uptr \<Rightarrow> bool" where
  "block_maps p k = (\<lambda>(lo, hi). lo < hi \<and> drop_bit k lo = drop_bit k (hi - 1) \<and>
     fits (kMemoryLayout p) SHADOW (MEM_TO_SHADOW p lo) (hi - lo) \<and>
     fits (kMemoryLayout p) ORIGIN (MEM_TO_ORIGIN p lo) (hi - lo))"

definition in_blocks :: "(uptr \<times> uptr) list \<Rightarrow> uptr \<Rightarrow> bool" where
  "in_blocks bs a \<longleftrightarrow> list_ex (\<lambda>(lo, hi). lo \<le> a \<and> a < hi) bs"

lemma scan_layout_ex:
  "scan_layout ds a t \<longleftrightarrow>
     list_ex (\<lambda>d. type_code (mtype d) AND t \<noteq> 0 \<and> start d \<le> a \<and> a < endp d) ds"
  by (induction ds) auto

lemma fits_scan:
  assumes "fits ds t x n" and "i < n" and "type_code t AND c \<noteq> 0"
  shows "scan_layout ds (x + i) c"
proof -
  have *: "s \<le> x + i \<and> x + i < e" if "s \<le> x" "x \<le> e" "n \<le> e - x" for s e
    using that assms(2) by uint_arith
  show ?thesis using assms(1,3) * unfolding fits_def scan_layout_ex list_ex_iff by fast
qed

lemma drop_bit_between:
  fixes a lo hi :: uptr
  assumes "lo \<le> a" and "a < hi" and "drop_bit k lo = drop_bit k (hi - 1)"
  shows "drop_bit k lo = drop_bit k a"
proof -
  have "a \<le> hi - 1" using assms(2) by uint_arith
  then have "unat a div 2 ^ k \<le> unat (hi - 1) div 2 ^ k" "unat lo div 2 ^ k \<le> unat a div 2 ^ k"
    using assms(1) by (auto simp: word_le_nat_alt intro: div_le_mono)
  moreover have "unat lo div 2 ^ k = unat (hi - 1) div 2 ^ k"
    using arg_cong [OF assms(3), of unat] unfolding unat_drop_bit_eq by (simp add: drop_bit_eq_div)
  ultimately have "unat (drop_bit k lo) = unat (drop_bit k a)"
    unfolding unat_drop_bit_eq by (simp add: drop_bit_eq_div)
  then show ?thesis by (rule word_unat_eq_iff [THEN iffD2])
qed

lemma block_maps_sound:
  assumes "block_maps p k (lo, hi)" and "lo \<le> a" and "a < hi"
    and "linear_blocks k (MEM_TO_SHADOW p)" and "\<And>s. SHADOW_TO_ORIGIN p s = s + c"
  shows "MEM_IS_SHADOW p (MEM_TO_SHADOW p a) \<and> MEM_IS_ORIGIN p (MEM_TO_ORIGIN p a)"
proof -
  have same: "drop_bit k lo = drop_bit k a"
    using assms(1-3) drop_bit_between by (auto simp: block_maps_def)
  have off: "a - lo < hi - lo" using assms(2,3) by uint_arith
  have lin: "MEM_TO_SHADOW p a = MEM_TO_SHADOW p lo + (a - lo)"
    using assms(4) same unfolding linear_blocks_def by blast
  then have "MEM_TO_ORIGIN p a = MEM_TO_ORIGIN p lo + (a - lo)"
    by (simp add: MEM_TO_ORIGIN_def assms(5))
  with lin show ?thesis
    using assms(1) off fits_scan
    by (auto simp: block_maps_def MEM_IS_SHADOW_def MEM_IS_ORIGIN_def addr_is_type_def)
qed

lemma linear_xor: "take_bit k c = 0 \<Longrightarrow> linear_blocks k (\<lambda>a. a XOR c)"
  unfolding linear_blocks_def by (auto intro!: low_bits_shift simp: drop_bit_xor take_bit_xor)

lemma linear_and:
  assumes "take_bit k (NOT m) = 0"
  shows "linear_blocks k (\<lambda>a. a AND m)"
proof -
  have "take_bit k (a AND m) = take_bit k a" for a
    using assms by (auto simp: bit_eq_iff bit_simps)
  then show ?thesis
    unfolding linear_blocks_def by (auto intro!: low_bits_shift simp: drop_bit_and)
qed

lemma linear_and_xor:
  assumes "take_bit k (NOT m) = 0" and "take_bit k c = 0"
  shows "linear_blocks k (\<lambda>a. (a AND m) XOR c)"
proof -
  have "take_bit k ((a AND m) XOR c) = take_bit k a" for a
    using assms by (auto simp: bit_eq_iff bit_simps)
  then show ?thesis
    unfolding linear_blocks_def by (auto intro!: low_bits_shift simp: drop_bit_and drop_bit_xor)
qed

lemma linear_add: "linear_blocks k f \<Longrightarrow> linear_blocks k (\<lambda>a. f a + c)"
  unfolding linear_blocks_def by (metis (no_types, opaque_lifting) add.assoc add.commute)

text \<open>
  A platform is \<^emph>\<open>block-mapped\<close> by a bit count and a list of blocks when the blocks cover
  its application addresses and each maps into one shadow and one origin region.
\<close>

definition block_mapped :: "platform \<Rightarrow> nat \<Rightarrow> (uptr \<times> uptr) list \<Rightarrow> bool" where
  "block_mapped p k bs \<longleftrightarrow> linear_blocks k (MEM_TO_SHADOW p) \<and>
     (\<exists>c. \<forall>s. SHADOW_TO_ORIGIN p s = s + c) \<and> list_all (block_maps p k) bs \<and>
     (\<forall>a. MEM_IS_APP p a \<longrightarrow> in_blocks bs a)"

lemma block_mapped_sound:
  assumes "block_mapped p k bs" and "MEM_IS_APP p a"
  shows "MEM_IS_SHADOW p (MEM_TO_SHADOW p a) \<and> MEM_IS_ORIGIN p (MEM_TO_ORIGIN p a)"
proof -
  obtain lo hi where "(lo, hi) \<in> set bs" "lo \<le> a" "a < hi"
    using assms by (auto simp: block_mapped_def in_blocks_def list_ex_iff)
  then show ?thesis
    using assms(1) block_maps_sound unfolding block_mapped_def list_all_iff by metis
qed

lemmas layout_eval = MEM_IS_APP_def MEM_IS_SHADOW_def MEM_IS_ORIGIN_def MEM_TO_ORIGIN_def
  addr_is_type_def
lemmas block_eval = block_mapped_def block_maps_def fits_def in_blocks_def

lemmas linux_mips64_sel =
  linux_mips64_def [THEN arg_cong, of kMemoryLayout, simplified]
  linux_mips64_def [THEN arg_cong, of MEM_TO_SHADOW, simplified]
  linux_mips64_def [THEN arg_cong, of SHADOW_TO_ORIGIN, simplified]

lemma linux_mips64_mapped: "block_mapped linux_mips64 39
  [(0, 0x000200000000), (0xa200000000, 0xc000000000), (0xe200000000, 0xffffffffff)]"
  by (auto simp: linux_mips64_sel layout_eval block_eval intro!: linear_add linear_xor)

lemmas linux_aarch64_sel =
  linux_aarch64_def [THEN arg_cong, of kMemoryLayout, simplified]
  linux_aarch64_def [THEN arg_cong, of MEM_TO_SHADOW, simplified]
  linux_aarch64_def [THEN arg_cong, of SHADOW_TO_ORIGIN, simplified]

lemma linux_aarch64_mapped: "block_mapped linux_aarch64 44
  [(0, 0x0100000000000), (0x0A00000000000, 0x0B00000000000), (0x0E00000000000, 0x0E40000000000),
   (0x0E40000000000, 0x0F00000000000), (0x0F00000000000, 0x1000000000000)]"
  by (auto simp: linux_aarch64_sel layout_eval block_eval intro!: linear_add linear_xor)

lemmas linux_loongarch64_sel =
  linux_loongarch64_def [THEN arg_cong, of kMemoryLayout, simplified]
  linux_loongarch64_def [THEN arg_cong, of MEM_TO_SHADOW, simplified]
  linux_loongarch64_def [THEN arg_cong, of SHADOW_TO_ORIGIN, simplified]

lemma linux_loongarch64_mapped: "block_mapped linux_loongarch64 44
  [(0, 0x010000000000), (0x510000000000, 0x600000000000), (0x700000000000, 0x740000000000),
   (0x740000000000, 0x800000000000)]"
  by (auto simp: linux_loongarch64_sel layout_eval block_eval intro!: linear_add linear_xor)

lemmas linux_s390_64_sel =
  linux_s390_64_def [THEN arg_cong, of kMemoryLayout, simplified]
  linux_s390_64_def [THEN arg_cong, of MEM_TO_SHADOW, simplified]
  linux_s390_64_def [THEN arg_cong, of SHADOW_TO_ORIGIN, simplified]

lemma linux_s390_64_mapped: "block_mapped linux_s390_64 46
  [(0, 0x040000000000), (0x440000000000, 0x460000000000), (0x460000000000, 0x500000000000)]"
  by (auto simp: linux_s390_64_sel layout_eval block_eval intro!: linear_add linear_and)

lemmas freebsd_aarch64_sel =
  freebsd_aarch64_def [THEN arg_cong, of kMemoryLayout, simplified]
  freebsd_aarch64_def [THEN arg_cong, of MEM_TO_SHADOW, simplified]
  freebsd_aarch64_def [THEN arg_cong, of SHADOW_TO_ORIGIN, simplified]

lemma freebsd_aarch64_mapped: "block_mapped freebsd_aarch64 46
  [(0, 0x020000000000), (0xc00000000000, 0x1000000000000)]"
  by (auto simp: freebsd_aarch64_sel layout_eval block_eval intro!: linear_add linear_and_xor)

lemmas freebsd_64_sel =
  freebsd_64_def [THEN arg_cong, of kMemoryLayout, simplified]
  freebsd_64_def [THEN arg_cong, of MEM_TO_SHADOW, simplified]
  freebsd_64_def [THEN arg_cong, of SHADOW_TO_ORIGIN, simplified]

lemma freebsd_64_mapped: "block_mapped freebsd_64 45
  [(0, 0x010000000000), (0x600000000000, 0x800000000000)]"
  by (auto simp: freebsd_64_sel layout_eval block_eval intro!: linear_add linear_and_xor)

lemmas linux_64_sel =
  linux_64_def [THEN arg_cong, of kMemoryLayout, simplified]
  linux_64_def [THEN arg_cong, of MEM_TO_SHADOW, simplified]
  linux_64_def [THEN arg_cong, of SHADOW_TO_ORIGIN, simplified]

lemma linux_64_mapped: "block_mapped linux_64 44
  [(0, 0x010000000000), (0x510000000000, 0x600000000000), (0x700000000000, 0x740000000000),
   (0x740000000000, 0x800000000000)]"
  by (auto simp: linux_64_sel layout_eval block_eval intro!: linear_add linear_xor)

lemma linux_mips64_sane: "CheckMemoryLayoutSanity linux_mips64 = Ok ()"
  by code_simp

lemma linux_aarch64_sane: "CheckMemoryLayoutSanity linux_aarch64 = Ok ()"
  by code_simp

lemma linux_loongarch64_sane: "CheckMemoryLayoutSanity linux_loongarch64 = Ok ()"
  by code_simp

lemma linux_s390_64_sane: "CheckMemoryLayoutSanity linux_s390_64 = Ok ()"
  by code_simp

lemma freebsd_aarch64_sane: "CheckMemoryLayoutSanity freebsd_aarch64 = Ok ()"
  by code_simp

lemma freebsd_64_sane: "CheckMemoryLayoutSanity freebsd_64 = Ok ()"
  by code_simp

lemma linux_64_sane: "CheckMemoryLayoutSanity linux_64 = Ok ()"
  by code_simp

lemmas linux_ppc64_sel =
  linux_ppc64_def [THEN arg_cong, of kMemoryLayout, simplified]
  linux_ppc64_def [THEN arg_cong, of MEM_TO_SHADOW, simplified]
  linux_ppc64_def [THEN arg_cong, of SHADOW_TO_ORIGIN, simplified]

lemma linux_ppc64_sane: "CheckMemoryLayoutSanity linux_ppc64 = Ok ()"
  by code_simp

section \<open>Regions are disjoint\<close>

lemma check_regions_after:
  "check_regions p e ds = Ok () \<Longrightarrow> d \<in> set ds \<Longrightarrow> e \<le> start d \<and> start d < endp d"
proof (induction ds arbitrary: e)
  case (Cons d' ds)
  then have "start d' < endp d'" "e = start d'" "check_regions p (endp d') ds = Ok ()"
    by (auto simp: outcome_simps split: if_splits)
  with Cons show ?case by (force simp del: check_regions.simps)
qed simp

lemma check_regions_unique:
  assumes "check_regions p e ds = Ok ()" and "d \<in> set ds" and "d' \<in> set ds"
    and "start d \<le> a" "a < endp d" and "start d' \<le> a" "a < endp d'"
  shows "d = d'"
  using assms
proof (induction ds arbitrary: e)
  case (Cons x xs)
  then have tail: "check_regions p (endp x) xs = Ok ()"
    by (auto simp: outcome_simps split: if_splits)
  note after = check_regions_after [OF tail]
  show ?case
    using Cons.prems(2-) Cons.IH [OF tail] after
    by (metis leD order.trans set_ConsD)
qed simp

lemma addr_is_type_ex:
  "addr_is_type p a t \<longleftrightarrow>
     (\<exists>d \<in> set (kMemoryLayout p). type_code (mtype d) AND t \<noteq> 0 \<and> start d \<le> a \<and> a < endp d)"
  by (simp add: addr_is_type_def scan_layout_ex list_ex_iff)

lemma MEM_IS_APP_ex: "MEM_IS_APP p a \<longleftrightarrow> (\<exists>d \<in> set (kMemoryLayout p).
    (mtype d = APP \<or> mtype d = ALLOCATOR) \<and> start d \<le> a \<and> a < endp d)"
proof -
  have "type_code t AND (type_code APP OR type_code ALLOCATOR) \<noteq> 0 \<longleftrightarrow> t = APP \<or> t = ALLOCATOR" for t
    by (cases t) simp_all
  then show ?thesis unfolding MEM_IS_APP_def addr_is_type_ex by auto
qed

lemma MEM_IS_SHADOW_ex: "MEM_IS_SHADOW p a \<longleftrightarrow> (\<exists>d \<in> set (kMemoryLayout p).
    mtype d = SHADOW \<and> start d \<le> a \<and> a < endp d)"
proof -
  have "type_code t AND type_code SHADOW \<noteq> 0 \<longleftrightarrow> t = SHADOW" for t
    by (cases t) simp_all
  then show ?thesis unfolding MEM_IS_SHADOW_def addr_is_type_ex by auto
qed

lemma MEM_IS_ORIGIN_ex: "MEM_IS_ORIGIN p a \<longleftrightarrow> (\<exists>d \<in> set (kMemoryLayout p).
    mtype d = ORIGIN \<and> start d \<le> a \<and> a < endp d)"
proof -
  have "type_code t AND type_code ORIGIN \<noteq> 0 \<longleftrightarrow> t = ORIGIN" for t
    by (cases t) simp_all
  then show ?thesis unfolding MEM_IS_ORIGIN_def addr_is_type_ex by auto
qed

lemmas mem_is_ex = MEM_IS_APP_ex MEM_IS_SHADOW_ex MEM_IS_ORIGIN_ex

lemma sane_disjoint:
  assumes "CheckMemoryLayoutSanity p = Ok ()"
  shows "\<not> (MEM_IS_APP p a \<and> MEM_IS_SHADOW p a)"
    and "\<not> (MEM_IS_APP p a \<and> MEM_IS_ORIGIN p a)"
    and "\<not> (MEM_IS_SHADOW p a \<and> MEM_IS_ORIGIN p a)"
proof -
  note u = check_regions_unique [OF assms [unfolded CheckMemoryLayoutSanity_def], of _ _ a]
  show "\<not> (MEM_IS_APP p a \<and> MEM_IS_SHADOW p a)" unfolding mem_is_ex using u by fastforce
  show "\<not> (MEM_IS_APP p a \<and> MEM_IS_ORIGIN p a)" unfolding mem_is_ex using u by fastforce
  show "\<not> (MEM_IS_SHADOW p a \<and> MEM_IS_ORIGIN p a)" unfolding mem_is_ex using u by fastforce
qed

section \<open>The mapping as an interface\<close>

definition in_block :: "nat \<Rightarrow> uptr \<Rightarrow> uptr \<Rightarrow> bool" where
  "in_block k a n \<longleftrightarrow> unat (take_bit k a) + unat n \<le> 2 ^ k"

lemma in_block_offset:
  assumes "in_block k a n" and "i < n" and "k \<le> 64"
  shows "drop_bit k a = drop_bit k (a + i)"
proof -
  let ?q = "unat a div 2 ^ k" and ?r = "unat a mod 2 ^ k"
  have r: "unat (take_bit k a) = ?r" unfolding unsigned_take_bit_eq by (simp add: take_bit_eq_mod)
  have ri: "?r + unat i < 2 ^ k"
    using assms(1,2) by (simp add: in_block_def r word_less_nat_alt)
  have a: "unat a = ?q * 2 ^ k + ?r" by (rule div_mult_mod_eq [symmetric])
  have "unat a < 2 ^ k * 2 ^ (64 - k)"
    using assms(3) unsigned_less [of a] by (simp flip: power_add)
  then have "?q < 2 ^ (64 - k)"
    by (simp add: less_mult_imp_div_less mult.commute)
  then have "Suc ?q * 2 ^ k \<le> 2 ^ (64 - k) * 2 ^ k"
    by (intro mult_le_mono1) simp
  also have "\<dots> = 2 ^ 64" using assms(3) by (simp flip: power_add)
  finally have "unat a + unat i < 2 ^ 64" using a ri unfolding mult_Suc by linarith
  then have "unat (a + i) = unat a + unat i"
    by (subst unat_add_lem [THEN iffD1]) simp_all
  then have "unat (a + i) = ?q * 2 ^ k + (?r + unat i)" using a by linarith
  then have "unat (a + i) div 2 ^ k = ?q" using ri by simp
  then show ?thesis
    by (metis drop_bit_eq_div unat_drop_bit_eq word_unat_eq_iff)
qed

locale shadow_map =
  fixes p :: platform and k :: nat
  assumes k_le: "k \<le> 48"
    and linear: "linear_blocks k (MEM_TO_SHADOW p)"
    and sane: "CheckMemoryLayoutSanity p = Ok ()"
    and app_shadow: "MEM_IS_APP p a \<Longrightarrow> MEM_IS_SHADOW p (MEM_TO_SHADOW p a)"
    and app_origin: "MEM_IS_APP p a \<Longrightarrow> MEM_IS_ORIGIN p (MEM_TO_ORIGIN p a)"
    and bounded: "list_all (\<lambda>d. endp d \<le> 2 ^ 48) (kMemoryLayout p)"
begin

lemma shadow_offset:
  assumes "in_block k a n" and "i < n"
  shows "MEM_TO_SHADOW p (a + i) = MEM_TO_SHADOW p a + i"
proof -
  have "drop_bit k a = drop_bit k (a + i)" using assms k_le by (intro in_block_offset) auto
  with linear have "MEM_TO_SHADOW p (a + i) = MEM_TO_SHADOW p a + (a + i - a)"
    unfolding linear_blocks_def by blast
  then show ?thesis by simp
qed

lemma app_shadow_bound:
  assumes "MEM_IS_APP p a" and "in_block k a n"
  shows "unat (MEM_TO_SHADOW p a) + unat n + 2 ^ 32 \<le> 2 ^ 64"
proof -
  obtain d where "d \<in> set (kMemoryLayout p)" and "MEM_TO_SHADOW p a < endp d"
    using app_shadow [OF assms(1)] by (auto simp: MEM_IS_SHADOW_ex)
  moreover from this(1) have "endp d \<le> 2 ^ 48" using bounded by (auto simp: list_all_iff)
  ultimately have "MEM_TO_SHADOW p a < 2 ^ 48" by simp
  then have "unat (MEM_TO_SHADOW p a) < 2 ^ 48" by (simp add: word_less_nat_alt)
  moreover have "unat n \<le> 2 ^ k" using assms(2) by (simp add: in_block_def)
  moreover have "(2::nat) ^ k \<le> 2 ^ 48" using k_le by (intro power_increasing) simp_all
  ultimately show ?thesis by simp
qed

lemma in_range_shadow:
  assumes "in_block k a n" and "in_range b a n"
  shows "in_range (MEM_TO_SHADOW p b) (MEM_TO_SHADOW p a) n"
  using assms(2) by (auto elim!: in_rangeE simp: shadow_offset [OF assms(1)])

text \<open>A write confined to the shadow of application bytes changes no application byte.\<close>

lemma shadow_range_not_app:
  assumes "in_block k a n" and "\<And>i. i < n \<Longrightarrow> MEM_IS_APP p (a + i)"
    and "in_range x (MEM_TO_SHADOW p a) n"
  shows "\<not> MEM_IS_APP p x"
proof -
  from assms(3) obtain i where i: "i < n" and x: "x = MEM_TO_SHADOW p a + i" by (rule in_rangeE)
  with shadow_offset [OF assms(1) i] have "x = MEM_TO_SHADOW p (a + i)" by simp
  with app_shadow [OF assms(2) [OF i]] sane_disjoint(1) [OF sane] show ?thesis by blast
qed

end

locale shadow_map_inj = shadow_map +
  assumes inj: "MEM_IS_APP p a \<Longrightarrow> MEM_IS_APP p b \<Longrightarrow> MEM_TO_SHADOW p a = MEM_TO_SHADOW p b \<Longrightarrow> a = b"
begin

lemma in_range_shadow_iff:
  assumes "in_block k a n" and "\<And>i. i < n \<Longrightarrow> MEM_IS_APP p (a + i)" and "MEM_IS_APP p b"
  shows "in_range (MEM_TO_SHADOW p b) (MEM_TO_SHADOW p a) n \<longleftrightarrow> in_range b a n"
proof
  assume "in_range (MEM_TO_SHADOW p b) (MEM_TO_SHADOW p a) n"
  then obtain i where i: "i < n" and eq: "MEM_TO_SHADOW p b = MEM_TO_SHADOW p a + i"
    by (rule in_rangeE)
  then have "MEM_TO_SHADOW p b = MEM_TO_SHADOW p (a + i)"
    using shadow_offset [OF assms(1) i] by simp
  then have "b = a + i" using inj [OF assms(3) assms(2) [OF i]] by blast
  with i show "in_range b a n" by simp
qed (rule in_range_shadow [OF assms(1)])

end

lemma block_mapped_shadow_map:
  assumes "block_mapped p k bs" and "CheckMemoryLayoutSanity p = Ok ()" and "k \<le> 48"
    and "list_all (\<lambda>d. endp d \<le> 2 ^ 48) (kMemoryLayout p)"
  shows "shadow_map p k"
  using assms block_mapped_sound by unfold_locales (auto simp: block_mapped_def)

lemma shadow_map_inj_intro:
  assumes "shadow_map p k" and "MEM_TO_SHADOW p = (\<lambda>mem. mem XOR c)"
  shows "shadow_map_inj p k"
  using assms by (intro shadow_map_inj.intro shadow_map_inj_axioms.intro) (simp_all add: xor_cancel)

interpretation mips64: shadow_map_inj linux_mips64 39
  by (rule shadow_map_inj_intro [OF block_mapped_shadow_map [OF linux_mips64_mapped linux_mips64_sane]
    linux_mips64_sel(2)]) (simp_all add: linux_mips64_sel)

interpretation aarch64: shadow_map_inj linux_aarch64 44
  by (rule shadow_map_inj_intro [OF block_mapped_shadow_map [OF linux_aarch64_mapped linux_aarch64_sane]
    linux_aarch64_sel(2)]) (simp_all add: linux_aarch64_sel)

interpretation loongarch64: shadow_map_inj linux_loongarch64 44
  by (rule shadow_map_inj_intro [OF block_mapped_shadow_map [OF linux_loongarch64_mapped linux_loongarch64_sane]
    linux_loongarch64_sel(2)]) (simp_all add: linux_loongarch64_sel)

interpretation s390: shadow_map linux_s390_64 46
  by (rule block_mapped_shadow_map [OF linux_s390_64_mapped linux_s390_64_sane]) (simp_all add: linux_s390_64_sel)

interpretation fbsd_aarch64: shadow_map freebsd_aarch64 46
  by (rule block_mapped_shadow_map [OF freebsd_aarch64_mapped freebsd_aarch64_sane]) (simp_all add: freebsd_aarch64_sel)

interpretation fbsd_64: shadow_map freebsd_64 45
  by (rule block_mapped_shadow_map [OF freebsd_64_mapped freebsd_64_sane]) (simp_all add: freebsd_64_sel)

interpretation x86: shadow_map_inj linux_64 44
  by (rule shadow_map_inj_intro [OF block_mapped_shadow_map [OF linux_64_mapped linux_64_sane]
    linux_64_sel(2)]) (simp_all add: linux_64_sel)

section \<open>Properties\<close>

text \<open>
  On every supported platform the start-up check \<^verbatim>\<open>CheckMemoryLayoutSanity\<close> passes: no
  \<^verbatim>\<open>CHECK\<close> of it fails.
\<close>

theorem layout_sane: "list_all (\<lambda>p. CheckMemoryLayoutSanity p = Ok ()) platforms"
  by (simp add: platforms_def linux_mips64_sane linux_aarch64_sane linux_loongarch64_sane
    linux_ppc64_sane linux_s390_64_sane freebsd_aarch64_sane freebsd_64_sane linux_64_sane)

text \<open>
  C6: on every platform but ppc64, every application address (not only the three the start-up
  check probes in each region) has its shadow in a shadow region and its origin in an origin
  region.
\<close>

theorem app_address_mapped:
  assumes "p \<in> set platforms" and "p \<noteq> linux_ppc64" and "MEM_IS_APP p a"
  shows "MEM_IS_SHADOW p (MEM_TO_SHADOW p a) \<and> MEM_IS_ORIGIN p (MEM_TO_ORIGIN p a)"
  using assms unfolding platforms_def
  by (auto intro: mips64.app_shadow mips64.app_origin aarch64.app_shadow aarch64.app_origin
    loongarch64.app_shadow loongarch64.app_origin s390.app_shadow s390.app_origin
    fbsd_aarch64.app_shadow fbsd_aarch64.app_origin fbsd_64.app_shadow fbsd_64.app_origin
    x86.app_shadow x86.app_origin)

theorem app_address_mapped_witness:
  "MEM_IS_SHADOW linux_64 (MEM_TO_SHADOW linux_64 0x7fff00001234) \<and>
   MEM_IS_ORIGIN linux_64 (MEM_TO_ORIGIN linux_64 0x7fff00001234)"
proof (rule app_address_mapped)
  show "linux_64 \<in> set platforms" by (simp add: platforms_def)
  have "MEM_TO_SHADOW linux_64 0 \<noteq> MEM_TO_SHADOW linux_ppc64 0"
    by (simp add: linux_64_sel linux_ppc64_sel)
  then show "linux_64 \<noteq> linux_ppc64" by metis
  show "MEM_IS_APP linux_64 0x7fff00001234" by (simp add: layout_eval linux_64_sel)
qed

text \<open>
  Ppc64 is the exception. The address \<^verbatim>\<open>0x480000000000\<close> is application memory, the
  start-up check passes, and yet its shadow address lies in the origin region.
\<close>

theorem ppc64_shadow_gap:
  "CheckMemoryLayoutSanity linux_ppc64 = Ok () \<and> MEM_IS_APP linux_ppc64 0x480000000000 \<and>
   \<not> MEM_IS_SHADOW linux_ppc64 (MEM_TO_SHADOW linux_ppc64 0x480000000000) \<and>
   MEM_IS_ORIGIN linux_ppc64 (MEM_TO_SHADOW linux_ppc64 0x480000000000)"
  by (simp add: linux_ppc64_sane layout_eval linux_ppc64_sel)

text \<open>
  Whatever the table, once the start-up check passes the regions do not overlap: no
  address is of two of the types application, shadow and origin.
\<close>

theorem regions_disjoint:
  assumes "CheckMemoryLayoutSanity p = Ok ()"
  shows "\<not> (MEM_IS_APP p a \<and> MEM_IS_SHADOW p a) \<and> \<not> (MEM_IS_APP p a \<and> MEM_IS_ORIGIN p a) \<and>
    \<not> (MEM_IS_SHADOW p a \<and> MEM_IS_ORIGIN p a)"
  using sane_disjoint [OF assms] by blast

theorem regions_disjoint_witness:
  "\<not> (MEM_IS_APP linux_64 0x10 \<and> MEM_IS_SHADOW linux_64 0x10) \<and>
   \<not> (MEM_IS_APP linux_64 0x10 \<and> MEM_IS_ORIGIN linux_64 0x10) \<and>
   \<not> (MEM_IS_SHADOW linux_64 0x10 \<and> MEM_IS_ORIGIN linux_64 0x10)"
  by (rule regions_disjoint [OF linux_64_sane])

end
