(* ===== verification/Shadow.thy ===== *)
theory Shadow
  imports Layout
begin

text \<open>
  Shadow memory: \<^verbatim>\<open>SetShadow\<close> and \<^verbatim>\<open>PoisonMemory\<close> of \<^verbatim>\<open>cqmsan_poisoning.cpp\<close>, the
  interface functions that mark memory (\<^verbatim>\<open>__cqmsan_poison\<close>, \<^verbatim>\<open>__cqmsan_unpoison\<close> and
  their kin, \<^verbatim>\<open>cqmsan_interceptors.cpp\<close>), the scan \<^verbatim>\<open>mem_is_zero\<close> and the query
  \<^verbatim>\<open>__cqmsan_test_shadow\<close>. Application, shadow and origin bytes live in one flat memory,
  as in the process.
\<close>

section \<open>What the runtime reads of its environment\<close>

text \<open>
  \<open>mmap_ok\<close> answers for the kernel whether \<^verbatim>\<open>MmapFixedSuperNoReserve\<close> succeeds at an address
  and size; \<open>flip\<close> is the compile-time switch \<^verbatim>\<open>CQMSAN_FLIP_CONVENTION\<close>.
\<close>

record env =
  PageSize :: uptr
  clear_shadow_mmap_threshold :: uptr
  track_origins :: int
  mmap_ok :: "uptr \<Rightarrow> uptr \<Rightarrow> bool"
  flip :: bool

definition cqmsan_get_track_origins :: int where
  "cqmsan_get_track_origins = 0"

definition kCleanByte :: "env \<Rightarrow> u8" where
  "kCleanByte e = (if flip e then -1 else 0)"

definition kPoisonByte :: "env \<Rightarrow> u8" where
  "kPoisonByte e = (if flip e then 0 else -1)"

section \<open>Writing the shadow\<close>

definition MmapFixedSuperNoReserve :: "env \<Rightarrow> memory \<Rightarrow> uptr \<Rightarrow> uptr \<Rightarrow> memory option" where
  "MmapFixedSuperNoReserve e m fixed_addr sz =
     (if mmap_ok e fixed_addr sz then Some (real_memset m fixed_addr 0 sz) else None)"

definition SetShadow :: "platform \<Rightarrow> env \<Rightarrow> memory \<Rightarrow> uptr \<Rightarrow> uptr \<Rightarrow> u8 \<Rightarrow> memory outcome" where
  "SetShadow p e m ptr sz value =
    (let shadow_beg = MEM_TO_SHADOW p ptr; shadow_end = shadow_beg + sz in
     if value \<noteq> 0 \<or> shadow_end - shadow_beg < clear_shadow_mmap_threshold e then
       Ok (real_memset m shadow_beg value (shadow_end - shadow_beg))
     else
       let page_beg = RoundUpTo shadow_beg (PageSize e);
           page_end = RoundDownTo shadow_end (PageSize e) in
       if page_beg \<ge> page_end then
         Ok (real_memset m shadow_beg 0 (shadow_end - shadow_beg))
       else
         let m1 = (if page_beg \<noteq> shadow_beg
                   then real_memset m shadow_beg 0 (page_beg - shadow_beg) else m);
             m2 = (if page_end \<noteq> shadow_end
                   then real_memset m1 page_end 0 (shadow_end - page_end) else m1) in
         case MmapFixedSuperNoReserve e m2 page_beg (page_end - page_beg) of
           None \<Rightarrow> Died DieCalled
         | Some m3 \<Rightarrow>
             if track_origins e \<noteq> 0 then
               (case MmapFixedSuperNoReserve e m3
                       (RoundUpTo (MEM_TO_ORIGIN p ptr) (PageSize e)) (page_end - page_beg) of
                  None \<Rightarrow> Died DieCalled
                | Some m4 \<Rightarrow> Ok m4)
             else Ok m3)"

definition cqmsan_unpoison :: "platform \<Rightarrow> env \<Rightarrow> memory \<Rightarrow> uptr \<Rightarrow> uptr \<Rightarrow> memory outcome" where
  "cqmsan_unpoison p e m a sz =
     (if \<not> MEM_IS_APP p a then Ok m else SetShadow p e m a sz (kCleanByte e))"

definition cqmsan_poison :: "platform \<Rightarrow> env \<Rightarrow> memory \<Rightarrow> uptr \<Rightarrow> uptr \<Rightarrow> memory outcome" where
  "cqmsan_poison p e m a sz =
     (if \<not> MEM_IS_APP p a then Ok m else SetShadow p e m a sz (kPoisonByte e))"

definition cqmsan_poison_stack :: "platform \<Rightarrow> env \<Rightarrow> memory \<Rightarrow> uptr \<Rightarrow> uptr \<Rightarrow> memory outcome" where
  "cqmsan_poison_stack p e m a sz =
     (if \<not> MEM_IS_APP p a then Ok m else SetShadow p e m a sz (kPoisonByte e))"

definition cqmsan_clear_and_unpoison ::
  "platform \<Rightarrow> env \<Rightarrow> memory \<Rightarrow> uptr \<Rightarrow> uptr \<Rightarrow> memory outcome" where
  "cqmsan_clear_and_unpoison p e m a sz =
     SetShadow p e (real_memset m a 0 sz) a sz (kCleanByte e)"

section \<open>Reading the shadow\<close>

text \<open>
  The three loops of \<^verbatim>\<open>mem_is_zero\<close>. A byte is read through \<^verbatim>\<open>const char *\<close>, so it is
  sign-extended; the word loop counts the whole words between two 8-aligned pointers.
\<close>

function or_bytes :: "memory \<Rightarrow> uptr \<Rightarrow> uptr \<Rightarrow> u64 \<Rightarrow> u64" where
  "or_bytes m a stop all =
     (if a < stop then or_bytes m (a + 1) stop (all OR scast (m a)) else all)"
  by pat_completeness auto
termination
  by (relation "measure (\<lambda>(m, a, stop, all). unat (stop - a))") (auto, unat_arith)

primrec or_words :: "memory \<Rightarrow> uptr \<Rightarrow> nat \<Rightarrow> u64 \<Rightarrow> u64" where
  "or_words m a 0 all = all"
| "or_words m a (Suc n) all = or_words m (a + 8) n (all OR load64 m a)"

definition mem_is_zero :: "memory \<Rightarrow> uptr \<Rightarrow> uptr \<Rightarrow> bool outcome" where
  "mem_is_zero m beg sz =
     check (sz \<le> 2 ^ 40)
    (let fin = beg + sz;
         aligned_beg = RoundUpTo beg 8;
         aligned_end = RoundDownTo fin 8;
         all1 = or_bytes m beg (min aligned_beg fin) 0;
         all2 = (if aligned_beg < aligned_end
                 then or_words m aligned_beg (unat (aligned_end - aligned_beg) div 8) all1
                 else all1);
         all3 = (if aligned_end \<ge> beg then or_bytes m aligned_end fin all2 else all2)
     in Ok (all3 = 0))"

function first_set :: "memory \<Rightarrow> uptr \<Rightarrow> uptr \<Rightarrow> uptr \<Rightarrow> int" where
  "first_set m s i sz =
     (if i < sz then (if m (s + i) \<noteq> 0 then sint i else first_set m s (i + 1) sz) else -1)"
  by pat_completeness auto
termination
  by (relation "measure (\<lambda>(m, s, i, sz). unat (sz - i))") (auto, unat_arith)

definition cqmsan_test_shadow :: "platform \<Rightarrow> memory \<Rightarrow> uptr \<Rightarrow> uptr \<Rightarrow> int outcome" where
  "cqmsan_test_shadow p m x sz =
     (if \<not> MEM_IS_APP p x then Ok (-1)
      else let s = MEM_TO_SHADOW p x in
        bind_ok (mem_is_zero m s sz)
          (\<lambda>z. if z then Ok (-1) else Ok (first_set m s 0 sz)))"

declare or_bytes.simps [simp del] first_set.simps [simp del]

section \<open>The page-unmapping optimisation\<close>

text \<open>
  Three pieces of a range (a head, whole pages, a tail), cleared in any order, are the range.
\<close>

lemma memset_pieces:
  assumes "sb \<le> pb" and "pb \<le> pe" and "pe \<le> sb + n" and "sb \<le> sb + n"
  shows "real_memset (real_memset (real_memset m sb v (pb - sb)) pe v (sb + n - pe)) pb v (pe - pb)
    = real_memset m sb v n"
proof -
  have k: "pb - sb \<le> n" and k': "pe - pb \<le> n - (pb - sb)"
    using assms by uint_arith+
  have tail: "n - (pb - sb) - (pe - pb) = sb + n - pe" and "pb + (pe - pb) = pe" by simp_all
  have "in_range a sb n \<longleftrightarrow>
      in_range a sb (pb - sb) \<or> in_range a pb (pe - pb) \<or> in_range a pe (sb + n - pe)" for a
    using in_range_split [OF k, of a sb] in_range_split [OF k', of a pb] tail by simp
  then show ?thesis by (auto simp: real_memset_def fun_eq_iff)
qed

text \<open>
  The conditions under which the kernel grants every remapping and the page size is a power of
  two; the runtime never tracks origins.
\<close>

definition env_ok :: "env \<Rightarrow> bool" where
  "env_ok e \<longleftrightarrow> IsPowerOfTwo (PageSize e) \<and> PageSize e \<noteq> 0 \<and> PageSize e \<le> 2 ^ 32 \<and>
     (\<forall>b n. mmap_ok e b n) \<and> track_origins e = cqmsan_get_track_origins"

lemma SetShadow_memset:
  assumes e: "env_ok e" and fit: "unat (MEM_TO_SHADOW p ptr) + unat sz + 2 ^ 32 \<le> 2 ^ 64"
  shows "SetShadow p e m ptr sz v = Ok (real_memset m (MEM_TO_SHADOW p ptr) v sz)"
proof -
  obtain j where j: "j < 64" and ps: "PageSize e = 2 ^ j"
    using e by (auto simp: env_ok_def elim: IsPowerOfTwo_cases)
  have "(2::nat) ^ j \<le> 2 ^ 32"
    using e ps unat_exp [OF j] by (simp add: env_ok_def word_le_nat_alt)
  then have room: "unat (MEM_TO_SHADOW p ptr) + 2 ^ j \<le> 2 ^ 64" using fit by linarith
  have le: "MEM_TO_SHADOW p ptr \<le> MEM_TO_SHADOW p ptr + sz"
    using fit by (simp add: no_olen_add_nat)
  define pb where "pb = RoundUpTo (MEM_TO_SHADOW p ptr) (PageSize e)"
  define pe where "pe = RoundDownTo (MEM_TO_SHADOW p ptr + sz) (PageSize e)"
  have pb: "MEM_TO_SHADOW p ptr \<le> pb"
    unfolding pb_def ps by (rule RoundUpTo_bounds(1) [OF j room])
  have pe: "pe \<le> MEM_TO_SHADOW p ptr + sz" unfolding pe_def ps by (rule RoundDownTo_le)
  have mm: "MmapFixedSuperNoReserve e m' b n = Some (real_memset m' b 0 n)" for m' b n
    using e by (simp add: env_ok_def MmapFixedSuperNoReserve_def)
  have no: "track_origins e = 0" using e by (simp add: env_ok_def cqmsan_get_track_origins_def)
  have m1: "(if q \<noteq> q' then real_memset m' b 0 (q - q') else m') = real_memset m' b 0 (q - q')"
    for m' b q q' by simp
  have m2: "(if q' \<noteq> q then real_memset m' b 0 (q - q') else m') = real_memset m' b 0 (q - q')"
    for m' b q q' by auto
  show ?thesis
    using memset_pieces [OF pb _ pe le, of m 0]
    by (auto simp: SetShadow_def Let_def mm no m1 m2 pb_def [symmetric] pe_def [symmetric]
      simp del: if_not_P)
qed

section \<open>The word-wise zero scan\<close>

text \<open>Zero bytes between two addresses, read as natural numbers.\<close>

definition zero_between :: "memory \<Rightarrow> nat \<Rightarrow> nat \<Rightarrow> bool" where
  "zero_between m lo hi \<longleftrightarrow> (\<forall>x. lo \<le> unat x \<and> unat x < hi \<longrightarrow> m x = 0)"

lemma zero_between_append:
  "lo \<le> mid \<Longrightarrow> mid \<le> hi \<Longrightarrow> zero_between m lo mid \<and> zero_between m mid hi \<longleftrightarrow> zero_between m lo hi"
  by (auto simp: zero_between_def) (meson linorder_not_less)

lemma zero_between_empty [simp]: "hi \<le> lo \<Longrightarrow> zero_between m lo hi"
  by (auto simp: zero_between_def)

lemma zero_between_Suc:
  "zero_between m (unat a) (Suc (unat a)) \<longleftrightarrow> m a = 0"
  by (auto simp: zero_between_def less_Suc_eq_le dest!: antisym word_unat_eq_iff [THEN iffD2])

lemma zero_between_step:
  assumes "unat a < hi" and "hi \<le> 2 ^ 64"
  shows "zero_between m (unat a) hi \<longleftrightarrow> m a = 0 \<and> zero_between m (Suc (unat a)) hi"
  using zero_between_append [of "unat a" "Suc (unat a)" hi m] assms by (simp add: zero_between_Suc)

lemma or_bytes_eq_0_iff:
  "or_bytes m a stop all = 0 \<longleftrightarrow> all = 0 \<and> zero_between m (unat a) (unat stop)"
proof (induction m a stop all rule: or_bytes.induct)
  case (1 m a stop all)
  show ?case
  proof (cases "a < stop")
    case True
    then have less: "unat a < unat stop" and s: "unat (a + 1) = Suc (unat a)"
      by unat_arith+
    have bound: "unat stop \<le> 2 ^ 64" using unat64_less [of stop] by simp
    from True have "or_bytes m a stop all = or_bytes m (a + 1) stop (all OR scast (m a))"
      by (subst or_bytes.simps) simp
    then show ?thesis
      using "1.IH" [OF True] zero_between_step [OF less bound, of m]
      by (simp add: or_eq_0_iff scast_eq_0_iff s conj_ac)
  next
    case False
    then show ?thesis
      by (subst or_bytes.simps) (simp add: word_less_nat_alt)
  qed
qed

lemma word_zero_between:
  assumes "unat a + 8 \<le> 2 ^ 64"
  shows "load64 m a = 0 \<longleftrightarrow> zero_between m (unat a) (unat a + 8)"
proof -
  have step: "zero_between m (unat a + i) (unat a + 8) \<longleftrightarrow>
      m (a + of_nat i) = 0 \<and> zero_between m (unat a + Suc i) (unat a + 8)" if "i < 8" for i
  proof -
    have "unat (a + of_nat i) = unat a + i"
      using that assms by (subst unat_add_lem [THEN iffD1]) (simp_all add: unat_of_nat)
    then show ?thesis using zero_between_step [of "a + of_nat i" "unat a + 8" m] that assms by simp
  qed
  show ?thesis
    using step [of 0] step [of 1] step [of 2] step [of 3] step [of 4] step [of 5] step [of 6] step [of 7]
    by (simp add: load64_eq_0_iff load32_eq_0_iff add.assoc numeral_eq_Suc)
qed

lemma or_words_eq_0_iff:
  "unat a + 8 * n \<le> 2 ^ 64 - 8 \<Longrightarrow>
   or_words m a n all = 0 \<longleftrightarrow> all = 0 \<and> zero_between m (unat a) (unat a + 8 * n)"
proof (induction n arbitrary: a all)
  case (Suc n)
  then have a8: "unat (a + 8) = unat a + 8"
    by (subst unat_add_lem [THEN iffD1]) simp_all
  have "or_words m (a + 8) n (all OR load64 m a) = 0 \<longleftrightarrow>
      all OR load64 m a = 0 \<and> zero_between m (unat a + 8) (unat a + 8 + 8 * n)"
    using Suc.IH [of "a + 8"] Suc.prems a8 by simp
  moreover have "load64 m a = 0 \<longleftrightarrow> zero_between m (unat a) (unat a + 8)"
    using Suc.prems by (intro word_zero_between) simp
  moreover have "zero_between m (unat a) (unat a + 8) \<and> zero_between m (unat a + 8) (unat a + 8 * Suc n)
      \<longleftrightarrow> zero_between m (unat a) (unat a + 8 * Suc n)"
    by (rule zero_between_append) simp_all
  ultimately show ?case by (auto simp: or_eq_0_iff add.assoc)
qed simp


text \<open>A range that does not wrap, as an interval of natural numbers.\<close>

lemma zero_between_range:
  assumes "unat a + unat n \<le> 2 ^ 64"
  shows "zero_between m (unat a) (unat a + unat n) \<longleftrightarrow> (\<forall>i < n. m (a + i) = 0)"
proof -
  have "unat a \<le> unat x \<and> unat x < unat a + unat n \<longleftrightarrow> x - a < n" for x
  proof (cases "a \<le> x")
    case True
    then have "unat (x - a) = unat x - unat a" "unat a \<le> unat x"
      by (simp_all add: unat_sub word_le_nat_alt)
    then show ?thesis by (auto simp: word_less_nat_alt)
  next
    case False
    then have "unat x < unat a" by (simp add: word_le_nat_alt)
    moreover have "unat (x - a) = unat x + 2 ^ 64 - unat a"
      using False unat64_less [of a] by (subst unat_sub_if') (auto simp: word_le_nat_alt)
    ultimately show ?thesis using assms by (auto simp: word_less_nat_alt)
  qed
  then have "zero_between m (unat a) (unat a + unat n) \<longleftrightarrow> (\<forall>x. x - a < n \<longrightarrow> m x = 0)"
    by (simp add: zero_between_def)
  also have "\<dots> \<longleftrightarrow> (\<forall>i < n. m (a + i) = 0)"
    by (metis add.commute add_diff_cancel_left' diff_add_cancel)
  finally show ?thesis .
qed

lemma mem_is_zero_correct:
  assumes n: "sz \<le> 2 ^ 40" and fit: "unat beg + unat sz + 16 \<le> 2 ^ 64"
  shows "mem_is_zero m beg sz = Ok (\<forall>i < sz. m (beg + i) = 0)"
proof -
  define fin where "fin = beg + sz"
  define ab where "ab = RoundUpTo beg 8"
  define ae where "ae = RoundDownTo fin 8"
  have fin: "unat fin = unat beg + unat sz"
    unfolding fin_def using fit by (subst unat_add_lem [THEN iffD1]) simp_all
  have ab: "unat ab = (unat beg + 7) div 8 * 8"
    using unat_RoundUpTo [of 3 beg] fit by (simp add: ab_def)
  have ae: "unat ae = unat fin div 8 * 8"
    using unat_RoundDownTo [of fin 3] by (simp add: ae_def)
  have min: "unat (min ab fin) = min (unat ab) (unat fin)"
    by (simp add: min_def word_le_nat_alt)
  have all: "(\<forall>i < sz. m (beg + i) = 0) \<longleftrightarrow> zero_between m (unat beg) (unat fin)"
    using zero_between_range [of beg sz m] fit by (simp add: fin)
  have unfold: "mem_is_zero m beg sz =
     (let all1 = or_bytes m beg (min ab fin) 0;
          all2 = (if ab < ae then or_words m ab (unat (ae - ab) div 8) all1 else all1);
          all3 = (if ae \<ge> beg then or_bytes m ae fin all2 else all2) in Ok (all3 = 0))"
    using n by (simp add: mem_is_zero_def ab_def ae_def fin_def Let_def)
  show ?thesis
  proof (cases "ab < ae")
    case True
    then have less: "unat ab < unat ae" by (simp add: word_less_nat_alt)
    have ord: "unat beg \<le> unat ab" "unat ab \<le> unat fin" "unat ae \<le> unat fin" "beg \<le> ae"
      using less ab ae by (simp_all add: word_le_nat_alt)
    have "unat (ae - ab) = unat ae - unat ab" using True by (simp add: unat_sub)
    moreover have "8 dvd unat ae - unat ab" unfolding ab ae by (intro dvd_diff_nat) simp_all
    ultimately have len: "unat ab + 8 * (unat (ae - ab) div 8) = unat ae" using less by simp
    have words: "or_words m ab (unat (ae - ab) div 8) c = 0 \<longleftrightarrow>
        c = 0 \<and> zero_between m (unat ab) (unat ae)" for c
      using or_words_eq_0_iff [of ab "unat (ae - ab) div 8" m c] len ord fin fit by simp
    show ?thesis
      using ord less True zero_between_append [of "unat beg" "unat ab" "unat ae" m]
        zero_between_append [of "unat beg" "unat ae" "unat fin" m]
      unfolding unfold all by (auto simp: Let_def or_bytes_eq_0_iff words min)
  next
    case False
    then have ge: "unat ae \<le> unat ab" by (simp add: word_less_nat_alt)
    show ?thesis
    proof (cases "unat fin \<le> unat ab")
      case True
      then show ?thesis
        using False ae unfolding unfold all
        by (auto simp: Let_def or_bytes_eq_0_iff min word_le_nat_alt zero_between_def)
    next
      case inner: False
      then have "(unat beg + 7) div 8 \<le> unat fin div 8"
        unfolding ab by (simp add: less_eq_div_iff_mult_less_eq)
      then have "unat ab = unat ae" using ge unfolding ab ae by simp
      moreover have "unat beg \<le> unat ab" using ab by simp
      ultimately show ?thesis
        using False inner zero_between_append [of "unat beg" "unat ab" "unat fin" m]
        unfolding unfold all
        by (auto simp: Let_def or_bytes_eq_0_iff min word_le_nat_alt)
    qed
  qed
qed

lemma first_set_spec:
  assumes "sz \<le> 2 ^ 40" and "i \<le> sz" and "\<forall>j < i. m (s + j) = 0"
  shows "if \<forall>j < sz. m (s + j) = 0 then first_set m s i sz = -1
    else \<exists>j < sz. first_set m s i sz = uint j \<and> m (s + j) \<noteq> 0 \<and> (\<forall>l < j. m (s + l) = 0)"
  using assms
proof (induction m s i sz rule: first_set.induct)
  case (1 m s i sz)
  show ?case
  proof (cases "i < sz \<and> m (s + i) = 0")
    case True
    have "\<forall>j < i + 1. m (s + j) = 0"
    proof (intro allI impI)
      fix j assume "j < i + 1"
      then have "j < i \<or> j = i" using True by unat_arith
      then show "m (s + j) = 0" using True "1.prems"(3) by blast
    qed
    moreover have "i + 1 \<le> sz" using True by unat_arith
    moreover have "first_set m s i sz = first_set m s (i + 1) sz"
      using True by (subst first_set.simps) simp
    ultimately show ?thesis using "1.IH" True "1.prems"(1) by simp
  next
    case False
    show ?thesis
    proof (cases "i < sz")
      case True
      have "i < 2 ^ 40" using True "1.prems"(1) by (rule less_le_trans)
      then have "uint i < 2 ^ 63" by (simp add: word_less_def)
      then have "sint i = uint i" by (rule sint_uint_small)
      then show ?thesis using True False "1.prems"(3) by (subst (1 2) first_set.simps) auto
    next
      case False
      then have "i = sz" using "1.prems"(2) by simp
      then show ?thesis using "1.prems"(3) by (subst first_set.simps) simp
    qed
  qed
qed

section \<open>Marking memory, abstractly\<close>

text \<open>
  The abstract state of the detector is the set of application addresses whose shadow byte is
  not clean (under the default convention). The operations refine set union and difference,
  and the query looks up the set.
\<close>

definition poisoned :: "platform \<Rightarrow> memory \<Rightarrow> uptr set" where
  "poisoned p m = {a. MEM_IS_APP p a \<and> m (MEM_TO_SHADOW p a) \<noteq> 0}"

definition bytes :: "uptr \<Rightarrow> uptr \<Rightarrow> uptr set" where
  "bytes a n = {x. in_range x a n}"

lemma mem_bytes [simp]: "x \<in> bytes a n \<longleftrightarrow> in_range x a n"
  by (simp add: bytes_def)

context shadow_map
begin

lemma SetShadow_app:
  "env_ok e \<Longrightarrow> MEM_IS_APP p a \<Longrightarrow> in_block k a n \<Longrightarrow>
   SetShadow p e m a n v = Ok (real_memset m (MEM_TO_SHADOW p a) v n)"
  by (intro SetShadow_memset app_shadow_bound)

lemma shadow_memset_app_data:
  assumes "in_block k a n" and "\<And>i. i < n \<Longrightarrow> MEM_IS_APP p (a + i)" and "MEM_IS_APP p x"
  shows "real_memset m (MEM_TO_SHADOW p a) v n x = m x"
  using shadow_range_not_app [OF assms(1,2)] assms(3) by (auto simp: real_memset_def)

lemma test_shadow_app:
  assumes "MEM_IS_APP p a" and "in_block k a n" and "n \<le> 2 ^ 40"
  shows "cqmsan_test_shadow p m a n =
    Ok (if \<forall>i < n. m (MEM_TO_SHADOW p (a + i)) = 0 then -1
        else first_set m (MEM_TO_SHADOW p a) 0 n)"
proof -
  have off: "(\<forall>i < n. m (MEM_TO_SHADOW p (a + i)) = 0) \<longleftrightarrow> (\<forall>i < n. m (MEM_TO_SHADOW p a + i) = 0)"
    using shadow_offset [OF assms(2)] by auto
  have "mem_is_zero m (MEM_TO_SHADOW p a) n = Ok (\<forall>i < n. m (MEM_TO_SHADOW p a + i) = 0)"
    using app_shadow_bound [OF assms(1,2)] assms(3) by (intro mem_is_zero_correct) auto
  then show ?thesis using assms(1) unfolding off by (auto simp: cqmsan_test_shadow_def Let_def)
qed

lemma test_shadow_first:
  assumes "MEM_IS_APP p a" and "in_block k a n" and "n \<le> 2 ^ 40"
    and "j < n" and "m (MEM_TO_SHADOW p (a + j)) \<noteq> 0"
    and "\<And>l. l < j \<Longrightarrow> m (MEM_TO_SHADOW p (a + l)) = 0"
  shows "cqmsan_test_shadow p m a n = Ok (uint j)"
proof -
  let ?s = "MEM_TO_SHADOW p a"
  have nz: "m (?s + j) \<noteq> 0" and z: "\<And>l. l < j \<Longrightarrow> m (?s + l) = 0"
    using assms(4-6) shadow_offset [OF assms(2)] by (auto dest: less_trans)
  obtain i where i: "i < n" "first_set m ?s 0 n = uint i" "m (?s + i) \<noteq> 0" "\<forall>l < i. m (?s + l) = 0"
    using first_set_spec [of n 0 m ?s] assms(3,4) nz by (auto split: if_splits)
  have "i = j" using nz z i(3,4) by (meson linorder_less_linear)
  then show ?thesis using test_shadow_app [OF assms(1-3)] assms(4,5) i(2) by auto
qed

end

context shadow_map_inj
begin

lemma poisoned_memset:
  assumes "in_block k a n" and "\<And>i. i < n \<Longrightarrow> MEM_IS_APP p (a + i)"
  shows "poisoned p (real_memset m (MEM_TO_SHADOW p a) v n) =
    (if v = 0 then poisoned p m - bytes a n else poisoned p m \<union> bytes a n)"
proof -
  have "in_range x a n \<Longrightarrow> MEM_IS_APP p x" for x
    using assms(2) by (auto elim: in_rangeE)
  then show ?thesis
    using in_range_shadow_iff [OF assms] by (auto simp: poisoned_def real_memset_def)
qed

end

section \<open>Ranges of application memory\<close>

text \<open>\<open>app_range p a n\<close>: the bytes from \<open>a\<close> on lie in one application region.\<close>

definition app_range :: "platform \<Rightarrow> uptr \<Rightarrow> uptr \<Rightarrow> bool" where
  "app_range p a n \<longleftrightarrow> fits (kMemoryLayout p) APP a n \<or> fits (kMemoryLayout p) ALLOCATOR a n"

lemma app_range_app: "app_range p a n \<Longrightarrow> i < n \<Longrightarrow> MEM_IS_APP p (a + i)"
  unfolding app_range_def MEM_IS_APP_def addr_is_type_def
  by (auto elim!: fits_scan)

lemma app_range_app_0: "app_range p a n \<Longrightarrow> 0 < n \<Longrightarrow> MEM_IS_APP p a"
  using app_range_app [of p a n 0] by simp

lemma in_block_region:
  assumes "s \<le> a" and "a \<le> f" and "n \<le> f - a" and "unat s div 2 ^ k * 2 ^ k + 2 ^ k \<ge> unat f"
  shows "0 < n \<Longrightarrow> in_block k a n"
proof -
  assume "0 < n"
  have n: "unat n \<le> unat f - unat a" using assms(2,3) by (simp add: word_le_nat_alt unat_sub)
  have lo: "unat s div 2 ^ k * 2 ^ k \<le> unat a"
    using assms(1) by (metis div_times_less_eq_dividend order.trans word_le_nat_alt)
  moreover have hi: "unat a < unat s div 2 ^ k * 2 ^ k + 2 ^ k"
    using n \<open>0 < n\<close> assms(4) by (simp add: word_less_nat_alt)
  ultimately have "unat a mod 2 ^ k = unat a - unat s div 2 ^ k * 2 ^ k"
    by (metis (no_types, lifting) add.commute add_diff_cancel_left' le_Suc_ex mod_less mod_mult_self2 mult.commute nat_add_left_cancel_less)
  then have "unat (take_bit k a) = unat a - unat s div 2 ^ k * 2 ^ k"
    unfolding unsigned_take_bit_eq by (simp add: take_bit_eq_mod)
  then show ?thesis using n assms(4) lo hi unfolding in_block_def by linarith
qed

lemma app_range_block:
  assumes "app_range linux_64 a n" and "0 < n"
  shows "in_block 44 a n"
  using assms(1) unfolding app_range_def fits_def linux_64_sel
  by (auto intro!: in_block_region [OF _ _ _ _ assms(2)])

lemmas x86_range = app_range_app app_range_app_0 app_range_block

section \<open>Properties\<close>


definition example_env :: env where
  "example_env = \<lparr>PageSize = 4096, clear_shadow_mmap_threshold = 65536, track_origins = 0,
     mmap_ok = (\<lambda>_ _. True), flip = False\<rparr>"

lemma example_env_ok: "env_ok example_env" "\<not> flip example_env"
  by (simp_all add: env_ok_def example_env_def IsPowerOfTwo_def cqmsan_get_track_origins_def)

lemma example_range: "app_range linux_64 0x700000000010 0x20000"
  by (simp add: app_range_def fits_def linux_64_sel)


text \<open>
  C2: poisoning and unpoisoning refine set union and difference on the set of uninitialised
  application bytes: exactly the bytes of the range change state, and every other application
  byte keeps its own.
\<close>

theorem poison_unpoison_refine:
  assumes "env_ok e" and "\<not> flip e" and "app_range linux_64 a n" and "0 < n"
  shows "\<exists>m1 m2 m3. cqmsan_poison linux_64 e m a n = Ok m1 \<and>
      poisoned linux_64 m1 = poisoned linux_64 m \<union> bytes a n \<and>
      cqmsan_poison_stack linux_64 e m a n = Ok m2 \<and>
      poisoned linux_64 m2 = poisoned linux_64 m \<union> bytes a n \<and>
      cqmsan_unpoison linux_64 e m a n = Ok m3 \<and>
      poisoned linux_64 m3 = poisoned linux_64 m - bytes a n"
proof -
  note r = x86_range [OF assms(3)]
  show ?thesis
    using assms(2,4) x86.SetShadow_app [OF assms(1) r(2,3)] x86.poisoned_memset [OF r(3) r(1)]
    by (simp add: cqmsan_poison_def cqmsan_poison_stack_def cqmsan_unpoison_def r(2)
      kPoisonByte_def kCleanByte_def)
qed

theorem poison_unpoison_refine_witness:
  "\<exists>m1 m2 m3. cqmsan_poison linux_64 example_env (\<lambda>_. 0) 0x700000000010 0x20000 = Ok m1 \<and>
      poisoned linux_64 m1 = poisoned linux_64 (\<lambda>_. 0) \<union> bytes 0x700000000010 0x20000 \<and>
      cqmsan_poison_stack linux_64 example_env (\<lambda>_. 0) 0x700000000010 0x20000 = Ok m2 \<and>
      poisoned linux_64 m2 = poisoned linux_64 (\<lambda>_. 0) \<union> bytes 0x700000000010 0x20000 \<and>
      cqmsan_unpoison linux_64 example_env (\<lambda>_. 0) 0x700000000010 0x20000 = Ok m3 \<and>
      poisoned linux_64 m3 = poisoned linux_64 (\<lambda>_. 0) - bytes 0x700000000010 0x20000"
  by (rule poison_unpoison_refine [OF example_env_ok example_range]) simp

text \<open>
  Marking memory, either way, never changes a byte of application data.
\<close>

theorem marking_keeps_data:
  assumes "env_ok e" and "app_range linux_64 a n" and "0 < n"
    and "cqmsan_poison linux_64 e m a n = Ok m' \<or> cqmsan_unpoison linux_64 e m a n = Ok m'"
    and "MEM_IS_APP linux_64 x"
  shows "m' x = m x"
proof -
  note r = x86_range [OF assms(2)]
  have "\<exists>v. m' = real_memset m (MEM_TO_SHADOW linux_64 a) v n"
    using assms(4) x86.SetShadow_app [OF assms(1) r(2,3)] r(2) [OF assms(3)] assms(3)
    by (auto simp: cqmsan_poison_def cqmsan_unpoison_def split: if_splits)
  then show ?thesis
    using x86.shadow_memset_app_data [OF r(3) r(1) assms(5)] assms(3) by auto
qed

theorem marking_keeps_data_witness:
  "\<exists>m'. cqmsan_poison linux_64 example_env (\<lambda>_. 7) 0x700000000010 0x20000 = Ok m' \<and>
     m' 0x700000000012 = 7"
proof -
  have app: "MEM_IS_APP linux_64 0x700000000012" "MEM_IS_APP linux_64 0x700000000010"
    by (simp_all add: layout_eval linux_64_sel)
  obtain m' where m': "cqmsan_poison linux_64 example_env (\<lambda>_. 7) 0x700000000010 0x20000 = Ok m'"
    using app(2) x86.SetShadow_app [OF example_env_ok(1) app(2) x86_range(3) [OF example_range]]
    by (simp add: cqmsan_poison_def)
  then show ?thesis
    using marking_keeps_data [OF example_env_ok(1) example_range _ disjI1 [OF m'] app(1)] by auto
qed

lemma test_shadow_cases:
  assumes "app_range linux_64 a n" and "0 < n" and "n \<le> 2 ^ 40"
  obtains (clean) "cqmsan_test_shadow linux_64 m a n = Ok (-1)" "bytes a n \<inter> poisoned linux_64 m = {}"
  | (dirty) j where "j < n" "cqmsan_test_shadow linux_64 m a n = Ok (uint j)" "a + j \<in> poisoned linux_64 m"
      "\<forall>l < j. a + l \<notin> poisoned linux_64 m"
proof -
  note r = x86_range [OF assms(1)]
  note t = x86.test_shadow_app [OF r(2,3) assms(3)] x86.test_shadow_first [OF r(2,3) assms(3)]
  let ?s = "\<lambda>i. m (MEM_TO_SHADOW linux_64 (a + i))"
  have p: "a + i \<in> poisoned linux_64 m \<longleftrightarrow> ?s i \<noteq> 0" if "i < n" for i
    using r(1) [OF that] by (simp add: poisoned_def)
  show thesis
  proof (cases "\<forall>i < n. ?s i = 0")
    case True
    then have "x \<notin> poisoned linux_64 m" if "in_range x a n" for x
      using that p by (metis in_rangeE)
    then have "bytes a n \<inter> poisoned linux_64 m = {}" by auto
    with True show thesis using clean t(1) assms(2) by simp
  next
    case False
    then obtain j where j: "j < n" "?s j \<noteq> 0" "\<And>l. l < j \<Longrightarrow> ?s l = 0"
      using exists_least_iff [of "\<lambda>i. i < n \<and> ?s i \<noteq> 0"] by (meson less_trans)
    then have "cqmsan_test_shadow linux_64 m a n = Ok (uint j)" using t(2) assms(2) by blast
    with j p show thesis by (intro dirty [of j]) (auto dest: less_trans)
  qed
qed

text \<open>
  C3: \<^verbatim>\<open>__cqmsan_test_shadow\<close> returns -1 exactly when no byte of the range is marked
  uninitialised, and otherwise the offset of the first one that is. The word-wise scan it
  starts with never hides a poisoned byte.
\<close>

theorem test_shadow_correct:
  assumes "app_range linux_64 a n" and "0 < n" and "n \<le> 2 ^ 40"
  shows "\<exists>r. cqmsan_test_shadow linux_64 m a n = Ok r \<and>
    (r = -1 \<longleftrightarrow> bytes a n \<inter> poisoned linux_64 m = {}) \<and>
    (r \<noteq> -1 \<longrightarrow> (\<exists>j < n. r = uint j \<and> a + j \<in> poisoned linux_64 m \<and>
       (\<forall>l < j. a + l \<notin> poisoned linux_64 m)))"
  using assms
proof (cases rule: test_shadow_cases [where m = m])
  case (dirty j)
  then have "a + j \<in> bytes a n \<inter> poisoned linux_64 m" by simp
  moreover have "uint j \<noteq> -1" using uint_ge_0 [of j] by linarith
  ultimately show ?thesis using dirty by blast
qed simp

theorem test_shadow_correct_witness:
  "\<exists>r. cqmsan_test_shadow linux_64 ((\<lambda>_. 0)(0x200000000013 := 255)) 0x700000000010 0x20000 = Ok r \<and>
    (r = -1 \<longleftrightarrow> bytes 0x700000000010 0x20000 \<inter>
        poisoned linux_64 ((\<lambda>_. 0)(0x200000000013 := 255)) = {}) \<and>
    (r \<noteq> -1 \<longrightarrow> (\<exists>j < 0x20000. r = uint j \<and>
        0x700000000010 + j \<in> poisoned linux_64 ((\<lambda>_. 0)(0x200000000013 := 255)) \<and>
       (\<forall>l < j. 0x700000000010 + l \<notin> poisoned linux_64 ((\<lambda>_. 0)(0x200000000013 := 255)))))"
  by (rule test_shadow_correct [OF example_range]) simp_all

end
