(* ===== verification/Depot.thy ===== *)
theory Depot
  imports Prelude
begin

text \<open>
  The hash-consing depots of the common library: \<^verbatim>\<open>TwoLevelMap\<close> (\<^verbatim>\<open>sanitizer_flat_map.h\<close>),
  the Murmur hashes (\<^verbatim>\<open>sanitizer_hash.h\<close>), \<^verbatim>\<open>StackDepotBase\<close>
  (\<^verbatim>\<open>sanitizer_stackdepotbase.h\<close>), and its two instances: the depot of chained origins
  (\<^verbatim>\<open>sanitizer_chained_origin_depot.cpp\<close>) and the depot of stack traces
  (\<^verbatim>\<open>sanitizer_stackdepot.cpp\<close>), whose trace store is a parameter. Calls run one at a time.
\<close>

section \<open>Two-level maps\<close>

text \<open>
  The first level is an array of pointers to second-level arrays, null until created. A
  second-level array comes from \<^verbatim>\<open>MmapOrDie\<close>, so it starts all zero; \<open>z\<close> is the all-zero
  value of the element type.
\<close>

type_synonym 'n two_level = "u64 \<Rightarrow> (u64 \<Rightarrow> 'n) option"

definition tlm_GetOrCreate :: "'n \<Rightarrow> 'n two_level \<Rightarrow> u64 \<Rightarrow> (u64 \<Rightarrow> 'n) \<times> 'n two_level" where
  "tlm_GetOrCreate z t i = (case t i of Some a \<Rightarrow> (a, t)
     | None \<Rightarrow> (let a = (\<lambda>_. z) in (a, t(i := Some a))))"

definition tlm_contains :: "u64 \<Rightarrow> u64 \<Rightarrow> 'n two_level \<Rightarrow> u64 \<Rightarrow> bool outcome" where
  "tlm_contains kSize1 kSize2 t idx =
     check (idx < kSize1 * kSize2) (Ok (t (idx div kSize2) \<noteq> None))"

definition tlm_get :: "u64 \<Rightarrow> 'n \<Rightarrow> 'n two_level \<Rightarrow> u64 \<Rightarrow> 'n \<times> 'n two_level" where
  "tlm_get kSize2 z t idx =
     (let (a, t') = tlm_GetOrCreate z t (idx div kSize2) in (a (idx mod kSize2), t'))"

definition tlm_set :: "u64 \<Rightarrow> 'n \<Rightarrow> 'n two_level \<Rightarrow> u64 \<Rightarrow> 'n \<Rightarrow> 'n two_level" where
  "tlm_set kSize2 z t idx v =
     (let (a, t') = tlm_GetOrCreate z t (idx div kSize2)
      in t'(idx div kSize2 := Some (a(idx mod kSize2 := v))))"

text \<open>What the map holds at an index, whether or not its second level exists.\<close>

definition tlm_abs :: "u64 \<Rightarrow> 'n \<Rightarrow> 'n two_level \<Rightarrow> u64 \<Rightarrow> 'n" where
  "tlm_abs kSize2 z t idx = fst (tlm_get kSize2 z t idx)"

lemma tlm_abs_set:
  "tlm_abs k z (tlm_set k z t i v) = (tlm_abs k z t)(i := v)"
proof
  fix j
  have eq: "i = j" if "i div k = j div k" "i mod k = j mod k"
    using that by (metis div_mult_mod_eq)
  show "tlm_abs k z (tlm_set k z t i v) j = ((tlm_abs k z t)(i := v)) j"
    using eq by (auto simp: tlm_abs_def tlm_get_def tlm_set_def tlm_GetOrCreate_def Let_def
      split: option.splits)
qed

lemma tlm_abs_get [simp]: "tlm_abs k z (snd (tlm_get k z t i)) = tlm_abs k z t"
  by (auto simp: tlm_abs_def tlm_get_def tlm_GetOrCreate_def Let_def fun_eq_iff split: option.splits)

lemma tlm_abs_absent: "t (i div k) = None \<Longrightarrow> tlm_abs k z t i = z"
  by (simp add: tlm_abs_def tlm_get_def tlm_GetOrCreate_def Let_def)

section \<open>Hashes\<close>

definition murmur2_add :: "u32 \<Rightarrow> u32 \<Rightarrow> u32" where
  "murmur2_add h k = (let m = 0x5bd1e995; k = k * m; k = k XOR drop_bit 24 k; k = k * m; h = h * m
     in h XOR k)"

definition murmur2_get :: "u32 \<Rightarrow> u32" where
  "murmur2_get h = (let m = 0x5bd1e995; x = h XOR drop_bit 13 h; x = x * m in x XOR drop_bit 15 x)"

definition murmur2_64_init :: "u64 \<Rightarrow> u64" where
  "murmur2_64_init init = 0x9747b28c9747b28c XOR (init * 0xc6a4a7935bd1e995)"

definition murmur2_64_add :: "u64 \<Rightarrow> u64 \<Rightarrow> u64" where
  "murmur2_64_add h k = (let m = 0xc6a4a7935bd1e995; k = k * m; k = k XOR drop_bit 47 k; k = k * m;
     h = h XOR k in h * m)"

definition murmur2_64_get :: "u64 \<Rightarrow> u64" where
  "murmur2_64_get h = (let m = 0xc6a4a7935bd1e995; x = h XOR drop_bit 47 h; x = x * m
     in x XOR drop_bit 47 x)"

section \<open>The depot\<close>

text \<open>
  \<^verbatim>\<open>StackDepotBase\<close> is a template over its node type; here the node's static functions are the
  fields of a record. \<open>'a\<close> is \<^verbatim>\<open>args_type\<close>, \<open>'n\<close> the node's own fields (its link apart), \<open>'s\<close>
  the state its \<^verbatim>\<open>store\<close> may change outside the depot. Hash values are read as 64 bits.
\<close>

record ('a, 'n, 's) node_ops =
  is_valid :: "'a \<Rightarrow> bool"
  hash :: "'a \<Rightarrow> u64"
  eq :: "'n \<Rightarrow> u64 \<Rightarrow> 'a \<Rightarrow> bool"
  store :: "'s \<Rightarrow> u32 \<Rightarrow> 'a \<Rightarrow> u64 \<Rightarrow> 'n \<times> 's"
  load :: "'s \<Rightarrow> u32 \<Rightarrow> 'n \<Rightarrow> 'a"
  args0 :: 'a
  node0 :: 'n
  kReservedBits :: nat
  kTabSizeLog :: nat

record ('n, 's) depot =
  tab :: "nat \<Rightarrow> u32"
  n_uniq_ids :: u32
  nodes :: "('n \<times> u32) two_level"
  ext :: 's

definition kIdSizeLog :: "('a, 'n, 's) node_ops \<Rightarrow> nat" where
  "kIdSizeLog N = 32 - max (kReservedBits N) 1"

definition kNodesSize1 :: "('a, 'n, 's) node_ops \<Rightarrow> u64" where
  "kNodesSize1 N = push_bit (kIdSizeLog N div 2) 1"

definition kNodesSize2 :: "('a, 'n, 's) node_ops \<Rightarrow> u64" where
  "kNodesSize2 N = push_bit (kIdSizeLog N - kIdSizeLog N div 2) 1"

definition kUnlockMask :: "('a, 'n, 's) node_ops \<Rightarrow> u32" where
  "kUnlockMask N = ucast (push_bit (kIdSizeLog N) (1 :: u64) - 1)"

definition kLockMask :: "('a, 'n, 's) node_ops \<Rightarrow> u32" where
  "kLockMask N = NOT (kUnlockMask N)"

definition depot0 :: "'s \<Rightarrow> ('n, 's) depot" where
  "depot0 s = \<lparr>tab = (\<lambda>_. 0), n_uniq_ids = 0, nodes = (\<lambda>_. None), ext = s\<rparr>"

text \<open>The node at an id, with its link.\<close>

definition node_at :: "('a, 'n, 's) node_ops \<Rightarrow> ('n, 's) depot \<Rightarrow> u32 \<Rightarrow> 'n \<times> u32" where
  "node_at N d s = fst (tlm_get (kNodesSize2 N) (node0 N, 0) (nodes d) (ucast s))"

text \<open>
  The loop of \<^verbatim>\<open>find\<close> follows links until a match or id 0. On a cyclic chain it would not end,
  which is the value \<open>None\<close>. (Indexing may create an empty second level, which no later
  operation can tell from an absent one; the model leaves the map as it is.)
\<close>

partial_function (option) find_node ::
    "('a, 'n, 's) node_ops \<Rightarrow> ('n, 's) depot \<Rightarrow> u32 \<Rightarrow> 'a \<Rightarrow> u64 \<Rightarrow> u32 option" where
  "find_node N d s args h = (if s = 0 then Some 0
     else (let (node, link) = node_at N d s in
       if eq N node h args then Some s else find_node N d link args h))"

definition bucket :: "('a, 'n, 's) node_ops \<Rightarrow> u64 \<Rightarrow> nat" where
  "bucket N h = unat h mod 2 ^ kTabSizeLog N"

text \<open>
  \<^verbatim>\<open>Put\<close>, with no other thread in the depot: the lock is free, so \<^verbatim>\<open>lock\<close> returns the entry
  read before and the second search is skipped. The result is the id, whether it was inserted,
  and the depot.
\<close>

definition depot_Put ::
    "('a, 'n, 's) node_ops \<Rightarrow> ('n, 's) depot \<Rightarrow> 'a \<Rightarrow> (u32 \<times> bool \<times> ('n, 's) depot) outcome option" where
  "depot_Put N d args =
    (if \<not> is_valid N args then Some (Ok (0, False, d))
     else (let h = hash N args; p = bucket N h; s = tab d p AND kUnlockMask N in
       case find_node N d s args h of None \<Rightarrow> None
       | Some node \<Rightarrow>
         if node \<noteq> 0 then Some (Ok (node, False, d))
         else (let s2 = tab d p; s' = n_uniq_ids d + 1; d1 = d\<lparr>n_uniq_ids := s'\<rparr> in
           Some (check (s' AND kUnlockMask N = s') (check (s' AND drop_bit (kReservedBits N) (-1) = s')
             (let (node', e') = store N (ext d1) s' args h
              in Ok (s', True, d1\<lparr>nodes := tlm_set (kNodesSize2 N) (node0 N, 0) (nodes d1) (ucast s') (node', s2),
                   ext := e', tab := (tab d1)(p := s')\<rparr>)))))))"

definition depot_Get :: "('a, 'n, 's) node_ops \<Rightarrow> ('n, 's) depot \<Rightarrow> u32 \<Rightarrow> 'a outcome" where
  "depot_Get N d i =
    (if i = 0 then Ok (args0 N)
     else check (i AND drop_bit (kReservedBits N) (-1) = i)
       (bind_ok (tlm_contains (kNodesSize1 N) (kNodesSize2 N) (nodes d) (ucast i)) (\<lambda>c.
         if \<not> c then Ok (args0 N) else Ok (load N (ext d) i (fst (node_at N d i))))))"


section \<open>Invariant and abstraction\<close>

text \<open>\<open>reach N d s i\<close>: following links from \<open>s\<close> meets \<open>i\<close>.\<close>

inductive reach :: "('a, 'n, 's) node_ops \<Rightarrow> ('n, 's) depot \<Rightarrow> u32 \<Rightarrow> u32 \<Rightarrow> bool"
  for N :: "('a, 'n, 's) node_ops" and d :: "('n, 's) depot" where
  here: "s \<noteq> 0 \<Longrightarrow> reach N d s s"
| step: "s \<noteq> 0 \<Longrightarrow> reach N d (snd (node_at N d s)) i \<Longrightarrow> reach N d s i"

inductive_cases reachE: "reach N d s i"

lemma unat_ucast_u32: "unat (ucast x :: u64) = unat x" for x :: u32
proof -
  have "unat x < 2 ^ 32" using unsigned_less [of x, where 'a = nat] by simp
  then have "unat x < 2 ^ 64" by simp
  then show ?thesis unfolding unsigned_ucast_eq by (simp add: take_bit_nat_eq_self)
qed

lemma node_at_put:
  "node_at N (d\<lparr>nodes := tlm_set (kNodesSize2 N) (node0 N, 0) (nodes d) (ucast s) v\<rparr>) i =
    (if i = s then v else node_at N d i)"
proof -
  have "ucast i = (ucast s :: u64) \<longleftrightarrow> i = s"
    using unat_ucast_u32 [of i] unat_ucast_u32 [of s] by (metis word_unat_eq_iff)
  then show ?thesis
    using tlm_abs_set [of "kNodesSize2 N" "(node0 N, 0)" "nodes d" "ucast s" v]
    by (simp add: node_at_def flip: tlm_abs_def)
qed

lemma kUnlockMask_mask:
  "0 < kReservedBits N \<Longrightarrow> kUnlockMask N = mask (kIdSizeLog N)"
  by (rule bit_word_eqI)
    (auto simp: kUnlockMask_def kIdSizeLog_def bit_simps push_bit_of_1 simp flip: mask_eq_exp_minus_1)

text \<open>
  The depot's invariant, over a function \<open>key\<close> that reads a comparison key off a node and \<open>kb\<close>
  that gives its bucket: ids are handed out in order and fit the id width, links go to older
  nodes, every node is in its bucket's chain, and no key is stored twice.
\<close>

definition key_at :: "('a, 'n, 's) node_ops \<Rightarrow> ('n \<Rightarrow> 'k) \<Rightarrow> ('n, 's) depot \<Rightarrow> u32 \<Rightarrow> 'k" where
  "key_at N key d i = key (fst (node_at N d i))"

definition ids :: "('n, 's) depot \<Rightarrow> u32 set" where
  "ids d = {i. 0 < i \<and> i \<le> n_uniq_ids d}"

definition depot_wf :: "('a, 'n, 's) node_ops \<Rightarrow> ('n \<Rightarrow> 'k) \<Rightarrow> ('k \<Rightarrow> nat) \<Rightarrow> ('n, 's) depot \<Rightarrow> bool" where
  "depot_wf N key kb d \<longleftrightarrow> unat (n_uniq_ids d) < 2 ^ kIdSizeLog N
    \<and> (\<forall>p. tab d p \<le> n_uniq_ids d)
    \<and> (\<forall>i \<in> ids d. snd (node_at N d i) < i)
    \<and> (\<forall>i \<in> ids d. nodes d (ucast i div kNodesSize2 N) \<noteq> None)
    \<and> (\<forall>i \<in> ids d. reach N d (tab d (kb (key_at N key d i))) i)
    \<and> (\<forall>i \<in> ids d. \<forall>j \<in> ids d. key_at N key d i = key_at N key d j \<longrightarrow> i = j)"

text \<open>
  A node type is lawful when \<^verbatim>\<open>eq\<close> compares a key computed from the arguments, \<^verbatim>\<open>store\<close> records
  that key, and the key determines the bucket. \<open>key\<close> reads it off a node, \<open>akey\<close> off arguments.
\<close>

locale depot_node =
  fixes N :: "('a, 'n, 's) node_ops" and key :: "'n \<Rightarrow> 'k" and akey :: "'a \<Rightarrow> 'k"
    and kb :: "'k \<Rightarrow> nat"
  assumes eq_key: "eq N n (hash N a) a \<longleftrightarrow> key n = akey a"
    and store_key: "key (fst (store N e i a (hash N a))) = akey a"
    and key_bucket: "bucket N (hash N a) = kb (akey a)"
    and reserved: "0 < kReservedBits N" "kReservedBits N < 32"
begin

lemma wf_depot0: "depot_wf N key kb (depot0 e)"
  by (simp add: depot_wf_def ids_def depot0_def)

lemma id_mask:
  assumes "unat s < 2 ^ kIdSizeLog N"
  shows "s AND kUnlockMask N = s" and "s AND drop_bit (kReservedBits N) (-1) = s"
proof -
  have t: "take_bit (kIdSizeLog N) s = s"
    using assms unfolding word_unat_eq_iff unsigned_take_bit_eq by (rule take_bit_nat_eq_self)
  then show "s AND kUnlockMask N = s"
    using reserved(1) by (simp add: kUnlockMask_mask flip: take_bit_eq_mask)
  have "drop_bit (kReservedBits N) (-1 :: u32) = mask (32 - kReservedBits N)"
    by (rule bit_word_eqI) (auto simp: bit_simps)
  moreover have "kIdSizeLog N = 32 - kReservedBits N" using reserved by (simp add: kIdSizeLog_def)
  ultimately show "s AND drop_bit (kReservedBits N) (-1) = s"
    using t by (simp flip: take_bit_eq_mask)
qed

lemma tab_mask: "depot_wf N key kb d \<Longrightarrow> tab d p AND kUnlockMask N = tab d p"
  by (rule id_mask(1)) (meson depot_wf_def le_less_trans word_le_nat_alt)

text \<open>The search ends, and finds exactly the id of the key.\<close>

lemma find_node_sound:
  assumes "depot_wf N key kb d" and "s \<le> n_uniq_ids d"
  shows "\<exists>r. find_node N d s a (hash N a) = Some r \<and> (r \<noteq> 0 \<longrightarrow> r \<in> ids d \<and> key_at N key d r = akey a) \<and>
    (r = 0 \<longrightarrow> (\<forall>i. reach N d s i \<longrightarrow> key_at N key d i \<noteq> akey a))"
  using assms(2)
proof (induction "unat s" arbitrary: s rule: less_induct)
  case less
  show ?case
  proof (cases "s = 0")
    case True
    then show ?thesis by (subst find_node.simps) (auto elim: reachE)
  next
    case False
    obtain n l where nl: "node_at N d s = (n, l)" by fastforce
    have s: "s \<in> ids d" using False less.prems by (simp add: ids_def word_neq_0_conv)
    then have l: "l < s" using assms(1) nl unfolding depot_wf_def by force
    then have IH: "\<exists>r. find_node N d l a (hash N a) = Some r \<and> (r \<noteq> 0 \<longrightarrow> r \<in> ids d \<and> key_at N key d r = akey a) \<and>
        (r = 0 \<longrightarrow> (\<forall>i. reach N d l i \<longrightarrow> key_at N key d i \<noteq> akey a))"
      using less.hyps [of l] less.prems by (simp add: word_less_nat_alt word_le_nat_alt)
    have r: "reach N d s i \<longleftrightarrow> i = s \<or> reach N d l i" for i
      using False nl by (auto intro: reach.intros elim: reachE)
    show ?thesis
    proof (cases "key n = akey a")
      case True
      then show ?thesis using False nl s by (subst find_node.simps) (simp add: eq_key key_at_def)
    next
      case neq: False
      then have "find_node N d s a (hash N a) = find_node N d l a (hash N a)"
        using False nl by (subst find_node.simps) (simp add: eq_key)
      then show ?thesis using IH r neq nl by (auto simp: key_at_def)
    qed
  qed
qed

lemma find_bucket:
  assumes "depot_wf N key kb d"
  shows "find_node N d (tab d (bucket N (hash N a))) a (hash N a) =
    Some (if \<exists>i \<in> ids d. key_at N key d i = akey a then (THE i. i \<in> ids d \<and> key_at N key d i = akey a) else 0)"
proof -
  let ?s = "tab d (bucket N (hash N a))"
  have "?s \<le> n_uniq_ids d" using assms by (simp add: depot_wf_def)
  then obtain r where r: "find_node N d ?s a (hash N a) = Some r"
      "r \<noteq> 0 \<Longrightarrow> r \<in> ids d \<and> key_at N key d r = akey a"
      "r = 0 \<Longrightarrow> \<forall>i. reach N d ?s i \<longrightarrow> key_at N key d i \<noteq> akey a"
    using find_node_sound [OF assms, of ?s a] by blast
  show ?thesis
  proof (cases "\<exists>i \<in> ids d. key_at N key d i = akey a")
    case True
    then obtain i where i: "i \<in> ids d" "key_at N key d i = akey a" by blast
    then have "reach N d ?s i" using assms unfolding depot_wf_def by (metis key_bucket)
    then have "r \<noteq> 0" using r(3) i by blast
    then have "r = i" using r(2) i assms unfolding depot_wf_def by metis
    moreover have "(THE i. i \<in> ids d \<and> key_at N key d i = akey a) = i"
      using i assms by (intro the_equality) (auto simp: depot_wf_def)
    ultimately show ?thesis using True r(1) by simp
  next
    case False
    then show ?thesis using r(1,2) by auto
  qed
qed

lemma id_mask_full:
  assumes "unat s = 2 ^ kIdSizeLog N"
  shows "s AND kUnlockMask N \<noteq> s"
proof -
  have "unat (take_bit (kIdSizeLog N) s) = 0"
    using assms unfolding unsigned_take_bit_eq by (simp add: take_bit_eq_mod)
  then show ?thesis
    using assms reserved(1) by (auto simp: kUnlockMask_mask simp flip: take_bit_eq_mask)
qed

lemma id_size: "kIdSizeLog N < 32"
  using reserved by (simp add: kIdSizeLog_def)

lemma next_id:
  assumes "depot_wf N key kb d"
  shows "unat (n_uniq_ids d + 1) = unat (n_uniq_ids d) + 1"
proof -
  have "unat (n_uniq_ids d) + 1 \<le> 2 ^ kIdSizeLog N" using assms by (simp add: depot_wf_def)
  also have "\<dots> < (2::nat) ^ 32" using id_size by (intro power_strict_increasing) auto
  finally show ?thesis by (subst unat_add_lem [THEN iffD1]) simp_all
qed

text \<open>Inserting a node with a fresh key keeps the invariant.\<close>

lemma wf_insert:
  assumes wf: "depot_wf N key kb d" and new: "\<forall>i \<in> ids d. key_at N key d i \<noteq> k"
    and n: "key n = k" and s': "s' = n_uniq_ids d + 1" and room: "unat s' < 2 ^ kIdSizeLog N"
    and d': "d' = d\<lparr>n_uniq_ids := s',
      nodes := tlm_set (kNodesSize2 N) (node0 N, 0) (nodes d) (ucast s') (n, tab d (kb k)),
      ext := e, tab := (tab d)(kb k := s')\<rparr>"
  shows "depot_wf N key kb d'" and "ids d' = insert s' (ids d)"
    and "\<And>i. node_at N d' i = (if i = s' then (n, tab d (kb k)) else node_at N d i)"
proof -
  have u: "unat s' = unat (n_uniq_ids d) + 1" using next_id [OF wf] s' by simp
  have lt: "n_uniq_ids d < s'" using u by (simp add: word_less_nat_alt)
  show idd: "ids d' = insert s' (ids d)"
  proof -
    have "0 < i \<and> i \<le> s' \<longleftrightarrow> i = s' \<or> 0 < i \<and> i \<le> n_uniq_ids d" for i
      using u by (auto simp: word_le_nat_alt word_less_nat_alt word_unat_eq_iff)
    then show ?thesis by (auto simp: ids_def d')
  qed
  show at: "node_at N d' i = (if i = s' then (n, tab d (kb k)) else node_at N d i)" for i
    using node_at_put [of N d s' "(n, tab d (kb k))" i] by (simp add: d' node_at_def)
  have fresh: "s' \<notin> ids d" using lt by (auto simp: ids_def)
  have key: "key_at N key d' i = (if i = s' then k else key_at N key d i)" for i
    by (simp add: key_at_def at n)
  have old: "reach N d' s i" if "reach N d s i" "s \<le> n_uniq_ids d" for s i
    using that
  proof (induction rule: reach.induct)
    case (here s)
    then show ?case by (simp add: reach.here)
  next
    case (step s i)
    then have "s \<in> ids d" by (simp add: ids_def word_neq_0_conv)
    then have "snd (node_at N d s) < s" using wf unfolding depot_wf_def by blast
    then have "snd (node_at N d s) \<le> n_uniq_ids d" using step.prems by simp
    moreover have "s \<noteq> s'" using step.prems lt by auto
    ultimately show ?case using step.hyps(1) step.IH at [of s] by (simp add: reach.step)
  qed
  have tab: "tab d p \<le> n_uniq_ids d" for p using wf by (simp add: depot_wf_def)
  have td: "tab d' p = (if p = kb k then s' else tab d p)" "n_uniq_ids d' = s'" for p
    by (simp_all add: d')
  have reach: "reach N d' (tab d' (kb (key_at N key d' i))) i" if i: "i \<in> ids d'" for i
  proof (cases "i = s'")
    case True
    then show ?thesis using lt by (auto simp: key td intro!: reach.here)
  next
    case False
    then have "i \<in> ids d" using i idd by simp
    then have *: "reach N d' (tab d (kb (key_at N key d i))) i"
      using wf old tab unfolding depot_wf_def by blast
    show ?thesis
    proof (cases "kb (key_at N key d i) = kb k")
      case True
      have "reach N d' s' i"
      proof (rule reach.step)
        show "s' \<noteq> 0" using lt by auto
        show "reach N d' (snd (node_at N d' s')) i" using * True by (simp add: at)
      qed
      then show ?thesis using False True by (simp add: key td)
    next
      case neq: False
      then show ?thesis using * False by (simp add: key td)
    qed
  qed
  have created: "nodes d' (ucast i div kNodesSize2 N) \<noteq> None" if "i \<in> ids d'" for i
    using that wf unfolding idd depot_wf_def
    by (auto simp: d' tlm_set_def tlm_GetOrCreate_def Let_def split: option.splits)
  have "snd (node_at N d' i) < i" if "i \<in> ids d'" for i
  proof (cases "i = s'")
    case True
    then show ?thesis using tab [of "kb k"] lt by (simp add: at)
  next
    case False
    then have "i \<in> ids d" using that idd by simp
    then show ?thesis using wf False unfolding depot_wf_def by (simp add: at)
  qed
  moreover have "tab d' p \<le> n_uniq_ids d'" for p
    using tab [of p] lt by (auto simp: td)
  moreover have "i = j" if "i \<in> ids d'" "j \<in> ids d'" "key_at N key d' i = key_at N key d' j" for i j
    using that wf new unfolding idd depot_wf_def by (auto simp: key split: if_splits)
  ultimately show "depot_wf N key kb d'"
    unfolding depot_wf_def using reach created room by (simp add: td)
qed

theorem Put_cases:
  assumes wf: "depot_wf N key kb d" and valid: "is_valid N a"
  obtains (found) i where "i \<in> ids d" "key_at N key d i = akey a" "depot_Put N d a = Some (Ok (i, False, d))"
  | (inserted) d' where "\<forall>i \<in> ids d. key_at N key d i \<noteq> akey a"
      "depot_Put N d a = Some (Ok (n_uniq_ids d + 1, True, d'))" "depot_wf N key kb d'"
      "ids d' = insert (n_uniq_ids d + 1) (ids d)" "n_uniq_ids d + 1 \<notin> ids d"
      "fst (node_at N d' (n_uniq_ids d + 1)) = fst (store N (ext d) (n_uniq_ids d + 1) a (hash N a))"
      "\<forall>i \<in> ids d. node_at N d' i = node_at N d i"
      "ext d' = snd (store N (ext d) (n_uniq_ids d + 1) a (hash N a))"
  | (full) "\<forall>i \<in> ids d. key_at N key d i \<noteq> akey a" "unat (n_uniq_ids d) + 1 = 2 ^ kIdSizeLog N"
      "depot_Put N d a = Some (Died CheckFailed)"
proof (cases "\<exists>i \<in> ids d. key_at N key d i = akey a")
  case True
  then obtain i where i: "i \<in> ids d" "key_at N key d i = akey a" by blast
  then have "(THE i. i \<in> ids d \<and> key_at N key d i = akey a) = i"
    using wf by (intro the_equality) (auto simp: depot_wf_def)
  then have "depot_Put N d a = Some (Ok (i, False, d))"
    using find_bucket [OF wf, of a] tab_mask [OF wf] True valid i(1)
    by (auto simp: depot_Put_def Let_def ids_def)
  with i found show thesis by blast
next
  case False
  let ?s = "n_uniq_ids d + 1"
  obtain n e where st: "store N (ext d) ?s a (hash N a) = (n, e)" by fastforce
  have nk: "key n = akey a" using store_key [of "ext d" ?s a] st by simp
  have notin: "?s \<notin> ids d"
    using next_id [OF wf] by (simp add: ids_def word_le_nat_alt)
  have put: "depot_Put N d a = Some (check (?s AND kUnlockMask N = ?s)
      (check (?s AND drop_bit (kReservedBits N) (-1) = ?s)
        (Ok (?s, True, d\<lparr>n_uniq_ids := ?s,
          nodes := tlm_set (kNodesSize2 N) (node0 N, 0) (nodes d) (ucast ?s) (n, tab d (kb (akey a))),
          ext := e, tab := (tab d)(kb (akey a) := ?s)\<rparr>))))"
    using find_bucket [OF wf, of a] tab_mask [OF wf] False valid
    by (simp add: depot_Put_def Let_def st key_bucket)
  show thesis
  proof (cases "unat ?s < 2 ^ kIdSizeLog N")
    case True
    have new: "\<forall>i \<in> ids d. key_at N key d i \<noteq> akey a" using False by blast
    note ins = wf_insert [OF wf new nk refl True refl, of e]
    show thesis
      by (rule inserted [OF new _ ins(1,2) notin])
        (use put id_mask [OF True] ins(3) notin st in auto)
  next
    case not: False
    moreover have "unat ?s \<le> 2 ^ kIdSizeLog N"
      using next_id [OF wf] wf by (simp add: depot_wf_def)
    ultimately have "unat ?s = 2 ^ kIdSizeLog N" by simp
    then show thesis
      using put id_mask_full [of ?s] False next_id [OF wf] by (intro full) auto
  qed
qed

lemma Put_invalid: "\<not> is_valid N a \<Longrightarrow> depot_Put N d a = Some (Ok (0, False, d))"
  by (simp add: depot_Put_def)

lemma ids_mask: "depot_wf N key kb d \<Longrightarrow> i \<in> ids d \<Longrightarrow> unat i < 2 ^ kIdSizeLog N"
  by (auto simp: depot_wf_def ids_def word_le_nat_alt)

text \<open>\<^verbatim>\<open>Get\<close> of an id that was handed out loads its node.\<close>

lemma Get_node:
  assumes wf: "depot_wf N key kb d" and i: "i \<in> ids d"
  shows "depot_Get N d i = Ok (load N (ext d) i (fst (node_at N d i)))"
proof -
  have len: "kIdSizeLog N div 2 + (kIdSizeLog N - kIdSizeLog N div 2) = kIdSizeLog N" by simp
  have "kNodesSize1 N * kNodesSize2 N = 2 ^ kIdSizeLog N"
    unfolding kNodesSize1_def kNodesSize2_def push_bit_of_1 power_add [symmetric] len ..
  moreover have "unat (2 ^ kIdSizeLog N :: u64) = 2 ^ kIdSizeLog N"
    using id_size by (intro unat_exp) simp
  ultimately have "ucast i < kNodesSize1 N * kNodesSize2 N"
    using ids_mask [OF assms] by (simp add: word_less_nat_alt unat_ucast_u32)
  then show ?thesis
    using wf i id_mask(2) [OF ids_mask [OF assms]]
    by (auto simp: depot_Get_def tlm_contains_def depot_wf_def ids_def)
qed

end

section \<open>The depot of chained origins\<close>

record ChainedOriginDepotDesc =
  here_id :: u32
  prev_id :: u32

definition ChainedOriginDepotNode_hash :: "ChainedOriginDepotDesc \<Rightarrow> u32" where
  "ChainedOriginDepotNode_hash args =
    (let m = 0x5bd1e995; h = 0x9747b28c;
         k = here_id args; k = k * m; k = k XOR drop_bit 24 k; k = k * m; h = h * m; h = h XOR k;
         k = prev_id args; k = k * m; k = k XOR drop_bit 24 k; k = k * m; h = h * m; h = h XOR k;
         h = h XOR drop_bit 13 h; h = h * m; h = h XOR drop_bit 15 h
     in h)"

definition ChainedOriginDepotNode :: "(ChainedOriginDepotDesc, ChainedOriginDepotDesc, unit) node_ops" where
  "ChainedOriginDepotNode = \<lparr>is_valid = (\<lambda>_. True),
     hash = (\<lambda>a. ucast (ChainedOriginDepotNode_hash a)),
     eq = (\<lambda>n h a. here_id n = here_id a \<and> prev_id n = prev_id a),
     store = (\<lambda>e i a h. (\<lparr>here_id = here_id a, prev_id = prev_id a\<rparr>, e)),
     load = (\<lambda>e i n. \<lparr>here_id = here_id n, prev_id = prev_id n\<rparr>),
     args0 = \<lparr>here_id = 0, prev_id = 0\<rparr>, node0 = \<lparr>here_id = 0, prev_id = 0\<rparr>,
     kReservedBits = 4, kTabSizeLog = 20\<rparr>"

type_synonym chained_depot = "(ChainedOriginDepotDesc, unit) depot"

definition ChainedOriginDepotPut ::
    "chained_depot \<Rightarrow> u32 \<Rightarrow> u32 \<Rightarrow> (bool \<times> u32 \<times> chained_depot) outcome option" where
  "ChainedOriginDepotPut d here prev =
    map_option (\<lambda>r. bind_ok r (\<lambda>(i, inserted, d'). Ok (inserted, i, d')))
      (depot_Put ChainedOriginDepotNode d \<lparr>here_id = here, prev_id = prev\<rparr>)"

definition ChainedOriginDepotGet :: "chained_depot \<Rightarrow> u32 \<Rightarrow> (u32 \<times> u32) outcome" where
  "ChainedOriginDepotGet d i =
    bind_ok (depot_Get ChainedOriginDepotNode d i) (\<lambda>desc. Ok (here_id desc, prev_id desc))"

definition chained_bucket :: "ChainedOriginDepotDesc \<Rightarrow> nat" where
  "chained_bucket a = bucket ChainedOriginDepotNode (hash ChainedOriginDepotNode a)"

interpretation chained: depot_node ChainedOriginDepotNode id id chained_bucket
  by unfold_locales (auto simp: ChainedOriginDepotNode_def chained_bucket_def)

text \<open>Well-formed depots of chained origins.\<close>

definition chained_wf :: "chained_depot \<Rightarrow> bool" where
  "chained_wf d \<longleftrightarrow> depot_wf ChainedOriginDepotNode id chained_bucket d"

lemma chained_wf0: "chained_wf (depot0 ())"
  unfolding chained_wf_def by (rule chained.wf_depot0)

lemma chained_get:
  "chained_wf d \<Longrightarrow> i \<in> ids d \<Longrightarrow> ChainedOriginDepotGet d i =
    Ok (here_id (key_at ChainedOriginDepotNode id d i), prev_id (key_at ChainedOriginDepotNode id d i))"
  by (simp add: chained_wf_def ChainedOriginDepotGet_def chained.Get_node key_at_def)
    (simp add: ChainedOriginDepotNode_def)

lemma chained_kIdSizeLog: "kIdSizeLog ChainedOriginDepotNode = 28"
  by (simp add: kIdSizeLog_def ChainedOriginDepotNode_def)

lemma chained_id_bound: "chained_wf d \<Longrightarrow> i \<in> ids d \<Longrightarrow> unat i < 2 ^ 28"
  using chained.ids_mask [of d i] by (simp add: chained_wf_def chained_kIdSizeLog)

text \<open>
  The three outcomes of a put: the pair is there already, it is inserted under a fresh id that
  disturbs no other, or the id space is exhausted.
\<close>

lemma ChainedOriginDepotPut_cases:
  assumes wf: "chained_wf d"
  obtains (found) i where "i \<in> ids d" "ChainedOriginDepotGet d i = Ok (h, p)"
      "ChainedOriginDepotPut d h p = Some (Ok (False, i, d))"
  | (inserted) i d' where "i \<notin> ids d" "ChainedOriginDepotPut d h p = Some (Ok (True, i, d'))"
      "chained_wf d'" "ids d' = insert i (ids d)" "ChainedOriginDepotGet d' i = Ok (h, p)"
      "\<forall>j \<in> ids d. ChainedOriginDepotGet d' j = ChainedOriginDepotGet d j"
      "\<forall>j \<in> ids d. ChainedOriginDepotGet d j \<noteq> Ok (h, p)"
  | (full) "unat (n_uniq_ids d) + 1 = 2 ^ 28" "ChainedOriginDepotPut d h p = Some (Died CheckFailed)"
proof -
  let ?N = ChainedOriginDepotNode and ?a = "\<lparr>here_id = h, prev_id = p\<rparr>"
  have valid: "is_valid ?N ?a" by (simp add: ChainedOriginDepotNode_def)
  have st: "fst (store ?N e i ?a (hash ?N ?a)) = ?a" for e i by (simp add: ChainedOriginDepotNode_def)
  from wf [unfolded chained_wf_def] valid show thesis
  proof (cases rule: chained.Put_cases)
    case (found i)
    then show thesis
      using chained_get [OF wf found(1)] by (intro that(1)) (auto simp: ChainedOriginDepotPut_def)
  next
    case (inserted d')
    note wf' = inserted(3) [folded chained_wf_def]
    have old: "ChainedOriginDepotGet d' j = ChainedOriginDepotGet d j" if "j \<in> ids d" for j
      using that chained_get [OF wf] chained_get [OF wf'] inserted(4,7) by (simp add: key_at_def)
    have neq: "ChainedOriginDepotGet d j \<noteq> Ok (h, p)" if "j \<in> ids d" for j
    proof -
      have "key_at ?N id d j \<noteq> ?a" using that inserted(1) by simp
      then show ?thesis
        using chained_get [OF wf that] by (cases "key_at ?N id d j") auto
    qed
    have "ChainedOriginDepotGet d' (n_uniq_ids d + 1) = Ok (h, p)"
      using chained_get [OF wf', of "n_uniq_ids d + 1"] inserted(4,6) st by (simp add: key_at_def)
    then show thesis
      using inserted(2) old neq by (intro that(2) [OF inserted(5) _ wf' inserted(4)]) (auto simp: ChainedOriginDepotPut_def)
  next
    case full
    then show thesis by (intro that(3)) (auto simp: ChainedOriginDepotPut_def chained_kIdSizeLog)
  qed
qed

section \<open>The depot of stack traces\<close>

text \<open>
  \<^verbatim>\<open>StackTrace\<close>: its frames (a null pointer is the empty list) and tag. Two traces are the same
  node when their 64-bit hashes agree. The trace store behind the nodes is a parameter:
  \<open>Store\<close> gives a non-zero id or 0 when full, \<open>Load\<close> reads it back.
\<close>

record StackTrace =
  trace :: "uptr list"
  tag :: u32

record 's trace_store =
  Store :: "'s \<Rightarrow> StackTrace \<Rightarrow> u32 \<times> 's"
  Load :: "'s \<Rightarrow> u32 \<Rightarrow> StackTrace"

record StackDepotNodeT =
  stack_hash :: u64
  store_id :: u32

definition StackTrace0 :: StackTrace where
  "StackTrace0 = \<lparr>trace = [], tag = 0\<rparr>"

definition StackDepotNode_hash :: "StackTrace \<Rightarrow> u64" where
  "StackDepotNode_hash args =
    murmur2_64_get (murmur2_64_add (fold (\<lambda>f h. murmur2_64_add h f) (trace args)
      (murmur2_64_init (of_nat (length (trace args)) * 8))) (ucast (tag args)))"

definition StackDepotNode :: "'s trace_store \<Rightarrow> (StackTrace, StackDepotNodeT, 's) node_ops" where
  "StackDepotNode S = \<lparr>is_valid = (\<lambda>a. trace a \<noteq> []),
     hash = StackDepotNode_hash,
     eq = (\<lambda>n h a. h = stack_hash n),
     store = (\<lambda>e i a h. let (sid, e') = Store S e a in (\<lparr>stack_hash = h, store_id = sid\<rparr>, e')),
     load = (\<lambda>e i n. if store_id n = 0 then StackTrace0 else Load S e (store_id n)),
     args0 = StackTrace0, node0 = \<lparr>stack_hash = 0, store_id = 0\<rparr>,
     kReservedBits = 1, kTabSizeLog = 20\<rparr>"

type_synonym 's stack_depot = "(StackDepotNodeT, 's) depot"

definition StackDepotPut ::
    "'s trace_store \<Rightarrow> 's stack_depot \<Rightarrow> StackTrace \<Rightarrow> (u32 \<times> 's stack_depot) outcome option" where
  "StackDepotPut S d a =
    map_option (\<lambda>r. bind_ok r (\<lambda>(i, _, d'). Ok (i, d'))) (depot_Put (StackDepotNode S) d a)"

definition StackDepotGet :: "'s trace_store \<Rightarrow> 's stack_depot \<Rightarrow> u32 \<Rightarrow> StackTrace outcome" where
  "StackDepotGet S d i = depot_Get (StackDepotNode S) d i"

definition stack_bucket :: "u64 \<Rightarrow> nat" where
  "stack_bucket h = unat h mod 2 ^ 20"

interpretation stacks: depot_node "StackDepotNode S" stack_hash StackDepotNode_hash stack_bucket for S
  by unfold_locales (auto simp: StackDepotNode_def bucket_def stack_bucket_def Let_def split: prod.splits)

definition stacks_wf :: "'s trace_store \<Rightarrow> 's stack_depot \<Rightarrow> bool" where
  "stacks_wf S d \<longleftrightarrow> depot_wf (StackDepotNode S) stack_hash stack_bucket d"

lemma stacks_wf0: "stacks_wf S (depot0 e)"
  unfolding stacks_wf_def by (rule stacks.wf_depot0)

lemma StackDepotPut_cases:
  assumes wf: "stacks_wf S d" and ne: "trace a \<noteq> []"
  obtains (ok) i d' where "StackDepotPut S d a = Some (Ok (i, d'))" "stacks_wf S d'"
      "i \<in> ids d'" "ids d \<subseteq> ids d'"
  | (full) "unat (n_uniq_ids d) + 1 = 2 ^ 31" "StackDepotPut S d a = Some (Died CheckFailed)"
proof -
  have valid: "is_valid (StackDepotNode S) a" using ne by (simp add: StackDepotNode_def)
  have k: "kIdSizeLog (StackDepotNode S) = 31" by (simp add: kIdSizeLog_def StackDepotNode_def)
  from wf [unfolded stacks_wf_def] valid show thesis
  proof (cases rule: stacks.Put_cases)
    case (found i)
    then show thesis using wf by (intro that(1)) (auto simp: StackDepotPut_def)
  next
    case (inserted d')
    then show thesis by (intro that(1)) (auto simp: StackDepotPut_def stacks_wf_def)
  next
    case full
    then show thesis by (intro that(2)) (simp_all add: StackDepotPut_def k)
  qed
qed

lemma stack_id_bound: "stacks_wf S d \<Longrightarrow> i \<in> ids d \<Longrightarrow> unat i < 2 ^ 31"
  using stacks.ids_mask [of S d i] by (simp add: stacks_wf_def kIdSizeLog_def StackDepotNode_def)

section \<open>Properties\<close>

text \<open>
  C14: the depot of chained origins is a hash-consed map. While ids remain, a put ends, the id it
  returns reads back the very pair, every id handed out before still reads back its own pair,
  and the pair has that one id only, newly made exactly when the put says so.
\<close>

theorem chained_depot_roundtrip:
  assumes wf: "chained_wf d" and room: "unat (n_uniq_ids d) + 1 < 2 ^ 28"
  shows "\<exists>ins i d'. ChainedOriginDepotPut d h p = Some (Ok (ins, i, d')) \<and> chained_wf d' \<and>
    ChainedOriginDepotGet d' i = Ok (h, p) \<and>
    (\<forall>j \<in> ids d. ChainedOriginDepotGet d' j = ChainedOriginDepotGet d j) \<and>
    (\<forall>j \<in> ids d'. ChainedOriginDepotGet d' j = Ok (h, p) \<longrightarrow> j = i) \<and>
    ids d' = insert i (ids d) \<and> (ins \<longleftrightarrow> i \<notin> ids d)"
  using wf
proof (cases rule: ChainedOriginDepotPut_cases [of d h p])
  case (found i)
  have "j = i" if "j \<in> ids d" "ChainedOriginDepotGet d j = Ok (h, p)" for j
  proof -
    have "key_at ChainedOriginDepotNode id d j = key_at ChainedOriginDepotNode id d i"
      using that found chained_get [OF wf] by simp
    then show ?thesis using wf that found(1) unfolding chained_wf_def depot_wf_def by blast
  qed
  moreover have "ids d = insert i (ids d)" using found(1) by (rule insert_absorb [symmetric])
  ultimately show ?thesis using found wf by blast
next
  case (inserted i d')
  then have "\<forall>j \<in> ids d'. ChainedOriginDepotGet d' j = Ok (h, p) \<longrightarrow> j = i" by (metis insertE)
  with inserted show ?thesis by blast
next
  case full
  with room show ?thesis by simp
qed

theorem chained_depot_roundtrip_witness:
  "\<exists>ins i d'. ChainedOriginDepotPut (depot0 ()) 5 7 = Some (Ok (ins, i, d')) \<and> chained_wf d' \<and>
    ChainedOriginDepotGet d' i = Ok (5, 7) \<and>
    (\<forall>j \<in> ids (depot0 () :: chained_depot).
       ChainedOriginDepotGet d' j = ChainedOriginDepotGet (depot0 ()) j) \<and>
    (\<forall>j \<in> ids d'. ChainedOriginDepotGet d' j = Ok (5, 7) \<longrightarrow> j = i) \<and>
    ids d' = insert i (ids (depot0 () :: chained_depot)) \<and>
    (ins \<longleftrightarrow> i \<notin> ids (depot0 () :: chained_depot))"
  by (rule chained_depot_roundtrip [OF chained_wf0]) (simp add: depot0_def)

end
