(* ===== verification/Flags.thy ===== *)
theory Flags
  imports Prelude
begin

text \<open>
  Run-time options: the flag parser (\<^verbatim>\<open>sanitizer_flag_parser.cpp\<close> and \<^verbatim>\<open>.h\<close>,
  \<^verbatim>\<open>internal_simple_strtoll\<close> of \<^verbatim>\<open>sanitizer_libc.cpp\<close>), the runtime's own flags
  (\<^verbatim>\<open>cqmsan_flags.inc\<close>) and \<^verbatim>\<open>InitializeFlags\<close> of \<^verbatim>\<open>cqmsan.cpp\<close>. C strings are lists of
  non-zero characters; the terminator is the end of the list.
\<close>

section \<open>Numbers\<close>

definition IsSpace :: "char \<Rightarrow> bool" where
  "IsSpace c \<longleftrightarrow> c \<in> {CHR '' '', CHR 0x0A, CHR 0x09, CHR 0x0C, CHR 0x0D, CHR 0x0B}"

definition IsDigit :: "char \<Rightarrow> bool" where
  "IsDigit c \<longleftrightarrow> of_char c \<ge> (of_char (CHR ''0'') :: nat) \<and> of_char c \<le> (of_char (CHR ''9'') :: nat)"

definition digit_val :: "char \<Rightarrow> u64" where
  "digit_val c = of_nat (of_char c - of_char (CHR ''0''))"

text \<open>The digit loop: the accumulator saturates at \<^verbatim>\<open>UINT64_MAX\<close>.\<close>

fun strtoll_digits :: "string \<Rightarrow> u64 \<Rightarrow> bool \<Rightarrow> u64 \<times> bool \<times> string" where
  "strtoll_digits [] res have = (res, have, [])"
| "strtoll_digits (c # s) res have =
    (if IsDigit c then
       (let res = (if res \<le> (-1) div 10 then res * 10 else -1);
            res = (if res \<le> -1 - digit_val c then res + digit_val c else -1)
        in strtoll_digits s res True)
     else (res, have, c # s))"

text \<open>Returns the value and the rest of the string (\<^verbatim>\<open>*endptr\<close>).\<close>

definition internal_simple_strtoll :: "string \<Rightarrow> int \<times> string" where
  "internal_simple_strtoll nptr =
    (let s = dropWhile IsSpace nptr;
         (neg, t) = (case s of c # r \<Rightarrow> if c = CHR ''+'' then (False, r)
             else if c = CHR ''-'' then (True, r) else (False, s) | [] \<Rightarrow> (False, s));
         (res, have, r) = strtoll_digits t 0 False;
         rest = (if have then r else s);
         v = (if \<not> neg then uint (min 0x7FFFFFFFFFFFFFFF res)
              else if res > 0x7FFFFFFFFFFFFFFF then - (2 ^ 63) else - uint res)
     in (v, rest))"

text \<open>Conversion to a 32-bit \<^verbatim>\<open>int\<close>.\<close>

definition to_int :: "int \<Rightarrow> int" where
  "to_int v = signed_take_bit 31 v"

section \<open>Flag handlers\<close>

text \<open>\<^verbatim>\<open>Parse\<close> of a handler: the new settings, or \<open>None\<close> where it returns false.\<close>

type_synonym 's handler = "'s \<Rightarrow> string \<Rightarrow> 's option"

definition ParseBool :: "string \<Rightarrow> bool option" where
  "ParseBool v = (if v = ''0'' \<or> v = ''no'' \<or> v = ''false'' then Some False
     else if v = ''1'' \<or> v = ''yes'' \<or> v = ''true'' then Some True else None)"

definition FlagHandler_bool :: "((bool \<Rightarrow> bool) \<Rightarrow> 's \<Rightarrow> 's) \<Rightarrow> 's handler" where
  "FlagHandler_bool upd s v = map_option (\<lambda>b. upd (\<lambda>_. b) s) (ParseBool v)"

definition FlagHandler_int :: "((int \<Rightarrow> int) \<Rightarrow> 's \<Rightarrow> 's) \<Rightarrow> 's handler" where
  "FlagHandler_int upd s v =
    (let (x, rest) = internal_simple_strtoll v in if rest = [] then Some (upd (\<lambda>_. to_int x) s) else None)"

definition FlagHandler_uptr :: "((uptr \<Rightarrow> uptr) \<Rightarrow> 's \<Rightarrow> 's) \<Rightarrow> 's handler" where
  "FlagHandler_uptr upd s v =
    (let (x, rest) = internal_simple_strtoll v in if rest = [] then Some (upd (\<lambda>_. word_of_int x) s) else None)"

definition FlagHandlerKeepGoing :: "((bool \<Rightarrow> bool) \<Rightarrow> 's \<Rightarrow> 's) \<Rightarrow> 's handler" where
  "FlagHandlerKeepGoing upd s v = map_option (\<lambda>b. upd (\<lambda>_. \<not> b) s) (ParseBool v)"

section \<open>The settings\<close>

text \<open>
  The runtime's own flags, and those common flags that modelled code reads. The handlers of
  the remaining common flags are a parameter of \<open>InitializeFlags\<close>.
\<close>

record Flags =
  exit_code :: int
  origin_history_size :: int
  origin_history_per_stack_limit :: int
  poison_heap_with_zeroes :: bool
  poison_stack_with_zeroes :: bool
  poison_in_malloc :: bool
  poison_in_free :: bool
  poison_in_dtor :: bool
  report_umrs :: bool
  wrap_signals :: bool
  print_stats :: bool
  halt_on_error :: bool
  atexit :: bool
  store_context_size :: int
  skip_known_sites :: bool
  umr_unwind_depth :: int
  umr_fast_unwind :: bool
  poison_reuse :: bool

record CommonFlags =
  malloc_context_size :: int
  handle_ioctl :: bool
  check_printf :: bool
  intercept_tls_get_addr :: bool
  abort_on_error :: bool
  exitcode :: int
  verbosity :: int
  allocator_may_return_null :: bool
  cf_clear_shadow_mmap_threshold :: uptr
  strict_memcmp :: bool

record settings =
  cq :: Flags
  cf :: CommonFlags
  unknown_flags :: "string list"

definition kMaxDepth :: int where
  "kMaxDepth = 7"

definition Flags_SetDefaults :: Flags where
  "Flags_SetDefaults = \<lparr>exit_code = -1, origin_history_size = kMaxDepth,
     origin_history_per_stack_limit = 20000, poison_heap_with_zeroes = False,
     poison_stack_with_zeroes = False, poison_in_malloc = True, poison_in_free = True,
     poison_in_dtor = False, report_umrs = True, wrap_signals = True, print_stats = False,
     halt_on_error = False, atexit = False, store_context_size = 20, skip_known_sites = False,
     umr_unwind_depth = 0, umr_fast_unwind = True, poison_reuse = True\<rparr>"

definition on_cq :: "(('a \<Rightarrow> 'a) \<Rightarrow> Flags \<Rightarrow> Flags) \<Rightarrow> ('a \<Rightarrow> 'a) \<Rightarrow> settings \<Rightarrow> settings" where
  "on_cq upd f = cq_update (upd f)"

definition on_cf :: "(('a \<Rightarrow> 'a) \<Rightarrow> CommonFlags \<Rightarrow> CommonFlags) \<Rightarrow> ('a \<Rightarrow> 'a) \<Rightarrow> settings \<Rightarrow> settings" where
  "on_cf upd f = cf_update (upd f)"

definition RegisterCQMsanFlags :: "(string \<times> settings handler) list" where
  "RegisterCQMsanFlags =
    [(''exit_code'', FlagHandler_int (on_cq exit_code_update)),
     (''origin_history_size'', FlagHandler_int (on_cq origin_history_size_update)),
     (''origin_history_per_stack_limit'', FlagHandler_int (on_cq origin_history_per_stack_limit_update)),
     (''poison_heap_with_zeroes'', FlagHandler_bool (on_cq poison_heap_with_zeroes_update)),
     (''poison_stack_with_zeroes'', FlagHandler_bool (on_cq poison_stack_with_zeroes_update)),
     (''poison_in_malloc'', FlagHandler_bool (on_cq poison_in_malloc_update)),
     (''poison_in_free'', FlagHandler_bool (on_cq poison_in_free_update)),
     (''poison_in_dtor'', FlagHandler_bool (on_cq poison_in_dtor_update)),
     (''report_umrs'', FlagHandler_bool (on_cq report_umrs_update)),
     (''wrap_signals'', FlagHandler_bool (on_cq wrap_signals_update)),
     (''print_stats'', FlagHandler_bool (on_cq print_stats_update)),
     (''halt_on_error'', FlagHandler_bool (on_cq halt_on_error_update)),
     (''atexit'', FlagHandler_bool (on_cq atexit_update)),
     (''store_context_size'', FlagHandler_int (on_cq store_context_size_update)),
     (''skip_known_sites'', FlagHandler_bool (on_cq skip_known_sites_update)),
     (''umr_unwind_depth'', FlagHandler_int (on_cq umr_unwind_depth_update)),
     (''umr_fast_unwind'', FlagHandler_bool (on_cq umr_fast_unwind_update)),
     (''poison_reuse'', FlagHandler_bool (on_cq poison_reuse_update)),
     (''keep_going'', FlagHandlerKeepGoing (on_cq halt_on_error_update))]"

text \<open>The common flags kept in the settings.\<close>

definition RegisterCommonFlags :: "(string \<times> settings handler) list" where
  "RegisterCommonFlags =
    [(''malloc_context_size'', FlagHandler_int (on_cf malloc_context_size_update)),
     (''handle_ioctl'', FlagHandler_bool (on_cf handle_ioctl_update)),
     (''check_printf'', FlagHandler_bool (on_cf check_printf_update)),
     (''intercept_tls_get_addr'', FlagHandler_bool (on_cf intercept_tls_get_addr_update)),
     (''abort_on_error'', FlagHandler_bool (on_cf abort_on_error_update)),
     (''exitcode'', FlagHandler_int (on_cf exitcode_update)),
     (''verbosity'', FlagHandler_int (on_cf verbosity_update)),
     (''allocator_may_return_null'', FlagHandler_bool (on_cf allocator_may_return_null_update)),
     (''clear_shadow_mmap_threshold'', FlagHandler_uptr (on_cf cf_clear_shadow_mmap_threshold_update)),
     (''strict_memcmp'', FlagHandler_bool (on_cf strict_memcmp_update))]"

section \<open>The parser\<close>

definition is_space :: "char \<Rightarrow> bool" where
  "is_space c \<longleftrightarrow> c \<in> {CHR '' '', CHR '','', CHR '':'', CHR 0x0A, CHR 0x09, CHR 0x0D}"

definition kMaxUnknownFlags :: nat where
  "kMaxUnknownFlags = 20"

definition run_handler ::
    "(string \<times> settings handler) list \<Rightarrow> string \<Rightarrow> string \<Rightarrow> settings \<Rightarrow> settings option outcome" where
  "run_handler hs name value s =
    (case map_of hs name of Some h \<Rightarrow> Ok (h s value)
     | None \<Rightarrow> check (length (unknown_flags s) < kMaxUnknownFlags)
         (Ok (Some (s\<lparr>unknown_flags := unknown_flags s @ [name]\<rparr>))))"

text \<open>The scanning half of \<^verbatim>\<open>parse_flag\<close>: the name, the value and the rest of the buffer.\<close>

definition is_quote :: "char \<Rightarrow> bool" where
  "is_quote c \<longleftrightarrow> c = CHR 0x27 \<or> c = CHR 0x22"

definition scan_flag :: "string \<Rightarrow> (string \<times> string \<times> string) outcome" where
  "scan_flag buf =
    (let stop = (\<lambda>c. c \<noteq> CHR ''='' \<and> \<not> is_space c);
         name = takeWhile stop buf; r = dropWhile stop buf
     in case r of [] \<Rightarrow> Died DieCalled
        | c # r1 \<Rightarrow> if c \<noteq> CHR ''='' then Died DieCalled
          else (case r1 of [] \<Rightarrow> Ok (name, [], [])
            | q # r2 \<Rightarrow> if is_quote q then
                (case dropWhile (\<lambda>c. c \<noteq> q) r2 of [] \<Rightarrow> Died DieCalled
                 | _ # r3 \<Rightarrow> Ok (name, takeWhile (\<lambda>c. c \<noteq> q) r2, r3))
              else Ok (name, takeWhile (\<lambda>c. \<not> is_space c) r1, dropWhile (\<lambda>c. \<not> is_space c) r1)))"

definition parse_flag ::
    "(string \<times> settings handler) list \<Rightarrow> string \<Rightarrow> settings \<Rightarrow> (string \<times> settings) outcome" where
  "parse_flag hs buf s = bind_ok (scan_flag buf) (\<lambda>(name, value, rest).
     bind_ok (run_handler hs name value s) (\<lambda>res.
       case res of None \<Rightarrow> Died DieCalled | Some s' \<Rightarrow> Ok (rest, s')))"

lemma scan_flag_shorter:
  assumes "scan_flag buf = Ok (name, value, rest)"
  shows "length rest < length buf"
proof -
  let ?r = "dropWhile (\<lambda>c. c \<noteq> CHR ''='' \<and> \<not> is_space c) buf"
  have le: "length ?r \<le> length buf" by (rule length_dropWhile_le)
  have dw: "length xs \<le> length ys" if "dropWhile P ys = x # xs" for P xs ys and x :: char
    using length_dropWhile_le [of P ys] that by simp
  have "length rest < length ?r"
    using assms by (auto simp: scan_flag_def Let_def less_Suc_eq_le length_dropWhile_le
      dest!: dw split: list.splits if_splits intro: le_SucI)
  with le show ?thesis by simp
qed

lemma parse_flag_shorter:
  "parse_flag hs buf s = Ok (rest, s') \<Longrightarrow> length rest < length buf"
  by (auto simp: parse_flag_def outcome_simps split: option.splits dest: scan_flag_shorter)

function parse_flags ::
    "(string \<times> settings handler) list \<Rightarrow> string \<Rightarrow> settings \<Rightarrow> settings outcome" where
  "parse_flags hs buf s =
    (case dropWhile is_space buf of [] \<Rightarrow>
       Ok (if malloc_context_size (cf s) < 1 then s\<lparr>cf := (cf s)\<lparr>malloc_context_size := 1\<rparr>\<rparr> else s)
     | c # r \<Rightarrow> (case parse_flag hs (c # r) s of Died d \<Rightarrow> Died d
        | Ok (rest, s') \<Rightarrow> parse_flags hs rest s'))"
  by auto
termination
proof (relation "measure (\<lambda>(hs, buf, s). length buf)", simp, clarsimp)
  fix hs :: "(string \<times> settings handler) list" and buf s c r rest s'
  assume d: "dropWhile is_space buf = c # r" and p: "parse_flag hs (c # r) s = Ok (rest, s')"
  have "length (c # r) \<le> length buf" using length_dropWhile_le [of is_space buf] d by simp
  with parse_flag_shorter [OF p] show "length rest < length buf" by simp
qed

declare parse_flags.simps [simp del]

definition ParseString ::
    "(string \<times> settings handler) list \<Rightarrow> string option \<Rightarrow> settings \<Rightarrow> settings outcome" where
  "ParseString hs str s = (case str of None \<Rightarrow> Ok s | Some buf \<Rightarrow> parse_flags hs buf s)"

section \<open>Start-up\<close>

definition kStackDepotMaxUseCount :: int where
  "kStackDepotMaxUseCount = 2 ^ 20"

text \<open>
  \<open>common0\<close> holds the common flags' defaults, \<open>default_options\<close> what the weak function
  \<^verbatim>\<open>__cqmsan_default_options\<close> returns, \<open>env_options\<close> the environment variable. Messages and the
  help text are not modelled.
\<close>

definition InitializeFlags ::
    "CommonFlags \<Rightarrow> (string \<times> settings handler) list \<Rightarrow> string option \<Rightarrow> string option \<Rightarrow> settings outcome" where
  "InitializeFlags common0 other_handlers default_options env_options =
    (let c = common0\<lparr>malloc_context_size := 20, handle_ioctl := True, check_printf := False,
               intercept_tls_get_addr := True, abort_on_error := True\<rparr>;
         s0 = \<lparr>cq = Flags_SetDefaults, cf = c, unknown_flags = []\<rparr>;
         hs = RegisterCQMsanFlags @ RegisterCommonFlags @ other_handlers
     in bind_ok (ParseString hs default_options s0) (\<lambda>s1.
        bind_ok (ParseString hs env_options s1) (\<lambda>s2.
        let s3 = (if exit_code (cq s2) \<noteq> -1 then s2\<lparr>cf := (cf s2)\<lparr>exitcode := exit_code (cq s2)\<rparr>\<rparr> else s2);
            f = cq s3
        in if origin_history_size f < 0 \<or> origin_history_size f > kMaxDepth then Died DieCalled
           else if origin_history_per_stack_limit f < 0 \<or>
               origin_history_per_stack_limit f > kStackDepotMaxUseCount div 2 then Died DieCalled
           else Ok (if store_context_size f < 1 then s3\<lparr>cq := f\<lparr>store_context_size := 1\<rparr>\<rparr> else s3))))"

section \<open>What the parser does with a list of settings\<close>

text \<open>An option string as a user writes it, and what it should mean: each handler in turn.\<close>

definition render_flags :: "(string \<times> string) list \<Rightarrow> string" where
  "render_flags fs = concat (map (\<lambda>(n, v). n @ ''='' @ v @ '':'') fs)"

primrec apply_flags ::
    "(string \<times> settings handler) list \<Rightarrow> (string \<times> string) list \<Rightarrow> settings \<Rightarrow> settings outcome" where
  "apply_flags hs [] s =
    Ok (if malloc_context_size (cf s) < 1 then s\<lparr>cf := (cf s)\<lparr>malloc_context_size := 1\<rparr>\<rparr> else s)"
| "apply_flags hs (f # fs) s = bind_ok (run_handler hs (fst f) (snd f) s) (\<lambda>res.
     case res of None \<Rightarrow> Died DieCalled | Some s' \<Rightarrow> apply_flags hs fs s')"

definition plain_flag :: "string \<times> string \<Rightarrow> bool" where
  "plain_flag f \<longleftrightarrow> (\<forall>c \<in> set (fst f). c \<noteq> CHR ''='' \<and> \<not> is_space c) \<and> (\<forall>c \<in> set (snd f). \<not> is_space c) \<and>
     (snd f = [] \<or> \<not> is_quote (hd (snd f)))"

lemma is_space_sep [simp]: "is_space (CHR '':'')" "\<not> is_space (CHR ''='')"
  by (simp_all add: is_space_def)

lemma scan_flag_plain:
  assumes "plain_flag (n, v)" and "rest = [] \<or> is_space (hd rest)"
  shows "scan_flag (n @ ''='' @ v @ rest) = Ok (n, v, rest)"
proof -
  let ?stop = "\<lambda>c. c \<noteq> CHR ''='' \<and> \<not> is_space c"
  have n: "\<And>c. c \<in> set n \<Longrightarrow> ?stop c" and v: "\<And>c. c \<in> set v \<Longrightarrow> \<not> is_space c"
    and q: "v = [] \<or> \<not> is_quote (hd v)"
    using assms(1) by (auto simp: plain_flag_def)
  have name: "takeWhile ?stop (n @ ''='' @ v @ rest) = n"
      "dropWhile ?stop (n @ ''='' @ v @ rest) = ''='' @ v @ rest"
    using n by (simp_all add: takeWhile_append2 dropWhile_append2)
  have val: "takeWhile (\<lambda>c. \<not> is_space c) (v @ rest) = v" "dropWhile (\<lambda>c. \<not> is_space c) (v @ rest) = rest"
    using v assms(2) by (cases rest; simp add: takeWhile_append2 dropWhile_append2)+
  have nq: "\<not> is_quote c" if "is_space c" for c
    using that by (auto simp: is_space_def is_quote_def)
  show ?thesis
  proof (cases "v @ rest")
    case Nil
    then show ?thesis unfolding scan_flag_def Let_def name by simp
  next
    case (Cons c r)
    then have "\<not> is_quote c" using q assms(2) nq by (cases v) auto
    then show ?thesis using val Cons unfolding scan_flag_def Let_def name by simp
  qed
qed

lemma parse_flags_skip: "parse_flags hs (dropWhile is_space buf) s = parse_flags hs buf s"
  by (subst (1 2) parse_flags.simps) simp

lemma plain_hd: "plain_flag (n, v) \<Longrightarrow> dropWhile is_space (n @ ''='' @ r) = n @ ''='' @ r"
  by (cases n) (auto simp: plain_flag_def)

lemma parse_flags_render:
  "\<forall>f \<in> set fs. plain_flag f \<Longrightarrow> parse_flags hs (render_flags fs) s = apply_flags hs fs s"
proof (induction fs arbitrary: s)
  case Nil
  then show ?case by (subst parse_flags.simps) (simp add: render_flags_def)
next
  case (Cons f fs)
  obtain n v where f: "f = (n, v)" by fastforce
  let ?rest = "'':'' @ render_flags fs"
  let ?buf = "n @ ''='' @ v @ ?rest"
  have buf: "render_flags ((n, v) # fs) = ?buf" by (simp add: render_flags_def)
  have scan: "scan_flag ?buf = Ok (n, v, ?rest)"
    using Cons.prems f by (intro scan_flag_plain) auto
  obtain c r where cr: "?buf = c # r" by (cases ?buf) auto
  have "dropWhile is_space ?buf = ?buf" using Cons.prems f by (intro plain_hd [of n v]) simp
  then have "dropWhile is_space ?buf = c # r" by (simp only: cr)
  then have "parse_flags hs ?buf s =
      (case parse_flag hs ?buf s of Died d \<Rightarrow> Died d | Ok (rest, s') \<Rightarrow> parse_flags hs rest s')"
    by (subst parse_flags.simps) (simp only: cr list.case)
  moreover have "parse_flags hs ?rest s' = apply_flags hs fs s'" for s'
  proof -
    have "parse_flags hs ?rest s' = parse_flags hs (dropWhile is_space (render_flags fs)) s'"
      by (subst parse_flags_skip [symmetric]) simp
    then show ?thesis using Cons.IH Cons.prems by (simp add: parse_flags_skip)
  qed
  ultimately show ?case
    unfolding buf f parse_flag_def scan
    by (cases "run_handler hs n v s") (auto split: option.splits)
qed

lemma parse_flags_context_size:
  "parse_flags hs buf s = Ok s' \<Longrightarrow> 1 \<le> malloc_context_size (cf s')"
proof (induction hs buf s rule: parse_flags.induct)
  case (1 hs buf s)
  show ?case
  proof (cases "dropWhile is_space buf")
    case Nil
    from "1.prems" show ?thesis
      unfolding parse_flags.simps [of hs buf s] Nil by (auto split: if_splits)
  next
    case (Cons c r)
    from "1.prems" "1.IH" [OF Cons] show ?thesis
      unfolding parse_flags.simps [of hs buf s] Cons by (auto split: outcome.splits)
  qed
qed

section \<open>Properties\<close>

text \<open>
  C15: an option string written as \<^verbatim>\<open>name=value:\<close> entries is parsed into exactly those
  assignments, applied in order; an unparsable value ends the process and an unknown name is
  recorded, up to the limit of twenty.
\<close>

theorem parse_flags_correct:
  assumes "\<forall>f \<in> set fs. plain_flag f"
  shows "ParseString hs (Some (render_flags fs)) s = apply_flags hs fs s"
  using parse_flags_render [OF assms] by (simp add: ParseString_def)

definition example_common :: CommonFlags where
  "example_common = \<lparr>malloc_context_size = 1, handle_ioctl = False, check_printf = True,
     intercept_tls_get_addr = False, abort_on_error = False, exitcode = 1, verbosity = 0,
     allocator_may_return_null = False, cf_clear_shadow_mmap_threshold = 65536, strict_memcmp = True\<rparr>"

definition example_settings :: settings where
  "example_settings = \<lparr>cq = Flags_SetDefaults, cf = example_common, unknown_flags = []\<rparr>"

theorem parse_flags_correct_witness:
  "ParseString RegisterCQMsanFlags (Some (render_flags [(''halt_on_error'', ''1''), (''foo'', ''x'')])) example_settings
   = Ok (example_settings\<lparr>cq := Flags_SetDefaults\<lparr>halt_on_error := True\<rparr>, unknown_flags := [''foo'']\<rparr>)"
proof -
  have "apply_flags RegisterCQMsanFlags [(''halt_on_error'', ''1''), (''foo'', ''x'')] example_settings
   = Ok (example_settings\<lparr>cq := Flags_SetDefaults\<lparr>halt_on_error := True\<rparr>, unknown_flags := [''foo'']\<rparr>)"
    by (simp add: run_handler_def RegisterCQMsanFlags_def FlagHandler_bool_def ParseBool_def on_cq_def
      example_settings_def example_common_def kMaxUnknownFlags_def)
  moreover have "\<forall>f \<in> set [(''halt_on_error'', ''1''), (''foo'', ''x'')]. plain_flag f"
    by (simp add: plain_flag_def is_space_def is_quote_def)
  ultimately show ?thesis using parse_flags_correct by metis
qed

text \<open>
  Whatever the option strings, the flags that survive start-up are in range: the origin
  history size and the per-stack limit within their documented bounds, the context sizes at
  least one. Everything else ends the process.
\<close>

theorem initialized_flags_in_range:
  assumes "InitializeFlags c oh d e = Ok s"
  shows "0 \<le> origin_history_size (cq s) \<and> origin_history_size (cq s) \<le> kMaxDepth \<and>
    0 \<le> origin_history_per_stack_limit (cq s) \<and>
    origin_history_per_stack_limit (cq s) \<le> kStackDepotMaxUseCount div 2 \<and>
    1 \<le> store_context_size (cq s) \<and> 1 \<le> malloc_context_size (cf s)"
proof -
  have ps: "1 \<le> malloc_context_size (cf t')"
    if "ParseString hs str t = Ok t'" "1 \<le> malloc_context_size (cf t)" for hs str t t'
    using that by (auto simp: ParseString_def split: option.splits dest: parse_flags_context_size)
  show ?thesis
    using assms ps by (fastforce simp: InitializeFlags_def Let_def outcome_simps split: if_splits)
qed

theorem initialized_flags_in_range_witness:
  "\<exists>s. InitializeFlags example_common [] None None = Ok s \<and> origin_history_size (cq s) \<le> kMaxDepth"
proof -
  obtain s where s: "InitializeFlags example_common [] None None = Ok s"
    by (simp add: InitializeFlags_def ParseString_def Flags_SetDefaults_def kMaxDepth_def
      kStackDepotMaxUseCount_def)
  with initialized_flags_in_range [OF s] show ?thesis by blast
qed

end
