(* ===== verification/Origin.thy ===== *)
theory Origin
  imports Depot Flags
begin

text \<open>
  Origin ids (\<^verbatim>\<open>cqmsan_origin.h\<close>): 32-bit words that say how a value came to be uninitialised,
  their encoding as heap, stack and chained ids, and the histories kept in the depots of
  \<open>Depot\<close>; \<^verbatim>\<open>ChainOrigin\<close> of \<^verbatim>\<open>cqmsan.cpp\<close> and the loop of \<^verbatim>\<open>DescribeOrigin\<close>
  (\<^verbatim>\<open>cqmsan_report.cpp\<close>) that follows a history.
\<close>

section \<open>Encoding\<close>

definition kDepthBits :: nat where
  "kDepthBits = 3"

definition kDepthShift :: nat where
  "kDepthShift = 32 - kDepthBits - 1"

definition kHeapShift :: nat where
  "kHeapShift = 31"

definition kChainedIdMask :: u32 where
  "kChainedIdMask = drop_bit (32 - kDepthShift) (-1)"

definition kStackIdMask :: u32 where
  "kStackIdMask = drop_bit (32 - kDepthShift) (-1)"

definition kHeapIdMask :: u32 where
  "kHeapIdMask = drop_bit (32 - kHeapShift) (-1)"

definition isValidId :: "u32 \<Rightarrow> bool" where
  "isValidId i \<longleftrightarrow> i \<noteq> 0 \<and> i \<noteq> -1"

definition isHeapOrigin :: "u32 \<Rightarrow> bool" where
  "isHeapOrigin raw \<longleftrightarrow> drop_bit kHeapShift raw = 0"

definition isStackOrigin :: "u32 \<Rightarrow> bool" where
  "isStackOrigin raw \<longleftrightarrow> drop_bit kDepthShift raw = push_bit kDepthBits 1"

definition isChainedOrigin :: "u32 \<Rightarrow> bool" where
  "isChainedOrigin raw \<longleftrightarrow> drop_bit kDepthShift raw > push_bit kDepthBits 1"

definition getChainedId :: "u32 \<Rightarrow> u32 outcome" where
  "getChainedId raw = check (isChainedOrigin raw) (Ok (raw AND kChainedIdMask))"

definition getStackId :: "u32 \<Rightarrow> u32 outcome" where
  "getStackId raw = check (isStackOrigin raw) (Ok (raw AND kChainedIdMask))"

definition getHeapId :: "u32 \<Rightarrow> u32 outcome" where
  "getHeapId raw = check (isHeapOrigin raw) (Ok (raw AND kHeapIdMask))"

text \<open>\<^verbatim>\<open>depth()\<close>, without its check that the origin is chained (every caller has tested it).\<close>

definition depth_bits :: "u32 \<Rightarrow> int" where
  "depth_bits raw = uint (drop_bit kDepthShift raw AND (push_bit kDepthBits 1 - 1))"

definition depth :: "u32 \<Rightarrow> int outcome" where
  "depth raw = check (isChainedOrigin raw) (Ok (depth_bits raw))"

definition CreateStackOrigin :: "u32 \<Rightarrow> u32 outcome" where
  "CreateStackOrigin i = check (i AND kStackIdMask = i) (Ok (push_bit kHeapShift 1 OR i))"

text \<open>The word the last line of \<^verbatim>\<open>CreateChainedOrigin\<close> builds.\<close>

definition chained_raw :: "int \<Rightarrow> u32 \<Rightarrow> u32" where
  "chained_raw d chained_id = push_bit kHeapShift 1 OR push_bit kDepthShift (word_of_int d) OR chained_id"

section \<open>Histories\<close>

text \<open>
  The depots behind origins, and the use counts of stack ids (a two-level map beside the stack
  depot).
\<close>

record 's origins =
  theDepot :: "'s stack_depot"
  chainedOriginDepot :: chained_depot
  useCounts :: "u32 two_level"

definition origins0 :: "'s \<Rightarrow> 's origins" where
  "origins0 e = \<lparr>theDepot = depot0 e, chainedOriginDepot = depot0 (), useCounts = (\<lambda>_. None)\<rparr>"

definition CreateHeapOrigin ::
    "'s trace_store \<Rightarrow> 's origins \<Rightarrow> StackTrace \<Rightarrow> (u32 \<times> 's origins) outcome option" where
  "CreateHeapOrigin S st stack =
    map_option (\<lambda>r. bind_ok r (\<lambda>(stack_id, d).
        check (stack_id \<noteq> 0) (check (stack_id AND kHeapIdMask = stack_id) (Ok (stack_id, st\<lparr>theDepot := d\<rparr>)))))
      (StackDepotPut S (theDepot st) stack)"

definition use_count :: "'s trace_store \<Rightarrow> 's origins \<Rightarrow> u32 \<Rightarrow> int" where
  "use_count S st i = sint (fst (tlm_get (kNodesSize2 (StackDepotNode S)) 0 (useCounts st) (ucast i)))"

definition inc_use_count_unsafe :: "'s trace_store \<Rightarrow> 's origins \<Rightarrow> u32 \<Rightarrow> 's origins" where
  "inc_use_count_unsafe S st i =
    (let k = kNodesSize2 (StackDepotNode S); (c, t) = tlm_get k 0 (useCounts st) (ucast i)
     in st\<lparr>useCounts := tlm_set k 0 t (ucast i) (c + 1)\<rparr>)"

text \<open>
  \<^verbatim>\<open>StackDepotPut_WithHandle\<close> returns a handle on the node array's cell at the id, which is
  never null, so the validity test that follows it never returns early.
\<close>

definition CreateChainedOrigin ::
    "Flags \<Rightarrow> 's trace_store \<Rightarrow> 's origins \<Rightarrow> u32 \<Rightarrow> StackTrace \<Rightarrow> (u32 \<times> 's origins) outcome option" where
  "CreateChainedOrigin f S st prev stack =
    (let d0 = (if isChainedOrigin prev then depth_bits prev else 0) in
     if origin_history_size f > 0 \<and> d0 + 1 \<ge> origin_history_size f then Some (Ok (prev, st))
     else (let d = (if origin_history_size f > 0 then d0 + 1 else d0) in
      if origin_history_size f > 0 \<and> \<not> d < 2 ^ kDepthBits then Some (Died CheckFailed)
      else (case StackDepotPut S (theDepot st) stack of None \<Rightarrow> None
        | Some (Died x) \<Rightarrow> Some (Died x)
        | Some (Ok (h, sd)) \<Rightarrow>
          (let st1 = st\<lparr>theDepot := sd\<rparr> in
           if origin_history_per_stack_limit f > 0 \<and> use_count S st1 h > origin_history_per_stack_limit f
           then Some (Ok (prev, st1))
           else (case ChainedOriginDepotPut (chainedOriginDepot st1) h prev of None \<Rightarrow> None
             | Some (Died x) \<Rightarrow> Some (Died x)
             | Some (Ok (inserted, chained_id, cd)) \<Rightarrow>
               Some (check (chained_id AND kChainedIdMask = chained_id)
                (let st2 = st1\<lparr>chainedOriginDepot := cd\<rparr>;
                     st3 = (if inserted \<and> origin_history_per_stack_limit f > 0
                            then inc_use_count_unsafe S st2 h else st2)
                 in Ok (chained_raw d chained_id, st3))))))))"

definition getNextChainedOrigin :: "'s trace_store \<Rightarrow> 's origins \<Rightarrow> u32 \<Rightarrow> (StackTrace \<times> u32) outcome" where
  "getNextChainedOrigin S st raw =
    check (isChainedOrigin raw) (bind_ok (getChainedId raw) (\<lambda>cid.
      bind_ok (ChainedOriginDepotGet (chainedOriginDepot st) cid) (\<lambda>(stack_id, prev).
        bind_ok (StackDepotGet S (theDepot st) stack_id) (\<lambda>stack. Ok (stack, prev)))))"

definition getStackTraceForHeapOrigin :: "'s trace_store \<Rightarrow> 's origins \<Rightarrow> u32 \<Rightarrow> StackTrace outcome" where
  "getStackTraceForHeapOrigin S st raw =
    bind_ok (getHeapId raw) (StackDepotGet S (theDepot st))"

text \<open>\<open>in_signal_handler\<close>: the current thread exists and is in a signal handler.\<close>

definition TAG_UNKNOWN :: u32 where
  "TAG_UNKNOWN = 0"

definition ChainOrigin ::
    "Flags \<Rightarrow> 's trace_store \<Rightarrow> bool \<Rightarrow> 's origins \<Rightarrow> u32 \<Rightarrow> StackTrace \<Rightarrow> (u32 \<times> 's origins) outcome option" where
  "ChainOrigin f S in_signal_handler st i stack =
    (if in_signal_handler then Some (Ok (i, st))
     else CreateChainedOrigin f S st i (stack\<lparr>tag := TAG_UNKNOWN\<rparr>))"

text \<open>
  The loop of \<^verbatim>\<open>DescribeOrigin\<close>: the traces it prints, newest first, and the origin it ends at;
  \<open>None\<close> if it never ends.
\<close>

partial_function (option) describe_chain ::
    "'s trace_store \<Rightarrow> 's origins \<Rightarrow> u32 \<Rightarrow> StackTrace list \<Rightarrow> (StackTrace list \<times> u32) outcome option" where
  "describe_chain S st o1 printed =
    (if isChainedOrigin o1 then
       (case getNextChainedOrigin S st o1 of Died x \<Rightarrow> Some (Died x)
        | Ok (stack, o2) \<Rightarrow> describe_chain S st o2 (printed @ [stack]))
     else Some (Ok (printed, o1)))"

section \<open>Encoding lemmas\<close>

lemmas origin_consts = kDepthBits_def kDepthShift_def kHeapShift_def

lemma id_masks: "kChainedIdMask = mask 28" "kStackIdMask = mask 28" "kHeapIdMask = mask 31"
  unfolding kChainedIdMask_def kStackIdMask_def kHeapIdMask_def origin_consts
  by (rule bit_word_eqI; auto simp: bit_simps)+

text \<open>The top four bits decide the kind.\<close>

lemma isHeapOrigin_iff: "isHeapOrigin raw \<longleftrightarrow> unat raw < 2 ^ 31"
proof -
  have "isHeapOrigin raw \<longleftrightarrow> unat (drop_bit 31 raw) = 0"
    unfolding isHeapOrigin_def origin_consts by (metis unat_eq_zero)
  also have "\<dots> \<longleftrightarrow> unat raw div 2 ^ 31 = 0" unfolding unat_drop_bit_eq unfolding drop_bit_eq_div ..
  finally show ?thesis by auto
qed

lemma top_bits: "unat (drop_bit 28 raw) = unat raw div 2 ^ 28" for raw :: u32
  unfolding unat_drop_bit_eq unfolding drop_bit_eq_div ..

lemma isStackOrigin_iff: "isStackOrigin raw \<longleftrightarrow> unat raw div 2 ^ 28 = 8"
  using top_bits [of raw] by (auto simp: isStackOrigin_def origin_consts word_unat_eq_iff)

lemma isChainedOrigin_iff: "isChainedOrigin raw \<longleftrightarrow> unat raw div 2 ^ 28 > 8"
  using top_bits [of raw] by (auto simp: isChainedOrigin_def origin_consts word_less_nat_alt)

lemma small_id: "i AND mask 28 = i \<longleftrightarrow> unat i < 2 ^ 28" for i :: u32
proof -
  have "i AND mask 28 = i \<longleftrightarrow> unat (take_bit 28 i) = unat i"
    by (simp add: word_unat_eq_iff flip: take_bit_eq_mask)
  also have "\<dots> \<longleftrightarrow> unat i mod 2 ^ 28 = unat i" unfolding unsigned_take_bit_eq unfolding take_bit_eq_mod ..
  also have "\<dots> \<longleftrightarrow> unat i < 2 ^ 28" using mod_less_divisor [of "2 ^ 28" "unat i"] by auto
  finally show ?thesis .
qed

lemma join_parts:
  fixes x c :: u32
  assumes "unat c < 2 ^ 28"
  shows "drop_bit 28 (push_bit 28 x OR c) = take_bit 4 x" and "(push_bit 28 x OR c) AND mask 28 = c"
proof -
  have "take_bit 28 c = c"
    using assms small_id [of c] by (simp flip: take_bit_eq_mask)
  then have hi: "bit c n \<Longrightarrow> n < 28" for n by (metis bit_take_bit_iff)
  show "drop_bit 28 (push_bit 28 x OR c) = take_bit 4 x"
    using hi by (intro bit_word_eqI) (auto simp: bit_simps)
  show "(push_bit 28 x OR c) AND mask 28 = c"
    using hi by (intro bit_word_eqI) (auto simp: bit_simps)
qed

lemma chained_raw_join:
  assumes "0 \<le> d" "d < 8"
  shows "chained_raw d c = push_bit 28 (8 OR word_of_int d) OR c"
  unfolding chained_raw_def origin_consts push_bit_or by (simp add: push_bit_eq_mult or.assoc)

lemma word_of_depth:
  assumes "0 \<le> d" "d < 8"
  shows "take_bit 4 (8 OR word_of_int d :: u32) = word_of_int (8 + d)"
    and "word_of_int (8 + d) AND 7 = (word_of_int d :: u32)"
proof -
  have "d = 0 \<or> d = 1 \<or> d = 2 \<or> d = 3 \<or> d = 4 \<or> d = 5 \<or> d = 6 \<or> d = 7" using assms by arith
  then show "take_bit 4 (8 OR word_of_int d :: u32) = word_of_int (8 + d)"
      "word_of_int (8 + d) AND 7 = (word_of_int d :: u32)"
    by auto
qed

lemma chained_raw_parts:
  assumes "0 \<le> d" "d < 8" and "unat c < 2 ^ 28"
  shows "drop_bit 28 (chained_raw d c) = word_of_int (8 + d)" and "chained_raw d c AND mask 28 = c"
  unfolding chained_raw_join [OF assms(1,2)] join_parts [OF assms(3)]
  by (rule word_of_depth [OF assms(1,2)], rule refl)

lemma chained_raw_decode:
  assumes "0 < d" "d < 8" and "unat c < 2 ^ 28"
  shows "isChainedOrigin (chained_raw d c)" and "depth_bits (chained_raw d c) = d"
    and "getChainedId (chained_raw d c) = Ok c"
proof -
  note p = chained_raw_parts [of d c]
  have u: "uint (word_of_int x :: u32) = x" if "0 \<le> x" "x < 16" for x
    using that by (simp add: uint_word_of_int)
  show ch: "isChainedOrigin (chained_raw d c)"
    using p assms u [of "8 + d"] by (simp add: isChainedOrigin_def origin_consts word_less_def)
  show "depth_bits (chained_raw d c) = d"
    using p assms u [of d] word_of_depth(2) [of d] by (simp add: depth_bits_def origin_consts)
  show "getChainedId (chained_raw d c) = Ok c"
    using ch p assms by (simp add: getChainedId_def id_masks)
qed

lemma depth_bits_range: "0 \<le> depth_bits r" "depth_bits r \<le> 7"
proof -
  have "depth_bits r = uint (take_bit 3 (drop_bit 28 r))"
    by (simp add: depth_bits_def origin_consts take_bit_eq_mask mask_eq_exp_minus_1)
  also have "\<dots> \<le> 7"
    unfolding unsigned_take_bit_eq using take_bit_int_less_exp [of 3 "uint (drop_bit 28 r)"] by simp
  finally show "0 \<le> depth_bits r" "depth_bits r \<le> 7" by (simp_all add: depth_bits_def)
qed

section \<open>History lemmas\<close>

definition origins_wf :: "'s trace_store \<Rightarrow> 's origins \<Rightarrow> bool" where
  "origins_wf S st \<longleftrightarrow> stacks_wf S (theDepot st) \<and> chained_wf (chainedOriginDepot st)"

text \<open>Neither depot has used up its ids.\<close>

definition has_room :: "'s origins \<Rightarrow> bool" where
  "has_room st \<longleftrightarrow> unat (n_uniq_ids (theDepot st)) + 1 < 2 ^ 31 \<and>
     unat (n_uniq_ids (chainedOriginDepot st)) + 1 < 2 ^ 28"

text \<open>\<open>history S st raw n\<close>: the history of an origin is recorded and has \<open>n\<close> events.\<close>

inductive history :: "'s trace_store \<Rightarrow> 's origins \<Rightarrow> u32 \<Rightarrow> nat \<Rightarrow> bool" for S st where
  root: "\<not> isChainedOrigin raw \<Longrightarrow> history S st raw 0"
| event: "isChainedOrigin raw \<Longrightarrow> raw AND kChainedIdMask \<in> ids (chainedOriginDepot st) \<Longrightarrow>
    ChainedOriginDepotGet (chainedOriginDepot st) (raw AND kChainedIdMask) = Ok (h, prev) \<Longrightarrow>
    h = 0 \<or> h \<in> ids (theDepot st) \<Longrightarrow> history S st prev n \<Longrightarrow> history S st raw (Suc n)"

definition origin_depth :: "u32 \<Rightarrow> nat" where
  "origin_depth raw = (if isChainedOrigin raw then nat (depth_bits raw) else 0)"

text \<open>The depth field of an origin counts the events of its recorded history.\<close>

definition origin_ok :: "'s trace_store \<Rightarrow> 's origins \<Rightarrow> u32 \<Rightarrow> bool" where
  "origin_ok S st raw \<longleftrightarrow> history S st raw (origin_depth raw)"

definition extends :: "'s origins \<Rightarrow> 's origins \<Rightarrow> bool" where
  "extends st st' \<longleftrightarrow> ids (theDepot st) \<subseteq> ids (theDepot st') \<and>
     ids (chainedOriginDepot st) \<subseteq> ids (chainedOriginDepot st') \<and>
     (\<forall>i \<in> ids (chainedOriginDepot st).
        ChainedOriginDepotGet (chainedOriginDepot st') i = ChainedOriginDepotGet (chainedOriginDepot st) i)"

lemma extends_refl [simp]: "extends st st"
  by (simp add: extends_def)

lemma history_extends: "history S st raw n \<Longrightarrow> extends st st' \<Longrightarrow> history S st' raw n"
proof (induction rule: history.induct)
  case (root raw)
  then show ?case by (simp add: history.root)
next
  case (event raw h prev n)
  then show ?case by (intro history.event [where h = h and prev = prev]) (auto simp: extends_def)
qed

lemma stack_get:
  assumes "stacks_wf S d" and "h = 0 \<or> h \<in> ids d"
  shows "\<exists>t. StackDepotGet S d h = Ok t"
  using assms stacks.Get_node [of S d h] by (auto simp: StackDepotGet_def stacks_wf_def depot_Get_def)

lemma describe_chain_history:
  assumes "history S st raw n" and "origins_wf S st"
  shows "\<exists>ts o'. describe_chain S st raw printed = Some (Ok (printed @ ts, o')) \<and> length ts = n \<and>
    \<not> isChainedOrigin o'"
  using assms(1)
proof (induction arbitrary: printed rule: history.induct)
  case (root raw)
  then show ?case by (subst describe_chain.simps) simp
next
  case (event raw h prev n)
  obtain t where t: "StackDepotGet S (theDepot st) h = Ok t"
    using stack_get event.hyps(4) assms(2) by (meson origins_wf_def)
  then have next_o: "getNextChainedOrigin S st raw = Ok (t, prev)"
    using event.hyps(1,3) by (simp add: getNextChainedOrigin_def getChainedId_def)
  obtain ts o' where ts: "describe_chain S st prev (printed @ [t]) = Some (Ok ((printed @ [t]) @ ts, o'))"
      "length ts = n" "\<not> isChainedOrigin o'"
    using event.IH by blast
  have "describe_chain S st raw printed = describe_chain S st prev (printed @ [t])"
    using event.hyps(1) next_o by (subst describe_chain.simps) simp
  then show ?case using ts by (intro exI [of _ "t # ts"] exI [of _ o']) simp
qed

lemma StackDepotPut_total:
  assumes wf: "stacks_wf S d" and room: "unat (n_uniq_ids d) + 1 < 2 ^ 31"
  obtains i d' where "StackDepotPut S d a = Some (Ok (i, d'))" "stacks_wf S d'"
    "i = 0 \<or> i \<in> ids d'" "ids d \<subseteq> ids d'"
proof (cases "trace a = []")
  case True
  then have "StackDepotPut S d a = Some (Ok (0, d))"
    by (simp add: StackDepotPut_def stacks.Put_invalid StackDepotNode_def depot_Put_def)
  with wf that show thesis by blast
next
  case False
  from wf False show thesis
    by (cases rule: StackDepotPut_cases) (use room that in auto)
qed

lemma ChainedOriginDepotPut_total:
  assumes wf: "chained_wf d" and room: "unat (n_uniq_ids d) + 1 < 2 ^ 28"
  obtains ins i d' where "ChainedOriginDepotPut d h p = Some (Ok (ins, i, d'))" "chained_wf d'"
    "i \<in> ids d'" "unat i < 2 ^ 28" "ChainedOriginDepotGet d' i = Ok (h, p)" "ids d \<subseteq> ids d'"
    "\<forall>j \<in> ids d. ChainedOriginDepotGet d' j = ChainedOriginDepotGet d j"
  using wf
proof (cases rule: ChainedOriginDepotPut_cases [of d h p])
  case (found i)
  then show ?thesis using that [of False i d] wf chained_id_bound [OF wf] by blast
next
  case (inserted i d')
  then show ?thesis using that [of True i d'] chained_id_bound [OF inserted(3), of i] by blast
next
  case full
  with room show ?thesis by simp
qed

lemma inc_use_count_sel [simp]:
  "theDepot (inc_use_count_unsafe S st i) = theDepot st"
  "chainedOriginDepot (inc_use_count_unsafe S st i) = chainedOriginDepot st"
  by (simp_all add: inc_use_count_unsafe_def Let_def split: prod.splits)

text \<open>Adding one event to a recorded history.\<close>

lemma CreateChainedOrigin_step:
  assumes wf: "origins_wf S st" and room: "has_room st" and ok: "origin_ok S st prev"
    and hist: "0 < origin_history_size f" "origin_history_size f \<le> kMaxDepth"
  obtains (kept) st' where "CreateChainedOrigin f S st prev stack = Some (Ok (prev, st'))"
      "origins_wf S st'" "extends st st'"
  | (chained) r st' where "CreateChainedOrigin f S st prev stack = Some (Ok (r, st'))"
      "origins_wf S st'" "extends st st'" "isChainedOrigin r"
      "origin_depth r = Suc (origin_depth prev)" "int (origin_depth r) < origin_history_size f"
      "origin_ok S st' r" "\<exists>t. getNextChainedOrigin S st' r = Ok (t, prev)"
proof -
  define d0 where "d0 = (if isChainedOrigin prev then depth_bits prev else 0)"
  have d0: "0 \<le> d0" "nat d0 = origin_depth prev"
    using depth_bits_range [of prev] by (auto simp: d0_def origin_depth_def)
  show thesis
  proof (cases "d0 + 1 \<ge> origin_history_size f")
    case True
    then have "CreateChainedOrigin f S st prev stack = Some (Ok (prev, st))"
      using hist(1) by (simp add: CreateChainedOrigin_def d0_def [symmetric])
    with wf kept show thesis by (simp add: extends_refl)
  next
    case False
    then have d8: "d0 + 1 < 8" using hist(2) by (simp add: kMaxDepth_def)
    obtain h sd where h: "StackDepotPut S (theDepot st) stack = Some (Ok (h, sd))" "stacks_wf S sd"
        "h = 0 \<or> h \<in> ids sd" "ids (theDepot st) \<subseteq> ids sd"
      using StackDepotPut_total wf room by (metis origins_wf_def has_room_def)
    let ?st1 = "st\<lparr>theDepot := sd\<rparr>"
    show thesis
    proof (cases "origin_history_per_stack_limit f > 0 \<and> use_count S ?st1 h > origin_history_per_stack_limit f")
      case True
      then have "CreateChainedOrigin f S st prev stack = Some (Ok (prev, ?st1))"
        using False hist(1) d8 h(1) by (simp add: CreateChainedOrigin_def d0_def [symmetric] kDepthBits_def)
      moreover have "origins_wf S ?st1" "extends st ?st1"
        using wf h by (auto simp: origins_wf_def extends_def)
      ultimately show thesis by (rule kept)
    next
      case lim: False
      obtain ins i cd where c: "ChainedOriginDepotPut (chainedOriginDepot st) h prev = Some (Ok (ins, i, cd))"
          "chained_wf cd" "i \<in> ids cd" "unat i < 2 ^ 28" "ChainedOriginDepotGet cd i = Ok (h, prev)"
          "ids (chainedOriginDepot st) \<subseteq> ids cd"
          "\<forall>j \<in> ids (chainedOriginDepot st). ChainedOriginDepotGet cd j = ChainedOriginDepotGet (chainedOriginDepot st) j"
        using ChainedOriginDepotPut_total wf room by (metis origins_wf_def has_room_def)
      define st' where "st' = (let st2 = ?st1\<lparr>chainedOriginDepot := cd\<rparr> in
        if ins \<and> origin_history_per_stack_limit f > 0 then inc_use_count_unsafe S st2 h else st2)"
      have sel: "theDepot st' = sd" "chainedOriginDepot st' = cd" by (simp_all add: st'_def Let_def)
      let ?r = "chained_raw (d0 + 1) i"
      have dec: "isChainedOrigin ?r" "depth_bits ?r = d0 + 1" "getChainedId ?r = Ok i"
        using chained_raw_decode [of "d0 + 1" i] d0(1) d8 c(4) by simp_all
      have im: "?r AND kChainedIdMask = i" using dec(1,3) by (simp add: getChainedId_def)
      have "i AND kChainedIdMask = i" using c(4) by (simp add: id_masks small_id)
      then have cr: "CreateChainedOrigin f S st prev stack = Some (Ok (?r, st'))"
        using False hist(1) d8 h(1) lim c(1) im
        by (auto simp add: CreateChainedOrigin_def d0_def [symmetric] kDepthBits_def st'_def Let_def)
      have wf': "origins_wf S st'" and ext': "extends st st'"
        using h c sel by (auto simp: origins_wf_def extends_def)
      have dep: "origin_depth ?r = Suc (origin_depth prev)"
        using dec(1,2) d0 by (simp add: origin_depth_def [of ?r] nat_add_distrib)
      have "history S st' ?r (Suc (origin_depth prev))"
        using ok history_extends [OF _ ext'] dec(1) c(3,5) h(3) sel im
        by (intro history.event [where h = h and prev = prev]) (auto simp: origin_ok_def)
      then have okr: "origin_ok S st' ?r" by (simp add: origin_ok_def dep)
      obtain t where "StackDepotGet S sd h = Ok t" using stack_get h by blast
      then have "\<exists>t. getNextChainedOrigin S st' ?r = Ok (t, prev)"
        using dec(1,3) c(5) sel by (simp add: getNextChainedOrigin_def)
      moreover have "int (origin_depth ?r) < origin_history_size f"
        using False d0 dep by simp
      ultimately show thesis using chained [OF cr wf' ext' dec(1) dep _ okr] by blast
    qed
  qed
qed

section \<open>Properties\<close>

text \<open>
  C13: origin ids are unambiguous. Every 32-bit word is of exactly one of the three kinds, and
  the ids that stack origins, heap origins and chained origins of depth one to seven are built
  from are read back from them.
\<close>

theorem origin_encoding:
  "(isHeapOrigin raw \<noteq> (isStackOrigin raw \<or> isChainedOrigin raw)) \<and>
   \<not> (isStackOrigin raw \<and> isChainedOrigin raw) \<and>
   (unat i < 2 ^ 28 \<longrightarrow> (\<exists>r. CreateStackOrigin i = Ok r \<and> isStackOrigin r \<and> getStackId r = Ok i)) \<and>
   (unat i < 2 ^ 31 \<longrightarrow> isHeapOrigin i \<and> getHeapId i = Ok i) \<and>
   (0 < d \<and> d \<le> kMaxDepth \<and> unat i < 2 ^ 28 \<longrightarrow> isChainedOrigin (chained_raw d i) \<and>
      depth (chained_raw d i) = Ok d \<and> getChainedId (chained_raw d i) = Ok i)"
proof (intro conjI impI)
  have lim: "unat raw < 2 ^ 32" using unsigned_less [of raw, where 'a = nat] by simp
  show "isHeapOrigin raw \<noteq> (isStackOrigin raw \<or> isChainedOrigin raw)"
  proof -
    have "unat raw < 2 ^ 31 \<longleftrightarrow> unat raw div 2 ^ 28 < 8" by (simp add: div_less_iff_less_mult)
    then show ?thesis by (auto simp: isHeapOrigin_iff isStackOrigin_iff isChainedOrigin_iff)
  qed
  show "\<not> (isStackOrigin raw \<and> isChainedOrigin raw)"
    by (simp add: isStackOrigin_iff isChainedOrigin_iff)
next
  assume i: "unat i < 2 ^ 28"
  have r: "push_bit kHeapShift 1 OR i = chained_raw 0 i" by (simp add: chained_raw_def)
  have "isStackOrigin (chained_raw 0 i)"
    using chained_raw_parts(1) [of 0 i] i by (simp add: isStackOrigin_def origin_consts)
  then show "\<exists>r. CreateStackOrigin i = Ok r \<and> isStackOrigin r \<and> getStackId r = Ok i"
    using chained_raw_parts(2) [of 0 i] i small_id [of i]
    unfolding CreateStackOrigin_def r by (simp add: getStackId_def id_masks)
next
  assume i: "unat i < 2 ^ 31"
  then show "isHeapOrigin i" by (simp add: isHeapOrigin_iff)
  have "take_bit 31 i = i"
    using i unfolding word_unat_eq_iff unsigned_take_bit_eq by (rule take_bit_nat_eq_self)
  then show "getHeapId i = Ok i"
    using i by (simp add: getHeapId_def isHeapOrigin_iff id_masks flip: take_bit_eq_mask)
next
  assume a: "0 < d \<and> d \<le> kMaxDepth \<and> unat i < 2 ^ 28"
  then show "isChainedOrigin (chained_raw d i)" "depth (chained_raw d i) = Ok d"
      "getChainedId (chained_raw d i) = Ok i"
    using chained_raw_decode [of d i] by (auto simp: kMaxDepth_def depth_def)
qed

theorem origin_encoding_witness:
  "isStackOrigin 0x80000005 \<and> getHeapId 5 = Ok 5 \<and> depth (chained_raw 3 5) = Ok 3"
proof -
  have "isStackOrigin 0x80000005" by (simp add: isStackOrigin_iff)
  then show ?thesis
    using origin_encoding [where raw = "0x80000005" and i = 5 and d = 3] by (auto simp: kMaxDepth_def)
qed

text \<open>
  C12: with a bounded history size, recording that a value was stored never fails while ids
  remain: the result is the old origin or a chained one whose predecessor is the old origin and
  whose depth field counts the events, always below the configured size. Histories recorded
  before stay intact, and the report loop over the result ends after exactly that many traces.
\<close>

theorem chained_origin_history:
  assumes "origins_wf S st" and "has_room st" and "origin_ok S st prev"
    and "0 < origin_history_size f" and "origin_history_size f \<le> kMaxDepth"
    and "int (origin_depth prev) < origin_history_size f"
  shows "\<exists>r st'. CreateChainedOrigin f S st prev stack = Some (Ok (r, st')) \<and> origins_wf S st' \<and>
    (\<forall>q. origin_ok S st q \<longrightarrow> origin_ok S st' q) \<and> origin_ok S st' r \<and>
    (r = prev \<or> (\<exists>t. getNextChainedOrigin S st' r = Ok (t, prev)) \<and> origin_depth r = Suc (origin_depth prev)) \<and>
    int (origin_depth r) < origin_history_size f \<and>
    (\<exists>ts o'. describe_chain S st' r [] = Some (Ok (ts, o')) \<and> length ts = origin_depth r \<and>
       \<not> isChainedOrigin o')"
  using assms(1-5)
proof (cases rule: CreateChainedOrigin_step [where stack = stack])
  case (kept st')
  then have all: "\<forall>q. origin_ok S st q \<longrightarrow> origin_ok S st' q"
    using history_extends by (auto simp: origin_ok_def)
  with assms(3) have "origin_ok S st' prev" by blast
  then show ?thesis
    using kept(1,2) all assms(6) describe_chain_history [OF _ kept(2), of prev "origin_depth prev" "[]"]
    by (auto simp: origin_ok_def)
next
  case (chained r st')
  then have "\<forall>q. origin_ok S st q \<longrightarrow> origin_ok S st' q"
    using history_extends by (auto simp: origin_ok_def)
  then show ?thesis
    using chained describe_chain_history [OF _ chained(2), of r "origin_depth r" "[]"]
    by (auto simp: origin_ok_def)
qed

text \<open>A trace store that keeps the traces in a list, to run the definitions on.\<close>

definition list_store :: "StackTrace list trace_store" where
  "list_store = \<lparr>Store = (\<lambda>ts t. (of_nat (length ts) + 1, ts @ [t])),
     Load = (\<lambda>ts i. if 0 < i \<and> unat i \<le> length ts then ts ! (unat i - 1) else StackTrace0)\<rparr>"

definition example_trace :: StackTrace where
  "example_trace = \<lparr>trace = [0x401000, 0x402000], tag = 0\<rparr>"

lemma origins0_wf: "origins_wf S (origins0 e)" "has_room (origins0 e)"
  by (simp_all add: origins_wf_def origins0_def stacks_wf0 chained_wf0 has_room_def) (simp add: depot0_def)

theorem chained_origin_history_witness:
  "\<exists>r st'. CreateChainedOrigin Flags_SetDefaults list_store (origins0 []) 5 example_trace = Some (Ok (r, st')) \<and>
    int (origin_depth r) < 7"
proof -
  have nc: "\<not> isChainedOrigin 5" by (simp add: isChainedOrigin_iff)
  then have "origin_ok list_store (origins0 []) 5"
    by (simp add: origin_ok_def origin_depth_def history.root)
  moreover have "0 < origin_history_size Flags_SetDefaults" "origin_history_size Flags_SetDefaults = 7"
    "origin_history_size Flags_SetDefaults \<le> kMaxDepth" "origin_depth 5 = 0"
    using nc by (simp_all add: Flags_SetDefaults_def kMaxDepth_def origin_depth_def)
  ultimately show ?thesis
    using chained_origin_history [OF origins0_wf, of list_store "[]" 5 Flags_SetDefaults] by fastforce
qed

text \<open>
  With an unlimited history (\<^verbatim>\<open>origin_history_size=0\<close>) the depth field stays 0, so the
  origin recorded for a store of a value with a heap or stack origin decodes as a stack origin:
  the report would index the stack descriptions with a chain id and never follow the history.
\<close>

theorem unlimited_history_not_chained:
  assumes "origins_wf S st" and "has_room st" and "\<not> isChainedOrigin prev"
    and "origin_history_size f = 0" and "origin_history_per_stack_limit f = 0"
  shows "\<exists>r st'. CreateChainedOrigin f S st prev stack = Some (Ok (r, st')) \<and>
    isStackOrigin r \<and> \<not> isChainedOrigin r"
proof -
  obtain h sd where h: "StackDepotPut S (theDepot st) stack = Some (Ok (h, sd))"
    using StackDepotPut_total assms(1,2) by (metis origins_wf_def has_room_def)
  obtain ins c cd where c: "ChainedOriginDepotPut (chainedOriginDepot st) h prev = Some (Ok (ins, c, cd))"
      "unat c < 2 ^ 28"
    using ChainedOriginDepotPut_total assms(1,2) by (metis origins_wf_def has_room_def)
  have "CreateChainedOrigin f S st prev stack = Some (Ok (chained_raw 0 c,
      st\<lparr>theDepot := sd, chainedOriginDepot := cd\<rparr>))"
    using assms(3-5) h c by (simp add: CreateChainedOrigin_def Let_def id_masks small_id)
  moreover have "drop_bit 28 (chained_raw 0 c) = 8" using chained_raw_parts(1) [of 0 c] c(2) by simp
  then have "isStackOrigin (chained_raw 0 c) \<and> \<not> isChainedOrigin (chained_raw 0 c)"
    by (simp add: isStackOrigin_def isChainedOrigin_def origin_consts)
  ultimately show ?thesis by blast
qed

theorem unlimited_history_not_chained_witness:
  "\<exists>r st'. CreateChainedOrigin (Flags_SetDefaults\<lparr>origin_history_size := 0, origin_history_per_stack_limit := 0\<rparr>)
      list_store (origins0 []) 5 example_trace = Some (Ok (r, st')) \<and> isStackOrigin r \<and> \<not> isChainedOrigin r"
  by (rule unlimited_history_not_chained [OF origins0_wf]) (simp_all add: isChainedOrigin_iff)

end
