(* ===== verification/Poisoning.thy ===== *)
theory Poisoning
  imports Shadow Origin
begin

text \<open>
  The rest of \<^verbatim>\<open>cqmsan_poisoning.cpp\<close>: writing, looking up, copying and moving origins, moving
  shadow with data, and \<^verbatim>\<open>PoisonMemory\<close>. The build this runtime ships fixes
  \<^verbatim>\<open>__cqmsan_get_track_origins()\<close> to 0; the origin code is modelled for every value of it.
\<close>

section \<open>Origin slots\<close>

text \<open>Four application bytes share one 4-byte origin slot.\<close>

definition slot :: "uptr \<Rightarrow> uptr" where
  "slot a = a AND NOT 3"

text \<open>The loop that writes 64 bits at a time, from \<open>addr\<close> up to \<open>stop\<close>, both multiples of 8.\<close>

primrec write_origin64 :: "memory \<Rightarrow> uptr \<Rightarrow> nat \<Rightarrow> u64 \<Rightarrow> memory" where
  "write_origin64 m addr 0 o64 = m"
| "write_origin64 m addr (Suc n) o64 = write_origin64 (store64 m addr o64) (addr + 8) n o64"

definition SetOrigin :: "platform \<Rightarrow> memory \<Rightarrow> uptr \<Rightarrow> uptr \<Rightarrow> u32 \<Rightarrow> memory" where
  "SetOrigin p m dst sz org =
    (let x = MEM_TO_ORIGIN p dst; beg = x AND NOT 3; fin = (x + sz + 3) AND NOT 3;
         origin64 = push_bit 32 (ucast org) OR ucast org;
         (m1, beg1) = (if beg AND 7 \<noteq> 0 then (store32 m beg org, beg + 4) else (m, beg));
         stop = fin AND NOT 7;
         m2 = (if beg1 < stop then write_origin64 m1 beg1 (unat (stop - beg1) div 8) origin64 else m1)
     in if fin AND 7 \<noteq> 0 then store32 m2 (fin - 4) org else m2)"

function origin_if_poisoned :: "platform \<Rightarrow> memory \<Rightarrow> uptr \<Rightarrow> uptr \<Rightarrow> uptr \<Rightarrow> u32" where
  "origin_if_poisoned p m s i sz =
    (if i < sz then
       (if m (s + i) \<noteq> 0 then load32 m (SHADOW_TO_ORIGIN p (slot (s + i)))
        else origin_if_poisoned p m s (i + 1) sz)
     else 0)"
  by auto
termination
  by (relation "measure (\<lambda>(p, m, s, i, sz). unat sz - unat i)") (auto, unat_arith)

declare origin_if_poisoned.simps [simp del]

definition GetOriginIfPoisoned :: "platform \<Rightarrow> memory \<Rightarrow> uptr \<Rightarrow> uptr \<Rightarrow> u32" where
  "GetOriginIfPoisoned p m addr sz = origin_if_poisoned p m (MEM_TO_SHADOW p addr) 0 sz"

primrec set_origin_if_poisoned :: "platform \<Rightarrow> memory \<Rightarrow> uptr \<Rightarrow> uptr \<Rightarrow> nat \<Rightarrow> u32 \<Rightarrow> memory" where
  "set_origin_if_poisoned p m dst_s src_s 0 src_origin = m"
| "set_origin_if_poisoned p m dst_s src_s (Suc n) src_origin =
    set_origin_if_poisoned p
      (if m src_s \<noteq> 0 then store32 m (SHADOW_TO_ORIGIN p (slot dst_s)) src_origin else m)
      (dst_s + 1) (src_s + 1) n src_origin"

definition SetOriginIfPoisoned :: "platform \<Rightarrow> memory \<Rightarrow> uptr \<Rightarrow> uptr \<Rightarrow> uptr \<Rightarrow> u32 \<Rightarrow> memory" where
  "SetOriginIfPoisoned p m addr src_shadow sz src_origin =
    (if src_shadow < src_shadow + sz
     then set_origin_if_poisoned p m (MEM_TO_SHADOW p addr) src_shadow (unat sz) src_origin else m)"

section \<open>Copying origins\<close>

text \<open>
  What the copying functions read besides memory: the flags, the trace store, whether the
  current thread is in a signal handler, the platform, the environment and the stack trace they
  were given.
\<close>

record 's octx =
  oc_flags :: Flags
  oc_store :: "'s trace_store"
  oc_insig :: bool
  oc_plat :: platform
  oc_env :: env
  oc_stack :: StackTrace

type_synonym 's ostate = "memory \<times> 's origins"

definition bind_oo :: "'a outcome option \<Rightarrow> ('a \<Rightarrow> 'b outcome option) \<Rightarrow> 'b outcome option" where
  "bind_oo r k = (case r of None \<Rightarrow> None | Some (Died x) \<Rightarrow> Some (Died x) | Some (Ok y) \<Rightarrow> k y)"

text \<open>\<^verbatim>\<open>if (__cqmsan_get_track_origins() > 1) o = ChainOrigin(o, stack)\<close>\<close>

definition chain_if_tracking :: "'s octx \<Rightarrow> 's origins \<Rightarrow> u32 \<Rightarrow> (u32 \<times> 's origins) outcome option" where
  "chain_if_tracking c st i =
    (if track_origins (oc_env c) > 1
     then ChainOrigin (oc_flags c) (oc_store c) (oc_insig c) st i (oc_stack c) else Some (Ok (i, st)))"

text \<open>The step for a partial slot at either end: copy the origin if that memory is poisoned.\<close>

definition copy_end :: "'s octx \<Rightarrow> 's ostate \<Rightarrow> uptr \<Rightarrow> uptr \<Rightarrow> uptr \<Rightarrow> 's ostate outcome option" where
  "copy_end c ms at src sz =
    (let (m, st) = ms; i = GetOriginIfPoisoned (oc_plat c) m src sz in
     if i \<noteq> 0 then bind_oo (chain_if_tracking c st i) (\<lambda>(i', st').
         Some (Ok (store32 m (MEM_TO_ORIGIN (oc_plat c) at) i', st')))
     else Some (Ok (m, st)))"

text \<open>
  The loop over whole slots, upwards or (with \<open>step = -4\<close>) downwards, over \<open>n\<close> slots; \<open>src_o\<close> and
  \<open>dst_o\<close> cache the last chained origin.
\<close>

primrec copy_slots ::
    "'s octx \<Rightarrow> uptr \<Rightarrow> 's ostate \<Rightarrow> uptr \<Rightarrow> uptr \<Rightarrow> uptr \<Rightarrow> nat \<Rightarrow> u32 \<Rightarrow> u32 \<Rightarrow> 's ostate outcome option" where
  "copy_slots c step ms src src_s dst 0 src_o dst_o = Some (Ok ms)"
| "copy_slots c step ms src src_s dst (Suc n) src_o dst_o =
    (let (m, st) = ms in
     if load32 m src_s = 0 then copy_slots c step ms (src + step) (src_s + step) (dst + step) n src_o dst_o
     else bind_oo (if load32 m src \<noteq> src_o
         then bind_oo (ChainOrigin (oc_flags c) (oc_store c) (oc_insig c) st (load32 m src) (oc_stack c))
                (\<lambda>(d, st'). Some (Ok (load32 m src, d, st')))
         else Some (Ok (src_o, dst_o, st)))
       (\<lambda>(so, d, st'). copy_slots c step (store32 m dst d, st') (src + step) (src_s + step) (dst + step) n so d))"

definition CopyOrigin :: "'s octx \<Rightarrow> 's ostate \<Rightarrow> uptr \<Rightarrow> uptr \<Rightarrow> uptr \<Rightarrow> 's ostate outcome option" where
  "CopyOrigin c ms d src sz =
    (let p = oc_plat c in
     if \<not> MEM_IS_APP p d \<or> \<not> MEM_IS_APP p src then Some (Ok ms)
     else (let beg0 = d AND NOT 3 in
      bind_oo (if beg0 < d then copy_end c ms beg0 src (beg0 + 4 - d) else Some (Ok ms)) (\<lambda>ms1.
       let beg = (if beg0 < d then beg0 + 4 else beg0); fin = (d + sz) AND NOT 3 in
       if fin < beg then Some (Ok ms1)
       else bind_oo (if fin < d + sz then copy_end c ms1 fin (src + (fin - d)) ((d + sz) - fin) else Some (Ok ms1)) (\<lambda>ms2.
        if beg < fin then
          (let s = (src + 3) AND NOT 3 in
           if track_origins (oc_env c) > 1 then
             (let src1 = MEM_TO_ORIGIN p s; src_end = MEM_TO_ORIGIN p (s + (fin - beg)) in
              if src1 < src_end then
                copy_slots c 4 ms2 src1 (MEM_TO_SHADOW p s) (MEM_TO_ORIGIN p beg) (unat (src_end - src1) div 4) 0 0
              else Some (Ok ms2))
           else Some (Ok (real_memmove (fst ms2) (MEM_TO_ORIGIN p beg) (MEM_TO_ORIGIN p s) (fin - beg), snd ms2)))
        else Some (Ok ms2)))))"

definition ReverseCopyOrigin :: "'s octx \<Rightarrow> 's ostate \<Rightarrow> uptr \<Rightarrow> uptr \<Rightarrow> uptr \<Rightarrow> 's ostate outcome option" where
  "ReverseCopyOrigin c ms d src sz =
    (let p = oc_plat c in
     if \<not> MEM_IS_APP p d \<or> \<not> MEM_IS_APP p src then Some (Ok ms)
     else (let fin = (d + sz) AND NOT 3 in
      bind_oo (if fin < d + sz then copy_end c ms fin (src + (fin - d)) ((d + sz) - fin) else Some (Ok ms)) (\<lambda>ms1.
       let beg = d AND NOT 3 in
       bind_oo (if beg + 4 < fin then
          (let s = (src + 3) AND NOT 3 in
           if track_origins (oc_env c) > 1 then
             (let src1 = MEM_TO_ORIGIN p (s + fin - beg - 4); src_begin = MEM_TO_ORIGIN p s in
              if src1 \<ge> src_begin then
                copy_slots c (-4) ms1 src1 (MEM_TO_SHADOW p (s + fin - beg - 4)) (MEM_TO_ORIGIN p (fin - 4))
                  (unat (src1 - src_begin) div 4 + 1) 0 0
              else Some (Ok ms1))
           else Some (Ok (real_memmove (fst ms1) (MEM_TO_ORIGIN p beg) (MEM_TO_ORIGIN p s) (fin - beg - 4), snd ms1)))
         else Some (Ok ms1)) (\<lambda>ms2.
       if beg < d then copy_end c ms2 beg src (beg + 4 - d) else Some (Ok ms2)))))"

definition MoveOrigin :: "'s octx \<Rightarrow> 's ostate \<Rightarrow> uptr \<Rightarrow> uptr \<Rightarrow> uptr \<Rightarrow> 's ostate outcome option" where
  "MoveOrigin c ms dst src sz =
    (let src_aligned_beg = src AND NOT 3; src_aligned_end = (src + sz) AND NOT 3;
         dst_aligned_beg = dst AND NOT 3
     in if dst_aligned_beg < src_aligned_end \<and> dst_aligned_beg \<ge> src_aligned_beg
        then ReverseCopyOrigin c ms dst src sz else CopyOrigin c ms dst src sz)"

definition MoveShadowAndOrigin :: "'s octx \<Rightarrow> 's ostate \<Rightarrow> uptr \<Rightarrow> uptr \<Rightarrow> uptr \<Rightarrow> 's ostate outcome option" where
  "MoveShadowAndOrigin c ms dst src sz =
    (let p = oc_plat c in
     if \<not> MEM_IS_APP p dst then Some (Ok ms) else if \<not> MEM_IS_APP p src then Some (Ok ms)
     else if src = dst then Some (Ok ms)
     else bind_oo (if track_origins (oc_env c) \<noteq> 0 then MoveOrigin c ms dst src sz else Some (Ok ms)) (\<lambda>(m, st).
       Some (Ok (real_memmove m (MEM_TO_SHADOW p dst) (MEM_TO_SHADOW p src) sz, st))))"

text \<open>\<^verbatim>\<open>memcpy\<close> is called on ranges that do not overlap, where it is \<^verbatim>\<open>memmove\<close>.\<close>

definition CopyShadowAndOrigin :: "'s octx \<Rightarrow> 's ostate \<Rightarrow> uptr \<Rightarrow> uptr \<Rightarrow> uptr \<Rightarrow> 's ostate outcome option" where
  "CopyShadowAndOrigin c ms dst src sz =
    (let p = oc_plat c in
     if \<not> MEM_IS_APP p dst then Some (Ok ms) else if \<not> MEM_IS_APP p src then Some (Ok ms)
     else (let ms1 = (real_memmove (fst ms) (MEM_TO_SHADOW p dst) (MEM_TO_SHADOW p src) sz, snd ms) in
       if track_origins (oc_env c) \<noteq> 0 then MoveOrigin c ms1 dst src sz else Some (Ok ms1)))"

definition CopyMemory :: "'s octx \<Rightarrow> 's ostate \<Rightarrow> uptr \<Rightarrow> uptr \<Rightarrow> uptr \<Rightarrow> 's ostate outcome option" where
  "CopyMemory c ms dst src sz =
    CopyShadowAndOrigin c (real_memmove (fst ms) dst src sz, snd ms) dst src sz"

definition PoisonMemory :: "'s octx \<Rightarrow> 's ostate \<Rightarrow> uptr \<Rightarrow> uptr \<Rightarrow> 's ostate outcome option" where
  "PoisonMemory c ms dst sz =
    (case SetShadow (oc_plat c) (oc_env c) (fst ms) dst sz (-1) of Died x \<Rightarrow> Some (Died x)
     | Ok m \<Rightarrow>
       if track_origins (oc_env c) \<noteq> 0 then
         (if oc_insig c then Some (Ok (m, snd ms))
          else bind_oo (CreateHeapOrigin (oc_store c) (snd ms) (oc_stack c)) (\<lambda>(i, st).
            Some (Ok (SetOrigin (oc_plat c) m dst sz i, st))))
       else Some (Ok (m, snd ms)))"

section \<open>Filling origin slots\<close>

text \<open>What a loop of 32-bit writes over a range of slots leaves in memory.\<close>

definition origin_fill :: "memory \<Rightarrow> uptr \<Rightarrow> uptr \<Rightarrow> u32 \<Rightarrow> memory" where
  "origin_fill m beg n org = (\<lambda>a. if in_range a beg n then ucast (drop_bit (8 * unat (a AND 3)) org) else m a)"

lemma origin_fill_append:
  assumes "k \<le> n"
  shows "origin_fill (origin_fill m beg k org) (beg + k) (n - k) org = origin_fill m beg n org"
  using in_range_split [OF assms] by (auto simp: origin_fill_def fun_eq_iff)

lemma origin_fill_0 [simp]: "origin_fill m beg 0 org = m"
  by (simp add: origin_fill_def)

lemma less_4: "x < 4 \<longleftrightarrow> x = 0 \<or> x = 1 \<or> x = 2 \<or> x = 3" for x :: uptr
  by unat_arith

lemma aligned_add:
  fixes a i :: uptr
  assumes "a AND 3 = 0" and "i < 4"
  shows "(a + i) AND 3 = i"
proof -
  have "i AND NOT 3 = 0" using assms(2) by (auto simp: less_4)
  have "a + i = a OR i"
  proof (rule disjunctive_add)
    fix n
    have "\<not> bit (a AND 3) n" "\<not> bit (i AND NOT 3) n" using assms(1) \<open>i AND NOT 3 = 0\<close> by simp_all
    then show "\<not> bit a n \<or> \<not> bit i n" by (auto simp: bit_simps dest: bit_imp_le_length)
  qed
  then have "(a + i) AND 3 = (a AND 3) OR (i AND 3)"
    by (simp only:) (rule bit_word_eqI, auto simp: bit_simps)
  also have "\<dots> = i" using assms by (auto simp: less_4)
  finally show ?thesis .
qed

lemma store32_fill:
  assumes "beg AND 3 = 0"
  shows "store32 m beg v = origin_fill m beg 4 v"
proof
  fix a
  show "store32 m beg v a = origin_fill m beg 4 v a"
  proof (cases "in_range a beg 4")
    case True
    then obtain i where i: "i < 4" "a = beg + i" by (rule in_rangeE)
    have "(beg + i) AND 3 = i" by (rule aligned_add [OF assms i(1)])
    then show ?thesis using i True unfolding less_4
      by (auto simp: store32_def origin_fill_def)
  next
    case False
    then have "a \<noteq> beg + i" if "i < 4" for i using that by auto
    from this [of 0] this [of 1] this [of 2] this [of 3] False show ?thesis
      by (simp add: store32_def origin_fill_def)
  qed
qed

lemma load32_fill:
  assumes "a AND 3 = 0" and "\<And>i. i < 4 \<Longrightarrow> in_range (a + i) beg n"
  shows "load32 (origin_fill m beg n org) a = org"
proof -
  have "load32 (origin_fill m beg n org) a = ucast (ucast org :: u8) OR
      push_bit 8 (ucast (ucast (drop_bit 8 org) :: u8)) OR push_bit 16 (ucast (ucast (drop_bit 16 org) :: u8)) OR
      push_bit 24 (ucast (ucast (drop_bit 24 org) :: u8))"
    using assms(2) [of 0] assms(2) [of 1] assms(2) [of 2] assms(2) [of 3]
      aligned_add [OF assms(1), of 1] aligned_add [OF assms(1), of 2] aligned_add [OF assms(1), of 3] assms(1)
    by (simp add: load32_def origin_fill_def)
  also have "\<dots> = org"
  proof (rule bit_word_eqI)
    fix n assume "n < LENGTH(32)"
    then show "bit (ucast (ucast org :: u8) OR push_bit 8 (ucast (ucast (drop_bit 8 org) :: u8)) OR
        push_bit 16 (ucast (ucast (drop_bit 16 org) :: u8)) OR
        push_bit 24 (ucast (ucast (drop_bit 24 org) :: u8)) :: u32) n = bit org n"
      by (cases "n < 8"; cases "n < 16"; cases "n < 24") (auto simp: bit_simps)
  qed
  finally show ?thesis .
qed

lemma low_bits_mod:
  fixes a :: uptr
  shows "a AND 3 = 0 \<longleftrightarrow> unat a mod 4 = 0" and "a AND 7 = 0 \<longleftrightarrow> unat a mod 8 = 0"
proof -
  have "unat (take_bit j a) = unat a mod 2 ^ j" for j
    unfolding unsigned_take_bit_eq by (rule take_bit_eq_mod)
  from this [of 2] this [of 3] show "a AND 3 = 0 \<longleftrightarrow> unat a mod 4 = 0" "a AND 7 = 0 \<longleftrightarrow> unat a mod 8 = 0"
    by (auto simp: take_bit_eq_mask mask_eq_exp_minus_1 unat_eq_zero)
qed

lemma unat_add_mod: "k dvd 2 ^ 64 \<Longrightarrow> unat (a + b) mod k = (unat a + unat b) mod k" for a b :: uptr
  by (simp add: unat_word_ariths mod_mod_cancel)

lemma store64_fill:
  assumes "beg AND 3 = 0"
  shows "store64 m beg (push_bit 32 (ucast org) OR ucast org) = origin_fill m beg 8 org"
proof -
  have lo: "ucast (push_bit 32 (ucast org) OR ucast org :: u64) = org"
    by (rule bit_word_eqI) (auto simp: bit_simps)
  have hi: "ucast (drop_bit 32 (push_bit 32 (ucast org) OR ucast org :: u64)) = org"
    by (rule bit_word_eqI) (auto simp: bit_simps dest: bit_imp_le_length)
  have "(beg + 4) AND 3 = 0"
    using assms unat_add_mod [of 4 beg 4] by (simp add: low_bits_mod mod_add_eq)
  then have "store64 m beg (push_bit 32 (ucast org) OR ucast org) = origin_fill (origin_fill m beg 4 org) (beg + 4) 4 org"
    unfolding store64_def lo hi using assms by (simp add: store32_fill)
  also have "\<dots> = origin_fill m beg 8 org" using origin_fill_append [of 4 8 m beg org] by simp
  finally show ?thesis .
qed

lemma write_origin64_fill:
  assumes "beg AND 3 = 0" and "8 * n < 2 ^ 64"
  shows "write_origin64 m beg n (push_bit 32 (ucast org) OR ucast org) = origin_fill m beg (of_nat (8 * n)) org"
  using assms
proof (induction n arbitrary: m beg)
  case (Suc n)
  have al: "(beg + 8) AND 3 = 0"
    using Suc.prems(1) unat_add_mod [of 4 beg 8] unfolding low_bits_mod by simp presburger
  have le: "(8 :: uptr) \<le> of_nat (8 * Suc n)"
    using Suc.prems(2) unfolding word_le_nat_alt unat_of_nat by simp
  have "write_origin64 m beg (Suc n) (push_bit 32 (ucast org) OR ucast org) =
      origin_fill (origin_fill m beg 8 org) (beg + 8) (of_nat (8 * n)) org"
    using Suc.IH [OF al] Suc.prems by (simp add: store64_fill)
  also have "(of_nat (8 * n) :: uptr) = of_nat (8 * Suc n) - 8" by simp
  finally show ?case using origin_fill_append [OF le, of m beg org] by simp
qed simp

lemma slot_mod: "unat (a AND NOT 3) = unat a div 4 * 4" "unat (a AND NOT 7) = unat a div 8 * 8" for a :: uptr
  using unat_RoundDownTo [of a 2] unat_RoundDownTo [of a 3] by (simp_all add: RoundDownTo_def)

text \<open>The three stages of \<^verbatim>\<open>SetOrigin\<close>, as nested fills.\<close>

lemma fill_grow:
  assumes "unat beg \<le> unat u" "unat u \<le> unat v"
  shows "origin_fill (origin_fill m beg (u - beg) org) u (v - u) org = origin_fill m beg (v - beg) org"
proof -
  have "u - beg \<le> v - beg" using assms by (simp add: word_le_nat_alt unat_sub)
  then show ?thesis using origin_fill_append [of "u - beg" "v - beg" m beg org] by simp
qed

lemma middle_fill:
  assumes "unat beg \<le> unat b" "unat b mod 8 = 0" "unat stop mod 8 = 0"
  shows "(if b < stop then write_origin64 (origin_fill m beg (b - beg) org) b (unat (stop - b) div 8)
      (push_bit 32 (ucast org) OR ucast org) else origin_fill m beg (b - beg) org) =
    origin_fill m beg (max b stop - beg) org"
proof (cases "b < stop")
  case True
  then have lt: "unat b < unat stop" by (simp add: word_less_nat_alt)
  have ud: "unat (stop - b) = unat stop - unat b" using lt by (simp add: unat_sub word_le_nat_alt)
  have "8 dvd unat (stop - b)" unfolding ud using assms(2,3) by (intro dvd_diff_nat) auto
  then have n8: "8 * (unat (stop - b) div 8) = unat (stop - b)" by simp
  have "b AND 3 = 0" using assms(2) unfolding low_bits_mod by presburger
  then have "write_origin64 m' b (unat (stop - b) div 8) (push_bit 32 (ucast org) OR ucast org) =
      origin_fill m' b (stop - b) org" for m'
    using write_origin64_fill [of b "unat (stop - b) div 8" m' org] n8 unat64_less [of "stop - b"] by simp
  then show ?thesis using True fill_grow [of beg b stop] assms(1) lt by (simp add: max_absorb2 less_imp_le)
qed (simp add: max_def)

lemma tail_fill:
  assumes "unat beg \<le> unat b" "unat b \<le> unat fin" "unat b mod 8 = 0" "unat fin mod 4 = 0"
    and "stop = fin AND NOT 7"
  shows "(if fin AND 7 \<noteq> 0 then store32 (origin_fill m beg (max b stop - beg) org) (fin - 4) org
      else origin_fill m beg (max b stop - beg) org) = origin_fill m beg (fin - beg) org"
proof -
  have us: "unat stop = unat fin div 8 * 8" unfolding assms(5) by (rule slot_mod)
  have b_le: "unat b \<le> unat stop" using assms(2,3) unfolding us
    by (metis div_le_mono dvd_div_mult_self dvd_eq_mod_eq_0 mult_le_mono1)
  then have mx: "max b stop = stop" by (simp add: max_def word_le_nat_alt)
  show ?thesis
  proof (cases "fin AND 7 = 0")
    case True
    then have "unat stop = unat fin" unfolding us by (auto simp: low_bits_mod)
    then have "stop = fin" by (simp add: word_unat_eq_iff)
    then show ?thesis using True mx by simp
  next
    case False
    then have st: "unat stop = unat fin - 4" "4 \<le> unat fin"
      using assms(4) unfolding us low_bits_mod by presburger+
    then have stop: "stop = fin - 4" by (simp add: word_unat_eq_iff unat_sub word_le_nat_alt)
    have "stop AND 3 = 0" unfolding low_bits_mod us by presburger
    then have "store32 (origin_fill m beg (stop - beg) org) stop org =
        origin_fill (origin_fill m beg (stop - beg) org) stop (fin - stop) org"
      by (simp add: store32_fill stop)
    then show ?thesis
      using False mx fill_grow [of beg stop fin m org] assms(1) b_le st stop by simp
  qed
qed

lemma SetOrigin_fill:
  assumes sz: "0 < sz" and fit: "unat (MEM_TO_ORIGIN p dst) + unat sz + 8 \<le> 2 ^ 64"
  shows "SetOrigin p m dst sz org = origin_fill m (slot (MEM_TO_ORIGIN p dst))
    (((MEM_TO_ORIGIN p dst + sz + 3) AND NOT 3) - slot (MEM_TO_ORIGIN p dst)) org"
proof -
  define x where "x = MEM_TO_ORIGIN p dst"
  define beg where "beg = x AND NOT 3"
  define fin where "fin = (x + sz + 3) AND NOT 3"
  define b1 where "b1 = (if beg AND 7 \<noteq> 0 then beg + 4 else beg)"
  define stop where "stop = fin AND NOT 7"
  have "unat (x + sz) = unat x + unat sz"
    using fit unfolding x_def [symmetric] by (subst unat_add_lem [THEN iffD1]) simp_all
  then have xs: "unat (x + sz + 3) = unat x + unat sz + 3"
    using fit unfolding x_def [symmetric] by (subst unat_add_lem [THEN iffD1]) simp_all
  have ub: "unat beg = unat x div 4 * 4" unfolding beg_def by (rule slot_mod)
  have uf: "unat fin = (unat x + unat sz + 3) div 4 * 4" unfolding fin_def slot_mod xs ..
  have us: "unat stop = unat fin div 8 * 8" unfolding stop_def by (rule slot_mod)
  have bf: "unat beg + 4 \<le> unat fin"
    using sz unfolding ub uf word_less_nat_alt by simp presburger
  have b4: "unat (beg + 4) = unat beg + 4"
    using bf unat64_less [of fin] by (subst unat_add_lem [THEN iffD1]) simp_all
  have b1: "unat b1 mod 8 = 0" "unat b1 \<le> unat fin" "unat beg \<le> unat b1"
  proof -
    have "unat beg mod 8 = 0 \<or> unat beg mod 8 = 4" unfolding ub by presburger
    then show "unat b1 mod 8 = 0" using b4 by (auto simp: b1_def low_bits_mod) presburger
    show "unat b1 \<le> unat fin" "unat beg \<le> unat b1" using bf b4 by (auto simp: b1_def)
  qed
  have alb: "beg AND 3 = 0" by (simp add: low_bits_mod ub)
  have m1: "(if beg AND 7 \<noteq> 0 then store32 m beg org else m) = origin_fill m beg (b1 - beg) org"
    using store32_fill [OF alb, of m org] by (simp add: b1_def)
  have "SetOrigin p m dst sz org = (let m2 = (if b1 < stop then write_origin64
        (if beg AND 7 \<noteq> 0 then store32 m beg org else m) b1 (unat (stop - b1) div 8)
        (push_bit 32 (ucast org) OR ucast org) else (if beg AND 7 \<noteq> 0 then store32 m beg org else m))
      in if fin AND 7 \<noteq> 0 then store32 m2 (fin - 4) org else m2)"
    by (simp add: SetOrigin_def Let_def b1_def stop_def fin_def beg_def x_def split: prod.splits)
  also have "\<dots> = origin_fill m beg (fin - beg) org"
  proof -
    have "unat stop mod 8 = 0" "unat fin mod 4 = 0" by (simp_all add: us uf)
    show ?thesis
      unfolding m1 Let_def middle_fill [OF b1(3,1) \<open>unat stop mod 8 = 0\<close>]
      by (rule tail_fill [OF b1(3,2,1) \<open>unat fin mod 4 = 0\<close> stop_def])
  qed
  finally show ?thesis by (simp add: beg_def fin_def x_def slot_def)
qed

lemma in_range_nat:
  assumes "unat b \<le> unat f"
  shows "in_range a b (f - b) \<longleftrightarrow> unat b \<le> unat a \<and> unat a < unat f"
proof -
  have f: "unat (f - b) = unat f - unat b" using assms by (simp add: unat_sub word_le_nat_alt)
  show ?thesis
  proof (cases "unat b \<le> unat a")
    case True
    then have "unat (a - b) = unat a - unat b" by (simp add: unat_sub word_le_nat_alt)
    then show ?thesis using True f assms by (auto simp: in_range_def word_less_nat_alt)
  next
    case False
    then have "unat (a - b) = unat a + 2 ^ 64 - unat b"
      using unat64_less [of b] by (subst unat_sub_if') (auto simp: word_le_nat_alt)
    then show ?thesis using False f unat64_less [of f] by (auto simp: in_range_def word_less_nat_alt)
  qed
qed

text \<open>An address is in the filled range exactly when its slot is between the first and the last.\<close>

lemma slot_range:
  assumes "0 < n" and "unat x + unat n + 8 \<le> 2 ^ 64"
  shows "in_range a (slot x) (((x + n + 3) AND NOT 3) - slot x) \<longleftrightarrow>
    unat x div 4 \<le> unat a div 4 \<and> unat a div 4 < (unat x + unat n + 3) div 4"
proof -
  have "unat (x + n) = unat x + unat n"
    using assms(2) by (subst unat_add_lem [THEN iffD1]) simp_all
  then have xs: "unat (x + n + 3) = unat x + unat n + 3"
    using assms(2) by (subst unat_add_lem [THEN iffD1]) simp_all
  have ub: "unat (slot x) = unat x div 4 * 4" unfolding slot_def by (rule slot_mod)
  have uf: "unat ((x + n + 3) AND NOT 3) = (unat x + unat n + 3) div 4 * 4" unfolding slot_mod xs ..
  have ge: "unat (slot x) \<le> unat ((x + n + 3) AND NOT 3)"
    unfolding ub uf by (intro mult_le_mono1 div_le_mono) simp
  show ?thesis
    unfolding in_range_nat [OF ge] ub uf
    by (simp add: less_eq_div_iff_mult_less_eq div_less_iff_less_mult)
qed

section \<open>Moving shadow\<close>

lemma in_block_mono: "in_block k a n \<Longrightarrow> n' \<le> n \<Longrightarrow> in_block k a n'"
  by (auto simp: in_block_def word_le_nat_alt)

context shadow_map_inj
begin

lemma shadow_move:
  assumes d: "in_block k d n" "\<And>i. i < n \<Longrightarrow> MEM_IS_APP p (d + i)"
    and s: "in_block k s n" "\<And>i. i < n \<Longrightarrow> MEM_IS_APP p (s + i)" and x: "MEM_IS_APP p x"
  shows "x \<in> poisoned p (real_memmove m (MEM_TO_SHADOW p d) (MEM_TO_SHADOW p s) n) \<longleftrightarrow>
      (if in_range x d n then s + (x - d) \<in> poisoned p m else x \<in> poisoned p m)"
    and "real_memmove m (MEM_TO_SHADOW p d) (MEM_TO_SHADOW p s) n x = m x"
proof -
  note iff = in_range_shadow_iff [OF d x]
  show "x \<in> poisoned p (real_memmove m (MEM_TO_SHADOW p d) (MEM_TO_SHADOW p s) n) \<longleftrightarrow>
      (if in_range x d n then s + (x - d) \<in> poisoned p m else x \<in> poisoned p m)"
  proof (cases "in_range x d n")
    case True
    then obtain i where i: "i < n" "x = d + i" by (rule in_rangeE)
    then show ?thesis
      using iff True x s(2) [OF i(1)] shadow_offset [OF d(1) i(1)] shadow_offset [OF s(1) i(1)]
      by (simp add: poisoned_def real_memmove_def)
  next
    case False
    then show ?thesis using iff x by (simp add: poisoned_def real_memmove_def)
  qed
  show "real_memmove m (MEM_TO_SHADOW p d) (MEM_TO_SHADOW p s) n x = m x"
    using shadow_range_not_app [OF d, of x] x by (auto simp: real_memmove_def)
qed

end

section \<open>Properties\<close>

text \<open>
  C5: moving shadow along with data (\<^verbatim>\<open>MoveShadowAndOrigin\<close>, overlapping ranges included)
  carries the initialisation state of every byte of the source range to the destination, leaves
  every other application byte's state alone, and changes no application data. Not tracking
  origins, it leaves the origin state alone too.
\<close>

theorem move_shadow_correct:
  assumes "oc_plat c = linux_64" and "track_origins (oc_env c) = 0"
    and "app_range linux_64 d n" and "app_range linux_64 s n" and "0 < n"
  shows "\<exists>m'. MoveShadowAndOrigin c (m, st) d s n = Some (Ok (m', st)) \<and>
    (\<forall>x. MEM_IS_APP linux_64 x \<longrightarrow> m' x = m x \<and>
      (x \<in> poisoned linux_64 m' \<longleftrightarrow>
        (if in_range x d n then s + (x - d) \<in> poisoned linux_64 m else x \<in> poisoned linux_64 m)))"
proof (cases "s = d")
  case True
  then show ?thesis using assms(1) by (auto simp: MoveShadowAndOrigin_def Let_def)
next
  case False
  note d = x86_range [OF assms(3)] and s = x86_range [OF assms(4)]
  have "MoveShadowAndOrigin c (m, st) d s n =
      Some (Ok (real_memmove m (MEM_TO_SHADOW linux_64 d) (MEM_TO_SHADOW linux_64 s) n, st))"
    using False assms(1,2) d(2) [OF assms(5)] s(2) [OF assms(5)]
    by (simp add: MoveShadowAndOrigin_def Let_def bind_oo_def)
  then show ?thesis
    using x86.shadow_move [OF d(3) [OF assms(5)] d(1) s(3) [OF assms(5)] s(1)] by blast
qed

definition example_octx :: "StackTrace list octx" where
  "example_octx = \<lparr>oc_flags = Flags_SetDefaults, oc_store = list_store, oc_insig = False,
     oc_plat = linux_64, oc_env = example_env, oc_stack = example_trace\<rparr>"

theorem move_shadow_correct_witness:
  "\<exists>m'. MoveShadowAndOrigin example_octx ((\<lambda>_. 0)(0x200000000013 := 255), origins0 []) 0x700000000012 0x700000000010 8
      = Some (Ok (m', origins0 [])) \<and> 0x700000000015 \<in> poisoned linux_64 m'"
proof -
  let ?m = "(\<lambda>_. 0)(0x200000000013 := 255) :: memory"
  have r: "app_range linux_64 0x700000000012 8" "app_range linux_64 0x700000000010 8"
    by (simp_all add: app_range_def fits_def linux_64_sel)
  have app: "MEM_IS_APP linux_64 0x700000000015" "MEM_IS_APP linux_64 0x700000000013"
    by (simp_all add: layout_eval linux_64_sel)
  have "0x700000000013 \<in> poisoned linux_64 ?m" using app by (simp add: poisoned_def linux_64_sel)
  moreover have "in_range 0x700000000015 0x700000000012 (8 :: uptr)" by (simp add: in_range_def)
  ultimately show ?thesis
    using move_shadow_correct [OF _ _ r, of example_octx ?m "origins0 []"] app(1)
    by (auto simp: example_octx_def example_env_def)
qed

text \<open>
  C11: \<^verbatim>\<open>SetOrigin\<close>, which writes 64 bits at a time where it can, gives the origin of every byte
  of the range the new value and changes nothing outside the 4-byte slots that the range
  touches.
\<close>

theorem SetOrigin_correct:
  assumes "0 < n" and "unat (MEM_TO_ORIGIN p d) + unat n + 8 \<le> 2 ^ 64"
  shows "(\<forall>i < n. load32 (SetOrigin p m d n org) (slot (MEM_TO_ORIGIN p d + i)) = org) \<and>
    (\<forall>a. (\<forall>i < n. slot (MEM_TO_ORIGIN p d + i) \<noteq> slot a) \<longrightarrow> SetOrigin p m d n org a = m a)"
proof (intro conjI allI impI)
  let ?x = "MEM_TO_ORIGIN p d"
  note range = slot_range [OF assms] and fill = SetOrigin_fill [OF assms, of m org]
  have add: "unat (?x + i) = unat ?x + unat i" if "unat i < unat n" for i
    using that assms(2) by (subst unat_add_lem [THEN iffD1]) simp_all
  {
    fix i assume i: "i < n"
    let ?s = "slot (?x + i)"
    have s: "unat ?s = (unat ?x + unat i) div 4 * 4"
      unfolding slot_def slot_mod using add i by (simp add: word_less_nat_alt)
    have "unat (?s + j) div 4 = (unat ?x + unat i) div 4" if "j < 4" for j
    proof -
      have "unat (?s + j) = unat ?s + unat j"
        using that s assms(2) i by (subst unat_add_lem [THEN iffD1]) (auto simp: word_less_nat_alt)
      then show ?thesis using s that by (simp add: word_less_nat_alt)
    qed
    moreover have "(unat ?x + unat i) div 4 < (unat ?x + unat n + 3) div 4"
      using i by (simp add: word_less_nat_alt less_eq_div_iff_mult_less_eq flip: Suc_le_eq)
    ultimately have "in_range (?s + j) (slot ?x) (((?x + n + 3) AND NOT 3) - slot ?x)" if "j < 4" for j
      using that unfolding range by (simp add: div_le_mono)
    moreover have "?s AND 3 = 0" unfolding low_bits_mod s by simp
    ultimately show "load32 (SetOrigin p m d n org) ?s = org"
      unfolding fill by (intro load32_fill) auto
  }
  fix a assume out: "\<forall>i < n. slot (?x + i) \<noteq> slot a"
  have False if r: "unat ?x div 4 \<le> unat a div 4" "unat a div 4 < (unat ?x + unat n + 3) div 4"
  proof -
    define j where "j = (if unat a div 4 = unat ?x div 4 then 0 else unat a div 4 * 4 - unat ?x)"
    have j: "j < unat n" "(unat ?x + j) div 4 = unat a div 4"
      using r assms(1) unfolding j_def word_less_nat_alt by (auto; presburger)+
    then have u: "unat (of_nat j :: uptr) = j" using unat64_less [of n] by (simp add: unat_of_nat)
    then have "of_nat j < n" using j by (simp add: word_less_nat_alt)
    moreover have "slot (?x + of_nat j) = slot a"
      unfolding slot_def word_unat_eq_iff slot_mod using add [of "of_nat j"] u j by simp
    ultimately show False using out by blast
  qed
  then show "SetOrigin p m d n org a = m a"
    unfolding fill origin_fill_def using range [of a] by auto
qed

theorem SetOrigin_correct_witness:
  "load32 (SetOrigin linux_64 (\<lambda>_. 0) 0x700000000011 6 0xABCDEF01) (slot (MEM_TO_ORIGIN linux_64 0x700000000011 + 5))
    = 0xABCDEF01"
proof -
  have fit: "unat (MEM_TO_ORIGIN linux_64 0x700000000011) + unat (6 :: uptr) + 8 \<le> 2 ^ 64"
    by (simp add: MEM_TO_ORIGIN_def linux_64_sel)
  have "(0 :: uptr) < 6" "(5 :: uptr) < 6" by simp_all
  then show ?thesis using SetOrigin_correct [OF _ fit] by blast
qed

end
