(* ===== verification/Unwind.thy ===== *)
theory Unwind
  imports Depot
begin

text \<open>
  Stack unwinding: \<^verbatim>\<open>GetPreviousInstructionPc\<close> and \<^verbatim>\<open>BufferedStackTrace::Unwind\<close>
  (\<^verbatim>\<open>sanitizer_stacktrace.h\<close>), the frame-pointer unwinder \<^verbatim>\<open>UnwindFast\<close>
  (\<^verbatim>\<open>sanitizer_stacktrace.cpp\<close>, the x86-64 and aarch64 frame layout), the dispatch in
  \<^verbatim>\<open>sanitizer_stacktrace_libcdep.cpp\<close> and \<^verbatim>\<open>UnwindImpl\<close> of \<^verbatim>\<open>cqmsan.cpp\<close>. The DWARF unwinder
  is a parameter: it calls the unwinding library. The memory read is the process memory.
\<close>

section \<open>Program counters\<close>

datatype arch = ARM | SPARC | MIPS | RISCV64 | S390 | I386 | X32 | X64 | OtherArch

fun GetPreviousInstructionPc :: "arch \<Rightarrow> uptr \<Rightarrow> uptr" where
  "GetPreviousInstructionPc ARM pc = (pc - 3) AND NOT 1"
| "GetPreviousInstructionPc SPARC pc = pc - 8"
| "GetPreviousInstructionPc MIPS pc = pc - 8"
| "GetPreviousInstructionPc RISCV64 pc = pc - 2"
| "GetPreviousInstructionPc S390 pc = pc - 1"
| "GetPreviousInstructionPc I386 pc = pc - 1"
| "GetPreviousInstructionPc X32 pc = pc - 1"
| "GetPreviousInstructionPc X64 pc = pc - 1"
| "GetPreviousInstructionPc OtherArch pc = pc - 4"

section \<open>The frame-pointer unwinder\<close>

definition kFrameSize :: uptr where
  "kFrameSize = 2 * 8"

definition kStackTraceMax :: u32 where
  "kStackTraceMax = 255"

definition IsValidFrame :: "uptr \<Rightarrow> uptr \<Rightarrow> uptr \<Rightarrow> bool" where
  "IsValidFrame frame stack_top stack_bottom \<longleftrightarrow> frame > stack_bottom \<and> frame < stack_top - kFrameSize"

definition GetCanonicFrame :: "uptr \<Rightarrow> uptr \<Rightarrow> uptr \<Rightarrow> uptr outcome" where
  "GetCanonicFrame bp stack_top stack_bottom = check (stack_top > stack_bottom) (Ok bp)"

text \<open>
  The loop: \<open>tr\<close> is the trace so far, \<open>bottom\<close> the lowest address that makes sense as the next
  frame.
\<close>

function unwind_frames ::
    "memory \<Rightarrow> uptr \<Rightarrow> uptr \<Rightarrow> uptr \<Rightarrow> nat \<Rightarrow> uptr \<Rightarrow> uptr \<Rightarrow> uptr list \<Rightarrow> uptr list outcome" where
  "unwind_frames m pageSize pc stack_top max_depth frame bottom tr =
    (if IsValidFrame frame stack_top bottom \<and> IsAligned frame 8 \<and> length tr < max_depth then
       (let pc1 = load64 m (frame + 8) in
        if pc1 < pageSize then Ok tr
        else (let tr' = (if pc1 \<noteq> pc then tr @ [pc1] else tr); new_bp = load64 m frame in
          if stack_top > frame then unwind_frames m pageSize pc stack_top max_depth new_bp frame tr'
          else Died CheckFailed))
     else Ok tr)"
  by auto
termination
  by (relation "measure (\<lambda>(m, ps, pc, stack_top, d, frame, bottom, tr). unat stack_top - unat bottom)")
    (auto simp: IsValidFrame_def word_less_nat_alt)

declare unwind_frames.simps [simp del]

definition UnwindFast ::
    "memory \<Rightarrow> uptr \<Rightarrow> uptr \<Rightarrow> uptr \<Rightarrow> uptr \<Rightarrow> uptr \<Rightarrow> u32 \<Rightarrow> uptr list outcome" where
  "UnwindFast m pageSize pc bp stack_top stack_bottom max_depth =
    check (max_depth \<ge> 2)
      (if stack_top < 4096 then Ok [pc]
       else bind_ok (GetCanonicFrame bp stack_top stack_bottom) (\<lambda>frame.
         unwind_frames m pageSize pc stack_top (unat max_depth) frame stack_bottom [pc]))"

text \<open>
  What an unwind needs of the process: memory, page size, the current thread's stack bounds (if
  there is a current thread), whether the fast unwinder is available, and the DWARF unwinder.
\<close>

record unwind_env =
  ue_mem :: memory
  ue_PageSize :: uptr
  ue_stack :: "(uptr \<times> uptr) option"
  ue_can_fast :: bool
  ue_slow :: "uptr \<Rightarrow> u32 \<Rightarrow> uptr list"

definition WillUseFastUnwind :: "unwind_env \<Rightarrow> bool \<Rightarrow> bool" where
  "WillUseFastUnwind u request_fast \<longleftrightarrow> ue_can_fast u \<and> request_fast"

text \<open>\<^verbatim>\<open>Unwind(max_depth, pc, bp, context, stack_top, stack_bottom, request_fast_unwind)\<close>\<close>

definition Unwind7 ::
    "unwind_env \<Rightarrow> u32 \<Rightarrow> uptr \<Rightarrow> uptr \<Rightarrow> uptr \<Rightarrow> uptr \<Rightarrow> bool \<Rightarrow> uptr list outcome" where
  "Unwind7 u max_depth pc bp stack_top stack_bottom request_fast =
    check (request_fast = WillUseFastUnwind u request_fast)
      (if max_depth = 0 then Ok [] else if max_depth = 1 then Ok [pc]
       else (let slow = ue_slow u pc max_depth in
         if \<not> WillUseFastUnwind u request_fast \<and> (length slow > 2 \<or> length slow \<ge> unat max_depth)
         then Ok slow
         else UnwindFast (ue_mem u) (ue_PageSize u) pc bp stack_top stack_bottom max_depth))"

definition UnwindImpl :: "unwind_env \<Rightarrow> uptr \<Rightarrow> uptr \<Rightarrow> bool \<Rightarrow> u32 \<Rightarrow> uptr list outcome" where
  "UnwindImpl u pc bp request_fast max_depth =
    (if ue_stack u = None \<or> \<not> WillUseFastUnwind u request_fast
     then (let (st, sb) = (case ue_stack u of Some b \<Rightarrow> b | None \<Rightarrow> (0, 0))
           in Unwind7 u max_depth pc bp st sb False)
     else (case ue_stack u of Some (st, sb) \<Rightarrow>
         if WillUseFastUnwind u request_fast then Unwind7 u max_depth pc bp st sb True
         else Unwind7 u max_depth pc 0 0 0 False
       | None \<Rightarrow> Unwind7 u max_depth pc 0 0 0 False))"

definition Unwind :: "unwind_env \<Rightarrow> uptr \<Rightarrow> uptr \<Rightarrow> bool \<Rightarrow> u32 \<Rightarrow> uptr list outcome" where
  "Unwind u pc bp request_fast max_depth =
    (if max_depth \<le> 1 then Ok (if max_depth = 1 then [pc] else [])
     else UnwindImpl u pc bp request_fast max_depth)"

section \<open>What the unwinder guarantees\<close>

text \<open>Two memories that agree on the stack.\<close>

definition same_stack :: "memory \<Rightarrow> memory \<Rightarrow> uptr \<Rightarrow> uptr \<Rightarrow> bool" where
  "same_stack m m' bottom tp \<longleftrightarrow> (\<forall>a. bottom < a \<and> a < tp \<longrightarrow> m a = m' a)"

lemma frame_bytes:
  assumes "IsValidFrame frame tp bottom" and "4096 \<le> tp" and "i < 16"
  shows "bottom < frame + i" and "frame + i < tp"
proof -
  have "unat (tp - 16) = unat tp - 16" "4096 \<le> unat tp"
    using assms(2) by (simp_all add: unat_sub word_le_nat_alt)
  then have f: "unat bottom < unat frame" "unat frame + 16 < unat tp"
    using assms(1) unfolding IsValidFrame_def kFrameSize_def word_less_nat_alt by (simp, simp, linarith)
  moreover have "unat (frame + i) = unat frame + unat i"
    using f(2) assms(3) unat64_less [of tp]
    by (subst unat_add_lem [THEN iffD1]) (simp_all add: word_less_nat_alt)
  moreover have "unat i < 16" using assms(3) by (simp add: word_less_nat_alt)
  ultimately show "bottom < frame + i" "frame + i < tp" by (simp_all add: word_less_nat_alt)
qed

lemma load64_same:
  assumes "\<And>i. i < 8 \<Longrightarrow> m (a + i) = m' (a + i)"
  shows "load64 m a = load64 m' a"
  using assms [of 0] assms [of 1] assms [of 2] assms [of 3] assms [of 4] assms [of 5] assms [of 6] assms [of 7]
  by (simp add: load64_def load32_def add.assoc)

lemma IsValidFrame_less:
  "IsValidFrame frame tp bottom \<Longrightarrow> 4096 \<le> tp \<Longrightarrow> bottom < frame \<and> frame < tp"
  using frame_bytes [of frame tp bottom 0] by simp

text \<open>One turn of the loop, where it goes on.\<close>

lemma unwind_frames_step:
  assumes "IsValidFrame frame tp bottom" "IsAligned frame 8" "length tr < d" "4096 \<le> tp"
    and "\<not> load64 m (frame + 8) < ps"
  shows "unwind_frames m ps pc tp d frame bottom tr =
    unwind_frames m ps pc tp d (load64 m frame) frame
      (if load64 m (frame + 8) \<noteq> pc then tr @ [load64 m (frame + 8)] else tr)"
  using assms IsValidFrame_less [OF assms(1,4)] by (subst unwind_frames.simps) (simp add: Let_def)

lemma unwind_frames_stop:
  "\<not> (IsValidFrame frame tp bottom \<and> IsAligned frame 8 \<and> length tr < d \<and> \<not> load64 m (frame + 8) < ps) \<Longrightarrow>
   unwind_frames m ps pc tp d frame bottom tr = Ok tr"
  by (subst unwind_frames.simps) (auto simp: Let_def)

lemma unwind_frames_ok:
  assumes "4096 \<le> tp" and "tr \<noteq> []" and "length tr \<le> d" and "same_stack m m' b0 tp" and "b0 \<le> bottom"
  shows "\<exists>r. unwind_frames m ps pc tp d frame bottom tr = Ok r \<and>
    unwind_frames m' ps pc tp d frame bottom tr = Ok r \<and> length r \<le> d \<and> r \<noteq> [] \<and> hd r = hd tr"
  using assms(2,3,5)
proof (induction "unat tp - unat bottom" arbitrary: frame bottom tr rule: less_induct)
  case less
  let ?tr = "if load64 m (frame + 8) \<noteq> pc then tr @ [load64 m (frame + 8)] else tr"
  have eq: "load64 m frame = load64 m' frame" "load64 m (frame + 8) = load64 m' (frame + 8)"
    if v: "IsValidFrame frame tp bottom"
  proof -
    have mem: "m (frame + i) = m' (frame + i)" if "i < 16" for i
      using frame_bytes [OF v assms(1) that] assms(4) less.prems(3)
      unfolding same_stack_def by (meson le_less_trans)
    show "load64 m frame = load64 m' frame"
      by (rule load64_same, rule mem, erule less_trans) simp
    show "load64 m (frame + 8) = load64 m' (frame + 8)"
    proof (rule load64_same)
      fix i :: uptr assume "i < 8"
      then have "8 + i < 16" by unat_arith
      from mem [OF this] show "m (frame + 8 + i) = m' (frame + 8 + i)" by (simp add: add.assoc)
    qed
  qed
  show ?case
  proof (cases "IsValidFrame frame tp bottom \<and> IsAligned frame 8 \<and> length tr < d \<and> \<not> load64 m (frame + 8) < ps")
    case True
    then have lt: "bottom < frame" "frame < tp" using IsValidFrame_less assms(1) by blast+
    note eqs = eq [OF conjunct1 [OF True]]
    have s: "unwind_frames m ps pc tp d frame bottom tr = unwind_frames m ps pc tp d (load64 m frame) frame ?tr"
        "unwind_frames m' ps pc tp d frame bottom tr = unwind_frames m' ps pc tp d (load64 m frame) frame ?tr"
      using True assms(1) eqs unwind_frames_step [of frame tp bottom tr d m ps pc]
        unwind_frames_step [of frame tp bottom tr d m' ps pc] by auto
    have hd: "hd ?tr = hd tr" using less.prems(1) by simp
    have "unat tp - unat frame < unat tp - unat bottom" using lt by (simp add: word_less_nat_alt)
    then show ?thesis
      unfolding s hd [symmetric] using True less.prems lt by (intro less.hyps) auto
  next
    case False
    then have "\<not> (IsValidFrame frame tp bottom \<and> IsAligned frame 8 \<and> length tr < d \<and> \<not> load64 m' (frame + 8) < ps)"
      using eq by auto
    with False less.prems show ?thesis by (simp add: unwind_frames_stop)
  qed
qed

lemma UnwindFast_ok:
  assumes "2 \<le> d" and "tp < 4096 \<or> bottom < tp" and "same_stack m m' bottom tp"
  shows "\<exists>r. UnwindFast m ps pc bp tp bottom d = Ok r \<and> UnwindFast m' ps pc bp tp bottom d = Ok r \<and>
    r \<noteq> [] \<and> hd r = pc \<and> length r \<le> unat d"
proof (cases "tp < 4096")
  case True
  then show ?thesis using assms(1) by (simp add: UnwindFast_def word_le_nat_alt)
next
  case False
  then have "4096 \<le> tp" by simp
  from unwind_frames_ok [OF this, of "[pc]" "unat d" m m' bottom bottom ps pc bp] show ?thesis
    using False assms by (auto simp: UnwindFast_def GetCanonicFrame_def word_le_nat_alt)
qed

text \<open>
  \<open>unwind_ok\<close>: the thread's stack bounds are in order, and the DWARF unwinder keeps its contract
  (the pc it is given comes first, at most \<open>max_depth\<close> frames).
\<close>

definition unwind_ok :: "unwind_env \<Rightarrow> bool" where
  "unwind_ok u \<longleftrightarrow> (case ue_stack u of Some (st, sb) \<Rightarrow> sb < st | None \<Rightarrow> True) \<and>
     (\<forall>pc d. ue_slow u pc d \<noteq> [] \<longrightarrow> hd (ue_slow u pc d) = pc \<and> length (ue_slow u pc d) \<le> unat d)"

lemma Unwind_ok:
  assumes "unwind_ok u"
  shows "\<exists>r. Unwind u pc bp fast d = Ok r \<and> length r \<le> unat d \<and> (d = 0 \<longleftrightarrow> r = []) \<and> (r \<noteq> [] \<longrightarrow> hd r = pc)"
proof (cases "d \<le> 1")
  case True
  then have "d = 0 \<or> d = 1" by unat_arith
  then show ?thesis by (auto simp: Unwind_def)
next
  case False
  then have d: "d \<noteq> 0" "d \<noteq> 1" by auto
  have "2 \<le> d" using False by unat_arith
  note d = this d
  have slow: "ue_slow u pc d \<noteq> [] \<Longrightarrow> hd (ue_slow u pc d) = pc \<and> length (ue_slow u pc d) \<le> unat d"
    using assms by (simp add: unwind_ok_def)
  have u7: "\<exists>r. Unwind7 u d pc bp st sb b = Ok r \<and> length r \<le> unat d \<and> r \<noteq> [] \<and> hd r = pc"
    if bounds: "st < 4096 \<or> sb < st" and wf: "b = WillUseFastUnwind u b" for st sb b
  proof -
    obtain r where r: "UnwindFast (ue_mem u) (ue_PageSize u) pc bp st sb d = Ok r" "r \<noteq> []" "hd r = pc" "length r \<le> unat d"
      using UnwindFast_ok [OF d(1) bounds, of "ue_mem u" "ue_mem u" "ue_PageSize u" pc bp] by (auto simp: same_stack_def)
    moreover have "hd (ue_slow u pc d) = pc \<and> length (ue_slow u pc d) \<le> unat d \<and> ue_slow u pc d \<noteq> []"
      if "length (ue_slow u pc d) > 2 \<or> length (ue_slow u pc d) \<ge> unat d"
    proof -
      have "ue_slow u pc d \<noteq> []" using that d(1) by (auto simp: word_le_nat_alt)
      with slow show ?thesis by blast
    qed
    ultimately show ?thesis using d wf by (auto simp: Unwind7_def Let_def)
  qed
  have "\<exists>r. UnwindImpl u pc bp fast d = Ok r \<and> length r \<le> unat d \<and> r \<noteq> [] \<and> hd r = pc"
  proof (cases "ue_stack u")
    case None
    then show ?thesis using u7 [of 0 0 False] by (simp add: UnwindImpl_def WillUseFastUnwind_def)
  next
    case (Some b)
    obtain st sb where b: "b = (st, sb)" by fastforce
    then have "sb < st" using assms Some by (simp add: unwind_ok_def)
    then show ?thesis
      using u7 [of st sb False] u7 [of st sb True] Some b by (auto simp: UnwindImpl_def WillUseFastUnwind_def)
  qed
  then show ?thesis using False d by (auto simp: Unwind_def)
qed

section \<open>Properties\<close>

text \<open>
  C16: the frame-pointer unwinder is safe on any memory. Its walk ends, the trace starts with the
  given pc and has at most \<open>max_depth\<close> frames, and the result depends on no byte outside the
  thread's stack, so the walk reads none.
\<close>

theorem unwind_fast_safe:
  assumes "2 \<le> d" and "bottom < tp"
  shows "\<exists>r. UnwindFast m ps pc bp tp bottom d = Ok r \<and> r \<noteq> [] \<and> hd r = pc \<and> length r \<le> unat d \<and>
    (\<forall>m'. same_stack m m' bottom tp \<longrightarrow> UnwindFast m' ps pc bp tp bottom d = Ok r)"
proof -
  have "same_stack m m bottom tp" by (simp add: same_stack_def)
  then obtain r where r: "UnwindFast m ps pc bp tp bottom d = Ok r" "r \<noteq> []" "hd r = pc" "length r \<le> unat d"
    using UnwindFast_ok [OF assms(1) disjI2 [OF assms(2)], of m m ps pc bp] by blast
  moreover have "UnwindFast m' ps pc bp tp bottom d = Ok r" if "same_stack m m' bottom tp" for m'
    using UnwindFast_ok [OF assms(1) disjI2 [OF assms(2)] that, of ps pc bp] r(1) by auto
  ultimately show ?thesis by blast
qed

theorem unwind_fast_safe_witness:
  "\<exists>r. UnwindFast (\<lambda>_. 0) 4096 0x401000 0x7ffe00000100 0x7fff00000000 0x7ffe00000000 10 = Ok r \<and> hd r = 0x401000"
proof -
  have "2 \<le> (10 :: u32)" "(0x7ffe00000000 :: uptr) < 0x7fff00000000" by simp_all
  then show ?thesis using unwind_fast_safe by blast
qed

end
