(* ===== verification/Report.thy ===== *)
theory Report
  imports Unwind Poisoning
begin

text \<open>
  Violations: the map shared with the fuzzer, the warning entry points the compiled program
  calls, and the range checks of the interceptors (\<^verbatim>\<open>cqmsan.cpp\<close>, the macros of
  \<^verbatim>\<open>cqmsan_interceptors.cpp\<close>). The shared map outlives the process, so an entry point returns the
  new state together with whether it then ends the process.
\<close>

section \<open>State\<close>

text \<open>
  \<open>area\<close> is the array behind \<^verbatim>\<open>cqmsan_area_ptr\<close>, read at indices below \<^verbatim>\<open>MAP_SIZE\<close>; \<open>umr_log\<close> records
  what \<^verbatim>\<open>ReportUMR\<close> prints. Flags can change at run time.
\<close>

record rstate =
  rflags :: Flags
  area :: "uptr \<Rightarrow> u8"
  last_edge :: uptr
  last_cs_edge :: uptr
  report_count :: u32
  expect_umr :: bool
  expected_umr_found :: bool
  origin_tls :: u32
  umr_log :: "(uptr list \<times> u32) list"

text \<open>What the entry points read and do not change.\<close>

record rctx =
  rc_arch :: arch
  rc_inited :: bool
  rc_fast_fatal :: bool
  rc_unwind :: unwind_env
  rc_plat :: platform
  rc_mem :: memory
  rc_env :: env
  rc_in_symbolizer :: bool
  rc_in_interceptor :: bool

type_synonym report = "(rstate \<times> bool) outcome"

definition MAP_SIZE :: uptr where
  "MAP_SIZE = push_bit 16 1"

definition CQMSAN_AFL_ERROR :: u8 where
  "CQMSAN_AFL_ERROR = push_bit 1 1"

definition CQMSAN_AFL_PC_EDGE :: u8 where
  "CQMSAN_AFL_PC_EDGE = push_bit 3 1"

definition CQMSAN_AFL_CS :: u8 where
  "CQMSAN_AFL_CS = push_bit 4 1"

definition CQMSAN_AFL_CS_EDGE :: u8 where
  "CQMSAN_AFL_CS_EDGE = push_bit 5 1"

section \<open>The shared map\<close>

text \<open>\<^verbatim>\<open>cqmsan_area_ptr[i % MAP_SIZE] |= v\<close>\<close>

definition mark :: "uptr \<Rightarrow> u8 \<Rightarrow> (uptr \<Rightarrow> u8) \<Rightarrow> uptr \<Rightarrow> u8" where
  "mark i v a = a(i mod MAP_SIZE := a (i mod MAP_SIZE) OR v)"

text \<open>
  \<open>require\<close>, \<open>id_str\<close> and \<open>inst_ratio\<close> are the three environment variables; \<open>shmat\<close> maps a segment
  id to its contents, or fails. Printing is not modelled.
\<close>

definition cqmsan_attach_afl_shm ::
    "bool \<Rightarrow> string option \<Rightarrow> bool \<Rightarrow> (int \<Rightarrow> (uptr \<Rightarrow> u8) option) \<Rightarrow> rstate \<Rightarrow> rstate outcome" where
  "cqmsan_attach_afl_shm require id_str inst_ratio shmat st =
    (case id_str of None \<Rightarrow> if require then Died DieCalled else Ok st
     | Some s \<Rightarrow> (let msid = to_int (fst (internal_simple_strtoll s)) in
        if msid \<le> 0 then (if require then Died DieCalled else Ok st)
        else (case shmat msid of None \<Rightarrow> Died DieCalled
          | Some p \<Rightarrow> Ok (st\<lparr>area := (if inst_ratio then p(0 := 1) else p)\<rparr>))))"

definition callstack_hash :: "arch \<Rightarrow> uptr list \<Rightarrow> uptr" where
  "callstack_hash ar tr = fold (\<lambda>f h. h XOR GetPreviousInstructionPc ar f) tr 0"

definition cqmsan_update_map :: "arch \<Rightarrow> uptr list \<Rightarrow> rstate \<Rightarrow> rstate" where
  "cqmsan_update_map ar tr st =
    (case tr of [] \<Rightarrow> st
     | f0 # _ \<Rightarrow>
       (let pc = GetPreviousInstructionPc ar f0; h = callstack_hash ar tr;
            idx = (h XOR drop_bit 1 (last_cs_edge st)) mod MAP_SIZE;
            a1 = mark pc CQMSAN_AFL_ERROR (area st);
            a2 = mark (drop_bit 1 (last_edge st) XOR pc) CQMSAN_AFL_PC_EDGE a1;
            a3 = mark h CQMSAN_AFL_CS a2;
            a4 = mark idx CQMSAN_AFL_CS_EDGE a3
        in st\<lparr>last_cs_edge := h, last_edge := pc, area := a4(MAP_SIZE - 1 := 0xff)\<rparr>))"

definition cqmsan_update_map_pc :: "uptr \<Rightarrow> rstate \<Rightarrow> rstate" where
  "cqmsan_update_map_pc pc st =
    (let a1 = mark pc CQMSAN_AFL_ERROR (area st);
         a2 = mark (drop_bit 1 (last_edge st) XOR pc) CQMSAN_AFL_PC_EDGE a1
     in st\<lparr>last_edge := pc, area := a2(MAP_SIZE - 1 := 0xff)\<rparr>)"

definition cqmsan_site_known :: "uptr \<Rightarrow> rstate \<Rightarrow> bool" where
  "cqmsan_site_known site_pc st \<longleftrightarrow>
    skip_known_sites (rflags st) \<and> area st (site_pc mod MAP_SIZE) AND CQMSAN_AFL_ERROR \<noteq> 0"

section \<open>Warnings\<close>

definition fatal_trace :: "rctx \<Rightarrow> uptr \<Rightarrow> uptr \<Rightarrow> uptr list outcome" where
  "fatal_trace c pc bp =
    (if rc_inited c then Unwind (rc_unwind c) pc bp (rc_fast_fatal c) kStackTraceMax else Ok [])"

definition umr_map_trace :: "rctx \<Rightarrow> Flags \<Rightarrow> uptr \<Rightarrow> uptr \<Rightarrow> uptr list outcome" where
  "umr_map_trace c f pc bp =
    (if rc_inited c then Unwind (rc_unwind c) pc bp (umr_fast_unwind f)
       (if umr_unwind_depth f > 0 then word_of_int (umr_unwind_depth f) else kStackTraceMax) else Ok [])"

definition ReportUMR :: "uptr list \<Rightarrow> u32 \<Rightarrow> rstate \<Rightarrow> rstate" where
  "ReportUMR tr org st =
    (if report_umrs (rflags st) then st\<lparr>umr_log := umr_log st @ [(tr, org)]\<rparr> else st)"

definition PrintWarningWithOrigin :: "rctx \<Rightarrow> uptr \<Rightarrow> uptr \<Rightarrow> u32 \<Rightarrow> rstate \<Rightarrow> rstate outcome" where
  "PrintWarningWithOrigin c pc bp org st =
    (if expect_umr st then Ok (st\<lparr>origin_tls := org, expected_umr_found := True\<rparr>)
     else (let st1 = st\<lparr>report_count := report_count st + 1\<rparr> in
       bind_ok (fatal_trace c pc bp) (\<lambda>tr. Ok (ReportUMR tr 0 (cqmsan_update_map (rc_arch c) tr st1)))))"

definition halt_if :: "(rstate \<Rightarrow> bool) \<Rightarrow> rstate outcome \<Rightarrow> report" where
  "halt_if h r = bind_ok r (\<lambda>st. Ok (st, h st))"

abbreviation halts :: "rstate \<Rightarrow> bool" where
  "halts st \<equiv> halt_on_error (rflags st)"

text \<open>Is a shadow value a violation? The switch \<^verbatim>\<open>CQMSAN_FLIP_CONVENTION\<close> turns the test around.\<close>

definition maybe_warning_triggered :: "env \<Rightarrow> 'a::len word \<Rightarrow> bool" where
  "maybe_warning_triggered e s \<longleftrightarrow> (if flip e then s = 0 else s \<noteq> 0)"

definition cqmsan_maybe_warning :: "rctx \<Rightarrow> uptr \<Rightarrow> uptr \<Rightarrow> 'a::len word \<Rightarrow> u32 \<Rightarrow> rstate \<Rightarrow> report" where
  "cqmsan_maybe_warning c pc bp s org st =
    (if maybe_warning_triggered (rc_env c) s then halt_if halts (PrintWarningWithOrigin c pc bp org st)
     else Ok (st, False))"

text \<open>The body shared by the fast handlers: count, then record the site unless it is known.\<close>

definition record_fast :: "rctx \<Rightarrow> uptr \<Rightarrow> uptr \<Rightarrow> rstate \<Rightarrow> rstate outcome" where
  "record_fast c pc bp st =
    (let st1 = st\<lparr>report_count := report_count st + 1\<rparr> in
     if \<not> cqmsan_site_known (GetPreviousInstructionPc (rc_arch c) pc) st1
     then bind_ok (umr_map_trace c (rflags st1) pc bp) (\<lambda>tr. Ok (cqmsan_update_map (rc_arch c) tr st1))
     else Ok st1)"

definition record_pconly :: "uptr \<Rightarrow> rstate \<Rightarrow> rstate" where
  "record_pconly pc st =
    (let st1 = st\<lparr>report_count := report_count st + 1\<rparr> in
     if \<not> cqmsan_site_known pc st1 then cqmsan_update_map_pc pc st1 else st1)"

definition cqmsan_maybe_warning_fast :: "rctx \<Rightarrow> uptr \<Rightarrow> uptr \<Rightarrow> 'a::len word \<Rightarrow> rstate \<Rightarrow> report" where
  "cqmsan_maybe_warning_fast c pc bp s st =
    (if \<not> maybe_warning_triggered (rc_env c) s then Ok (st, False)
     else halt_if halts (record_fast c pc bp st))"

definition cqmsan_maybe_warning_fast_pconly :: "rctx \<Rightarrow> uptr \<Rightarrow> 'a::len word \<Rightarrow> rstate \<Rightarrow> report" where
  "cqmsan_maybe_warning_fast_pconly c pc s st =
    (if \<not> maybe_warning_triggered (rc_env c) s then Ok (st, False)
     else halt_if halts (Ok (record_pconly pc st)))"

definition cqmsan_maybe_warning_fast_noupdate :: "rctx \<Rightarrow> 'a::len word \<Rightarrow> rstate \<Rightarrow> report" where
  "cqmsan_maybe_warning_fast_noupdate c s st =
    (if \<not> maybe_warning_triggered (rc_env c) s then Ok (st, False)
     else halt_if halts (Ok (st\<lparr>report_count := report_count st + 1\<rparr>)))"

definition cqmsan_warning :: "rctx \<Rightarrow> uptr \<Rightarrow> uptr \<Rightarrow> rstate \<Rightarrow> report" where
  "cqmsan_warning c pc bp st = halt_if halts (PrintWarningWithOrigin c pc bp 0 st)"

definition cqmsan_warning_noreturn :: "rctx \<Rightarrow> uptr \<Rightarrow> uptr \<Rightarrow> rstate \<Rightarrow> report" where
  "cqmsan_warning_noreturn c pc bp st = halt_if (\<lambda>_. True) (PrintWarningWithOrigin c pc bp 0 st)"

definition cqmsan_warning_fast :: "rctx \<Rightarrow> uptr \<Rightarrow> uptr \<Rightarrow> rstate \<Rightarrow> report" where
  "cqmsan_warning_fast c pc bp st = halt_if halts (record_fast c pc bp st)"

definition cqmsan_warning_fast_pconly :: "uptr \<Rightarrow> rstate \<Rightarrow> report" where
  "cqmsan_warning_fast_pconly pc st = halt_if halts (Ok (record_pconly pc st))"

definition cqmsan_warning_fast_noupdate :: "rstate \<Rightarrow> report" where
  "cqmsan_warning_fast_noupdate st = halt_if halts (Ok (st\<lparr>report_count := report_count st + 1\<rparr>))"

definition cqmsan_set_keep_going :: "int \<Rightarrow> rstate \<Rightarrow> rstate" where
  "cqmsan_set_keep_going keep_going st = st\<lparr>rflags := (rflags st)\<lparr>halt_on_error := (keep_going = 0)\<rparr>\<rparr>"

definition cqmsan_set_expect_umr :: "int \<Rightarrow> rstate \<Rightarrow> rstate outcome" where
  "cqmsan_set_expect_umr e st =
    (if e \<noteq> 0 then Ok (st\<lparr>expected_umr_found := False, expect_umr := True\<rparr>)
     else if \<not> expected_umr_found st then Died DieCalled
     else Ok (st\<lparr>expect_umr := False\<rparr>))"

section \<open>Range checks\<close>

definition cqmsan_get_origin :: "rctx \<Rightarrow> uptr \<Rightarrow> u32" where
  "cqmsan_get_origin c a = (if track_origins (rc_env c) = 0 then 0
     else load32 (rc_mem c) (MEM_TO_ORIGIN (rc_plat c) (a AND NOT 3)))"

definition cqmsan_check_mem_is_initialized :: "rctx \<Rightarrow> uptr \<Rightarrow> uptr \<Rightarrow> uptr \<Rightarrow> uptr \<Rightarrow> rstate \<Rightarrow> report" where
  "cqmsan_check_mem_is_initialized c pc bp x sz st =
    (if \<not> report_umrs (rflags st) then Ok (st, False)
     else bind_ok (cqmsan_test_shadow (rc_plat c) (rc_mem c) x sz) (\<lambda>offset.
       if offset < 0 then Ok (st, False)
       else halt_if halts (PrintWarningWithOrigin c pc bp (cqmsan_get_origin c (x + word_of_int offset)) st)))"

definition CHECK_UNPOISONED_0 :: "rctx \<Rightarrow> uptr \<Rightarrow> uptr \<Rightarrow> uptr \<Rightarrow> uptr \<Rightarrow> rstate \<Rightarrow> report" where
  "CHECK_UNPOISONED_0 c pc bp x n st =
    (if rc_in_symbolizer c then Ok (st, False)
     else bind_ok (cqmsan_test_shadow (rc_plat c) (rc_mem c) x n) (\<lambda>offset.
       if offset \<ge> 0 \<and> report_umrs (rflags st)
       then halt_if halts (PrintWarningWithOrigin c pc bp (cqmsan_get_origin c (x + word_of_int offset)) st)
       else Ok (st, False)))"

definition CHECK_UNPOISONED_0_FAST :: "rctx \<Rightarrow> uptr \<Rightarrow> uptr \<Rightarrow> uptr \<Rightarrow> uptr \<Rightarrow> rstate \<Rightarrow> report" where
  "CHECK_UNPOISONED_0_FAST c pc bp x n st =
    (if rc_in_symbolizer c then Ok (st, False)
     else bind_ok (cqmsan_test_shadow (rc_plat c) (rc_mem c) x n) (\<lambda>offset.
       if offset \<ge> 0 \<and> report_umrs (rflags st) then halt_if halts (record_fast c pc bp st)
       else Ok (st, False)))"

definition CHECK_UNPOISONED :: "rctx \<Rightarrow> uptr \<Rightarrow> uptr \<Rightarrow> uptr \<Rightarrow> uptr \<Rightarrow> rstate \<Rightarrow> report" where
  "CHECK_UNPOISONED c pc bp x n st =
    (if \<not> rc_in_interceptor c then CHECK_UNPOISONED_0_FAST c pc bp x n st else Ok (st, False))"

section \<open>Map lemmas\<close>

text \<open>\<open>bits_le a b\<close>: every bit set in \<open>a\<close> is set in \<open>b\<close>.\<close>

definition bits_le :: "(uptr \<Rightarrow> u8) \<Rightarrow> (uptr \<Rightarrow> u8) \<Rightarrow> bool" where
  "bits_le a b \<longleftrightarrow> (\<forall>i. a i AND b i = a i)"

lemma bits_le_refl [simp]: "bits_le a a"
  by (simp add: bits_le_def)

lemma bits_le_trans [trans]: "bits_le a b \<Longrightarrow> bits_le b c \<Longrightarrow> bits_le a c"
  unfolding bits_le_def by (metis and.assoc)

lemma bits_le_mark [simp]: "bits_le a (mark i v a)"
proof -
  have "x AND (x OR v) = x" for x v :: u8 by (rule bit_word_eqI) (auto simp: bit_simps)
  then show ?thesis by (simp add: bits_le_def mark_def)
qed

lemma bits_le_sentinel [simp]: "bits_le a (a(j := 0xff))"
proof -
  have "x AND 255 = x" for x :: u8
  proof -
    have "(255 :: u8) = -1" by simp
    then show ?thesis by (metis and.right_neutral)
  qed
  then show ?thesis by (simp add: bits_le_def)
qed

lemma bits_le_bit: "bits_le a b \<Longrightarrow> a i AND v = v \<Longrightarrow> b i AND v = v"
  unfolding bits_le_def by (metis and.assoc and.commute)

lemma mark_bit: "mark i v a (i mod MAP_SIZE) AND v = v"
proof -
  have "(x OR v) AND v = v" for x v :: u8 by (rule bit_word_eqI) (auto simp: bit_simps)
  then show ?thesis by (simp add: mark_def)
qed

lemma MAP_SIZE_eq: "MAP_SIZE = 65536"
  by (simp add: MAP_SIZE_def)

text \<open>The bit that says a site was reported.\<close>

definition site_reported :: "rstate \<Rightarrow> uptr \<Rightarrow> bool" where
  "site_reported st pc \<longleftrightarrow> area st (pc mod MAP_SIZE) AND CQMSAN_AFL_ERROR = CQMSAN_AFL_ERROR"

lemma site_reported_known:
  "site_reported st pc \<Longrightarrow> skip_known_sites (rflags st) \<Longrightarrow> cqmsan_site_known pc st"
  by (simp add: site_reported_def cqmsan_site_known_def CQMSAN_AFL_ERROR_def)

lemma site_known_reported: "cqmsan_site_known pc st \<Longrightarrow> site_reported st pc"
proof -
  have "x AND 2 \<noteq> 0 \<Longrightarrow> x AND 2 = 2" for x :: u8
  proof -
    have two: "bit (2 :: u8) n \<longleftrightarrow> n = 1" for n
      using bit_push_bit_iff [of 1 "1 :: u8" n] by (auto simp: bit_simps)
    assume "x AND 2 \<noteq> 0"
    then obtain n where "bit (x AND 2) n" by (auto simp: bit_eq_iff)
    then have "bit x 1" unfolding bit_and_iff two by blast
    then show "x AND 2 = 2" by (intro bit_word_eqI) (unfold bit_and_iff two, blast)
  qed
  then show "cqmsan_site_known pc st \<Longrightarrow> site_reported st pc"
    by (simp add: site_reported_def cqmsan_site_known_def CQMSAN_AFL_ERROR_def)
qed

text \<open>What an update of the map does.\<close>

lemma update_map_effect:
  fixes st ar tr st'
  assumes "tr \<noteq> []"
  defines "st' \<equiv> cqmsan_update_map ar tr st"
  shows "bits_le (area st) (area st')" and "site_reported st' (GetPreviousInstructionPc ar (hd tr))"
    and "area st' (MAP_SIZE - 1) = 0xff"
    and "report_count st' = report_count st" "rflags st' = rflags st" "expect_umr st' = expect_umr st"
proof -
  obtain f r where tr: "tr = f # r" using assms(1) by (cases tr) auto
  let ?pc = "GetPreviousInstructionPc ar f" and ?h = "callstack_hash ar tr"
  let ?a1 = "mark ?pc CQMSAN_AFL_ERROR (area st)"
  let ?a2 = "mark (drop_bit 1 (last_edge st) XOR ?pc) CQMSAN_AFL_PC_EDGE ?a1"
  let ?a4 = "mark ((?h XOR drop_bit 1 (last_cs_edge st)) mod MAP_SIZE) CQMSAN_AFL_CS_EDGE (mark ?h CQMSAN_AFL_CS ?a2)"
  have a: "area st' = ?a4(MAP_SIZE - 1 := 0xff)"
    by (simp add: st'_def cqmsan_update_map_def tr Let_def)
  have le: "bits_le ?a1 (area st')"
    unfolding a by (meson bits_le_trans bits_le_sentinel bits_le_mark)
  then show "bits_le (area st) (area st')" by (rule bits_le_trans [OF bits_le_mark])
  show "site_reported st' (GetPreviousInstructionPc ar (hd tr))"
    using bits_le_bit [OF le mark_bit] by (simp add: site_reported_def tr)
  show "area st' (MAP_SIZE - 1) = 0xff" by (simp add: a)
  show "report_count st' = report_count st" "rflags st' = rflags st" "expect_umr st' = expect_umr st"
    by (simp_all add: st'_def cqmsan_update_map_def tr Let_def)
qed

lemma update_map_pc_effect:
  fixes st pc st'
  defines "st' \<equiv> cqmsan_update_map_pc pc st"
  shows "bits_le (area st) (area st')" and "site_reported st' pc" and "area st' (MAP_SIZE - 1) = 0xff"
    and "report_count st' = report_count st" "rflags st' = rflags st"
proof -
  let ?a1 = "mark pc CQMSAN_AFL_ERROR (area st)"
  have a: "area st' = (mark (drop_bit 1 (last_edge st) XOR pc) CQMSAN_AFL_PC_EDGE ?a1)(MAP_SIZE - 1 := 0xff)"
    by (simp add: st'_def cqmsan_update_map_pc_def Let_def)
  have le: "bits_le ?a1 (area st')"
    unfolding a by (rule bits_le_trans [OF _ bits_le_sentinel]) simp
  then show "bits_le (area st) (area st')" by (rule bits_le_trans [OF bits_le_mark])
  show "site_reported st' pc" using bits_le_bit [OF le mark_bit] by (simp add: site_reported_def)
  show "area st' (MAP_SIZE - 1) = 0xff" by (simp add: a)
  show "report_count st' = report_count st" "rflags st' = rflags st"
    by (simp_all add: st'_def cqmsan_update_map_pc_def Let_def)
qed

section \<open>Handler lemmas\<close>

text \<open>The runtime is up, unwinding works, and the depth flag is a positive or zero \<^verbatim>\<open>int\<close>.\<close>

definition reporting_ok :: "rctx \<Rightarrow> rstate \<Rightarrow> bool" where
  "reporting_ok c st \<longleftrightarrow> rc_inited c \<and> unwind_ok (rc_unwind c) \<and> umr_unwind_depth (rflags st) < 2 ^ 31"

lemma umr_map_trace_ok:
  assumes "reporting_ok c st"
  obtains tr where "umr_map_trace c (rflags st) pc bp = Ok tr" "tr \<noteq> []" "hd tr = pc"
proof -
  let ?d = "if umr_unwind_depth (rflags st) > 0 then word_of_int (umr_unwind_depth (rflags st)) else kStackTraceMax"
  have "?d \<noteq> 0"
  proof (cases "umr_unwind_depth (rflags st) > 0")
    case True
    then have "uint (word_of_int (umr_unwind_depth (rflags st)) :: u32) = umr_unwind_depth (rflags st)"
      using assms by (simp add: uint_word_of_int reporting_ok_def)
    with True show ?thesis by (metis less_irrefl uint_0_eq)
  qed (simp add: kStackTraceMax_def)
  then show thesis
    using that Unwind_ok [of "rc_unwind c" pc bp "umr_fast_unwind (rflags st)" ?d] assms
    by (auto simp: umr_map_trace_def reporting_ok_def)
qed

lemma record_fast_effect:
  assumes ok: "reporting_ok c st"
  obtains st' where "record_fast c pc bp st = Ok st'" "report_count st' = report_count st + 1"
    "bits_le (area st) (area st')" "site_reported st' (GetPreviousInstructionPc (rc_arch c) pc)"
    "rflags st' = rflags st"
    "\<not> cqmsan_site_known (GetPreviousInstructionPc (rc_arch c) pc) st \<Longrightarrow> area st' (MAP_SIZE - 1) = 0xff"
    "cqmsan_site_known (GetPreviousInstructionPc (rc_arch c) pc) st \<Longrightarrow>
       st' = st\<lparr>report_count := report_count st + 1\<rparr>"
proof -
  let ?st1 = "st\<lparr>report_count := report_count st + 1\<rparr>" and ?site = "GetPreviousInstructionPc (rc_arch c) pc"
  have known: "cqmsan_site_known ?site ?st1 \<longleftrightarrow> cqmsan_site_known ?site st"
    by (simp add: cqmsan_site_known_def)
  show thesis
  proof (cases "cqmsan_site_known ?site st")
    case True
    then have "site_reported ?st1 ?site" using site_known_reported known by blast
    then show thesis using that [of ?st1] True known by (simp add: record_fast_def Let_def)
  next
    case False
    have "reporting_ok c ?st1" using ok by (simp add: reporting_ok_def)
    then obtain tr where tr: "umr_map_trace c (rflags ?st1) pc bp = Ok tr" "tr \<noteq> []" "hd tr = pc"
      by (rule umr_map_trace_ok)
    note eff = update_map_effect [OF tr(2), where st = ?st1 and ar = "rc_arch c"]
    have "record_fast c pc bp st = Ok (cqmsan_update_map (rc_arch c) tr ?st1)"
      using False known tr(1) by (simp add: record_fast_def Let_def)
    then show thesis using that eff tr(3) False by auto
  qed
qed

lemma record_pconly_effect:
  "report_count (record_pconly pc st) = report_count st + 1" "bits_le (area st) (area (record_pconly pc st))"
  "site_reported (record_pconly pc st) pc" "rflags (record_pconly pc st) = rflags st"
  "\<not> cqmsan_site_known pc st \<Longrightarrow> area (record_pconly pc st) (MAP_SIZE - 1) = 0xff"
  "cqmsan_site_known pc st \<Longrightarrow> record_pconly pc st = st\<lparr>report_count := report_count st + 1\<rparr>"
proof -
  let ?st1 = "st\<lparr>report_count := report_count st + 1\<rparr>"
  have known: "cqmsan_site_known pc ?st1 \<longleftrightarrow> cqmsan_site_known pc st"
    by (simp add: cqmsan_site_known_def)
  have k: "site_reported ?st1 pc" if "cqmsan_site_known pc st"
    using that site_known_reported known by blast
  note eff = update_map_pc_effect [where st = ?st1 and pc = pc]
  show "report_count (record_pconly pc st) = report_count st + 1" "bits_le (area st) (area (record_pconly pc st))"
      "site_reported (record_pconly pc st) pc" "rflags (record_pconly pc st) = rflags st"
      "\<not> cqmsan_site_known pc st \<Longrightarrow> area (record_pconly pc st) (MAP_SIZE - 1) = 0xff"
      "cqmsan_site_known pc st \<Longrightarrow> record_pconly pc st = st\<lparr>report_count := report_count st + 1\<rparr>"
    using eff k known by (auto simp: record_pconly_def Let_def)
qed

section \<open>Range-check lemmas\<close>

lemma check_unpoisoned_fast_cases:
  assumes "rc_plat c = linux_64" and "\<not> rc_in_symbolizer c" and "report_umrs (rflags st)"
    and "app_range linux_64 x n" and "0 < n" and "n \<le> 2 ^ 40"
  shows "CHECK_UNPOISONED_0_FAST c pc bp x n st =
    (if bytes x n \<inter> poisoned linux_64 (rc_mem c) = {} then Ok (st, False)
     else halt_if halts (record_fast c pc bp st))"
  using assms(4-6)
proof (cases rule: test_shadow_cases [where m = "rc_mem c"])
  case clean
  then show ?thesis using assms(1-3) by (simp add: CHECK_UNPOISONED_0_FAST_def)
next
  case (dirty j)
  then have "x + j \<in> bytes x n \<inter> poisoned linux_64 (rc_mem c)" by simp
  then have "bytes x n \<inter> poisoned linux_64 (rc_mem c) \<noteq> {}" by blast
  with dirty show ?thesis using assms(1-3) by (simp add: CHECK_UNPOISONED_0_FAST_def)
qed

definition example_unwind :: unwind_env where
  "example_unwind = \<lparr>ue_mem = (\<lambda>_. 0), ue_PageSize = 4096, ue_stack = Some (0x7fff00000000, 0x7ffe00000000),
     ue_can_fast = True, ue_slow = (\<lambda>pc d. [])\<rparr>"

definition example_rctx :: "memory \<Rightarrow> rctx" where
  "example_rctx m = \<lparr>rc_arch = X64, rc_inited = True, rc_fast_fatal = False, rc_unwind = example_unwind,
     rc_plat = linux_64, rc_mem = m, rc_env = example_env, rc_in_symbolizer = False, rc_in_interceptor = False\<rparr>"

definition example_rstate :: rstate where
  "example_rstate = \<lparr>rflags = Flags_SetDefaults\<lparr>skip_known_sites := True\<rparr>, area = (\<lambda>_. 0), last_edge = 0, last_cs_edge = 0,
     report_count = 0, expect_umr = False, expected_umr_found = False, origin_tls = 0, umr_log = []\<rparr>"

lemma example_reporting_ok: "reporting_ok (example_rctx m) example_rstate"
  by (simp add: reporting_ok_def example_rctx_def example_unwind_def unwind_ok_def example_rstate_def
    Flags_SetDefaults_def)

section \<open>Properties\<close>

text \<open>
  C17: every violation that reaches a fast handler is counted and recorded: the map only gains
  bits, the error bit of the site (the same pc the probe looks up, whatever the unwinder does) is
  set, a site not yet known also raises the sentinel the fuzzer polls, and the process ends
  exactly when \<^verbatim>\<open>halt_on_error\<close> asks for it.
\<close>

theorem violation_recorded:
  assumes "reporting_ok c st"
  shows "(\<exists>st'. cqmsan_warning_fast c pc bp st = Ok (st', halt_on_error (rflags st)) \<and>
      report_count st' = report_count st + 1 \<and> bits_le (area st) (area st') \<and>
      site_reported st' (GetPreviousInstructionPc (rc_arch c) pc) \<and>
      (\<not> cqmsan_site_known (GetPreviousInstructionPc (rc_arch c) pc) st \<longrightarrow> area st' (MAP_SIZE - 1) = 0xff)) \<and>
    (\<exists>st'. cqmsan_warning_fast_pconly pc st = Ok (st', halt_on_error (rflags st)) \<and>
      report_count st' = report_count st + 1 \<and> bits_le (area st) (area st') \<and> site_reported st' pc \<and>
      (\<not> cqmsan_site_known pc st \<longrightarrow> area st' (MAP_SIZE - 1) = 0xff))"
proof (rule conjI)
  from assms show "\<exists>st'. cqmsan_warning_fast c pc bp st = Ok (st', halt_on_error (rflags st)) \<and>
      report_count st' = report_count st + 1 \<and> bits_le (area st) (area st') \<and>
      site_reported st' (GetPreviousInstructionPc (rc_arch c) pc) \<and>
      (\<not> cqmsan_site_known (GetPreviousInstructionPc (rc_arch c) pc) st \<longrightarrow> area st' (MAP_SIZE - 1) = 0xff)"
    by (rule record_fast_effect [where pc = pc and bp = bp]) (auto simp: cqmsan_warning_fast_def halt_if_def)
  show "\<exists>st'. cqmsan_warning_fast_pconly pc st = Ok (st', halt_on_error (rflags st)) \<and>
      report_count st' = report_count st + 1 \<and> bits_le (area st) (area st') \<and> site_reported st' pc \<and>
      (\<not> cqmsan_site_known pc st \<longrightarrow> area st' (MAP_SIZE - 1) = 0xff)"
    using record_pconly_effect [where st = st and pc = pc] by (auto simp: cqmsan_warning_fast_pconly_def halt_if_def)
qed

theorem violation_recorded_witness:
  "\<exists>st'. cqmsan_warning_fast (example_rctx (\<lambda>_. 0)) 0x401005 0x7ffe00001000 example_rstate = Ok (st', False) \<and>
     site_reported st' 0x401004"
proof -
  have "GetPreviousInstructionPc (rc_arch (example_rctx (\<lambda>_. 0))) 0x401005 = 0x401004"
      "\<not> halt_on_error (rflags example_rstate)"
    by (simp_all add: example_rctx_def example_rstate_def Flags_SetDefaults_def)
  then show ?thesis
    using violation_recorded [OF example_reporting_ok, where pc = "0x401005" and bp = "0x7ffe00001000"] by metis
qed

text \<open>
  With \<^verbatim>\<open>skip_known_sites\<close> a site is recorded once: reporting the same pc again leaves the
  whole map, the sentinel and both edge registers as they are, and only counts.
\<close>

theorem known_site_skipped:
  assumes "reporting_ok c st" and "skip_known_sites (rflags st)"
    and "cqmsan_warning_fast c pc bp st = Ok (st1, h)"
  shows "cqmsan_warning_fast c pc bp' st1 = Ok (st1\<lparr>report_count := report_count st1 + 1\<rparr>, h)"
proof -
  obtain st' where st': "record_fast c pc bp st = Ok st'"
      "site_reported st' (GetPreviousInstructionPc (rc_arch c) pc)" "rflags st' = rflags st"
    using assms(1) by (rule record_fast_effect)
  then have st1: "st1 = st'" "h = halt_on_error (rflags st)"
    using assms(3) by (auto simp: cqmsan_warning_fast_def halt_if_def)
  have known: "cqmsan_site_known (GetPreviousInstructionPc (rc_arch c) pc) st'"
    using site_reported_known st' assms(2) by simp
  have "reporting_ok c st'" using assms(1) st'(3) by (simp add: reporting_ok_def)
  then show ?thesis
    by (rule record_fast_effect [where pc = pc and bp = bp'])
      (use known st' st1 in \<open>auto simp: cqmsan_warning_fast_def halt_if_def\<close>)
qed

theorem known_site_skipped_witness:
  "\<exists>st1. cqmsan_warning_fast (example_rctx (\<lambda>_. 0)) 0x401005 0x7ffe00001000 example_rstate = Ok (st1, False) \<and>
     cqmsan_warning_fast (example_rctx (\<lambda>_. 0)) 0x401005 0 st1 = Ok (st1\<lparr>report_count := report_count st1 + 1\<rparr>, False)"
proof -
  obtain st' where "record_fast (example_rctx (\<lambda>_. 0)) 0x401005 0x7ffe00001000 example_rstate = Ok st'"
      "rflags st' = rflags example_rstate"
    using example_reporting_ok by (rule record_fast_effect)
  then have w: "cqmsan_warning_fast (example_rctx (\<lambda>_. 0)) 0x401005 0x7ffe00001000 example_rstate = Ok (st', False)"
    by (simp add: cqmsan_warning_fast_def halt_if_def example_rstate_def Flags_SetDefaults_def)
  moreover have "skip_known_sites (rflags example_rstate)" by (simp add: example_rstate_def)
  ultimately show ?thesis using known_site_skipped [OF example_reporting_ok _ w] by blast
qed

text \<open>
  C18: the range check in front of every intercepted library call records a violation exactly
  when the range holds an uninitialised byte (and the check is not disabled); on clean ranges it
  changes nothing.
\<close>

theorem range_check_exact:
  assumes "reporting_ok c st" and "rc_plat c = linux_64" and "report_umrs (rflags st)"
    and "app_range linux_64 x n" and "0 < n" and "n \<le> 2 ^ 40"
    and "\<not> rc_in_symbolizer c" and "\<not> rc_in_interceptor c"
  shows "\<exists>st'. CHECK_UNPOISONED c pc bp x n st = Ok (st', halt_on_error (rflags st) \<and> st' \<noteq> st) \<and>
    (if bytes x n \<inter> poisoned linux_64 (rc_mem c) = {} then st' = st
     else report_count st' = report_count st + 1 \<and> site_reported st' (GetPreviousInstructionPc (rc_arch c) pc))"
proof -
  obtain st' where st': "record_fast c pc bp st = Ok st'" "report_count st' = report_count st + 1"
      "site_reported st' (GetPreviousInstructionPc (rc_arch c) pc)" "rflags st' = rflags st"
    using assms(1) by (rule record_fast_effect)
  then have "st' \<noteq> st" by auto
  then show ?thesis
    using st' check_unpoisoned_fast_cases [OF assms(2,7,3-6), of pc bp] assms(8)
    by (auto simp: CHECK_UNPOISONED_def halt_if_def)
qed

theorem range_check_exact_witness:
  "\<exists>st'. CHECK_UNPOISONED (example_rctx ((\<lambda>_. 0)(0x200000000013 := 255))) 0x401005 0 0x700000000010 0x20000 example_rstate
      = Ok (st', False) \<and> report_count st' = 1"
proof -
  let ?c = "example_rctx ((\<lambda>_. 0)(0x200000000013 := 255))"
  have "MEM_IS_APP linux_64 0x700000000013" by (simp add: layout_eval linux_64_sel)
  then have "0x700000000013 \<in> bytes 0x700000000010 0x20000 \<inter> poisoned linux_64 (rc_mem ?c)"
    by (simp add: poisoned_def example_rctx_def linux_64_sel in_range_def)
  then have ne: "bytes 0x700000000010 0x20000 \<inter> poisoned linux_64 (rc_mem ?c) \<noteq> {}" by blast
  have "rc_plat ?c = linux_64" "report_umrs (rflags example_rstate)" "\<not> rc_in_symbolizer ?c" "\<not> rc_in_interceptor ?c"
      "(0::uptr) < 0x20000" "(0x20000::uptr) \<le> 2 ^ 40" "\<not> halt_on_error (rflags example_rstate)"
      "report_count example_rstate = 0"
    by (simp_all add: example_rctx_def example_rstate_def Flags_SetDefaults_def)
  then show ?thesis
    using range_check_exact [OF example_reporting_ok [of "(\<lambda>_. 0)(0x200000000013 := 255)"] _ _ example_range, where pc = "0x401005" and bp = 0] ne
    by auto
qed

text \<open>
  The value checks the compiler emits fire exactly on a non-zero shadow, for every width and
  handler, and leave the state alone otherwise.
\<close>

theorem maybe_warning_exact:
  fixes s :: "'a::len word"
  assumes "reporting_ok c st" and "\<not> flip (rc_env c)"
  shows "(s = 0 \<longrightarrow> cqmsan_maybe_warning c pc bp s org st = Ok (st, False) \<and>
      cqmsan_maybe_warning_fast c pc bp s st = Ok (st, False) \<and>
      cqmsan_maybe_warning_fast_pconly c pc s st = Ok (st, False) \<and>
      cqmsan_maybe_warning_fast_noupdate c s st = Ok (st, False)) \<and>
    (s \<noteq> 0 \<longrightarrow> cqmsan_maybe_warning_fast c pc bp s st = cqmsan_warning_fast c pc bp st \<and>
      cqmsan_maybe_warning_fast_pconly c pc s st = cqmsan_warning_fast_pconly pc st \<and>
      (\<exists>st'. cqmsan_maybe_warning_fast c pc bp s st = Ok (st', halt_on_error (rflags st)) \<and>
         report_count st' = report_count st + 1))"
proof (intro conjI impI)
  assume "s \<noteq> 0"
  with assms(2) have t: "maybe_warning_triggered (rc_env c) s" by (simp add: maybe_warning_triggered_def)
  then show "cqmsan_maybe_warning_fast c pc bp s st = cqmsan_warning_fast c pc bp st"
      "cqmsan_maybe_warning_fast_pconly c pc s st = cqmsan_warning_fast_pconly pc st"
    by (simp_all add: cqmsan_maybe_warning_fast_def cqmsan_warning_fast_def
      cqmsan_maybe_warning_fast_pconly_def cqmsan_warning_fast_pconly_def)
  from assms(1) show "\<exists>st'. cqmsan_maybe_warning_fast c pc bp s st = Ok (st', halt_on_error (rflags st)) \<and>
      report_count st' = report_count st + 1"
    by (rule record_fast_effect [where pc = pc and bp = bp]) (use t in \<open>auto simp: cqmsan_maybe_warning_fast_def halt_if_def\<close>)
qed (use assms(2) in \<open>simp_all add: cqmsan_maybe_warning_def cqmsan_maybe_warning_fast_def
  cqmsan_maybe_warning_fast_pconly_def cqmsan_maybe_warning_fast_noupdate_def maybe_warning_triggered_def\<close>)

theorem maybe_warning_exact_witness:
  "\<exists>st'. cqmsan_maybe_warning_fast (example_rctx (\<lambda>_. 0)) 0x401005 0 (0x80 :: u32) example_rstate = Ok (st', False) \<and>
     report_count st' = 1"
proof -
  have "\<not> flip (rc_env (example_rctx (\<lambda>_. 0)))" "(0x80 :: u32) \<noteq> 0" "\<not> halt_on_error (rflags example_rstate)"
      "report_count example_rstate + 1 = 1"
    by (simp_all add: example_rctx_def example_env_def example_rstate_def Flags_SetDefaults_def)
  then show ?thesis
    using maybe_warning_exact [OF example_reporting_ok [of "\<lambda>_. 0"], where s = "0x80 :: u32" and pc = "0x401005" and bp = 0]
    by metis
qed

text \<open>
  The sentinel hides a site. The byte that signals a finding to the fuzzer is the last byte
  of the same map, and its value has the error bit: after any recorded violation, every site
  whose pc ends in \<^verbatim>\<open>0xffff\<close> counts as known, so with \<^verbatim>\<open>skip_known_sites\<close> a first violation there
  is never recorded.
\<close>

theorem sentinel_hides_site:
  assumes "reporting_ok c st" and "skip_known_sites (rflags st)"
    and "\<not> cqmsan_site_known (GetPreviousInstructionPc (rc_arch c) pc) st"
    and "site mod MAP_SIZE = MAP_SIZE - 1"
  shows "\<exists>st'. cqmsan_warning_fast c pc bp st = Ok (st', halt_on_error (rflags st)) \<and> cqmsan_site_known site st'"
proof -
  obtain st' where st': "record_fast c pc bp st = Ok st'" "rflags st' = rflags st" "area st' (MAP_SIZE - 1) = 0xff"
    using assms(1) by (rule record_fast_effect [where pc = pc and bp = bp]) (use assms(3) in blast)
  then have "cqmsan_site_known site st'"
    using assms(2,4) by (simp add: cqmsan_site_known_def CQMSAN_AFL_ERROR_def)
  then show ?thesis using st' by (simp add: cqmsan_warning_fast_def halt_if_def)
qed

theorem sentinel_hides_site_witness:
  "\<exists>st'. cqmsan_warning_fast (example_rctx (\<lambda>_. 0)) 0x401005 0 example_rstate = Ok (st', False) \<and>
     cqmsan_site_known 0x41ffff st'"
proof -
  have "skip_known_sites (rflags example_rstate)" "(0x41ffff :: uptr) mod MAP_SIZE = MAP_SIZE - 1"
      "\<not> halt_on_error (rflags example_rstate)"
      "\<not> cqmsan_site_known (GetPreviousInstructionPc (rc_arch (example_rctx (\<lambda>_. 0))) 0x401005) example_rstate"
    by (simp_all add: example_rstate_def MAP_SIZE_eq cqmsan_site_known_def Flags_SetDefaults_def)
  then show ?thesis
    using sentinel_hides_site [OF example_reporting_ok [of "\<lambda>_. 0"], where pc = "0x401005" and site = "0x41ffff" and bp = 0] by simp
qed

text \<open>
  The expected-violation protocol of the tests. Between \<^verbatim>\<open>__cqmsan_set_expect_umr(1)\<close> and
  \<^verbatim>\<open>(0)\<close> a reported violation is swallowed (nothing is counted, logged or written to the map) and
  the closing call returns; without a violation it ends the process.
\<close>

theorem expect_umr_protocol:
  "\<exists>st1. cqmsan_set_expect_umr 1 st = Ok st1 \<and> cqmsan_set_expect_umr 0 st1 = Died DieCalled \<and>
     (\<exists>st2 st3. PrintWarningWithOrigin c pc bp org st1 = Ok st2 \<and> cqmsan_set_expect_umr 0 st2 = Ok st3 \<and>
        area st3 = area st \<and> report_count st3 = report_count st \<and> umr_log st3 = umr_log st \<and>
        origin_tls st3 = org \<and> \<not> expect_umr st3)"
  by (simp add: cqmsan_set_expect_umr_def PrintWarningWithOrigin_def)

end
