(* ===== verification/Allocator.thy ===== *)
theory Allocator
  imports Poisoning
begin

text \<open>
  The heap: \<^verbatim>\<open>cqmsan_allocator.cpp\<close> built with \<^verbatim>\<open>CQMSAN_GLIBC_ALLOC\<close>, where blocks come from the C
  library and carry a three-word header in front of the user's memory, the argument checks of
  \<^verbatim>\<open>sanitizer_allocator_checks.h\<close> and the page release of \<^verbatim>\<open>sanitizer_posix_libcdep.cpp\<close>.
\<close>

section \<open>State and parameters\<close>

text \<open>
  The C library's heap is code outside the repository: its three entry points are parameters, with
  a state of their own. They read and write the same flat memory; a null pointer is 0.
\<close>

record 'l libc =
  lmalloc :: "'l \<Rightarrow> memory \<Rightarrow> uptr \<Rightarrow> 'l \<times> memory \<times> uptr"
  lcalloc :: "'l \<Rightarrow> memory \<Rightarrow> uptr \<Rightarrow> uptr \<Rightarrow> 'l \<times> memory \<times> uptr"
  lfree :: "'l \<Rightarrow> memory \<Rightarrow> uptr \<Rightarrow> 'l \<times> memory"

text \<open>
  What the allocator reads: flags, platform and stack trace (\<open>ac_o\<close>), the C library, the limits, and
  which memory a safe probe can read. \<open>rss_exceeded\<close> is the flag of the background thread.
\<close>

record ('s, 'l) actx =
  ac_o :: "'s octx"
  ac_libc :: "'l libc"
  max_malloc_size :: uptr
  may_return_null :: bool
  rss_exceeded :: bool
  probe_ok :: "uptr \<Rightarrow> uptr \<Rightarrow> bool"

datatype hook_call = MallocHook uptr uptr | FreeHook uptr

record ('s, 'l) astate =
  amem :: memory
  aorg :: "'s origins"
  aheap :: 'l
  param_tls :: "u64 list"
  out_of_memory :: bool
  errno :: int
  hook_log :: "hook_call list"

type_synonym ('s, 'l, 'a) alloc = "('a \<times> ('s, 'l) astate) outcome option"

definition ac_env :: "('s, 'l) actx \<Rightarrow> env" where
  "ac_env c = oc_env (ac_o c)"

definition ac_plat :: "('s, 'l) actx \<Rightarrow> platform" where
  "ac_plat c = oc_plat (ac_o c)"

definition ac_flags :: "('s, 'l) actx \<Rightarrow> Flags" where
  "ac_flags c = oc_flags (ac_o c)"

definition errno_ENOMEM :: int where
  "errno_ENOMEM = 12"

definition errno_EINVAL :: int where
  "errno_EINVAL = 22"

definition TAG_ALLOC :: u32 where
  "TAG_ALLOC = 1"

definition TAG_DEALLOC :: u32 where
  "TAG_DEALLOC = 2"

section \<open>Constants and checks\<close>

definition kHeaderWords :: uptr where
  "kHeaderWords = 3"

definition kMinHeaderSlot :: uptr where
  "kMinHeaderSlot = RoundUpTo (kHeaderWords * 8) 16"

definition kHeaderMagic :: uptr where
  "kHeaderMagic = 0x43514D53414E00"

definition kFreedMagic :: uptr where
  "kFreedMagic = 0x46524545440000"

definition kShadowReleaseThreshold :: uptr where
  "kShadowReleaseThreshold = 128 * 1024"

definition kMaxAllowedMallocSize :: uptr where
  "kMaxAllowedMallocSize = push_bit 40 1"

definition CQMsanCanaryFor :: "uptr \<Rightarrow> uptr" where
  "CQMsanCanaryFor user = kHeaderMagic XOR user"

definition CQMsanFreedCanaryFor :: "uptr \<Rightarrow> uptr" where
  "CQMsanFreedCanaryFor user = kFreedMagic XOR user"

text \<open>The limit \<^verbatim>\<open>CQMsanAllocatorInit\<close> derives from the flag \<^verbatim>\<open>max_allocation_size_mb\<close>.\<close>

definition initial_max_malloc_size :: "uptr \<Rightarrow> uptr" where
  "initial_max_malloc_size max_allocation_size_mb =
    (if max_allocation_size_mb \<noteq> 0 then min (push_bit 20 max_allocation_size_mb) kMaxAllowedMallocSize
     else kMaxAllowedMallocSize)"

definition CheckAlignedAllocAlignmentAndSize :: "uptr \<Rightarrow> uptr \<Rightarrow> bool" where
  "CheckAlignedAllocAlignmentAndSize alignment sz \<longleftrightarrow>
    alignment \<noteq> 0 \<and> IsPowerOfTwo alignment \<and> sz AND (alignment - 1) = 0"

definition CheckPosixMemalignAlignment :: "uptr \<Rightarrow> bool" where
  "CheckPosixMemalignAlignment alignment \<longleftrightarrow>
    alignment \<noteq> 0 \<and> IsPowerOfTwo alignment \<and> alignment mod 8 = 0"

definition CheckForCallocOverflow :: "uptr \<Rightarrow> uptr \<Rightarrow> bool" where
  "CheckForCallocOverflow sz n \<longleftrightarrow> sz \<noteq> 0 \<and> (-1) div sz < n"

definition CheckForPvallocOverflow :: "uptr \<Rightarrow> uptr \<Rightarrow> bool" where
  "CheckForPvallocOverflow sz page_size \<longleftrightarrow> RoundUpTo sz page_size < sz"

section \<open>Allocation\<close>

text \<open>Pages given back to the kernel read as zero afterwards.\<close>

definition ReleaseMemoryPagesToOS :: "env \<Rightarrow> memory \<Rightarrow> uptr \<Rightarrow> uptr \<Rightarrow> memory" where
  "ReleaseMemoryPagesToOS e m beg fin =
    (let beg_aligned = RoundUpTo beg (PageSize e); end_aligned = RoundDownTo fin (PageSize e) in
     if beg_aligned < end_aligned then real_memset m beg_aligned 0 (end_aligned - beg_aligned) else m)"

definition UnpoisonParam :: "nat \<Rightarrow> ('s, 'l) astate \<Rightarrow> ('s, 'l) astate" where
  "UnpoisonParam n st =
    st\<lparr>param_tls := replicate (min n (length (param_tls st))) 0 @ drop n (param_tls st)\<rparr>"

definition RunMallocHooks :: "uptr \<Rightarrow> uptr \<Rightarrow> ('s, 'l) astate \<Rightarrow> ('s, 'l) astate" where
  "RunMallocHooks p n st = st\<lparr>hook_log := hook_log st @ [MallocHook p n]\<rparr>"

definition RunFreeHooks :: "uptr \<Rightarrow> ('s, 'l) astate \<Rightarrow> ('s, 'l) astate" where
  "RunFreeHooks p st = st\<lparr>hook_log := hook_log st @ [FreeHook p]\<rparr>"

definition CQMsanGlibcHeaderToUser :: "memory \<Rightarrow> uptr \<Rightarrow> uptr \<Rightarrow> uptr \<Rightarrow> uptr \<times> memory" where
  "CQMsanGlibcHeaderToUser m raw header_slot sz =
    (let user = raw + header_slot;
         m1 = store64 m (user - 8) sz;
         m2 = store64 m1 (user - 16) header_slot
     in (user, store64 m2 (user - 24) (CQMsanCanaryFor user)))"

text \<open>\<^verbatim>\<open>__cqmsan_poison\<close> followed, when tracking, by a fresh heap origin with the given tag.\<close>

definition poison_with_origin ::
    "('s, 'l) actx \<Rightarrow> u32 \<Rightarrow> 's ostate \<Rightarrow> uptr \<Rightarrow> uptr \<Rightarrow> 's ostate outcome option" where
  "poison_with_origin c tg ms a sz =
    (case cqmsan_poison (ac_plat c) (ac_env c) (fst ms) a sz of Died x \<Rightarrow> Some (Died x)
     | Ok m \<Rightarrow>
       if track_origins (ac_env c) \<noteq> 0 then
         bind_oo (CreateHeapOrigin (oc_store (ac_o c)) (snd ms) ((oc_stack (ac_o c))\<lparr>tag := tg\<rparr>)) (\<lambda>(i, og).
           Some (Ok (SetOrigin (ac_plat c) m a sz i, og)))
       else Some (Ok (m, snd ms)))"

text \<open>The size asked of the C library, where the user's memory starts in the block, and the reply.\<close>

definition real_size_for :: "uptr \<Rightarrow> uptr \<Rightarrow> uptr" where
  "real_size_for sz alignment =
    (if alignment \<ge> kMinHeaderSlot then kMinHeaderSlot + sz + (alignment - 1) else kMinHeaderSlot + sz)"

definition header_slot_for :: "uptr \<Rightarrow> uptr \<Rightarrow> uptr" where
  "header_slot_for raw alignment =
    (if alignment \<ge> kMinHeaderSlot then RoundUpTo (raw + kMinHeaderSlot) alignment - raw else kMinHeaderSlot)"

definition libc_reply :: "('s, 'l) actx \<Rightarrow> ('s, 'l) astate \<Rightarrow> uptr \<Rightarrow> bool \<Rightarrow> 'l \<times> memory \<times> uptr" where
  "libc_reply c st real_size zero =
    (if zero then lcalloc (ac_libc c) (aheap st) (amem st) 1 real_size
     else lmalloc (ac_libc c) (aheap st) (amem st) real_size)"

definition CQMsanAllocate :: "('s, 'l) actx \<Rightarrow> ('s, 'l) astate \<Rightarrow> uptr \<Rightarrow> uptr \<Rightarrow> bool \<Rightarrow> ('s, 'l, uptr) alloc" where
  "CQMsanAllocate c st sz alignment zero =
    (let p = ac_plat c; e = ac_env c; f = ac_flags c in
     if sz > max_malloc_size c then
       (if may_return_null c then Some (Ok (0, st)) else Some (Died (Fatal ''allocation-size-too-big'')))
     else if rss_exceeded c then
       (if may_return_null c then Some (Ok (0, st)) else Some (Died (Fatal ''rss-limit-exceeded'')))
     else
       let real_size = real_size_for sz alignment;
           (h, m, raw) = libc_reply c st real_size zero
       in if raw = 0 then
            (if may_return_null c then Some (Ok (0, st\<lparr>aheap := h, amem := m, out_of_memory := True\<rparr>))
             else Some (Died (Fatal ''out-of-memory'')))
          else if \<not> MEM_IS_APP p raw \<or> \<not> MEM_IS_APP p (raw + real_size - 1) then Some (Died DieCalled)
          else
            let (user, m1) = CQMsanGlibcHeaderToUser m raw (header_slot_for raw alignment) sz
            in bind_oo (if zero then map_option (\<lambda>r. bind_ok r (\<lambda>m2. Ok (m2, aorg st))) (Some (SetShadow p e m1 user sz (kCleanByte e)))
                        else if poison_in_malloc f \<and> (flip e \<longrightarrow> \<not> poison_in_free f)
                        then poison_with_origin c TAG_ALLOC (m1, aorg st) user sz
                        else Some (Ok (m1, aorg st)))
               (\<lambda>(m2, og). Some (Ok (user, RunMallocHooks user sz (UnpoisonParam 2
                  (st\<lparr>aheap := h, amem := m2, aorg := og\<rparr>))))))"

definition CQMsanDeallocate :: "('s, 'l) actx \<Rightarrow> ('s, 'l) astate \<Rightarrow> uptr \<Rightarrow> ('s, 'l, unit) alloc" where
  "CQMsanDeallocate c st ptr =
    (let slot1 = load64 (amem st) (ptr - 8) in
     if slot1 = CQMsanFreedCanaryFor ptr then Some (Died DieCalled)
     else if load64 (amem st) (ptr - 24) \<noteq> CQMsanCanaryFor ptr then Some (Died DieCalled)
     else
       let st1 = RunFreeHooks ptr (UnpoisonParam 1 st);
           sz = slot1;
           header_slot = load64 (amem st1) (ptr - 16);
           raw = ptr - header_slot;
           m1 = (if sz \<ge> kShadowReleaseThreshold
                 then let shadow_p = MEM_TO_SHADOW (ac_plat c) ptr
                      in ReleaseMemoryPagesToOS (ac_env c) (amem st1) shadow_p (shadow_p + sz)
                 else amem st1)
       in bind_oo (if poison_in_free (ac_flags c) then poison_with_origin c TAG_DEALLOC (m1, aorg st1) ptr sz
                   else Some (Ok (m1, aorg st1)))
          (\<lambda>(m2, og).
             let m3 = store64 m2 (ptr - 8) (CQMsanFreedCanaryFor ptr);
                 (h, m4) = lfree (ac_libc c) (aheap st1) m3 raw
             in Some (Ok ((), st1\<lparr>aheap := h, amem := m4, aorg := og\<rparr>))))"

definition CQMsanReallocateGlibc :: "('s, 'l) actx \<Rightarrow> ('s, 'l) astate \<Rightarrow> uptr \<Rightarrow> uptr \<Rightarrow> uptr \<Rightarrow> ('s, 'l, uptr) alloc" where
  "CQMsanReallocateGlibc c st old_p new_size alignment =
    (let slot1 = load64 (amem st) (old_p - 8) in
     if slot1 = CQMsanFreedCanaryFor old_p then Some (Died DieCalled)
     else if load64 (amem st) (old_p - 24) \<noteq> CQMsanCanaryFor old_p then Some (Died DieCalled)
     else
       let old_size = slot1; copy_size = min new_size old_size
       in bind_oo (CQMsanAllocate c st new_size alignment False) (\<lambda>(new_p, st1).
            if new_p \<noteq> 0 then
              bind_oo (CopyMemory (ac_o c) (amem st1, aorg st1) new_p old_p copy_size) (\<lambda>(m, og).
              bind_oo (CQMsanDeallocate c (st1\<lparr>amem := m, aorg := og\<rparr>) old_p) (\<lambda>(_, st2).
                Some (Ok (new_p, st2))))
            else Some (Ok (new_p, st1))))"

definition CQMsanReallocate :: "('s, 'l) actx \<Rightarrow> ('s, 'l) astate \<Rightarrow> uptr \<Rightarrow> uptr \<Rightarrow> uptr \<Rightarrow> ('s, 'l, uptr) alloc" where
  "CQMsanReallocate c st old_p new_size alignment = CQMsanReallocateGlibc c st old_p new_size alignment"

definition CQMsanCalloc :: "('s, 'l) actx \<Rightarrow> ('s, 'l) astate \<Rightarrow> uptr \<Rightarrow> uptr \<Rightarrow> ('s, 'l, uptr) alloc" where
  "CQMsanCalloc c st nmemb sz =
    (if CheckForCallocOverflow sz nmemb then
       (if may_return_null c then Some (Ok (0, st)) else Some (Died (Fatal ''calloc-overflow'')))
     else CQMsanAllocate c st (nmemb * sz) 8 True)"

section \<open>Queries\<close>

definition AllocationBegin :: "('s, 'l) actx \<Rightarrow> memory \<Rightarrow> uptr \<Rightarrow> uptr" where
  "AllocationBegin c m ptr =
    (if ptr = 0 then 0
     else if \<not> probe_ok c (ptr - 24) 24 then 0
     else if load64 m (ptr - 8) = CQMsanFreedCanaryFor ptr then 0
     else if load64 m (ptr - 24) \<noteq> CQMsanCanaryFor ptr then 0
     else if load64 m (ptr - 8) = 0 then 0 else ptr)"

definition AllocationSizeFast :: "memory \<Rightarrow> uptr \<Rightarrow> uptr" where
  "AllocationSizeFast m ptr = load64 m (ptr - 8)"

definition AllocationSize :: "('s, 'l) actx \<Rightarrow> memory \<Rightarrow> uptr \<Rightarrow> uptr" where
  "AllocationSize c m ptr =
    (if ptr = 0 then 0 else if AllocationBegin c m ptr \<noteq> ptr then 0 else AllocationSizeFast m ptr)"

definition sanitizer_get_ownership :: "('s, 'l) actx \<Rightarrow> memory \<Rightarrow> uptr \<Rightarrow> bool" where
  "sanitizer_get_ownership c m ptr \<longleftrightarrow> AllocationSize c m ptr \<noteq> 0"

section \<open>The allocation interface\<close>

definition SetErrnoOnNull :: "('s, 'l, uptr) alloc \<Rightarrow> ('s, 'l, uptr) alloc" where
  "SetErrnoOnNull r =
    bind_oo r (\<lambda>(ptr, st). Some (Ok (ptr, if ptr = 0 then st\<lparr>errno := errno_ENOMEM\<rparr> else st)))"

text \<open>A rejected request: \<^verbatim>\<open>errno\<close> is set first, then null is returned or the process ends.\<close>

definition reject :: "('s, 'l) actx \<Rightarrow> ('s, 'l) astate \<Rightarrow> string \<Rightarrow> int \<Rightarrow> ('s, 'l, uptr) alloc" where
  "reject c st what en = (if may_return_null c then Some (Ok (0, st\<lparr>errno := en\<rparr>)) else Some (Died (Fatal what)))"

definition cqmsan_malloc :: "('s, 'l) actx \<Rightarrow> ('s, 'l) astate \<Rightarrow> uptr \<Rightarrow> ('s, 'l, uptr) alloc" where
  "cqmsan_malloc c st sz = SetErrnoOnNull (CQMsanAllocate c st sz 8 False)"

definition cqmsan_calloc :: "('s, 'l) actx \<Rightarrow> ('s, 'l) astate \<Rightarrow> uptr \<Rightarrow> uptr \<Rightarrow> ('s, 'l, uptr) alloc" where
  "cqmsan_calloc c st nmemb sz = SetErrnoOnNull (CQMsanCalloc c st nmemb sz)"

definition cqmsan_realloc :: "('s, 'l) actx \<Rightarrow> ('s, 'l) astate \<Rightarrow> uptr \<Rightarrow> uptr \<Rightarrow> ('s, 'l, uptr) alloc" where
  "cqmsan_realloc c st ptr sz =
    (if ptr = 0 then SetErrnoOnNull (CQMsanAllocate c st sz 8 False)
     else if sz = 0 then bind_oo (CQMsanDeallocate c st ptr) (\<lambda>(_, st1). Some (Ok (0, st1)))
     else SetErrnoOnNull (CQMsanReallocate c st ptr sz 8))"

definition cqmsan_reallocarray :: "('s, 'l) actx \<Rightarrow> ('s, 'l) astate \<Rightarrow> uptr \<Rightarrow> uptr \<Rightarrow> uptr \<Rightarrow> ('s, 'l, uptr) alloc" where
  "cqmsan_reallocarray c st ptr nmemb sz =
    (if CheckForCallocOverflow sz nmemb then reject c st ''reallocarray-overflow'' errno_ENOMEM
     else cqmsan_realloc c st ptr (nmemb * sz))"

definition cqmsan_valloc :: "('s, 'l) actx \<Rightarrow> ('s, 'l) astate \<Rightarrow> uptr \<Rightarrow> ('s, 'l, uptr) alloc" where
  "cqmsan_valloc c st sz = SetErrnoOnNull (CQMsanAllocate c st sz (PageSize (ac_env c)) False)"

definition cqmsan_pvalloc :: "('s, 'l) actx \<Rightarrow> ('s, 'l) astate \<Rightarrow> uptr \<Rightarrow> ('s, 'l, uptr) alloc" where
  "cqmsan_pvalloc c st sz =
    (let page = PageSize (ac_env c) in
     if CheckForPvallocOverflow sz page then reject c st ''pvalloc-overflow'' errno_ENOMEM
     else SetErrnoOnNull (CQMsanAllocate c st (if sz \<noteq> 0 then RoundUpTo sz page else page) page False))"

definition cqmsan_aligned_alloc :: "('s, 'l) actx \<Rightarrow> ('s, 'l) astate \<Rightarrow> uptr \<Rightarrow> uptr \<Rightarrow> ('s, 'l, uptr) alloc" where
  "cqmsan_aligned_alloc c st alignment sz =
    (if \<not> CheckAlignedAllocAlignmentAndSize alignment sz
     then reject c st ''invalid-aligned-alloc-alignment'' errno_EINVAL
     else SetErrnoOnNull (CQMsanAllocate c st sz alignment False))"

definition cqmsan_memalign :: "('s, 'l) actx \<Rightarrow> ('s, 'l) astate \<Rightarrow> uptr \<Rightarrow> uptr \<Rightarrow> ('s, 'l, uptr) alloc" where
  "cqmsan_memalign c st alignment sz =
    (if \<not> IsPowerOfTwo alignment then reject c st ''invalid-allocation-alignment'' errno_EINVAL
     else SetErrnoOnNull (CQMsanAllocate c st sz alignment False))"

definition cqmsan_posix_memalign :: "('s, 'l) actx \<Rightarrow> ('s, 'l) astate \<Rightarrow> uptr \<Rightarrow> uptr \<Rightarrow> uptr \<Rightarrow> ('s, 'l, int) alloc" where
  "cqmsan_posix_memalign c st memptr alignment sz =
    (if \<not> CheckPosixMemalignAlignment alignment then
       (if may_return_null c then Some (Ok (errno_EINVAL, st))
        else Some (Died (Fatal ''invalid-posix-memalign-alignment'')))
     else bind_oo (CQMsanAllocate c st sz alignment False) (\<lambda>(ptr, st1).
       if ptr = 0 then Some (Ok (errno_ENOMEM, st1))
       else Some (check (IsAligned ptr alignment) (Ok (0, st1\<lparr>amem := store64 (amem st1) memptr ptr\<rparr>)))))"

section \<open>Ranges inside a block\<close>

lemma in_range_off:
  assumes "unat o1 + unat k < 2 ^ 64"
  shows "in_range x (a + o1) k \<longleftrightarrow> unat o1 \<le> unat (x - a) \<and> unat (x - a) < unat o1 + unat k"
proof -
  define y where "y = x - a"
  have "x - (a + o1) = y - o1" by (simp add: y_def)
  moreover have "unat (y - o1) = (if unat o1 \<le> unat y then unat y - unat o1 else unat y + 2 ^ 64 - unat o1)"
    by (simp add: unat_sub_if')
  ultimately have "in_range x (a + o1) k \<longleftrightarrow>
      (if unat o1 \<le> unat y then unat y - unat o1 else unat y + 2 ^ 64 - unat o1) < unat k"
    unfolding in_range_def word_less_nat_alt by presburger
  then show ?thesis unfolding y_def [symmetric] using assms unat64_less [of y] by auto
qed

lemma app_range_sub:
  assumes "app_range p a n" and "unat off + unat k \<le> unat n"
  shows "app_range p (a + off) k"
proof -
  have "fits (kMemoryLayout p) t (a + off) k" if "fits (kMemoryLayout p) t a n" for t
  proof -
    from that obtain d where d: "d \<in> set (kMemoryLayout p)" "mtype d = t" "start d \<le> a" "a \<le> endp d" "n \<le> endp d - a"
      by (auto simp: fits_def list_ex_iff)
    have e: "unat (endp d - a) = unat (endp d) - unat a" using d(4) by (simp add: unat_sub)
    have le: "unat a + unat n \<le> unat (endp d)" using d(4,5) unfolding word_le_nat_alt e by linarith
    then have u: "unat (a + off) = unat a + unat off"
      using assms(2) unat64_less [of "endp d"] by (subst unat_add_lem [THEN iffD1]) simp_all
    have "start d \<le> a + off" "a + off \<le> endp d" "k \<le> endp d - (a + off)"
      using d(3) le assms(2) u by (simp_all add: word_le_nat_alt unat_sub)
    with d(1,2) show ?thesis by (auto simp: fits_def list_ex_iff)
  qed
  with assms(1) show ?thesis by (auto simp: app_range_def)
qed

lemma app_range_bound:
  assumes "app_range linux_64 a n"
  shows "unat a + unat n \<le> 2 ^ 47"
proof -
  obtain d where d: "d \<in> set (kMemoryLayout linux_64)" "a \<le> endp d" "n \<le> endp d - a"
    using assms by (auto simp: app_range_def fits_def list_ex_iff)
  have "endp d \<le> 2 ^ 47" using d(1) by (auto simp: linux_64_sel)
  moreover have "unat (endp d - a) = unat (endp d) - unat a" using d(2) by (simp add: unat_sub)
  ultimately show ?thesis using d(2,3) unfolding word_le_nat_alt by simp
qed

section \<open>Marking a range, which may be empty\<close>

lemma drop_48: "drop_bit 48 x = 0 \<longleftrightarrow> unat x < 2 ^ 48" for x :: uptr
proof -
  have "unat (drop_bit 48 x) = unat x div 2 ^ 48" unfolding unat_drop_bit_eq by (simp add: drop_bit_eq_div)
  then show ?thesis by (metis div_eq_0_iff unat_eq_zero zero_neq_numeral power_eq_0_iff)
qed

lemma shadow_range_bound:
  assumes "app_range linux_64 a n"
  shows "unat (MEM_TO_SHADOW linux_64 a) + unat n + 2 ^ 32 \<le> 2 ^ 64"
proof -
  note b = app_range_bound [OF assms]
  have "drop_bit 48 a = 0" using b unfolding drop_48 by simp
  then have "drop_bit 48 (a XOR 0x500000000000) = 0" unfolding drop_bit_xor by simp
  then have "unat (MEM_TO_SHADOW linux_64 a) < 2 ^ 48" unfolding drop_48 by (simp add: linux_64_sel)
  with b show ?thesis by simp
qed

lemma SetShadow_range:
  assumes "env_ok e" and "app_range linux_64 a n"
  shows "SetShadow linux_64 e m a n v = Ok (real_memset m (MEM_TO_SHADOW linux_64 a) v n)"
  by (rule SetShadow_memset [OF assms(1) shadow_range_bound [OF assms(2)]])

lemma poison_range:
  assumes "env_ok e" and "app_range linux_64 a n"
  shows "cqmsan_poison linux_64 e m a n = Ok (real_memset m (MEM_TO_SHADOW linux_64 a) (kPoisonByte e) n)"
  using SetShadow_range [OF assms] app_range_app_0 [OF assms(2)]
  by (cases "n = 0") (auto simp: cqmsan_poison_def word_neq_0_conv)

lemma poisoned_range:
  assumes "app_range linux_64 a n"
  shows "poisoned linux_64 (real_memset m (MEM_TO_SHADOW linux_64 a) v n) =
    (if v = 0 then poisoned linux_64 m - bytes a n else poisoned linux_64 m \<union> bytes a n)"
proof (cases "n = 0")
  case False
  then show ?thesis using assms x86.poisoned_memset x86_range by (simp add: word_neq_0_conv)
next
  case True
  then have "bytes a n = {}" by auto
  with True show ?thesis by simp
qed

lemma data_range:
  assumes "app_range linux_64 a n" and "MEM_IS_APP linux_64 x"
  shows "real_memset m (MEM_TO_SHADOW linux_64 a) v n x = m x"
  using assms x86.shadow_memset_app_data x86_range by (cases "n = 0") (simp_all add: word_neq_0_conv)

lemma shadow_outside:
  assumes "app_range linux_64 a n" and "MEM_IS_APP linux_64 x" and "\<not> in_range x a n"
  shows "real_memset m (MEM_TO_SHADOW linux_64 a) v n (MEM_TO_SHADOW linux_64 x) = m (MEM_TO_SHADOW linux_64 x)"
proof (cases "n = 0")
  case False
  then have "in_range (MEM_TO_SHADOW linux_64 x) (MEM_TO_SHADOW linux_64 a) n \<longleftrightarrow> in_range x a n"
    using assms x86.in_range_shadow_iff x86_range by (simp add: word_neq_0_conv)
  with assms(3) show ?thesis by (simp add: real_memset_def)
qed simp

section \<open>Headers\<close>

text \<open>\<open>chunk_ok m (raw, n) (u, sz)\<close>: the block \<open>raw\<close> carries a live user chunk at \<open>u\<close>.\<close>

definition header_ok :: "memory \<Rightarrow> uptr \<Rightarrow> uptr \<Rightarrow> uptr \<Rightarrow> bool" where
  "header_ok m raw u sz \<longleftrightarrow> load64 m (u - 8) = sz \<and> load64 m (u - 16) = u - raw \<and>
     load64 m (u - 24) = CQMsanCanaryFor u"

definition chunk_ok :: "memory \<Rightarrow> uptr \<Rightarrow> uptr \<Rightarrow> uptr \<Rightarrow> uptr \<Rightarrow> bool" where
  "chunk_ok m raw n u sz \<longleftrightarrow> 32 \<le> unat (u - raw) \<and> unat (u - raw) + unat sz \<le> unat n \<and> header_ok m raw u sz"

text \<open>A word cell of the header lies in the block, in front of the user memory.\<close>

lemma header_cell:
  fixes u raw i w :: uptr
  assumes "32 \<le> unat (u - raw)" and "i < 8" and "w \<le> 24" and "8 \<le> w"
  shows "unat (u - w + i - raw) = unat (u - raw) - unat w + unat i"
proof -
  let ?s = "u - raw"
  have w: "unat w \<le> 24" "8 \<le> unat w" "unat i < 8" using assms(2-4) by (simp_all add: word_le_nat_alt word_less_nat_alt)
  have e: "u - w + i - raw = (?s - w) + i" by simp
  have "unat (?s - w) = unat ?s - unat w" using w(1) assms(1) by (subst unat_sub) (simp_all add: word_le_nat_alt)
  moreover have "unat ((?s - w) + i) = unat (?s - w) + unat i"
    using calculation w unat64_less [of ?s] assms(1) by (subst unat_add_lem [THEN iffD1]) simp_all
  ultimately show ?thesis unfolding e by simp
qed

lemma header_cell_range:
  assumes "32 \<le> unat (u - raw)" and "unat (u - raw) \<le> unat n" and "i < 8" and "w = 8 \<or> w = 16 \<or> w = 24"
  shows "in_range (u - w + i) raw n"
    and "\<not> in_range (u - w + i) u sz \<or> unat (u - raw) + unat sz \<ge> 2 ^ 64"
proof -
  have w: "w \<le> 24" "8 \<le> w" using assms(4) by auto
  have c: "unat (u - w + i - raw) = unat (u - raw) - unat w + unat i" using header_cell [OF assms(1,3) w] .
  have lt: "unat (u - w + i - raw) < unat (u - raw)"
    unfolding c using assms(1,3) w by (simp add: word_less_nat_alt word_le_nat_alt)
  then show "in_range (u - w + i) raw n" using assms(2) by (simp add: in_range_def word_less_nat_alt)
  show "\<not> in_range (u - w + i) u sz \<or> unat (u - raw) + unat sz \<ge> 2 ^ 64"
  proof (rule disjCI)
    assume "\<not> unat (u - raw) + unat sz \<ge> 2 ^ 64"
    then have "in_range (u - w + i) (raw + (u - raw)) sz \<longleftrightarrow> unat (u - raw) \<le> unat (u - w + i - raw) \<and>
        unat (u - w + i - raw) < unat (u - raw) + unat sz" by (intro in_range_off) simp
    with lt show "\<not> in_range (u - w + i) u sz" by simp
  qed
qed

lemma header_ok_cong:
  assumes "32 \<le> unat (u - raw)" and "unat (u - raw) \<le> unat n"
    and "\<And>x. in_range x raw n \<Longrightarrow> m' x = m x"
  shows "header_ok m' raw u sz \<longleftrightarrow> header_ok m raw u sz"
proof -
  have "load64 m' (u - w) = load64 m (u - w)" if "w = 8 \<or> w = 16 \<or> w = 24" for w
    by (rule load64_cong) (rule assms(3) [OF header_cell_range(1) [OF assms(1,2) _ that]])
  then show ?thesis by (simp add: header_ok_def)
qed

lemma HeaderToUser:
  assumes "CQMsanGlibcHeaderToUser m raw s sz = (u, m')" and "32 \<le> unat s" and "unat s + unat sz < 2 ^ 64"
  shows "u = raw + s" and "header_ok m' raw u sz"
    and "unat (x - raw) \<ge> unat s \<Longrightarrow> m' x = m x" and "\<not> in_range x raw n \<Longrightarrow> unat s \<le> unat n \<Longrightarrow> m' x = m x"
proof -
  show u: "u = raw + s" using assms(1) by (simp add: CQMsanGlibcHeaderToUser_def Let_def)
  then have s: "u - raw = s" by simp
  have m': "m' = store64 (store64 (store64 m (u - 8) sz) (u - 16) s) (u - 24) (CQMsanCanaryFor u)"
    using assms(1) by (auto simp: CQMsanGlibcHeaderToUser_def Let_def)
  have apart: "\<not> in_range (u - v + i) (u - w) 8" if "i < 8" "v \<noteq> w" "v \<in> {8, 16, 24}" "w \<in> {8, 16, 24}" for i v w :: uptr
  proof -
    have "u - v + i - (u - w) = (w - v) + i" by simp
    then show ?thesis using that unfolding in_range_def by auto (unat_arith)+
  qed
  show "header_ok m' raw u sz"
    unfolding header_ok_def m' s using apart by (simp add: load64_store64 load64_store64_other)
  have out: "m' x = m x" if "\<And>w. w \<in> {8, 16, 24} \<Longrightarrow> \<not> in_range x (u - w) 8"
    using that by (simp add: m' store64_out)
  have cell: "unat (x - raw) < unat s" if "in_range x (u - w) 8" "w \<in> {8, 16, 24}" for w
  proof -
    from that(1) obtain i where i: "i < 8" "x = u - w + i" by (rule in_rangeE)
    have "w \<le> 24" "8 \<le> w" using that(2) by auto
    from header_cell [OF _ i(1) this, of u raw] show ?thesis
      using assms(2) i that(2) s by (auto simp: word_less_nat_alt)
  qed
  show "unat (x - raw) \<ge> unat s \<Longrightarrow> m' x = m x" using out cell leD by blast
  show "\<not> in_range x raw n \<Longrightarrow> unat s \<le> unat n \<Longrightarrow> m' x = m x"
    using out cell by (fastforce simp: in_range_def word_less_nat_alt)
qed

section \<open>The C library's contract\<close>

definition ranges_disjoint :: "uptr \<Rightarrow> uptr \<Rightarrow> uptr \<Rightarrow> uptr \<Rightarrow> bool" where
  "ranges_disjoint a n b k \<longleftrightarrow> (\<forall>x. \<not> (in_range x a n \<and> in_range x b k))"

text \<open>Memory outside the application's regions and inside live blocks \<open>B\<close> is left alone.\<close>

definition keeps :: "platform \<Rightarrow> (uptr \<times> uptr) set \<Rightarrow> memory \<Rightarrow> memory \<Rightarrow> bool" where
  "keeps p B m m' \<longleftrightarrow> (\<forall>x. \<not> MEM_IS_APP p x \<or> (\<exists>(b, k) \<in> B. in_range x b k) \<longrightarrow> m' x = m x)"

text \<open>
  A request for \<open>n\<close> bytes is either refused (null) or granted: a block aligned to 16, in the
  application's memory, apart from every live block.
\<close>

definition grants ::
    "platform \<Rightarrow> (uptr \<times> uptr) set \<Rightarrow> memory \<Rightarrow> uptr \<Rightarrow> (uptr \<times> uptr) set \<Rightarrow> memory \<Rightarrow> uptr \<Rightarrow> bool" where
  "grants p B m n B' m' r \<longleftrightarrow> keeps p B m m' \<and>
    (if r = 0 then B' = B
     else 16 dvd unat r \<and> app_range p r n \<and> (\<forall>(b, k) \<in> B. ranges_disjoint b k r n) \<and> B' = insert (r, n) B)"

definition libc_ok :: "platform \<Rightarrow> 'l libc \<Rightarrow> ('l \<Rightarrow> bool) \<Rightarrow> ('l \<Rightarrow> (uptr \<times> uptr) set) \<Rightarrow> bool" where
  "libc_ok p lc I B \<longleftrightarrow>
    (\<forall>h m n h' m' r. I h \<longrightarrow> lmalloc lc h m n = (h', m', r) \<longrightarrow> I h' \<and> grants p (B h) m n (B h') m' r) \<and>
    (\<forall>h m n h' m' r. I h \<longrightarrow> lcalloc lc h m 1 n = (h', m', r) \<longrightarrow> I h' \<and> grants p (B h) m n (B h') m' r \<and>
       (r \<noteq> 0 \<longrightarrow> (\<forall>x. in_range x r n \<longrightarrow> m' x = 0))) \<and>
    (\<forall>h m r n h' m'. I h \<longrightarrow> (r, n) \<in> B h \<longrightarrow> lfree lc h m r = (h', m') \<longrightarrow>
       I h' \<and> B h' = B h - {(r, n)} \<and> keeps p (B h') m m')"

text \<open>
  What double-free detection rests on, as the comment in \<^verbatim>\<open>CQMsanDeallocate\<close> says: the C library's
  own bookkeeping in a freed block stays in its first 16 bytes.
\<close>

definition free_keeps_tail :: "'l libc \<Rightarrow> ('l \<Rightarrow> bool) \<Rightarrow> ('l \<Rightarrow> (uptr \<times> uptr) set) \<Rightarrow> bool" where
  "free_keeps_tail lc I B \<longleftrightarrow>
    (\<forall>h m r n h' m' x. I h \<longrightarrow> (r, n) \<in> B h \<longrightarrow> lfree lc h m r = (h', m') \<longrightarrow>
       in_range x r n \<longrightarrow> 16 \<le> unat (x - r) \<longrightarrow> m' x = m x)"

section \<open>The table of live chunks\<close>

text \<open>
  The abstract heap: for every live user pointer its size and the block it came from. \<open>heap_rel\<close>
  relates it to memory and to the C library's live blocks.
\<close>

type_synonym chunks = "uptr \<rightharpoonup> uptr \<times> uptr \<times> uptr"

definition heap_rel :: "memory \<Rightarrow> (uptr \<times> uptr) set \<Rightarrow> chunks \<Rightarrow> bool" where
  "heap_rel m B T \<longleftrightarrow>
    (\<forall>b k. (b, k) \<in> B \<longrightarrow> app_range linux_64 b k) \<and>
    (\<forall>b k c l. (b, k) \<in> B \<longrightarrow> (c, l) \<in> B \<longrightarrow> (b, k) \<noteq> (c, l) \<longrightarrow> ranges_disjoint b k c l) \<and>
    (\<forall>u sz b k. T u = Some (sz, b, k) \<longrightarrow> (b, k) \<in> B \<and> chunk_ok m b k u sz) \<and>
    (\<forall>u u' sz sz' b k. T u = Some (sz, b, k) \<longrightarrow> T u' = Some (sz', b, k) \<longrightarrow> u = u')"

lemma heap_relD:
  assumes "heap_rel m B T"
  shows "(b, k) \<in> B \<Longrightarrow> app_range linux_64 b k"
    and "(b, k) \<in> B \<Longrightarrow> (c, l) \<in> B \<Longrightarrow> (b, k) \<noteq> (c, l) \<Longrightarrow> ranges_disjoint b k c l"
    and "T u = Some (sz, b, k) \<Longrightarrow> (b, k) \<in> B" and "T u = Some (sz, b, k) \<Longrightarrow> chunk_ok m b k u sz"
    and "T u = Some (sz, b, k) \<Longrightarrow> T u' = Some (sz', b, k) \<Longrightarrow> u = u'"
  using assms unfolding heap_rel_def by blast+

lemma chunk_ok_cong:
  assumes "\<And>x. in_range x b k \<Longrightarrow> m' x = m x"
  shows "chunk_ok m' b k u sz \<longleftrightarrow> chunk_ok m b k u sz"
  using header_ok_cong [OF _ _ assms, of u b k] by (auto simp: chunk_ok_def)

lemma chunk_app_range: "heap_rel m B T \<Longrightarrow> T u = Some (sz, b, k) \<Longrightarrow> app_range linux_64 u sz"
  using heap_relD(1,3,4) [of m B T] app_range_sub [of linux_64 b k "u - b" sz]
  by (fastforce simp: chunk_ok_def)

text \<open>Changes outside live blocks, adding a block with a chunk, and dropping one.\<close>

lemma heap_rel_add:
  assumes rel: "heap_rel m B T" and app: "app_range linux_64 r n"
    and apart: "\<And>b k. (b, k) \<in> B \<Longrightarrow> ranges_disjoint b k r n"
    and same: "\<And>x b k. (b, k) \<in> B \<Longrightarrow> in_range x b k \<Longrightarrow> m' x = m x" and ch: "chunk_ok m' r n u sz"
  shows "heap_rel m' (insert (r, n) B) (T(u \<mapsto> (sz, r, n)))" and "T u = None"
proof -
  have s: "32 \<le> unat (u - r)" "unat (u - r) \<le> unat n" using ch by (auto simp: chunk_ok_def)
  have cell: "in_range (u - 8) r n" using header_cell_range(1) [OF s, of 0 8] by simp
  show none: "T u = None"
  proof (rule ccontr)
    assume "T u \<noteq> None"
    then obtain z b k where t: "T u = Some (z, b, k)" by auto
    then have "32 \<le> unat (u - b)" "unat (u - b) \<le> unat k"
      using heap_relD(4) [OF rel t] by (auto simp: chunk_ok_def)
    then have "in_range (u - 8) b k" using header_cell_range(1) [of u b k 0 8] by simp
    with cell apart [OF heap_relD(3) [OF rel t]] show False by (auto simp: ranges_disjoint_def)
  qed
  have new: "(r, n) \<notin> B" using cell apart [of r n] by (auto simp: ranges_disjoint_def)
  have sym: "ranges_disjoint a i b j \<longleftrightarrow> ranges_disjoint b j a i" for a i b j by (auto simp: ranges_disjoint_def)
  have old: "chunk_ok m' b k v z" if "T v = Some (z, b, k)" for v z b k
    using chunk_ok_cong [of b k m' m] same [OF heap_relD(3) [OF rel that]] heap_relD(4) [OF rel that] by blast
  show "heap_rel m' (insert (r, n) B) (T(u \<mapsto> (sz, r, n)))"
    unfolding heap_rel_def
  proof (intro conjI)
    show "\<forall>b k. (b, k) \<in> insert (r, n) B \<longrightarrow> app_range linux_64 b k" using app heap_relD(1) [OF rel] by auto
    show "\<forall>b k c l. (b, k) \<in> insert (r, n) B \<longrightarrow> (c, l) \<in> insert (r, n) B \<longrightarrow> (b, k) \<noteq> (c, l) \<longrightarrow> ranges_disjoint b k c l"
      using apart sym heap_relD(2) [OF rel] by auto
    show "\<forall>v z b k. (T(u \<mapsto> (sz, r, n))) v = Some (z, b, k) \<longrightarrow> (b, k) \<in> insert (r, n) B \<and> chunk_ok m' b k v z"
      using ch old heap_relD(3) [OF rel] by auto
    show "\<forall>v v' z z' b k. (T(u \<mapsto> (sz, r, n))) v = Some (z, b, k) \<longrightarrow>
        (T(u \<mapsto> (sz, r, n))) v' = Some (z', b, k) \<longrightarrow> v = v'"
      using new heap_relD(3,5) [OF rel] by (auto split: if_splits)
  qed
qed

lemma heap_rel_remove:
  assumes rel: "heap_rel m B T" and t: "T u = Some (sz, b, k)"
    and same: "\<And>x c l. (c, l) \<in> B - {(b, k)} \<Longrightarrow> in_range x c l \<Longrightarrow> m' x = m x"
  shows "heap_rel m' (B - {(b, k)}) (T(u := None))"
proof -
  have other: "(c, l) \<in> B - {(b, k)}" if "T v = Some (z, c, l)" "v \<noteq> u" for v z c l
    using that heap_relD(3) [OF rel that(1)] heap_relD(5) [OF rel t, of v z] by auto
  have "chunk_ok m' c l v z" if "T v = Some (z, c, l)" "v \<noteq> u" for v z c l
    using chunk_ok_cong [of c l m' m] same [OF other [OF that]] heap_relD(4) [OF rel that(1)] by blast
  then show ?thesis
    unfolding heap_rel_def using other heap_relD(1,2,5) [OF rel] by (auto split: if_splits)
qed

lemma heap_rel_same:
  assumes rel: "heap_rel m B T" and same: "\<And>x. MEM_IS_APP linux_64 x \<Longrightarrow> m' x = m x"
  shows "heap_rel m' B T"
proof -
  have app: "MEM_IS_APP linux_64 x" if "(b, k) \<in> B" "in_range x b k" for x b k
    using app_range_app [OF heap_relD(1) [OF rel that(1)]] that(2) by (auto elim: in_rangeE)
  have "chunk_ok m' b k u sz" if "T u = Some (sz, b, k)" for u sz b k
    using chunk_ok_cong [of b k m' m] same app [OF heap_relD(3) [OF rel that]] heap_relD(4) [OF rel that] by blast
  with heap_relD [OF rel] show ?thesis
    unfolding heap_rel_def by (intro conjI allI impI)
qed

text \<open>Application writes leave the shadow, and so the set of poisoned bytes, alone.\<close>

lemma poisoned_cong:
  assumes "\<And>x. \<not> MEM_IS_APP linux_64 x \<Longrightarrow> m' x = m x"
  shows "poisoned linux_64 m' = poisoned linux_64 m"
proof -
  have "m' (MEM_TO_SHADOW linux_64 a) = m (MEM_TO_SHADOW linux_64 a)" if "MEM_IS_APP linux_64 a" for a
    using x86.app_shadow [OF that] sane_disjoint(1) [OF linux_64_sane] assms by blast
  then show ?thesis by (auto simp: poisoned_def)
qed

section \<open>Where a chunk is placed\<close>

lemma kMinHeaderSlot_eq: "kMinHeaderSlot = 32"
  by (simp add: kMinHeaderSlot_def kHeaderWords_def RoundUpTo_def)

lemma IsAligned_exp: "IsAligned a (2 ^ k) \<longleftrightarrow> 2 ^ k dvd unat a"
proof -
  have "a AND (2 ^ k - 1) = take_bit k a" by (simp add: take_bit_eq_mask mask_eq_exp_minus_1)
  moreover have "take_bit k a = 0 \<longleftrightarrow> unat (take_bit k a) = 0" by (simp add: unat_eq_zero)
  moreover have "unat (take_bit k a) = unat a mod 2 ^ k" unfolding unsigned_take_bit_eq by (simp add: take_bit_eq_mod)
  ultimately show ?thesis by (simp add: IsAligned_def dvd_eq_mod_eq_0)
qed

lemma unat_le_exp: "unat x \<le> 2 ^ k" if "x \<le> 2 ^ k" and "k < 64" for x :: uptr
  using that unat_exp [of k] by (simp add: word_le_nat_alt)

lemma real_size_unat:
  assumes "sz \<le> 2 ^ 40" and "al \<le> 2 ^ 40"
  shows "unat (real_size_for sz al) = (if al \<ge> 32 then 32 + unat sz + unat al - 1 else 32 + unat sz)"
proof -
  have s: "unat sz \<le> 2 ^ 40" "unat al \<le> 2 ^ 40" using unat_le_exp [OF assms(1)] unat_le_exp [OF assms(2)] by simp_all
  have a: "unat (32 + sz) = 32 + unat sz" using s by (subst unat_add_lem [THEN iffD1]) simp_all
  have "unat (32 + sz + (al - 1)) = 32 + unat sz + (unat al - 1)" if "32 \<le> al"
  proof -
    have "1 \<le> al" using that by unat_arith
    then have b: "unat (al - 1) = unat al - 1" by (simp add: unat_sub)
    show ?thesis using s a b by (subst unat_add_lem [THEN iffD1]) simp_all
  qed
  moreover have "0 < unat al" if "32 \<le> al" using that by unat_arith
  ultimately show ?thesis using a by (simp add: real_size_for_def kMinHeaderSlot_eq)
qed

lemma chunk_layout:
  assumes raw: "16 dvd unat raw" and app: "app_range linux_64 raw (real_size_for sz (2 ^ k))"
    and sz: "sz \<le> 2 ^ 40" and k: "k \<le> 40"
  shows "32 \<le> unat (header_slot_for raw (2 ^ k))"
    and "unat (header_slot_for raw (2 ^ k)) + unat sz \<le> unat (real_size_for sz (2 ^ k))"
    and "IsAligned (raw + header_slot_for raw (2 ^ k)) (2 ^ k)"
proof -
  have pk: "unat (2 ^ k :: uptr) = 2 ^ k" using k by (intro unat_exp) simp
  have le40: "(2 :: nat) ^ k \<le> 2 ^ 40" using k by (intro power_increasing) simp_all
  then have al: "(2 ^ k :: uptr) \<le> 2 ^ 40" by (simp add: word_le_nat_alt pk)
  note rs = real_size_unat [OF sz al]
  have b: "unat raw + unat (real_size_for sz (2 ^ k)) \<le> 2 ^ 47" by (rule app_range_bound [OF app])
  then have r32: "unat (raw + 32) = unat raw + 32" by (subst unat_add_lem [THEN iffD1]) simp_all
  have "32 \<le> unat (header_slot_for raw (2 ^ k)) \<and>
    unat (header_slot_for raw (2 ^ k)) + unat sz \<le> unat (real_size_for sz (2 ^ k)) \<and>
    2 ^ k dvd unat (raw + header_slot_for raw (2 ^ k))"
  proof (cases "(32 :: uptr) \<le> 2 ^ k")
    case False
    have "2 ^ k dvd (16 :: nat)"
    proof -
      have "\<not> 2 ^ 5 \<le> (2 :: nat) ^ k" using False pk by (simp add: word_le_nat_alt)
      then have "(2 :: nat) ^ k < 2 ^ 5" by simp
      then have "k < 5" by (rule power_less_imp_less_exp [rotated]) simp
      then have "k \<le> 4" by simp
      then have "(2 :: nat) ^ k dvd 2 ^ 4" by (rule le_imp_power_dvd)
      then show ?thesis by simp
    qed
    then have "2 ^ k dvd unat raw + 32" using raw by (metis dvd_add dvd_trans dvd_refl mult_2 numeral_Bit0)
    moreover have "unat (32 :: uptr) = 32" by simp
    ultimately show ?thesis using False rs r32 by (simp add: header_slot_for_def kMinHeaderSlot_eq)
  next
    case True
    then have p32: "32 \<le> (2 :: nat) ^ k" using pk by (simp add: word_le_nat_alt)
    have lim: "unat (raw + 32) + 2 ^ k \<le> 2 ^ 64" using b le40 r32 by simp
    define q where "q = RoundUpTo (raw + 32) (2 ^ k)"
    have k64: "k < 64" using k by simp
    have q: "raw + 32 \<le> q" "unat q < unat (raw + 32) + 2 ^ k" "2 ^ k dvd unat q"
      using RoundUpTo_bounds [OF k64 lim] unat_RoundUpTo [OF k64 lim] by (simp_all add: q_def)
    have "unat raw + 32 \<le> unat q" using q(1) r32 by (simp add: word_le_nat_alt)
    moreover from this have "unat (q - raw) = unat q - unat raw" by (simp add: unat_sub word_le_nat_alt)
    ultimately show ?thesis
      using q(2,3) True rs r32 pk p32 by (simp add: header_slot_for_def kMinHeaderSlot_eq q_def, intro conjI; linarith)
  qed
  then show "32 \<le> unat (header_slot_for raw (2 ^ k))"
    and "unat (header_slot_for raw (2 ^ k)) + unat sz \<le> unat (real_size_for sz (2 ^ k))"
    and "IsAligned (raw + header_slot_for raw (2 ^ k)) (2 ^ k)" by (simp_all add: IsAligned_exp)
qed

section \<open>The effect of an allocation\<close>

definition alloc_ok :: "('s, 'l) actx \<Rightarrow> ('l \<Rightarrow> bool) \<Rightarrow> ('l \<Rightarrow> (uptr \<times> uptr) set) \<Rightarrow> bool" where
  "alloc_ok c I B \<longleftrightarrow> ac_plat c = linux_64 \<and> env_ok (ac_env c) \<and> \<not> flip (ac_env c) \<and>
     libc_ok linux_64 (ac_libc c) I B \<and> max_malloc_size c \<le> 2 ^ 40"

lemma poison_with_origin_ok:
  assumes "alloc_ok c I B" and "app_range linux_64 a n"
  shows "poison_with_origin c tg (m, og) a n = Some (Ok (real_memset m (MEM_TO_SHADOW linux_64 a) (-1) n, og))"
  using assms poison_range [of "ac_env c" a n m]
  by (simp add: poison_with_origin_def alloc_ok_def kPoisonByte_def env_ok_def cqmsan_get_track_origins_def)

lemma libc_okD:
  assumes "libc_ok p lc I B" and "I h"
  shows "lmalloc lc h m n = (h', m', r) \<Longrightarrow> I h' \<and> grants p (B h) m n (B h') m' r"
    and "lcalloc lc h m 1 n = (h', m', r) \<Longrightarrow> I h' \<and> grants p (B h) m n (B h') m' r \<and>
       (r \<noteq> 0 \<longrightarrow> (\<forall>x. in_range x r n \<longrightarrow> m' x = 0))"
    and "(r, n) \<in> B h \<Longrightarrow> lfree lc h m r = (h', m') \<Longrightarrow> I h' \<and> B h' = B h - {(r, n)} \<and> keeps p (B h') m m'"
  using assms(1) [unfolded libc_ok_def, THEN conjunct1, rule_format, OF assms(2)]
    assms(1) [unfolded libc_ok_def, THEN conjunct2, THEN conjunct1, rule_format, OF assms(2)]
    assms(1) [unfolded libc_ok_def, THEN conjunct2, THEN conjunct2, rule_format, OF assms(2)] by blast+

text \<open>What the C library's reply gives, for both entry points.\<close>

lemma libc_reply_ok:
  assumes "alloc_ok c I B" and "I (aheap st)" and "libc_reply c st n zero = (h, m, raw)"
  shows "I h" and "grants linux_64 (B (aheap st)) (amem st) n (B h) m raw"
    and "zero \<Longrightarrow> raw \<noteq> 0 \<Longrightarrow> in_range x raw n \<Longrightarrow> m x = 0"
proof -
  have lc: "libc_ok linux_64 (ac_libc c) I B" using assms(1) by (simp add: alloc_ok_def)
  have "I h \<and> grants linux_64 (B (aheap st)) (amem st) n (B h) m raw \<and>
      (zero \<longrightarrow> raw \<noteq> 0 \<longrightarrow> (\<forall>x. in_range x raw n \<longrightarrow> m x = 0))"
  proof (cases zero)
    case True
    then have "lcalloc (ac_libc c) (aheap st) (amem st) 1 n = (h, m, raw)" using assms(3) by (simp add: libc_reply_def)
    from libc_okD(2) [OF lc assms(2) this] show ?thesis by blast
  next
    case False
    then have "lmalloc (ac_libc c) (aheap st) (amem st) n = (h, m, raw)" using assms(3) by (simp add: libc_reply_def)
    from libc_okD(1) [OF lc assms(2) this] False show ?thesis by blast
  qed
  then show "I h" and "grants linux_64 (B (aheap st)) (amem st) n (B h) m raw"
    and "zero \<Longrightarrow> raw \<noteq> 0 \<Longrightarrow> in_range x raw n \<Longrightarrow> m x = 0" by blast+
qed

text \<open>The shadow an allocation leaves.\<close>

definition fresh_poison :: "('s, 'l) actx \<Rightarrow> bool \<Rightarrow> uptr set \<Rightarrow> uptr set \<Rightarrow> uptr set" where
  "fresh_poison c zero old new =
    (if zero then old - new else if poison_in_malloc (ac_flags c) then old \<union> new else old)"

lemma allocate_ok:
  fixes c :: "('s, 'l) actx"
  assumes ok: "alloc_ok c I B" and inv: "I (aheap st)" and rel: "heap_rel (amem st) (B (aheap st)) T"
    and lim: "sz \<le> max_malloc_size c" "\<not> rss_exceeded c" and al: "IsPowerOfTwo al" "al \<noteq> 0" "al \<le> 2 ^ 40"
    and lib: "libc_reply c st (real_size_for sz al) zero = (h, m, raw)" "raw \<noteq> 0"
  shows "\<exists>u st'. CQMsanAllocate c st sz al zero = Some (Ok (u, st')) \<and> u \<noteq> 0 \<and> IsAligned u al \<and> T u = None \<and>
    I (aheap st') \<and> aheap st' = h \<and> heap_rel (amem st') (B h) (T(u \<mapsto> (sz, raw, real_size_for sz al))) \<and>
    (\<forall>x. (\<exists>(b, k) \<in> B (aheap st). in_range x b k) \<longrightarrow> amem st' x = amem st x) \<and>
    (zero \<longrightarrow> (\<forall>x. in_range x u sz \<longrightarrow> amem st' x = 0)) \<and>
    poisoned linux_64 (amem st') = fresh_poison c zero (poisoned linux_64 (amem st)) (bytes u sz)"
proof -
  define n where "n = real_size_for sz al"
  define s where "s = header_slot_for raw al"
  note reply = libc_reply_ok [OF ok inv lib(1)]
  have kp: "keeps linux_64 (B (aheap st)) (amem st) m" and raw: "16 dvd unat raw" and app: "app_range linux_64 raw n"
    and apart: "\<And>b k. (b, k) \<in> B (aheap st) \<Longrightarrow> ranges_disjoint b k raw n" and Bh: "B h = insert (raw, n) (B (aheap st))"
    using reply(2) lib(2) by (auto simp: grants_def n_def)
  from IsPowerOfTwo_cases [OF al(1,2)] obtain k where k: "k < 64" "al = 2 ^ k" .
  have "k \<le> 40"
  proof -
    have "(2 :: nat) ^ k \<le> 2 ^ 40" using al(3) unat_exp [OF k(1)] unat_exp [of 40] by (simp add: k(2) word_le_nat_alt)
    then show ?thesis by (rule power_le_imp_le_exp [rotated]) simp
  qed
  moreover have sz: "sz \<le> 2 ^ 40" using ok lim(1) by (auto simp: alloc_ok_def)
  ultimately have lay: "32 \<le> unat s" "unat s + unat sz \<le> unat n" "IsAligned (raw + s) al"
    using chunk_layout [OF raw] app by (simp_all add: n_def s_def k(2))
  obtain u m1 where hu: "CQMsanGlibcHeaderToUser m raw s sz = (u, m1)" by fastforce
  have nw: "unat s + unat sz < 2 ^ 64" using lay(2) unat64_less [of n] by linarith
  note H = HeaderToUser [OF hu lay(1) nw]
  have us: "u - raw = s" using H(1) by simp
  have uapp: "app_range linux_64 u sz" unfolding H(1) by (rule app_range_sub [OF app lay(2)])
  have n0: "unat n \<noteq> 0" using lay by linarith
  have ends: "MEM_IS_APP linux_64 raw" "MEM_IS_APP linux_64 (raw + n - 1)"
  proof -
    have "0 < n" "n - 1 < n" using n0 by unat_arith+
    then show "MEM_IS_APP linux_64 raw" "MEM_IS_APP linux_64 (raw + n - 1)"
      using app_range_app_0 [OF app] app_range_app [OF app, of "n - 1"] by (simp_all add: add_diff_eq)
  qed
  define v :: u8 where "v = (if zero then 0 else -1)"
  define m2 where "m2 = (if zero \<or> poison_in_malloc (ac_flags c) then real_memset m1 (MEM_TO_SHADOW linux_64 u) v sz else m1)"
  have "\<not> max_malloc_size c < sz" using lim(1) by simp
  then have run: "CQMsanAllocate c st sz al zero =
      Some (Ok (u, RunMallocHooks u sz (UnpoisonParam 2 (st\<lparr>aheap := h, amem := m2, aorg := aorg st\<rparr>))))"
    using ok lim lib ends hu SetShadow_range [OF _ uapp] poison_with_origin_ok [OF ok uapp]
    by (simp add: CQMsanAllocate_def Let_def alloc_ok_def n_def s_def m2_def v_def bind_oo_def kCleanByte_def)
  have m2_app: "m2 x = m1 x" if "MEM_IS_APP linux_64 x" for x
    using data_range [OF uapp that] by (simp add: m2_def)
  have in_app: "MEM_IS_APP linux_64 x" if "in_range x raw n" for x
    using that app_range_app [OF app] by (auto elim: in_rangeE)
  have live: "m2 x = amem st x" if "(b, k) \<in> B (aheap st)" "in_range x b k" for x b k
  proof -
    have "\<not> in_range x raw n" using apart [OF that(1)] that(2) by (auto simp: ranges_disjoint_def)
    then have "m1 x = m x" using H(4) lay(2) by simp
    moreover have "MEM_IS_APP linux_64 x"
      using app_range_app [OF heap_relD(1) [OF rel that(1)]] that(2) by (auto elim: in_rangeE)
    ultimately show ?thesis using m2_app kp that unfolding keeps_def by fastforce
  qed
  have ch: "chunk_ok m2 raw n u sz"
  proof -
    have "header_ok m2 raw u sz"
      using header_ok_cong [of u raw n m2 m1] H(2) lay us m2_app in_app by simp
    then show ?thesis using lay us by (simp add: chunk_ok_def)
  qed
  have added: "heap_rel m2 (insert (raw, n) (B (aheap st))) (T(u \<mapsto> (sz, raw, n)))" "T u = None"
    by (rule heap_rel_add [OF rel app apart live ch]; assumption)+
  have poi: "poisoned linux_64 m1 = poisoned linux_64 (amem st)"
  proof (rule poisoned_cong)
    fix x assume "\<not> MEM_IS_APP linux_64 x"
    moreover from this have "m1 x = m x" using H(4) [of x n] in_app lay(2) by auto
    ultimately show "m1 x = amem st x" using kp by (simp add: keeps_def)
  qed
  have zero_data: "m2 x = 0" if zero "in_range x u sz" for x
  proof -
    have "unat s \<le> unat (x - raw)" "unat (x - raw) < unat s + unat sz"
      using that(2) in_range_off [OF nw, of x raw] by (simp_all add: H(1))
    moreover from this have "in_range x raw n" using lay(2) by (simp add: in_range_def word_less_nat_alt)
    ultimately show ?thesis using H(3) [of x] reply(3) [OF that(1) lib(2)] m2_app in_app by (simp add: n_def)
  qed
  have "poisoned linux_64 m2 = fresh_poison c zero (poisoned linux_64 (amem st)) (bytes u sz)"
    using poisoned_range [OF uapp] poi by (simp add: m2_def v_def fresh_poison_def)
  moreover have "u \<noteq> 0"
  proof -
    have "unat u = unat raw + unat s"
      unfolding H(1) using lay app_range_bound [OF app] by (subst unat_add_lem [THEN iffD1]) simp_all
    then show ?thesis using lay(1) by auto
  qed
  moreover have "IsAligned u al" using lay(3) H(1) by simp
  moreover have "heap_rel m2 (B h) (T(u \<mapsto> (sz, raw, n)))" using added(1) Bh by simp
  moreover have "\<forall>x. (\<exists>(b, k) \<in> B (aheap st). in_range x b k) \<longrightarrow> m2 x = amem st x" using live by blast
  moreover have "zero \<longrightarrow> (\<forall>x. in_range x u sz \<longrightarrow> m2 x = 0)" using zero_data by blast
  ultimately show ?thesis
    unfolding run n_def [symmetric] using added(2) reply(1)
    by (simp add: RunMallocHooks_def UnpoisonParam_def)
qed

section \<open>The effect of a release\<close>

lemma release_inside:
  assumes "env_ok e" and "unat s + unat n + 2 ^ 32 \<le> 2 ^ 64" and "\<not> in_range x s n"
  shows "ReleaseMemoryPagesToOS e m s (s + n) x = m x"
proof -
  obtain j where j: "j < 64" and ps: "PageSize e = 2 ^ j"
    using assms(1) by (auto simp: env_ok_def elim: IsPowerOfTwo_cases)
  have "(2::nat) ^ j \<le> 2 ^ 32" using assms(1) ps unat_exp [OF j] by (simp add: env_ok_def word_le_nat_alt)
  then have room: "unat s + 2 ^ j \<le> 2 ^ 64" using assms(2) by linarith
  have sn: "unat (s + n) = unat s + unat n" using assms(2) by (subst unat_add_lem [THEN iffD1]) simp_all
  define pb where "pb = RoundUpTo s (2 ^ j)"
  define pe where "pe = RoundDownTo (s + n) (2 ^ j)"
  have "s \<le> pb" "pe \<le> s + n"
    unfolding pb_def pe_def by (rule RoundUpTo_bounds(1) [OF j room], rule RoundDownTo_le)
  then have le: "unat s \<le> unat pb" "unat pe \<le> unat s + unat n" by (simp_all add: word_le_nat_alt sn)
  have out: "\<not> (unat s \<le> unat x \<and> unat x < unat s + unat n)"
    using assms(3) in_range_nat [of s "s + n" x] sn by simp
  have "\<not> in_range x pb (pe - pb)" if "pb < pe"
    using in_range_nat [of pb pe x] that le out by (auto simp: word_less_nat_alt)
  then show ?thesis
    by (simp add: ReleaseMemoryPagesToOS_def Let_def ps pb_def [symmetric] pe_def [symmetric] real_memset_def)
qed

lemma release_then_poison:
  assumes "app_range linux_64 u sz" and "env_ok e"
  shows "real_memset (ReleaseMemoryPagesToOS e m (MEM_TO_SHADOW linux_64 u) (MEM_TO_SHADOW linux_64 u + sz))
      (MEM_TO_SHADOW linux_64 u) v sz = real_memset m (MEM_TO_SHADOW linux_64 u) v sz"
  using release_inside [OF assms(2) shadow_range_bound [OF assms(1)]] by (auto simp: real_memset_def fun_eq_iff)

text \<open>The freed marker cannot be a size: its top bits are those of the magic.\<close>

lemma canary_not_size:
  assumes "unat u < 2 ^ 48" and "unat sz < 2 ^ 48"
  shows "sz \<noteq> CQMsanFreedCanaryFor u"
proof -
  have "drop_bit 48 (CQMsanFreedCanaryFor u) = drop_bit 48 kFreedMagic"
    using assms(1) unfolding CQMsanFreedCanaryFor_def drop_bit_xor drop_48 [symmetric] by simp
  also have "\<dots> \<noteq> 0" by (simp add: kFreedMagic_def)
  finally show ?thesis using assms(2) unfolding drop_48 [symmetric] by auto
qed

lemma free_ok:
  fixes c :: "('s, 'l) actx"
  assumes ok: "alloc_ok c I B" and inv: "I (aheap st)" and rel: "heap_rel (amem st) (B (aheap st)) T"
    and t: "T u = Some (sz, b, k)"
  shows "\<exists>st'. CQMsanDeallocate c st u = Some (Ok ((), st')) \<and> I (aheap st') \<and>
    B (aheap st') = B (aheap st) - {(b, k)} \<and> heap_rel (amem st') (B (aheap st')) (T(u := None)) \<and>
    (\<forall>x. (\<exists>(b', k') \<in> B (aheap st'). in_range x b' k') \<longrightarrow> amem st' x = amem st x) \<and>
    poisoned linux_64 (amem st') - bytes u sz = poisoned linux_64 (amem st) - bytes u sz \<and>
    (poison_in_free (ac_flags c) \<longrightarrow> poisoned linux_64 (amem st') = poisoned linux_64 (amem st) \<union> bytes u sz) \<and>
    (free_keeps_tail (ac_libc c) I B \<longrightarrow> load64 (amem st') (u - 8) = CQMsanFreedCanaryFor u)"
proof -
  have ch: "chunk_ok (amem st) b k u sz" and bB: "(b, k) \<in> B (aheap st)"
    using heap_relD(3,4) [OF rel t] by blast+
  then have s: "32 \<le> unat (u - b)" "unat (u - b) + unat sz \<le> unat k" and hd: "header_ok (amem st) b u sz"
    by (auto simp: chunk_ok_def)
  have sk: "unat (u - b) \<le> unat k" using s(2) by simp
  have bapp: "app_range linux_64 b k" and uapp: "app_range linux_64 u sz"
    using heap_relD(1) [OF rel bB] chunk_app_range [OF rel t] by blast+
  have e: "env_ok (ac_env c)" and lc: "libc_ok linux_64 (ac_libc c) I B" and pl: "ac_plat c = linux_64"
    using ok by (auto simp: alloc_ok_def)
  let ?sp = "MEM_TO_SHADOW linux_64 u"
  define m1 where "m1 = (if sz \<ge> kShadowReleaseThreshold
      then ReleaseMemoryPagesToOS (ac_env c) (amem st) ?sp (?sp + sz) else amem st)"
  define m2 where "m2 = (if poison_in_free (ac_flags c) then real_memset m1 ?sp (-1) sz else m1)"
  define m3 where "m3 = store64 m2 (u - 8) (CQMsanFreedCanaryFor u)"
  obtain h m4 where fr: "lfree (ac_libc c) (aheap st) m3 b = (h, m4)" by fastforce
  note L = libc_okD(3) [OF lc inv bB fr]
  have nf: "sz \<noteq> CQMsanFreedCanaryFor u"
    using app_range_bound [OF uapp] by (intro canary_not_size) simp_all
  have run: "CQMsanDeallocate c st u = Some (Ok ((), (RunFreeHooks u (UnpoisonParam 1 st))\<lparr>aheap := h, amem := m4, aorg := aorg st\<rparr>))"
    using hd nf fr poison_with_origin_ok [OF ok uapp] pl
    by (cases "kShadowReleaseThreshold \<le> sz"; cases "poison_in_free (ac_flags c)")
      (simp_all add: CQMsanDeallocate_def Let_def header_ok_def RunFreeHooks_def UnpoisonParam_def bind_oo_def
      m1_def m2_def m3_def)
  have m2_out: "m2 x = amem st x" if "\<not> in_range x ?sp sz" for x
    using that release_inside [OF e shadow_range_bound [OF uapp] that] by (simp add: m2_def m1_def real_memset_def)
  have m2_app: "m2 x = amem st x" if "MEM_IS_APP linux_64 x" for x
    using data_range [OF uapp that, of "\<lambda>_. 0" 1] m2_out by (auto simp: real_memset_def split: if_splits)
  have cell: "in_range (u - 8 + i) b k" if "i < 8" for i using header_cell_range(1) [OF s(1) sk that] by blast
  have bl_app: "MEM_IS_APP linux_64 x" if "(b', k') \<in> B (aheap st)" "in_range x b' k'" for x b' k'
    using app_range_app [OF heap_relD(1) [OF rel that(1)]] that(2) by (auto elim: in_rangeE)
  have m3_out: "m3 x = m2 x" if "\<not> in_range x b k" for x
  proof -
    have "\<not> in_range x (u - 8) 8" using that cell by (auto elim!: in_rangeE)
    then show ?thesis by (simp add: m3_def store64_out)
  qed
  have live: "m4 x = amem st x" if "(b', k') \<in> B (aheap st) - {(b, k)}" "in_range x b' k'" for x b' k'
  proof -
    have "ranges_disjoint b' k' b k" using that heap_relD(2) [OF rel _ bB] by blast
    then have "\<not> in_range x b k" using that(2) by (auto simp: ranges_disjoint_def)
    then have "m3 x = amem st x" using m3_out m2_app bl_app that by auto
    moreover have "m4 x = m3 x" using L that by (auto simp: keeps_def)
    ultimately show ?thesis by simp
  qed
  have rel': "heap_rel m4 (B h) (T(u := None))" using heap_rel_remove [OF rel t live] L by simp
  have p4: "poisoned linux_64 m4 = poisoned linux_64 m2"
  proof (rule poisoned_cong)
    fix x assume na: "\<not> MEM_IS_APP linux_64 x"
    then have "m4 x = m3 x" using L by (auto simp: keeps_def)
    with m3_out bl_app [OF bB] na show "m4 x = m2 x" by auto
  qed
  have pf: "poisoned linux_64 m2 = poisoned linux_64 (amem st) \<union> bytes u sz" if "poison_in_free (ac_flags c)"
  proof -
    have "m2 = real_memset (amem st) ?sp (-1) sz"
      using that release_then_poison [OF uapp e] by (simp add: m2_def m1_def)
    then show ?thesis using poisoned_range [OF uapp] by simp
  qed
  have po: "poisoned linux_64 m2 - bytes u sz = poisoned linux_64 (amem st) - bytes u sz"
  proof -
    have "m2 (MEM_TO_SHADOW linux_64 x) = amem st (MEM_TO_SHADOW linux_64 x)"
      if "MEM_IS_APP linux_64 x" "\<not> in_range x u sz" for x
      using shadow_outside [OF uapp that, of "\<lambda>_. 0" 1] m2_out by (auto simp: real_memset_def split: if_splits)
    then show ?thesis by (auto simp: poisoned_def)
  qed
  have mark: "load64 m4 (u - 8) = CQMsanFreedCanaryFor u" if ft: "free_keeps_tail (ac_libc c) I B"
  proof -
    have "m4 (u - 8 + i) = m3 (u - 8 + i)" if "i < 8" for i
    proof -
      have "16 \<le> unat (u - 8 + i - b)" using header_cell [OF s(1) that, of 8] s(1) by simp
      then show ?thesis using ft inv bB fr cell [OF that] unfolding free_keeps_tail_def by blast
    qed
    then have "load64 m4 (u - 8) = load64 m3 (u - 8)" by (rule load64_cong)
    then show ?thesis by (simp add: m3_def load64_store64)
  qed
  have L2: "I h" "B h = B (aheap st) - {(b, k)}" using L by blast+
  show ?thesis
    unfolding run using L2 rel' live p4 pf po mark by (auto simp: L2(2) [symmetric])
qed

section \<open>Reallocation\<close>

lemma CopyMemory_ok:
  assumes "alloc_ok c I B" and "app_range linux_64 d n" and "app_range linux_64 s n"
  shows "CopyMemory (ac_o c) (m, og) d s n = Some (Ok (real_memmove (real_memmove m d s n)
      (MEM_TO_SHADOW linux_64 d) (MEM_TO_SHADOW linux_64 s) n, og))"
proof -
  have "oc_plat (ac_o c) = linux_64" "track_origins (oc_env (ac_o c)) = 0"
    using assms(1) by (auto simp: alloc_ok_def ac_plat_def ac_env_def env_ok_def cqmsan_get_track_origins_def)
  then show ?thesis
    using app_range_app_0 [OF assms(2)] app_range_app_0 [OF assms(3)]
    by (cases "n = 0") (auto simp: CopyMemory_def CopyShadowAndOrigin_def Let_def word_neq_0_conv)
qed

text \<open>What copying data and shadow does to application bytes.\<close>

lemma copy_effect:
  assumes d: "app_range linux_64 d n" and s: "app_range linux_64 s n"
    and m'_def: "m' = real_memmove (real_memmove m d s n) (MEM_TO_SHADOW linux_64 d) (MEM_TO_SHADOW linux_64 s) n"
  shows "MEM_IS_APP linux_64 x \<Longrightarrow> \<not> in_range x d n \<Longrightarrow> m' x = m x \<and> (x \<in> poisoned linux_64 m' \<longleftrightarrow> x \<in> poisoned linux_64 m)"
    and "i < n \<Longrightarrow> m' (d + i) = m (s + i) \<and> (d + i \<in> poisoned linux_64 m' \<longleftrightarrow> s + i \<in> poisoned linux_64 m)"
proof -
  have app: "MEM_IS_APP linux_64 y" if "in_range y d n" for y
    using that app_range_app [OF d] by (auto elim: in_rangeE)
  have p1: "poisoned linux_64 (real_memmove m d s n) = poisoned linux_64 m"
    by (rule poisoned_cong) (use app in \<open>auto simp: real_memmove_def\<close>)
  have n0: "0 < n" if "i < n" for i using that by (rule le_less_trans [OF word_zero_le])
  note dr = x86_range [OF d] and sr = x86_range [OF s]
  have mv: "(x \<in> poisoned linux_64 m' \<longleftrightarrow> (if in_range x d n then s + (x - d) \<in> poisoned linux_64 m else x \<in> poisoned linux_64 m)) \<and>
      m' x = real_memmove m d s n x" if "0 < n" "MEM_IS_APP linux_64 x" for x
    unfolding m'_def p1 [symmetric]
    using x86.shadow_move [OF dr(3) [OF that(1)] dr(1) sr(3) [OF that(1)] sr(1) that(2)] by blast
  show "m' x = m x \<and> (x \<in> poisoned linux_64 m' \<longleftrightarrow> x \<in> poisoned linux_64 m)"
    if "MEM_IS_APP linux_64 x" "\<not> in_range x d n"
  proof (cases "n = 0")
    case False
    then show ?thesis using mv [OF _ that(1)] that(2) by (simp add: word_neq_0_conv real_memmove_def)
  qed (simp add: m'_def)
  show "m' (d + i) = m (s + i) \<and> (d + i \<in> poisoned linux_64 m' \<longleftrightarrow> s + i \<in> poisoned linux_64 m)" if "i < n"
    using mv [OF n0 [OF that] dr(1) [OF that]] that by (simp add: real_memmove_def)
qed

text \<open>A live chunk's own memory is apart from every header.\<close>

lemma heap_rel_payload:
  assumes rel: "heap_rel m B T" and t: "T v = Some (n, r, l)"
    and same: "\<And>x. MEM_IS_APP linux_64 x \<Longrightarrow> \<not> in_range x v n \<Longrightarrow> m' x = m x"
  shows "heap_rel m' B T"
proof -
  have cv: "32 \<le> unat (v - r)" "unat (v - r) + unat n \<le> unat l" "(r, l) \<in> B"
    using heap_relD(3,4) [OF rel t] by (auto simp: chunk_ok_def)
  have nw: "unat (v - r) + unat n < 2 ^ 64" using cv(2) unat64_less [of l] by linarith
  have inside: "in_range x r l" if "in_range x v n" for x
    using that in_range_off [OF nw, of x r] cv(2) by (simp add: in_range_def word_less_nat_alt)
  have "chunk_ok m' b k u sz" if tu: "T u = Some (sz, b, k)" for u sz b k
  proof -
    have cu: "32 \<le> unat (u - b)" "unat (u - b) + unat sz \<le> unat k" "(b, k) \<in> B" "header_ok m b u sz"
      using heap_relD(3,4) [OF rel tu] by (auto simp: chunk_ok_def)
    have uk: "unat (u - b) \<le> unat k" using cu(2) by simp
    have "m' (u - w + i) = m (u - w + i)" if "i < 8" "w = 8 \<or> w = 16 \<or> w = 24" for w i
    proof (rule same)
      note cell = header_cell_range(1) [OF cu(1) uk that]
      then show "MEM_IS_APP linux_64 (u - w + i)"
        using app_range_app [OF heap_relD(1) [OF rel cu(3)]] by (auto elim: in_rangeE)
      show "\<not> in_range (u - w + i) v n"
      proof (cases "(b, k) = (r, l)")
        case True
        then have "u = v" "sz = n" using heap_relD(5) [OF rel tu, of v n] t tu by auto
        then show ?thesis using header_cell_range(2) [OF cu(1) uk that, of n] nw True by auto
      next
        case False
        then show ?thesis using heap_relD(2) [OF rel cu(3) cv(3)] cell inside by (auto simp: ranges_disjoint_def)
      qed
    qed
    then have "load64 m' (u - w) = load64 m (u - w)" if "w = 8 \<or> w = 16 \<or> w = 24" for w
      using that by (intro load64_cong) blast
    then show ?thesis using cu by (simp add: chunk_ok_def header_ok_def)
  qed
  with heap_relD [OF rel] show ?thesis unfolding heap_rel_def by (intro conjI allI impI)
qed

lemma chunk_in_block:
  assumes "heap_rel m B T" and "T u = Some (sz, b, k)" and "in_range x u sz"
  shows "in_range x b k"
proof -
  obtain i where i: "i < sz" and x: "x = u + i" using assms(3) by (rule in_rangeE)
  have s: "unat (u - b) + unat sz \<le> unat k" using heap_relD(4) [OF assms(1,2)] by (auto simp: chunk_ok_def)
  have e: "u + i - b = (u - b) + i" by simp
  have "unat ((u - b) + i) = unat (u - b) + unat i"
    using s i unat64_less [of k] by (subst unat_add_lem [THEN iffD1]) (simp_all add: word_less_nat_alt)
  then show ?thesis unfolding in_range_def x e using s i by (simp add: word_less_nat_alt)
qed

lemma realloc_ok:
  fixes c :: "('s, 'l) actx"
  assumes ok: "alloc_ok c I B" and inv: "I (aheap st)" and rel: "heap_rel (amem st) (B (aheap st)) T"
    and t: "T u = Some (sz, b, k)" and lim: "n \<le> max_malloc_size c" "\<not> rss_exceeded c"
    and lib: "libc_reply c st (real_size_for n 8) False = (h, m, raw)" "raw \<noteq> 0"
  shows "\<exists>v st'. CQMsanReallocate c st u n 8 = Some (Ok (v, st')) \<and> T v = None \<and> v \<noteq> 0 \<and> I (aheap st') \<and>
    heap_rel (amem st') (B (aheap st')) ((T(v \<mapsto> (n, raw, real_size_for n 8)))(u := None)) \<and>
    (\<forall>i < min n sz. amem st' (v + i) = amem st (u + i) \<and>
      (v + i \<in> poisoned linux_64 (amem st') \<longleftrightarrow> u + i \<in> poisoned linux_64 (amem st))) \<and>
    (poison_in_malloc (ac_flags c) \<longrightarrow> (\<forall>i. sz \<le> i \<longrightarrow> i < n \<longrightarrow> v + i \<in> poisoned linux_64 (amem st')))"
proof -
  let ?l = "real_size_for n 8" and ?cs = "min n sz"
  have p8: "IsPowerOfTwo (8 :: uptr)" "(8 :: uptr) \<noteq> 0" "(8 :: uptr) \<le> 2 ^ 40" by (simp_all add: IsPowerOfTwo_def)
  from allocate_ok [OF ok inv rel lim p8 lib] obtain v st1
    where al: "CQMsanAllocate c st n 8 False = Some (Ok (v, st1))" "v \<noteq> 0" "T v = None"
      "I (aheap st1)" "aheap st1 = h" "heap_rel (amem st1) (B h) (T(v \<mapsto> (n, raw, ?l)))"
      "\<forall>x. (\<exists>(b, k) \<in> B (aheap st). in_range x b k) \<longrightarrow> amem st1 x = amem st x"
      "poisoned linux_64 (amem st1) = fresh_poison c False (poisoned linux_64 (amem st)) (bytes v n)"
    by (elim exE conjE) (rule that)
  let ?T = "T(v \<mapsto> (n, raw, ?l))"
  have uv: "u \<noteq> v" using t al(3) by auto
  have tu: "?T u = Some (sz, b, k)" and tv: "?T v = Some (n, raw, ?l)" using t uv by auto
  have u: "app_range linux_64 u sz" and v: "app_range linux_64 v n"
    using chunk_app_range [OF al(6) tu] chunk_app_range [OF al(6) tv] by blast+
  have ub: "in_range x b k" if "in_range x u sz" for x by (rule chunk_in_block [OF al(6) tu that])
  have vb: "in_range x raw ?l" if "in_range x v n" for x by (rule chunk_in_block [OF al(6) tv that])
  have bk: "(b, k) \<in> B (aheap st)" and rl: "(raw, ?l) \<in> B h" "(b, k) \<in> B h"
    using heap_relD(3) [OF rel t] heap_relD(3) [OF al(6) tv] heap_relD(3) [OF al(6) tu] by blast+
  have ne: "(raw, ?l) \<noteq> (b, k)" using heap_relD(5) [OF al(6) tu, of v n] tv uv by auto
  then have dis: "ranges_disjoint raw ?l b k" by (rule heap_relD(2) [OF al(6) rl])
  have cs: "app_range linux_64 v ?cs" "app_range linux_64 u ?cs"
    using app_range_sub [OF v, of 0 ?cs] app_range_sub [OF u, of 0 ?cs] by (simp_all add: word_le_nat_alt min_def)
  define m' where "m' = real_memmove (real_memmove (amem st1) v u ?cs) (MEM_TO_SHADOW linux_64 v) (MEM_TO_SHADOW linux_64 u) ?cs"
  note cp = copy_effect [OF cs m'_def]
  define st2 where "st2 = st1\<lparr>amem := m', aorg := aorg st1\<rparr>"
  have "in_range x v n" if "in_range x v ?cs" for x using that by (auto simp: in_range_def)
  then have rel2: "heap_rel m' (B h) ?T" using heap_rel_payload [OF al(6) tv] cp(1) by blast
  then have s2: "I (aheap st2)" "heap_rel (amem st2) (B (aheap st2)) ?T" "amem st2 = m'" "aheap st2 = h"
    using al(4,5) by (simp_all add: st2_def)
  from free_ok [OF ok s2(1,2) tu] obtain st'
    where fr: "CQMsanDeallocate c st2 u = Some (Ok ((), st'))" "I (aheap st')"
      "B (aheap st') = B h - {(b, k)}" "heap_rel (amem st') (B (aheap st')) (?T(u := None))"
      "\<forall>x. (\<exists>(b', k') \<in> B (aheap st'). in_range x b' k') \<longrightarrow> amem st' x = m' x"
      "poisoned linux_64 (amem st') - bytes u sz = poisoned linux_64 m' - bytes u sz"
    unfolding s2(3,4) by (elim exE conjE) (rule that)
  have hd: "header_ok (amem st) b u sz" using heap_relD(4) [OF rel t] by (auto simp: chunk_ok_def)
  have nf: "sz \<noteq> CQMsanFreedCanaryFor u" using app_range_bound [OF u] by (intro canary_not_size) simp_all
  have run: "CQMsanReallocate c st u n 8 = Some (Ok (v, st'))"
    using hd nf al(1,2) CopyMemory_ok [OF ok cs] fr(1)
    by (simp add: CQMsanReallocate_def CQMsanReallocateGlibc_def Let_def header_ok_def bind_oo_def m'_def st2_def)
  have keep: "amem st' (v + i) = m' (v + i)" "v + i \<in> poisoned linux_64 (amem st') \<longleftrightarrow> v + i \<in> poisoned linux_64 m'"
    if "i < n" for i
  proof -
    show "amem st' (v + i) = m' (v + i)" using fr(3,5) vb [of "v + i"] that rl(1) ne by auto
    have "in_range (v + i) raw ?l" using vb that by simp
    then have "\<not> in_range (v + i) u sz" using dis ub unfolding ranges_disjoint_def by blast
    then show "v + i \<in> poisoned linux_64 (amem st') \<longleftrightarrow> v + i \<in> poisoned linux_64 m'"
      using set_eq_iff [THEN iffD1, rule_format, OF fr(6), of "v + i"] by simp
  qed
  have moved: "amem st' (v + i) = amem st (u + i) \<and>
      (v + i \<in> poisoned linux_64 (amem st') \<longleftrightarrow> u + i \<in> poisoned linux_64 (amem st))" if "i < ?cs" for i
  proof -
    have i: "i < n" "i < sz" using that by simp_all
    have "in_range (u + i) b k" using ub i(2) by simp
    then have "\<not> in_range (u + i) v n" using dis vb unfolding ranges_disjoint_def by blast
    moreover have "amem st1 (u + i) = amem st (u + i)" using al(7) bk ub [of "u + i"] i(2) by auto
    ultimately show ?thesis
      using keep [OF i(1)] cp(2) [OF that] al(8) by (auto simp: fresh_poison_def)
  qed
  have tail: "v + i \<in> poisoned linux_64 (amem st')" if "poison_in_malloc (ac_flags c)" "sz \<le> i" "i < n" for i
  proof -
    have "v + i \<in> poisoned linux_64 (amem st1)" using al(8) that(1,3) by (simp add: fresh_poison_def)
    moreover have "\<not> in_range (v + i) v ?cs" using that(2) by (simp add: not_less)
    ultimately show ?thesis using cp(1) [OF app_range_app [OF v that(3)]] keep(2) [OF that(3)] by blast
  qed
  show ?thesis unfolding run using al(2,3) fr(2,4) moved tail by simp
qed

section \<open>A C library for the examples\<close>

text \<open>
  Two arenas, each free or holding one block of up to \<open>0x20000\<close> bytes; requests beyond are refused.
\<close>

definition arena :: "bool \<Rightarrow> uptr" where
  "arena second = (if second then 0x700000040000 else 0x700000000010)"

type_synonym arenas = "uptr option \<times> uptr option"

definition arena_malloc :: "arenas \<Rightarrow> memory \<Rightarrow> uptr \<Rightarrow> arenas \<times> memory \<times> uptr" where
  "arena_malloc h m n =
    (if n > 0x20000 then (h, m, 0)
     else case h of (None, b) \<Rightarrow> ((Some n, b), m, arena False)
       | (a, None) \<Rightarrow> ((a, Some n), m, arena True) | _ \<Rightarrow> (h, m, 0))"

definition arena_libc :: "arenas libc" where
  "arena_libc = \<lparr>lmalloc = arena_malloc,
    lcalloc = (\<lambda>h m a b. let (h', m', r) = arena_malloc h m (a * b)
       in (h', if r = 0 then m' else real_memset m' r 0 (a * b), r)),
    lfree = (\<lambda>h m r. if r = arena False then ((None, snd h), m)
       else if r = arena True then ((fst h, None), m) else (h, m))\<rparr>"

definition arena_blocks :: "arenas \<Rightarrow> (uptr \<times> uptr) set" where
  "arena_blocks h = {(arena False, n) | n. fst h = Some n} \<union> {(arena True, n) | n. snd h = Some n}"

definition arena_inv :: "arenas \<Rightarrow> bool" where
  "arena_inv h \<longleftrightarrow> pred_option (\<lambda>n. n \<le> 0x20000) (fst h) \<and> pred_option (\<lambda>n. n \<le> 0x20000) (snd h)"

lemma arena_app: "n \<le> 0x20000 \<Longrightarrow> app_range linux_64 (arena s) n"
proof -
  assume "n \<le> 0x20000"
  then have "unat (0 :: uptr) + unat n \<le> unat (0x20000 :: uptr)" by (simp add: word_le_nat_alt)
  moreover have "app_range linux_64 (arena s) 0x20000" by (cases s) (simp_all add: arena_def app_range_def fits_def linux_64_sel)
  ultimately show ?thesis using app_range_sub [where a = "arena s" and off = 0] by fastforce
qed

lemma arena_apart:
  assumes "n \<le> 0x20000" and "k \<le> 0x20000"
  shows "ranges_disjoint (arena False) n (arena True) k" "ranges_disjoint (arena True) k (arena False) n"
proof -
  have u: "unat n \<le> 0x20000" "unat k \<le> 0x20000" using assms by (simp_all add: word_le_nat_alt)
  have "\<not> (in_range x (arena False) n \<and> in_range x (arena True) k)" for x
  proof -
    have e: "arena True = arena False + 0x3FFF0" by (simp add: arena_def)
    have o: "unat (0x3FFF0 :: uptr) + unat k < 2 ^ 64" using u by simp
    show ?thesis unfolding e in_range_off [OF o] unfolding in_range_def word_less_nat_alt using u by simp
  qed
  then show "ranges_disjoint (arena False) n (arena True) k" "ranges_disjoint (arena True) k (arena False) n"
    by (auto simp: ranges_disjoint_def)
qed

lemma arena_malloc_ok:
  assumes "arena_inv h" and "arena_malloc h m n = (h', m', r)"
  shows "arena_inv h' \<and> m' = m \<and> (if r = 0 then arena_blocks h' = arena_blocks h
     else 16 dvd unat r \<and> app_range linux_64 r n \<and> (\<forall>(b, k) \<in> arena_blocks h. ranges_disjoint b k r n) \<and>
       arena_blocks h' = insert (r, n) (arena_blocks h))"
proof (cases "n > 0x20000")
  case True
  then show ?thesis using assms by (auto simp: arena_malloc_def)
next
  case False
  have nz: "arena s \<noteq> 0" "16 dvd unat (arena s)" for s by (simp_all add: arena_def)
  obtain a b where h: "h = (a, b)" by fastforce
  show ?thesis
  proof (cases a)
    case None
    then show ?thesis using False assms h nz arena_app [of n] arena_apart [of n]
      by (auto simp: arena_malloc_def arena_blocks_def arena_inv_def)
  next
    case (Some i)
    then show ?thesis using False assms h nz arena_app [of n] arena_apart [of i n]
      by (cases b) (auto simp: arena_malloc_def arena_blocks_def arena_inv_def)
  qed
qed

lemma arena_libc_ok: "libc_ok linux_64 arena_libc arena_inv arena_blocks"
  unfolding libc_ok_def
proof (intro conjI allI impI)
  fix h m n h' m' r assume "arena_inv h" "lmalloc arena_libc h m n = (h', m', r)"
  then show "arena_inv h'" "grants linux_64 (arena_blocks h) m n (arena_blocks h') m' r"
    using arena_malloc_ok [of h m n h' m' r] by (auto simp: arena_libc_def grants_def keeps_def)
next
  fix h m n h' m' r assume i: "arena_inv h" and "lcalloc arena_libc h m 1 n = (h', m', r)"
  then obtain m1 where c: "arena_malloc h m n = (h', m1, r)" "m' = (if r = 0 then m1 else real_memset m1 r 0 n)"
    by (auto simp: arena_libc_def Let_def split: prod.splits)
  note A = arena_malloc_ok [OF i c(1)]
  then show "arena_inv h'" by blast
  show "\<And>x. r \<noteq> 0 \<Longrightarrow> in_range x r n \<Longrightarrow> m' x = 0" using c(2) by (simp add: real_memset_def)
  have "m' x = m x" if "\<not> MEM_IS_APP linux_64 x \<or> (\<exists>(b, k) \<in> arena_blocks h. in_range x b k)" for x
  proof (cases "r = 0")
    case False
    then have r: "app_range linux_64 r n" "\<And>b k. (b, k) \<in> arena_blocks h \<Longrightarrow> ranges_disjoint b k r n" using A by auto
    have "MEM_IS_APP linux_64 x" if "in_range x r n" using that app_range_app [OF r(1)] by (auto elim: in_rangeE)
    then have "\<not> in_range x r n" using that r(2) unfolding ranges_disjoint_def by blast
    then show ?thesis using False A c(2) by (simp add: real_memset_def)
  qed (use A c(2) in simp)
  then show "grants linux_64 (arena_blocks h) m n (arena_blocks h') m' r"
    using A unfolding grants_def keeps_def by auto
next
  fix h m r n h' m' assume "arena_inv h" "(r, n) \<in> arena_blocks h" "lfree arena_libc h m r = (h', m')"
  then show "arena_inv h'" "arena_blocks h' = arena_blocks h - {(r, n)}" "keeps linux_64 (arena_blocks h') m m'"
    by (auto simp: arena_libc_def arena_blocks_def arena_inv_def keeps_def arena_def split: if_splits)
qed

lemma arena_keeps_tail: "free_keeps_tail arena_libc arena_inv arena_blocks"
  by (auto simp: free_keeps_tail_def arena_libc_def split: if_splits)

definition example_actx :: "(StackTrace list, arenas) actx" where
  "example_actx = \<lparr>ac_o = example_octx, ac_libc = arena_libc, max_malloc_size = initial_max_malloc_size 0,
     may_return_null = True, rss_exceeded = False, probe_ok = (\<lambda>_ _. True)\<rparr>"

definition example_heap :: "(StackTrace list, arenas) astate" where
  "example_heap = \<lparr>amem = (\<lambda>_. 0), aorg = origins0 [], aheap = (None, None), param_tls = replicate 100 7,
     out_of_memory = False, errno = 0, hook_log = []\<rparr>"

lemma example_alloc_ok: "alloc_ok example_actx arena_inv arena_blocks"
  using example_env_ok arena_libc_ok
  by (simp add: alloc_ok_def ac_plat_def ac_env_def example_actx_def example_octx_def initial_max_malloc_size_def
    kMaxAllowedMallocSize_def)

lemma example_empty: "arena_inv (aheap example_heap)" "heap_rel (amem example_heap) (arena_blocks (aheap example_heap)) Map.empty"
  by (simp_all add: example_heap_def arena_inv_def arena_blocks_def heap_rel_def)

section \<open>Properties\<close>

lemma calloc_overflow_iff: "CheckForCallocOverflow sz n \<longleftrightarrow> unat sz * unat n \<ge> 2 ^ 64"
proof (cases "sz = 0")
  case False
  have d: "unat ((-1 :: uptr) div sz) = (2 ^ 64 - 1) div unat sz" by (simp add: unat_div unsigned_minus_1_eq_mask mask_eq_exp_minus_1)
  have p: "0 < unat sz" using False by (simp add: unat_gt_0)
  have "(2 ^ 64 - 1) div unat sz < unat n \<longleftrightarrow> 2 ^ 64 - 1 < unat n * unat sz" using p by (rule div_less_iff_less_mult)
  then have "CheckForCallocOverflow sz n \<longleftrightarrow> 2 ^ 64 - 1 < unat n * unat sz"
    using False d by (simp add: CheckForCallocOverflow_def word_less_nat_alt)
  then show ?thesis by (auto simp: mult.commute)
qed (simp add: CheckForCallocOverflow_def)

text \<open>The steps every entry point takes after its checks.\<close>

lemma SetErrnoOnNull_ok: "r = Some (Ok (u, st')) \<Longrightarrow> u \<noteq> 0 \<Longrightarrow> SetErrnoOnNull r = Some (Ok (u, st'))"
  by (simp add: SetErrnoOnNull_def bind_oo_def)

text \<open>
  C20: \<^verbatim>\<open>malloc\<close> and its aligned kin. When the C library grants the request, the call returns a
  pointer of the requested alignment to memory apart from every live chunk; the new chunk joins the
  table of live chunks with its size, no live chunk's contents or header changes, and exactly the
  new bytes become uninitialised (when malloc poisoning is on).
\<close>

theorem memalign_correct:
  fixes c :: "('s, 'l) actx"
  assumes "alloc_ok c I B" and "I (aheap st)" and "heap_rel (amem st) (B (aheap st)) T"
    and "sz \<le> max_malloc_size c" and "\<not> rss_exceeded c"
    and "IsPowerOfTwo al" and "al \<noteq> 0" and "al \<le> 2 ^ 40"
    and "libc_reply c st (real_size_for sz al) False = (h, m, raw)" and "raw \<noteq> 0"
  shows "\<exists>u st'. cqmsan_memalign c st al sz = Some (Ok (u, st')) \<and>
    (al = 8 \<longrightarrow> cqmsan_malloc c st sz = Some (Ok (u, st'))) \<and>
    u \<noteq> 0 \<and> IsAligned u al \<and> T u = None \<and> I (aheap st') \<and>
    heap_rel (amem st') (B (aheap st')) (T(u \<mapsto> (sz, raw, real_size_for sz al))) \<and>
    (\<forall>x. (\<exists>(b, k) \<in> B (aheap st). in_range x b k) \<longrightarrow> amem st' x = amem st x) \<and>
    poisoned linux_64 (amem st') =
      poisoned linux_64 (amem st) \<union> (if poison_in_malloc (ac_flags c) then bytes u sz else {})"
proof -
  from allocate_ok [OF assms] obtain u st'
    where a: "CQMsanAllocate c st sz al False = Some (Ok (u, st'))" "u \<noteq> 0" "IsAligned u al" "T u = None"
      "I (aheap st')" "aheap st' = h" "heap_rel (amem st') (B h) (T(u \<mapsto> (sz, raw, real_size_for sz al)))"
      "\<forall>x. (\<exists>(b, k) \<in> B (aheap st). in_range x b k) \<longrightarrow> amem st' x = amem st x"
      "poisoned linux_64 (amem st') = fresh_poison c False (poisoned linux_64 (amem st)) (bytes u sz)"
    by (elim exE conjE) (rule that)
  have "cqmsan_memalign c st al sz = Some (Ok (u, st'))" "al = 8 \<longrightarrow> cqmsan_malloc c st sz = Some (Ok (u, st'))"
    using SetErrnoOnNull_ok [OF a(1,2)] assms(6) by (auto simp: cqmsan_memalign_def cqmsan_malloc_def)
  then show ?thesis using a(2-9) by (intro exI [of _ u] exI [of _ st']) (simp add: fresh_poison_def)
qed

lemma example_reply: "libc_reply example_actx example_heap (real_size_for 100 64) False = ((Some 195, None), \<lambda>_. 0, 0x700000000010)"
  by (simp add: libc_reply_def example_actx_def example_heap_def arena_libc_def arena_malloc_def arena_def
    real_size_for_def kMinHeaderSlot_eq)

theorem memalign_correct_witness:
  "\<exists>u st'. cqmsan_memalign example_actx example_heap 64 100 = Some (Ok (u, st')) \<and> IsAligned u 64 \<and>
    heap_rel (amem st') (arena_blocks (aheap st')) [u \<mapsto> (100, 0x700000000010, 195)]"
proof -
  have "(100 :: uptr) \<le> max_malloc_size example_actx" "\<not> rss_exceeded example_actx" "IsPowerOfTwo (64 :: uptr)"
    "real_size_for 100 64 = 195"
    by (simp_all add: example_actx_def initial_max_malloc_size_def kMaxAllowedMallocSize_def IsPowerOfTwo_def
      real_size_for_def kMinHeaderSlot_eq)
  then show ?thesis
    using memalign_correct [OF example_alloc_ok example_empty _ _ _ _ _ example_reply] by auto
qed

text \<open>
  \<^verbatim>\<open>calloc\<close> rejects exactly the products that do not fit a machine word (null, or the process
  ends), changing nothing; otherwise, when the C library grants the request, the whole chunk is
  zeroed and initialised.
\<close>

theorem calloc_correct:
  fixes c :: "('s, 'l) actx"
  assumes "alloc_ok c I B" and "I (aheap st)" and "heap_rel (amem st) (B (aheap st)) T"
    and "nmemb * sz \<le> max_malloc_size c" and "\<not> rss_exceeded c"
    and "libc_reply c st (real_size_for (nmemb * sz) 8) True = (h, m, raw)" and "raw \<noteq> 0"
  shows "if unat nmemb * unat sz \<ge> 2 ^ 64
    then cqmsan_calloc c st nmemb sz = (if may_return_null c then Some (Ok (0, st\<lparr>errno := errno_ENOMEM\<rparr>))
           else Some (Died (Fatal ''calloc-overflow'')))
    else \<exists>u st'. cqmsan_calloc c st nmemb sz = Some (Ok (u, st')) \<and> u \<noteq> 0 \<and> T u = None \<and>
      unat (nmemb * sz) = unat nmemb * unat sz \<and> I (aheap st') \<and>
      heap_rel (amem st') (B (aheap st')) (T(u \<mapsto> (nmemb * sz, raw, real_size_for (nmemb * sz) 8))) \<and>
      (\<forall>x. in_range x u (nmemb * sz) \<longrightarrow> amem st' x = 0) \<and>
      poisoned linux_64 (amem st') = poisoned linux_64 (amem st) - bytes u (nmemb * sz)"
proof (cases "unat nmemb * unat sz \<ge> 2 ^ 64")
  case True
  then have "CheckForCallocOverflow sz nmemb" by (simp add: calloc_overflow_iff mult.commute)
  with True show ?thesis by (simp add: cqmsan_calloc_def CQMsanCalloc_def SetErrnoOnNull_def bind_oo_def)
next
  case False
  then have nov: "\<not> CheckForCallocOverflow sz nmemb" by (simp add: calloc_overflow_iff mult.commute)
  have p8: "IsPowerOfTwo (8 :: uptr)" "(8 :: uptr) \<noteq> 0" "(8 :: uptr) \<le> 2 ^ 40" by (simp_all add: IsPowerOfTwo_def)
  from allocate_ok [OF assms(1-5) p8 assms(6,7)] obtain u st'
    where a: "CQMsanAllocate c st (nmemb * sz) 8 True = Some (Ok (u, st'))" "u \<noteq> 0" "T u = None"
      "I (aheap st')" "aheap st' = h" "heap_rel (amem st') (B h) (T(u \<mapsto> (nmemb * sz, raw, real_size_for (nmemb * sz) 8)))"
      "True \<longrightarrow> (\<forall>x. in_range x u (nmemb * sz) \<longrightarrow> amem st' x = 0)"
      "poisoned linux_64 (amem st') = fresh_poison c True (poisoned linux_64 (amem st)) (bytes u (nmemb * sz))"
    by (elim exE conjE) (rule that)
  have "cqmsan_calloc c st nmemb sz = Some (Ok (u, st'))"
    using nov SetErrnoOnNull_ok [OF a(1,2)] by (simp add: cqmsan_calloc_def CQMsanCalloc_def)
  moreover have "unat (nmemb * sz) = unat nmemb * unat sz"
    using False by (subst unat_mult_lem [THEN iffD1]) simp_all
  ultimately show ?thesis using False a(2-8) by (auto simp: fresh_poison_def)
qed

theorem calloc_correct_witness:
  "\<exists>u st'. cqmsan_calloc example_actx example_heap 4 25 = Some (Ok (u, st')) \<and> u \<noteq> 0 \<and>
    (\<forall>x. in_range x u 100 \<longrightarrow> amem st' x = 0)"
proof -
  have r: "libc_reply example_actx example_heap (real_size_for (4 * 25) 8) True =
      ((Some 132, None), real_memset (\<lambda>_. 0) 0x700000000010 0 132, 0x700000000010)"
    by (simp add: libc_reply_def example_actx_def example_heap_def arena_libc_def arena_malloc_def arena_def
      real_size_for_def kMinHeaderSlot_eq)
  have "(4 * 25 :: uptr) \<le> max_malloc_size example_actx" "\<not> rss_exceeded example_actx"
    by (simp_all add: example_actx_def initial_max_malloc_size_def kMaxAllowedMallocSize_def)
  from calloc_correct [OF example_alloc_ok example_empty this r] show ?thesis by auto
qed

lemma live_size:
  assumes "heap_rel m B T" and "T u = Some (sz, b, k)" and "\<And>a n. probe_ok c a n" and "u \<noteq> 0"
  shows "AllocationSize c m u = sz"
proof -
  have h: "header_ok m b u sz" using heap_relD(4) [OF assms(1,2)] by (auto simp: chunk_ok_def)
  have "sz \<noteq> CQMsanFreedCanaryFor u"
    using app_range_bound [OF chunk_app_range [OF assms(1,2)]] by (intro canary_not_size) simp_all
  then show ?thesis using h assms(3,4) by (simp add: AllocationSize_def AllocationBegin_def AllocationSizeFast_def header_ok_def)
qed

text \<open>A live chunk for the examples.\<close>

lemma example_chunk:
  obtains u :: uptr and st :: "(StackTrace list, arenas) astate" where "arena_inv (aheap st)" "u \<noteq> 0"
    "heap_rel (amem st) (arena_blocks (aheap st)) [u \<mapsto> (100, 0x700000000010, 195)]" "aheap st = (Some 195, None)"
  using allocate_ok [OF example_alloc_ok example_empty, of 100 64 False "(Some 195, None)" "\<lambda>_. 0" "0x700000000010"]
    example_reply
  by (auto simp: example_actx_def initial_max_malloc_size_def kMaxAllowedMallocSize_def IsPowerOfTwo_def
      real_size_for_def kMinHeaderSlot_eq)



text \<open>
  A pointer whose header does not carry its own canary, such as one into the middle of a
  chunk, is never released or reallocated: the process ends, and a size query answers 0. The canary
  is bound to the address, so a header copied elsewhere does not pass.
\<close>

theorem bad_pointer_refused:
  "load64 (amem st) (q - 24) = CQMsanCanaryFor u \<and> q \<noteq> u \<longrightarrow>
    CQMsanDeallocate c st q = Some (Died DieCalled) \<and> CQMsanReallocate c st q n al = Some (Died DieCalled) \<and>
    AllocationSize c (amem st) q = 0"
proof
  assume a: "load64 (amem st) (q - 24) = CQMsanCanaryFor u \<and> q \<noteq> u"
  then have "load64 (amem st) (q - 24) \<noteq> CQMsanCanaryFor q"
    using xor_cancel [of u kHeaderMagic q] by (auto simp: CQMsanCanaryFor_def xor.commute)
  then show "CQMsanDeallocate c st q = Some (Died DieCalled) \<and> CQMsanReallocate c st q n al = Some (Died DieCalled) \<and>
    AllocationSize c (amem st) q = 0"
    by (simp add: CQMsanDeallocate_def CQMsanReallocate_def CQMsanReallocateGlibc_def AllocationSize_def
      AllocationBegin_def Let_def)
qed

theorem bad_pointer_refused_witness:
  "CQMsanDeallocate example_actx (example_heap\<lparr>amem := store64 (\<lambda>_. 0) 0x700000000028 (CQMsanCanaryFor 0x700000000030)\<rparr>)
     0x700000000040 = Some (Died DieCalled)"
  using bad_pointer_refused [of "example_heap\<lparr>amem := store64 (\<lambda>_. 0) 0x700000000028 (CQMsanCanaryFor 0x700000000030)\<rparr>"
    "0x700000000040" "0x700000000030" example_actx] by (simp add: load64_store64)

text \<open>
  C22: \<^verbatim>\<open>realloc\<close> of a live chunk, when the C library grants the new block: the first bytes keep
  their contents and their initialisation state byte for byte, up to the smaller of the two sizes;
  what the chunk gained is uninitialised (when malloc poisoning is on); the old chunk leaves the
  table and the new one joins it. Size 0 releases the chunk and returns null.
\<close>

theorem realloc_correct:
  fixes c :: "('s, 'l) actx"
  assumes "alloc_ok c I B" and "I (aheap st)" and "heap_rel (amem st) (B (aheap st)) T"
    and "T u = Some (sz, b, k)" and "u \<noteq> 0" and "n \<le> max_malloc_size c" and "\<not> rss_exceeded c"
    and "libc_reply c st (real_size_for n 8) False = (h, m, raw)" and "raw \<noteq> 0"
  shows "(n = 0 \<longrightarrow> (\<exists>st'. cqmsan_realloc c st u 0 = Some (Ok (0, st')) \<and>
       heap_rel (amem st') (B (aheap st')) (T(u := None)))) \<and>
    (n \<noteq> 0 \<longrightarrow> (\<exists>v st'. cqmsan_realloc c st u n = Some (Ok (v, st')) \<and> v \<noteq> 0 \<and> T v = None \<and> I (aheap st') \<and>
       heap_rel (amem st') (B (aheap st')) ((T(v \<mapsto> (n, raw, real_size_for n 8)))(u := None)) \<and>
       (\<forall>i < min n sz. amem st' (v + i) = amem st (u + i) \<and>
         (v + i \<in> poisoned linux_64 (amem st') \<longleftrightarrow> u + i \<in> poisoned linux_64 (amem st))) \<and>
       (poison_in_malloc (ac_flags c) \<longrightarrow> (\<forall>i. sz \<le> i \<longrightarrow> i < n \<longrightarrow> v + i \<in> poisoned linux_64 (amem st')))))"
proof (intro conjI impI)
  from free_ok [OF assms(1-4)] obtain st'
    where "CQMsanDeallocate c st u = Some (Ok ((), st'))" "heap_rel (amem st') (B (aheap st')) (T(u := None))"
    by (elim exE conjE) (rule that)
  then show "\<exists>st'. cqmsan_realloc c st u 0 = Some (Ok (0, st')) \<and> heap_rel (amem st') (B (aheap st')) (T(u := None))"
    using assms(5) by (simp add: cqmsan_realloc_def bind_oo_def)
next
  assume n: "n \<noteq> 0"
  from realloc_ok [OF assms(1-4,6-9)] obtain v st'
    where r: "CQMsanReallocate c st u n 8 = Some (Ok (v, st'))" "T v = None" "v \<noteq> 0" "I (aheap st')"
      "heap_rel (amem st') (B (aheap st')) ((T(v \<mapsto> (n, raw, real_size_for n 8)))(u := None))"
      "\<forall>i < min n sz. amem st' (v + i) = amem st (u + i) \<and>
         (v + i \<in> poisoned linux_64 (amem st') \<longleftrightarrow> u + i \<in> poisoned linux_64 (amem st))"
      "poison_in_malloc (ac_flags c) \<longrightarrow> (\<forall>i. sz \<le> i \<longrightarrow> i < n \<longrightarrow> v + i \<in> poisoned linux_64 (amem st'))"
    by (elim exE conjE) (rule that)
  have "cqmsan_realloc c st u n = Some (Ok (v, st'))"
    using SetErrnoOnNull_ok [OF r(1,3)] assms(5) n by (simp add: cqmsan_realloc_def)
  with r(2-7) show "\<exists>v st'. cqmsan_realloc c st u n = Some (Ok (v, st')) \<and> v \<noteq> 0 \<and> T v = None \<and> I (aheap st') \<and>
       heap_rel (amem st') (B (aheap st')) ((T(v \<mapsto> (n, raw, real_size_for n 8)))(u := None)) \<and>
       (\<forall>i < min n sz. amem st' (v + i) = amem st (u + i) \<and>
         (v + i \<in> poisoned linux_64 (amem st') \<longleftrightarrow> u + i \<in> poisoned linux_64 (amem st))) \<and>
       (poison_in_malloc (ac_flags c) \<longrightarrow> (\<forall>i. sz \<le> i \<longrightarrow> i < n \<longrightarrow> v + i \<in> poisoned linux_64 (amem st')))"
    by blast
qed

theorem realloc_correct_witness:
  "\<exists>u st v st'. cqmsan_realloc example_actx st u 300 = Some (Ok (v, st')) \<and> v \<noteq> 0 \<and>
    (\<forall>i < 100. amem st' (v + i) = amem st (u + i))"
proof -
  obtain u :: uptr and st :: "(StackTrace list, arenas) astate" where e: "arena_inv (aheap st)" "u \<noteq> 0"
    "heap_rel (amem st) (arena_blocks (aheap st)) [u \<mapsto> (100, 0x700000000010, 195)]" "aheap st = (Some 195, None)"
    by (rule example_chunk)
  have t: "[u \<mapsto> (100 :: uptr, 0x700000000010 :: uptr, 195 :: uptr)] u = Some (100, 0x700000000010, 195)" by simp
  have l: "(300 :: uptr) \<le> max_malloc_size example_actx" "\<not> rss_exceeded example_actx"
    "libc_reply example_actx st (real_size_for 300 8) False = ((Some 195, Some 332), amem st, 0x700000040000)"
    using e(4) by (simp_all add: libc_reply_def example_actx_def arena_libc_def arena_malloc_def arena_def
      real_size_for_def kMinHeaderSlot_eq initial_max_malloc_size_def kMaxAllowedMallocSize_def)
  from realloc_correct [OF example_alloc_ok e(1,3) t e(2) l]
  obtain v st' where "cqmsan_realloc example_actx st u 300 = Some (Ok (v, st'))" "v \<noteq> 0"
    "\<forall>i < 100. amem st' (v + i) = amem st (u + i)" by auto
  then show ?thesis by blast
qed

text \<open>
  Arguments no request can be served for (a product or a rounded size that overflows, an
  alignment that is not a power of two, a size that is not a multiple of it) make every entry point
  either return null and set the documented error code with nothing else changed, or end the
  process; the C library is not called. A request over the limit does the same.
\<close>

theorem rejected_requests:
  "(unat nmemb * unat sz \<ge> 2 ^ 64 \<longrightarrow> cqmsan_reallocarray c st u nmemb sz = reject c st ''reallocarray-overflow'' errno_ENOMEM) \<and>
   (CheckForPvallocOverflow sz (PageSize (ac_env c)) \<longrightarrow> cqmsan_pvalloc c st sz = reject c st ''pvalloc-overflow'' errno_ENOMEM) \<and>
   (\<not> IsPowerOfTwo al \<longrightarrow> cqmsan_memalign c st al sz = reject c st ''invalid-allocation-alignment'' errno_EINVAL \<and>
      cqmsan_aligned_alloc c st al sz = reject c st ''invalid-aligned-alloc-alignment'' errno_EINVAL \<and>
      cqmsan_posix_memalign c st p al sz = (if may_return_null c then Some (Ok (errno_EINVAL, st))
        else Some (Died (Fatal ''invalid-posix-memalign-alignment'')))) \<and>
   (al \<noteq> 0 \<and> IsPowerOfTwo al \<and> \<not> unat al dvd unat sz \<longrightarrow>
      cqmsan_aligned_alloc c st al sz = reject c st ''invalid-aligned-alloc-alignment'' errno_EINVAL) \<and>
   (sz > max_malloc_size c \<longrightarrow> cqmsan_malloc c st sz = reject c st ''allocation-size-too-big'' errno_ENOMEM)"
proof -
  have al: "CheckAlignedAllocAlignmentAndSize al sz \<longrightarrow> unat al dvd unat sz"
  proof
    assume a: "CheckAlignedAllocAlignmentAndSize al sz"
    then obtain k where k: "k < 64" "al = 2 ^ k" unfolding CheckAlignedAllocAlignmentAndSize_def by (auto elim: IsPowerOfTwo_cases)
    have "IsAligned sz al" using a by (simp add: CheckAlignedAllocAlignmentAndSize_def IsAligned_def)
    then show "unat al dvd unat sz" using unat_exp [OF k(1)] by (simp add: k(2) IsAligned_exp)
  qed
  show ?thesis
  proof (intro conjI impI)
    assume "2 ^ 64 \<le> unat nmemb * unat sz"
    then show "cqmsan_reallocarray c st u nmemb sz = reject c st ''reallocarray-overflow'' errno_ENOMEM"
      by (simp add: cqmsan_reallocarray_def calloc_overflow_iff mult.commute)
  next
    assume "max_malloc_size c < sz"
    then show "cqmsan_malloc c st sz = reject c st ''allocation-size-too-big'' errno_ENOMEM"
      by (simp add: cqmsan_malloc_def CQMsanAllocate_def SetErrnoOnNull_def bind_oo_def reject_def Let_def)
  next
    assume "al \<noteq> 0 \<and> IsPowerOfTwo al \<and> \<not> unat al dvd unat sz"
    then show "cqmsan_aligned_alloc c st al sz = reject c st ''invalid-aligned-alloc-alignment'' errno_EINVAL"
      using al by (simp add: cqmsan_aligned_alloc_def)
  qed (simp_all add: cqmsan_pvalloc_def cqmsan_memalign_def cqmsan_aligned_alloc_def cqmsan_posix_memalign_def
      Let_def CheckAlignedAllocAlignmentAndSize_def CheckPosixMemalignAlignment_def)
qed

theorem rejected_requests_witness:
  "cqmsan_memalign example_actx example_heap 24 100 = Some (Ok (0, example_heap\<lparr>errno := 22\<rparr>))"
  using rejected_requests [of 0 100 example_actx example_heap 0 24 0]
  by (simp add: IsPowerOfTwo_def reject_def errno_EINVAL_def) (simp add: example_actx_def)

text \<open>
  The size query is a round trip: for every live chunk it answers the size that was asked for
  (and so ownership holds exactly for the non-empty ones).
\<close>

theorem allocation_size_roundtrip:
  assumes "heap_rel m B T" and "T u = Some (sz, b, k)" and "u \<noteq> 0" and "\<forall>a n. probe_ok c a n"
  shows "AllocationSize c m u = sz \<and> (sanitizer_get_ownership c m u \<longleftrightarrow> sz \<noteq> 0)"
  using live_size [OF assms(1,2) _ assms(3), of c] assms(4) by (simp add: sanitizer_get_ownership_def)

theorem allocation_size_roundtrip_witness:
  "\<exists>u m. u \<noteq> 0 \<and> AllocationSize example_actx m u = 100"
proof -
  obtain u :: uptr and st :: "(StackTrace list, arenas) astate" where e: "arena_inv (aheap st)" "u \<noteq> 0"
    "heap_rel (amem st) (arena_blocks (aheap st)) [u \<mapsto> (100, 0x700000000010, 195)]" by (rule example_chunk)
  have t: "[u \<mapsto> (100 :: uptr, 0x700000000010 :: uptr, 195 :: uptr)] u = Some (100, 0x700000000010, 195)" by simp
  have "\<forall>a n. probe_ok example_actx a n" by (simp add: example_actx_def)
  from allocation_size_roundtrip [OF e(3) t e(2) this] have "AllocationSize example_actx (amem st) u = 100" by (rule conjunct1)
  with e(2) show ?thesis by blast
qed

end
