(* ===== verification/Libc.thy ===== *)
theory Libc
  imports Prelude
begin

text \<open>
  The runtime's own C library functions (\<^verbatim>\<open>sanitizer_libc.cpp\<close>): searches, comparisons, block and
  string copies. A \<^verbatim>\<open>char\<close> is signed, so a byte is read as \<^term>\<open>sint\<close> of an 8-bit word; an \<^verbatim>\<open>int\<close>
  argument is an \<open>int\<close>; a null pointer is 0. Loops bounded by a count are functions with a measure; loops
  that run to a terminator are partial functions in \<open>option\<close>, since memory need not hold one.
\<close>

section \<open>Blocks\<close>

function memchr_from :: "memory \<Rightarrow> uptr \<Rightarrow> int \<Rightarrow> uptr \<Rightarrow> uptr \<Rightarrow> uptr" where
  "memchr_from m s c n i =
    (if i < n then (if sint (m (s + i)) = c then s + i else memchr_from m s c n (i + 1)) else 0)"
  by pat_completeness auto
termination
  by (relation "measure (\<lambda>(m, s, c, n, i). unat (n - i))") (auto, unat_arith)

definition internal_memchr :: "memory \<Rightarrow> uptr \<Rightarrow> int \<Rightarrow> uptr \<Rightarrow> uptr" where
  "internal_memchr m s c n = memchr_from m s c n 0"

function memrchr_from :: "memory \<Rightarrow> uptr \<Rightarrow> int \<Rightarrow> uptr \<Rightarrow> uptr \<Rightarrow> uptr \<Rightarrow> uptr" where
  "memrchr_from m s c n i res =
    (if i < n then memrchr_from m s c n (i + 1) (if sint (m (s + i)) = c then s + i else res) else res)"
  by pat_completeness auto
termination
  by (relation "measure (\<lambda>(m, s, c, n, i, r). unat (n - i))") (auto, unat_arith)

definition internal_memrchr :: "memory \<Rightarrow> uptr \<Rightarrow> int \<Rightarrow> uptr \<Rightarrow> uptr" where
  "internal_memrchr m s c n = memrchr_from m s c n 0 0"

function memcmp_from :: "memory \<Rightarrow> uptr \<Rightarrow> uptr \<Rightarrow> uptr \<Rightarrow> uptr \<Rightarrow> int" where
  "memcmp_from m s1 s2 n i =
    (if i < n then
       (if m (s1 + i) \<noteq> m (s2 + i) then (if sint (m (s1 + i)) < sint (m (s2 + i)) then -1 else 1)
        else memcmp_from m s1 s2 n (i + 1))
     else 0)"
  by pat_completeness auto
termination
  by (relation "measure (\<lambda>(m, s1, s2, n, i). unat (n - i))") (auto, unat_arith)

definition internal_memcmp :: "memory \<Rightarrow> uptr \<Rightarrow> uptr \<Rightarrow> uptr \<Rightarrow> int" where
  "internal_memcmp m s1 s2 n = memcmp_from m s1 s2 n 0"

text \<open>The ascending copy loop of \<^verbatim>\<open>internal_memcpy\<close> and \<^verbatim>\<open>internal_memmove\<close>, and the descending one.\<close>

function copy_up :: "memory \<Rightarrow> uptr \<Rightarrow> uptr \<Rightarrow> uptr \<Rightarrow> uptr \<Rightarrow> memory" where
  "copy_up m d s n i =
    (if i < n then copy_up (m(d + i := m (s + i))) d s n (i + 1) else m)"
  by pat_completeness auto
termination
  by (relation "measure (\<lambda>(m, d, s, n, i). unat (n - i))") (auto, unat_arith)

primrec copy_down :: "memory \<Rightarrow> uptr \<Rightarrow> uptr \<Rightarrow> nat \<Rightarrow> memory" where
  "copy_down m d s 0 = m"
| "copy_down m d s (Suc k) = copy_down (m(d + of_nat k := m (s + of_nat k))) d s k"

definition internal_memcpy :: "memory \<Rightarrow> uptr \<Rightarrow> uptr \<Rightarrow> uptr \<Rightarrow> memory" where
  "internal_memcpy m d s n = copy_up m d s n 0"

definition internal_memmove :: "memory \<Rightarrow> uptr \<Rightarrow> uptr \<Rightarrow> uptr \<Rightarrow> memory outcome" where
  "internal_memmove m d s n =
    check (sint n \<ge> 0)
     (Ok (if d < s then copy_up m d s n 0
          else if d > s \<and> sint n > 0 then copy_down m d s (unat n) else m))"

text \<open>
  \<^verbatim>\<open>internal_memset\<close> fills aligned blocks two words at a time, as long as the pointer is below \<open>s + n\<close>; the
  word is spread from the \<^verbatim>\<open>int\<close> argument, which C extends with its sign.
\<close>

definition spread :: "int \<Rightarrow> u64" where
  "spread c =
    (let v = word_of_int c; v = v OR push_bit 8 v; v = v OR push_bit 16 v in v OR push_bit 32 v)"

function fill_words :: "memory \<Rightarrow> uptr \<Rightarrow> uptr \<Rightarrow> u64 \<Rightarrow> uptr \<Rightarrow> memory" where
  "fill_words m s n v i =
    (if i < n div 16 then fill_words (store64 (store64 m (s + 16 * i + 8) v) (s + 16 * i) v) s n v (i + 1) else m)"
  by pat_completeness auto
termination
  by (relation "measure (\<lambda>(m, s, n, v, i). unat (n div 16 - i))") (auto, unat_arith)

function fill_bytes :: "memory \<Rightarrow> uptr \<Rightarrow> u8 \<Rightarrow> uptr \<Rightarrow> uptr \<Rightarrow> memory" where
  "fill_bytes m s v n i = (if i < n then fill_bytes (m(s + i := v)) s v n (i + 1) else m)"
  by pat_completeness auto
termination
  by (relation "measure (\<lambda>(m, s, v, n, i). unat (n - i))") (auto, unat_arith)

definition internal_memset :: "memory \<Rightarrow> uptr \<Rightarrow> int \<Rightarrow> uptr \<Rightarrow> memory" where
  "internal_memset m s c n =
    (if s mod 16 = 0 \<and> n mod 16 = 0 then (if s < s + n then fill_words m s n (spread c) 0 else m)
     else fill_bytes m s (word_of_int c) n 0)"

declare memchr_from.simps [simp del] memrchr_from.simps [simp del] memcmp_from.simps [simp del]
  copy_up.simps [simp del] fill_words.simps [simp del] fill_bytes.simps [simp del]

section \<open>Strings\<close>

partial_function (option) strlen_from :: "memory \<Rightarrow> uptr \<Rightarrow> uptr \<Rightarrow> uptr option" where
  "strlen_from m s i = (if m (s + i) \<noteq> 0 then strlen_from m s (i + 1) else Some i)"

definition internal_strlen :: "memory \<Rightarrow> uptr \<Rightarrow> uptr option" where
  "internal_strlen m s = strlen_from m s 0"

function strnlen_from :: "memory \<Rightarrow> uptr \<Rightarrow> uptr \<Rightarrow> uptr \<Rightarrow> uptr" where
  "strnlen_from m s maxlen i =
    (if i < maxlen \<and> m (s + i) \<noteq> 0 then strnlen_from m s maxlen (i + 1) else i)"
  by pat_completeness auto
termination
  by (relation "measure (\<lambda>(m, s, n, i). unat (n - i))") (auto, unat_arith)

definition internal_strnlen :: "memory \<Rightarrow> uptr \<Rightarrow> uptr \<Rightarrow> uptr" where
  "internal_strnlen m s maxlen = strnlen_from m s maxlen 0"

text \<open>A \<^verbatim>\<open>wchar_t\<close> has four bytes.\<close>

partial_function (option) wcslen_from :: "memory \<Rightarrow> uptr \<Rightarrow> uptr \<Rightarrow> uptr option" where
  "wcslen_from m s i = (if load32 m (s + 4 * i) \<noteq> 0 then wcslen_from m s (i + 1) else Some i)"

definition internal_wcslen :: "memory \<Rightarrow> uptr \<Rightarrow> uptr option" where
  "internal_wcslen m s = wcslen_from m s 0"

function wcsnlen_from :: "memory \<Rightarrow> uptr \<Rightarrow> uptr \<Rightarrow> uptr \<Rightarrow> uptr" where
  "wcsnlen_from m s maxlen i =
    (if i < maxlen \<and> load32 m (s + 4 * i) \<noteq> 0 then wcsnlen_from m s maxlen (i + 1) else i)"
  by pat_completeness auto
termination
  by (relation "measure (\<lambda>(m, s, n, i). unat (n - i))") (auto, unat_arith)

definition internal_wcsnlen :: "memory \<Rightarrow> uptr \<Rightarrow> uptr \<Rightarrow> uptr" where
  "internal_wcsnlen m s maxlen = wcsnlen_from m s maxlen 0"

text \<open>\<^verbatim>\<open>unsigned c1 = *s1\<close> extends the sign before it compares.\<close>

definition char_as_unsigned :: "u8 \<Rightarrow> u32" where
  "char_as_unsigned b = scast b"

partial_function (option) strcmp_from :: "memory \<Rightarrow> uptr \<Rightarrow> uptr \<Rightarrow> int option" where
  "strcmp_from m s1 s2 =
    (let c1 = char_as_unsigned (m s1); c2 = char_as_unsigned (m s2) in
     if c1 \<noteq> c2 then Some (if c1 < c2 then -1 else 1)
     else if c1 = 0 then Some 0 else strcmp_from m (s1 + 1) (s2 + 1))"

definition internal_strcmp :: "memory \<Rightarrow> uptr \<Rightarrow> uptr \<Rightarrow> int option" where
  "internal_strcmp m s1 s2 = strcmp_from m s1 s2"

function strncmp_from :: "memory \<Rightarrow> uptr \<Rightarrow> uptr \<Rightarrow> uptr \<Rightarrow> uptr \<Rightarrow> int" where
  "strncmp_from m s1 s2 n i =
    (if i < n then
       (let c1 = char_as_unsigned (m (s1 + i)); c2 = char_as_unsigned (m (s2 + i)) in
        if c1 \<noteq> c2 then (if c1 < c2 then -1 else 1)
        else if c1 = 0 then 0 else strncmp_from m s1 s2 n (i + 1))
     else 0)"
  by pat_completeness auto
termination
  by (relation "measure (\<lambda>(m, s1, s2, n, i). unat (n - i))") (auto, unat_arith)

definition internal_strncmp :: "memory \<Rightarrow> uptr \<Rightarrow> uptr \<Rightarrow> uptr \<Rightarrow> int" where
  "internal_strncmp m s1 s2 n = strncmp_from m s1 s2 n 0"

partial_function (option) internal_strchr :: "memory \<Rightarrow> uptr \<Rightarrow> int \<Rightarrow> uptr option" where
  "internal_strchr m s c =
    (if m s = word_of_int c then Some s else if m s = 0 then Some 0 else internal_strchr m (s + 1) c)"

definition internal_strchrnul :: "memory \<Rightarrow> uptr \<Rightarrow> int \<Rightarrow> uptr option" where
  "internal_strchrnul m s c =
    Option.bind (internal_strchr m s c) (\<lambda>res.
      if res = 0 then map_option (\<lambda>n. s + n) (internal_strlen m s) else Some res)"

partial_function (option) strrchr_from :: "memory \<Rightarrow> uptr \<Rightarrow> int \<Rightarrow> uptr \<Rightarrow> uptr \<Rightarrow> uptr option" where
  "strrchr_from m s c i res =
    (if m (s + i) \<noteq> 0 then strrchr_from m s c (i + 1) (if sint (m (s + i)) = c then s + i else res)
     else Some res)"

definition internal_strrchr :: "memory \<Rightarrow> uptr \<Rightarrow> int \<Rightarrow> uptr option" where
  "internal_strrchr m s c = strrchr_from m s c 0 0"

partial_function (option) strcspn_from :: "memory \<Rightarrow> uptr \<Rightarrow> uptr \<Rightarrow> uptr \<Rightarrow> uptr option" where
  "strcspn_from m s reject i =
    (if m (s + i) \<noteq> 0 then
       Option.bind (internal_strchr m reject (sint (m (s + i)))) (\<lambda>p.
         if p \<noteq> 0 then Some i else strcspn_from m s reject (i + 1))
     else Some i)"

definition internal_strcspn :: "memory \<Rightarrow> uptr \<Rightarrow> uptr \<Rightarrow> uptr option" where
  "internal_strcspn m s reject = strcspn_from m s reject 0"

section \<open>String copies\<close>

definition internal_strlcpy :: "memory \<Rightarrow> uptr \<Rightarrow> uptr \<Rightarrow> uptr \<Rightarrow> (uptr \<times> memory) outcome option" where
  "internal_strlcpy m dst src maxlen =
    map_option (\<lambda>srclen.
      if srclen < maxlen then bind_ok (internal_memmove m dst src (srclen + 1)) (\<lambda>m1. Ok (srclen, m1))
      else if maxlen \<noteq> 0 then
        bind_ok (internal_memmove m dst src (maxlen - 1)) (\<lambda>m1. Ok (srclen, m1(dst + (maxlen - 1) := 0)))
      else Ok (srclen, m)) (internal_strlen m src)"

definition internal_strlcat :: "memory \<Rightarrow> uptr \<Rightarrow> uptr \<Rightarrow> uptr \<Rightarrow> (uptr \<times> memory) outcome option" where
  "internal_strlcat m dst src maxlen =
    map_option (\<lambda>srclen.
      let dstlen = internal_strnlen m dst maxlen in
      if dstlen = maxlen then Ok (maxlen + srclen, m)
      else if srclen < maxlen - dstlen then
        bind_ok (internal_memmove m (dst + dstlen) src (srclen + 1)) (\<lambda>m1. Ok (dstlen + srclen, m1))
      else
        bind_ok (internal_memmove m (dst + dstlen) src (maxlen - dstlen - 1))
          (\<lambda>m1. Ok (dstlen + srclen, m1(dst + (maxlen - 1) := 0)))) (internal_strlen m src)"

text \<open>The loop of \<^verbatim>\<open>internal_strncat\<close> and \<^verbatim>\<open>internal_strncpy\<close>; it also returns where it stopped.\<close>

function copy_string :: "memory \<Rightarrow> uptr \<Rightarrow> uptr \<Rightarrow> uptr \<Rightarrow> uptr \<Rightarrow> uptr \<times> memory" where
  "copy_string m d s n i =
    (if i < n \<and> m (s + i) \<noteq> 0 then copy_string (m(d + i := m (s + i))) d s n (i + 1) else (i, m))"
  by pat_completeness auto
termination
  by (relation "measure (\<lambda>(m, d, s, n, i). unat (n - i))") (auto, unat_arith)

definition internal_strncat :: "memory \<Rightarrow> uptr \<Rightarrow> uptr \<Rightarrow> uptr \<Rightarrow> memory option" where
  "internal_strncat m dst src n =
    map_option (\<lambda>len. let (i, m1) = copy_string m (dst + len) src n 0 in m1(dst + (len + i) := 0))
      (internal_strlen m dst)"

definition internal_strncpy :: "memory \<Rightarrow> uptr \<Rightarrow> uptr \<Rightarrow> uptr \<Rightarrow> memory" where
  "internal_strncpy m dst src n =
    (let (i, m1) = copy_string m dst src n 0 in internal_memset m1 (dst + i) 0 (n - i))"

text \<open>The wide counterparts; \<^verbatim>\<open>internal_wcscpy\<close> tests the character after the one it copied.\<close>

partial_function (option) internal_wcscpy :: "memory \<Rightarrow> uptr \<Rightarrow> uptr \<Rightarrow> memory option" where
  "internal_wcscpy m dst src =
    (let m1 = store32 m dst (load32 m src) in
     if load32 m1 (src + 4) \<noteq> 0 then internal_wcscpy m1 (dst + 4) (src + 4) else Some m1)"

function copy_wide :: "memory \<Rightarrow> uptr \<Rightarrow> uptr \<Rightarrow> uptr \<Rightarrow> uptr \<Rightarrow> uptr \<times> memory" where
  "copy_wide m d s n i =
    (if i < n \<and> load32 m (s + 4 * i) \<noteq> 0
     then copy_wide (store32 m (d + 4 * i) (load32 m (s + 4 * i))) d s n (i + 1) else (i, m))"
  by pat_completeness auto
termination
  by (relation "measure (\<lambda>(m, d, s, n, i). unat (n - i))") (auto, unat_arith)

definition internal_wcsncpy :: "memory \<Rightarrow> uptr \<Rightarrow> uptr \<Rightarrow> uptr \<Rightarrow> memory" where
  "internal_wcsncpy m dst src n =
    (let (i, m1) = copy_wide m dst src n 0 in internal_memset m1 (dst + 4 * i) 0 ((n - i) * 4))"

function strstr_from :: "memory \<Rightarrow> uptr \<Rightarrow> uptr \<Rightarrow> uptr \<Rightarrow> uptr \<Rightarrow> nat \<Rightarrow> uptr" where
  "strstr_from m haystack needle len1 len2 pos =
    (if pos \<le> unat (len1 - len2) then
       (if internal_memcmp m (haystack + of_nat pos) needle len2 = 0 then haystack + of_nat pos
        else strstr_from m haystack needle len1 len2 (pos + 1))
     else 0)"
  by pat_completeness auto
termination
  by (relation "measure (\<lambda>(m, h, n, l1, l2, pos). Suc (unat (l1 - l2)) - pos)") auto

definition internal_strstr :: "memory \<Rightarrow> uptr \<Rightarrow> uptr \<Rightarrow> uptr option" where
  "internal_strstr m haystack needle =
    Option.bind (internal_strlen m haystack) (\<lambda>len1.
      map_option (\<lambda>len2. if len1 < len2 then 0 else strstr_from m haystack needle len1 len2 0)
        (internal_strlen m needle))"

declare strnlen_from.simps [simp del] wcsnlen_from.simps [simp del] strncmp_from.simps [simp del]
  copy_string.simps [simp del] copy_wide.simps [simp del] strstr_from.simps [simp del]

section \<open>Block copies\<close>

lemma word_Suc_le: "i + 1 \<le> j \<longleftrightarrow> i \<le> j \<and> j \<noteq> i" if "i < n" for i j n :: uptr
  using that by uint_arith

lemma unat_of_nat64: "k < 2 ^ 64 \<Longrightarrow> unat (of_nat k :: uptr) = k"
  by (simp add: unsigned_of_nat take_bit_eq_mod)

lemma no_wrap_neq:
  fixes a b i j :: uptr
  assumes "a < b" and "i \<le> j" and "unat b + unat j < 2 ^ 64"
  shows "b + j \<noteq> a + i"
proof -
  have "unat (b + j) = unat b + unat j" and "unat (a + i) = unat a + unat i"
    using assms by (auto intro!: unat_add_lem [THEN iffD1] simp: word_less_nat_alt word_le_nat_alt)
  then show ?thesis using assms(1,2) by (auto simp: word_less_nat_alt word_le_nat_alt)
qed

text \<open>The ascending loop copies as if all bytes were read first, when the target is below the source.\<close>

lemma copy_up_correct:
  assumes "d < s" and "unat s + unat n \<le> 2 ^ 64"
  shows "copy_up m d s n i = (\<lambda>a. if i \<le> a - d \<and> a - d < n then m (s + (a - d)) else m a)"
  using assms
proof (induction m d s n i rule: copy_up.induct)
  case (1 m d s n i)
  show ?case
  proof (cases "i < n")
    case True
    note step = word_Suc_le [OF True]
    have apart: "s + j \<noteq> d + i" if "i \<le> j" and "j < n" for j
      using no_wrap_neq [of d s i j] that "1.prems" by (auto simp: word_less_nat_alt)
    have "copy_up m d s n i = copy_up (m(d + i := m (s + i))) d s n (i + 1)"
      by (subst copy_up.simps) (simp add: True)
    also have "\<dots> = (\<lambda>a. if i + 1 \<le> a - d \<and> a - d < n then (m(d + i := m (s + i))) (s + (a - d)) else (m(d + i := m (s + i))) a)"
      by (rule "1.IH" [OF True "1.prems"])
    also have "\<dots> = (\<lambda>a. if i \<le> a - d \<and> a - d < n then m (s + (a - d)) else m a)"
    proof
      fix a
      have "a = d + i \<longleftrightarrow> a - d = i" by auto
      then show "(if i + 1 \<le> a - d \<and> a - d < n then (m(d + i := m (s + i))) (s + (a - d)) else (m(d + i := m (s + i))) a)
        = (if i \<le> a - d \<and> a - d < n then m (s + (a - d)) else m a)"
        using apart [of "a - d"] True unfolding step by auto
    qed
    finally show ?thesis .
  next
    case False
    then have "\<not> (i \<le> a - d \<and> a - d < n)" for a by auto
    then show ?thesis by (subst copy_up.simps) (auto simp: False fun_eq_iff)
  qed
qed

lemma copy_down_correct:
  assumes "s < d" and "unat d + k \<le> 2 ^ 64"
  shows "copy_down m d s k = (\<lambda>a. if unat (a - d) < k then m (s + (a - d)) else m a)"
  using assms(2)
proof (induction k arbitrary: m)
  case 0
  then show ?case by simp
next
  case (Suc k)
  have k: "unat (of_nat k :: uptr) = k"
    using Suc.prems by (simp add: unat_of_nat64)
  have apart: "d + of_nat k \<noteq> s + j" if "unat j < k" for j :: uptr
    using no_wrap_neq [OF assms(1), of j "of_nat k"] that Suc.prems by (auto simp: k word_le_nat_alt)
  have "copy_down m d s (Suc k) = (\<lambda>a. if unat (a - d) < k then (m(d + of_nat k := m (s + of_nat k))) (s + (a - d))
      else (m(d + of_nat k := m (s + of_nat k))) a)"
    using Suc.IH Suc.prems by simp
  also have "\<dots> = (\<lambda>a. if unat (a - d) < Suc k then m (s + (a - d)) else m a)"
  proof
    fix a
    have at: "a = d + of_nat k \<longleftrightarrow> unat (a - d) = k"
      by (metis k add_diff_cancel_left' diff_add_cancel add.commute word_unat_eq_iff)
    show "(if unat (a - d) < k then (m(d + of_nat k := m (s + of_nat k))) (s + (a - d)) else (m(d + of_nat k := m (s + of_nat k))) a)
      = (if unat (a - d) < Suc k then m (s + (a - d)) else m a)"
      using apart [of "a - d"] at by (auto simp: less_Suc_eq)
  qed
  finally show ?case .
qed

lemma internal_memmove_eq:
  assumes "unat d + unat n \<le> 2 ^ 64" and "unat s + unat n \<le> 2 ^ 64" and "sint n \<ge> 0"
  shows "internal_memmove m d s n = Ok (real_memmove m d s n)"
proof (cases d s rule: linorder_cases)
  case less
  then show ?thesis using assms by (simp add: internal_memmove_def copy_up_correct real_memmove_def in_range_def)
next
  case equal
  then show ?thesis using assms by (simp add: internal_memmove_def real_memmove_def fun_eq_iff)
next
  case greater
  show ?thesis
  proof (cases "n = 0")
    case True
    then show ?thesis using greater by (auto simp: internal_memmove_def)
  next
    case False
    then have "sint n > 0" using assms(3) by (metis order_le_less sint_0 signed_word_eqI)
    then show ?thesis
      using greater assms by (simp add: internal_memmove_def copy_down_correct real_memmove_def in_range_def word_less_nat_alt)
  qed
qed

lemma fill_bytes_correct:
  "fill_bytes m s v n i = (\<lambda>a. if i \<le> a - s \<and> a - s < n then v else m a)"
proof (induction m s v n i rule: fill_bytes.induct)
  case (1 m s v n i)
  show ?case
  proof (cases "i < n")
    case True
    note step = word_Suc_le [OF True]
    have eq: "a = s + i \<longleftrightarrow> a - s = i" for a by auto
    have "fill_bytes m s v n i = fill_bytes (m(s + i := v)) s v n (i + 1)"
      by (subst fill_bytes.simps) (simp add: True)
    also have "\<dots> = (\<lambda>a. if i + 1 \<le> a - s \<and> a - s < n then v else (m(s + i := v)) a)"
      by (rule "1.IH" [OF True])
    finally show ?thesis using True by (auto simp: step eq fun_eq_iff)
  next
    case False
    then show ?thesis by (subst fill_bytes.simps) (auto simp: fun_eq_iff)
  qed
qed

text \<open>Eight bytes of the same value.\<close>

lemma store64_memset:
  assumes "\<And>k. k < 8 \<Longrightarrow> ucast (drop_bit (8 * k) v) = b"
  shows "store64 m a v = real_memset m a b 8"
proof -
  have lo: "ucast (drop_bit k (ucast v :: u32)) = (ucast (drop_bit k v) :: u8)" if "k \<le> 24" for k
    by (rule bit_word_eqI) (use that in \<open>auto simp: bit_simps\<close>)
  have hi: "ucast (drop_bit k (ucast (drop_bit 32 v) :: u32)) = (ucast (drop_bit (32 + k) v) :: u8)" if "k \<le> 24" for k
    by (rule bit_word_eqI) (use that in \<open>auto simp: bit_simps add.assoc\<close>)
  have bytes: "ucast (ucast v :: u32) = b" "ucast (drop_bit 8 (ucast v :: u32)) = b"
    "ucast (drop_bit 16 (ucast v :: u32)) = b" "ucast (drop_bit 24 (ucast v :: u32)) = b"
    "ucast (ucast (drop_bit 32 v) :: u32) = b" "ucast (drop_bit 8 (ucast (drop_bit 32 v) :: u32)) = b"
    "ucast (drop_bit 16 (ucast (drop_bit 32 v) :: u32)) = b" "ucast (drop_bit 24 (ucast (drop_bit 32 v) :: u32)) = b"
    using lo [of 0] lo [of 8] lo [of 16] lo [of 24] hi [of 0] hi [of 8] hi [of 16] hi [of 24]
      assms [of 0] assms [of 1] assms [of 2] assms [of 3] assms [of 4] assms [of 5] assms [of 6] assms [of 7]
    by simp_all
  have c: "x < 8 \<longleftrightarrow> x = 0 \<or> x = 1 \<or> x = 2 \<or> x = 3 \<or> x = 4 \<or> x = 5 \<or> x = 6 \<or> x = 7" for x :: uptr
    by unat_arith
  have e: "x - a = k \<longleftrightarrow> x = a + k" for x k by (metis add_diff_cancel_left' diff_add_cancel add.commute)
  show ?thesis
    unfolding store64_def store32_def real_memset_def in_range_def c bytes e
    by (auto simp: fun_eq_iff add.assoc)
qed

lemma spread_bits:
  assumes "0 \<le> c" and "c < 256"
  shows "bit (spread c) n \<longleftrightarrow> n < 64 \<and> bit c (n mod 8)"
proof -
  define v0 :: u64 where "v0 = word_of_int c"
  have hi: "\<not> bit c k" if "8 \<le> k" for k
  proof -
    have "drop_bit 8 c = 0" using assms by (simp add: drop_bit_eq_div)
    then have "\<not> bit (drop_bit 8 c) (k - 8)" by simp
    then show ?thesis using that by (simp add: bit_drop_bit_eq)
  qed
  have b0: "bit v0 k \<longleftrightarrow> k < 8 \<and> bit c k" for k
    using hi [of k] by (cases "k < 8") (auto simp: v0_def bit_simps)
  define v1 where "v1 = v0 OR push_bit 8 v0"
  define v2 where "v2 = v1 OR push_bit 16 v1"
  have sub: "(k - 8 * d) mod 8 = k mod 8" if "8 * d \<le> k" for k d :: nat
    using le_Suc_ex [OF that] by auto
  have b1: "bit v1 k \<longleftrightarrow> k < 16 \<and> bit c (k mod 8)" for k
    using sub [of 1 k] by (cases "k < 8") (auto simp: v1_def bit_simps b0)
  have b2: "bit v2 k \<longleftrightarrow> k < 32 \<and> bit c (k mod 8)" for k
    using sub [of 2 k] by (auto simp: v2_def bit_simps b1)
  have "(n - 32) mod 8 = n mod 8" if "32 \<le> n"
    using sub [of 4 n] that by simp
  moreover have "spread c = v2 OR push_bit 32 v2"
    by (simp add: spread_def v0_def v1_def v2_def Let_def)
  ultimately show ?thesis by (auto simp: bit_simps b2)
qed

lemma spread_bytes:
  assumes "0 \<le> c" and "c < 256" and "k < 8"
  shows "ucast (drop_bit (8 * k) (spread c)) = (word_of_int c :: u8)"
  by (rule bit_word_eqI) (use assms in \<open>auto simp: bit_simps spread_bits\<close>)

lemma fill_words_correct:
  assumes "\<And>k. k < 8 \<Longrightarrow> ucast (drop_bit (8 * k) v) = b" and "n mod 16 = 0" and "i \<le> n div 16"
  shows "fill_words m s n v i = real_memset m (s + 16 * i) b (n - 16 * i)"
  using assms
proof (induction m s n v i rule: fill_words.induct)
  case (1 m s n v i)
  have n: "n = 16 * (n div 16)" using "1.prems"(2) by (metis mult_div_mod_eq add.right_neutral)
  have small: "unat (16 * j) = 16 * unat j" if "j \<le> n div 16" for j
  proof -
    have "16 * unat j \<le> 16 * (unat n div 16)" using that by (simp add: word_le_nat_alt unat_div)
    also have "\<dots> \<le> unat n" by simp
    also have "\<dots> < 2 ^ 64" by (rule unat64_less)
    finally show ?thesis by (simp add: unat_word_ariths)
  qed
  show ?case
  proof (cases "i < n div 16")
    case True
    let ?p = "s + 16 * i"
    have two: "store64 (store64 m (?p + 8) v) ?p v = real_memset m ?p b 16"
      using real_memset_split [of 8 16 m ?p b]
      by (simp add: store64_memset [OF "1.prems"(1)] real_memset_commute)
    have le: "i + 1 \<le> n div 16" using True by (rule inc_le)
    have un: "unat (16 * i) = 16 * unat i" using True by (intro small) simp
    have "unat i < unat n div 16" using True by (simp add: word_less_nat_alt unat_div)
    then have "16 * unat i + 16 \<le> unat n" by linarith
    then have room: "16 \<le> n - 16 * i" using un by (simp add: word_le_nat_alt unat_sub_if_size)
    have "fill_words m s n v i = fill_words (real_memset m ?p b 16) s n v (i + 1)"
      by (subst fill_words.simps) (simp add: True two)
    also have "\<dots> = real_memset (real_memset m ?p b 16) (?p + 16) b (n - 16 * i - 16)"
      using "1.IH" [OF True "1.prems"(1,2) le] two by (simp add: algebra_simps)
    finally show ?thesis using real_memset_split [OF room] by simp
  next
    case False
    then have "i = n div 16" using "1.prems"(3) by simp
    then have "n - 16 * i = 0" using n by simp
    moreover have "fill_words m s n v i = m" using False by (subst fill_words.simps) simp
    ultimately show ?thesis by (simp del: right_minus_eq)
  qed
qed

lemma internal_memset_eq:
  assumes "0 \<le> c \<and> c < 256 \<or> c = -1" and "unat s + unat n < 2 ^ 64"
  shows "internal_memset m s c n = real_memset m s (word_of_int c) n"
proof -
  have b: "ucast (drop_bit (8 * k) (spread c)) = (word_of_int c :: u8)" if "k < 8" for k
  proof (cases "c = -1")
    case True
    have "spread c = -1" unfolding True spread_def by (simp add: Let_def)
    then show ?thesis unfolding True by (intro bit_word_eqI) (use that in \<open>auto simp: bit_simps\<close>)
  next
    case False
    then show ?thesis using assms(1) that spread_bytes by blast
  qed
  have "s < s + n" if "n \<noteq> 0"
    using assms(2) that by (simp add: word_less_nat_alt unat_add_lem [THEN iffD1] unat_gt_0)
  moreover have "fill_bytes m s (word_of_int c) n 0 = real_memset m s (word_of_int c) n"
    by (simp add: fill_bytes_correct real_memset_def in_range_def)
  moreover have "fill_words m s n (spread c) 0 = real_memset m s (word_of_int c) n" if "n mod 16 = 0"
    using fill_words_correct [OF b that, of 0 m s] by simp
  ultimately show ?thesis by (cases "n = 0") (auto simp: internal_memset_def)
qed

section \<open>Strings\<close>

text \<open>\<open>cstring m s xs\<close>: at \<open>s\<close> stand the bytes \<open>xs\<close>, none of them 0, and then a 0.\<close>

definition cstring :: "memory \<Rightarrow> uptr \<Rightarrow> u8 list \<Rightarrow> bool" where
  "cstring m s xs \<longleftrightarrow> length xs < 2 ^ 64 \<and> 0 \<notin> set xs \<and>
    (\<forall>i < length xs. m (s + of_nat i) = xs ! i) \<and> m (s + of_nat (length xs)) = 0"

lemma cstringD:
  assumes "cstring m s xs"
  shows "length xs < 2 ^ 64" and "m (s + of_nat (length xs)) = 0"
    and "i < length xs \<Longrightarrow> m (s + of_nat i) = xs ! i" and "i < length xs \<Longrightarrow> xs ! i \<noteq> 0"
  using assms nth_mem [of i xs] by (auto simp: cstring_def simp del: nth_mem)

lemma cstring_offset:
  assumes "cstring m s xs" and "j < of_nat (length xs)"
  shows "m (s + j) = xs ! unat j" and "xs ! unat j \<noteq> 0" and "unat j < length xs"
proof -
  show j: "unat j < length xs"
    using assms cstringD(1) [OF assms(1)] by (simp add: word_less_nat_alt unat_of_nat64)
  show "m (s + j) = xs ! unat j" "xs ! unat j \<noteq> 0"
    using cstringD(3,4) [OF assms(1) j] by simp_all
qed

lemma strlen_cstring:
  assumes "cstring m s xs"
  shows "internal_strlen m s = Some (of_nat (length xs))"
proof -
  have "strlen_from m s (of_nat i) = Some (of_nat (length xs))" if "i \<le> length xs" for i
    using that
  proof (induction rule: inc_induct)
    case base
    show ?case using cstringD(2) [OF assms] by (subst strlen_from.simps) simp
  next
    case (step i)
    have "strlen_from m s (of_nat i) = strlen_from m s (of_nat i + 1)"
      using cstringD(3,4) [OF assms step.hyps(2)] by (subst strlen_from.simps) simp
    then show ?case using step.IH by (simp add: add.commute)
  qed
  from this [of 0] show ?thesis by (simp add: internal_strlen_def)
qed

text \<open>Wherever there is a terminator there is a string.\<close>

lemma cstring_exists:
  assumes "m (s + n) = 0"
  obtains xs where "cstring m s xs" and "length xs \<le> unat n"
proof
  define k where "k = (LEAST k. m (s + of_nat k) = 0)"
  have ex: "m (s + of_nat (unat n)) = 0" using assms by simp
  have k: "m (s + of_nat k) = 0" unfolding k_def using ex by (rule LeastI)
  have le: "k \<le> unat n" unfolding k_def using ex by (rule Least_le)
  have below: "m (s + of_nat i) \<noteq> 0" if "i < k" for i
    using that not_less_Least unfolding k_def by blast
  let ?xs = "map (\<lambda>i. m (s + of_nat i)) [0..<k]"
  show "cstring m s ?xs"
    using k le below unat64_less [of n] by (force simp: cstring_def)
  show "length ?xs \<le> unat n" using le by simp
qed

lemma cstring_unique: "cstring m s xs \<Longrightarrow> cstring m s ys \<Longrightarrow> xs = ys"
proof -
  assume x: "cstring m s xs" and y: "cstring m s ys"
  have "length xs = length ys"
    using strlen_cstring [OF x] strlen_cstring [OF y] cstringD(1) [OF x] cstringD(1) [OF y]
    by (metis option.inject unat_of_nat64)
  then show ?thesis using cstringD(3) [OF x] cstringD(3) [OF y] by (metis nth_equalityI)
qed

lemma strlen_Some: "internal_strlen m s = Some n \<Longrightarrow> m (s + n) = 0"
proof -
  have "m (s + n) = 0" if "strlen_from m s i = Some n" for i
    by (rule strlen_from.raw_induct [where P = "\<lambda>m s i r. m (s + r) = 0", OF _ that]) (auto split: if_splits)
  then show "internal_strlen m s = Some n \<Longrightarrow> m (s + n) = 0" by (auto simp: internal_strlen_def)
qed

lemma strlen_iff: "internal_strlen m s = Some n \<longleftrightarrow> (\<exists>xs. cstring m s xs \<and> n = of_nat (length xs))"
proof
  assume l: "internal_strlen m s = Some n"
  then have "m (s + n) = 0" by (rule strlen_Some)
  then obtain xs where "cstring m s xs" by (rule cstring_exists)
  then show "\<exists>xs. cstring m s xs \<and> n = of_nat (length xs)" using l strlen_cstring by force
next
  assume "\<exists>xs. cstring m s xs \<and> n = of_nat (length xs)"
  then show "internal_strlen m s = Some n" using strlen_cstring by blast
qed

lemma strnlen_spec:
  fixes n :: uptr
  shows "internal_strnlen m s n \<le> n"
    and "i < internal_strnlen m s n \<Longrightarrow> m (s + i) \<noteq> 0"
    and "internal_strnlen m s n < n \<Longrightarrow> m (s + internal_strnlen m s n) = 0"
proof -
  have "strnlen_from m s n i \<le> n \<and> i \<le> strnlen_from m s n i
     \<and> (\<forall>j. i \<le> j \<and> j < strnlen_from m s n i \<longrightarrow> m (s + j) \<noteq> 0)
     \<and> (strnlen_from m s n i < n \<longrightarrow> m (s + strnlen_from m s n i) = 0)" if "i \<le> n" for i
    using that
  proof (induction m s n i rule: strnlen_from.induct)
    case (1 m s n i)
    show ?case
    proof (cases "i < n \<and> m (s + i) \<noteq> 0")
      case True
      then have i: "i < n" by simp
      have "strnlen_from m s n i = strnlen_from m s n (i + 1)"
        by (subst strnlen_from.simps) (simp add: True)
      moreover have "i + 1 \<le> n" using i by (rule inc_le)
      ultimately show ?thesis
        using "1.IH" [OF True] True word_Suc_le [OF i] by auto
    next
      case False
      have "strnlen_from m s n i = i" by (subst strnlen_from.simps) (use False in auto)
      then show ?thesis using False "1.prems" by auto
    qed
  qed
  from this [of 0] show "internal_strnlen m s n \<le> n"
    "i < internal_strnlen m s n \<Longrightarrow> m (s + i) \<noteq> 0"
    "internal_strnlen m s n < n \<Longrightarrow> m (s + internal_strnlen m s n) = 0"
    by (auto simp: internal_strnlen_def)
qed

lemma strnlen_cstring:
  assumes "cstring m s xs"
  shows "internal_strnlen m s n = min n (of_nat (length xs))"
proof -
  let ?r = "internal_strnlen m s n" and ?l = "of_nat (length xs) :: uptr"
  have 1: "?r \<le> ?l"
    using strnlen_spec(2) [of ?l m s n] cstringD(2) [OF assms] by (meson not_le)
  have 2: "?r = ?l" if "?r < n"
  proof (rule ccontr)
    assume "?r \<noteq> ?l"
    then have "?r < ?l" using 1 by simp
    then have "m (s + ?r) \<noteq> 0" using cstring_offset [OF assms] by simp
    then show False using strnlen_spec(3) [OF that] by simp
  qed
  show ?thesis
    using 1 2 strnlen_spec(1) [of m s n] by (cases "?r < n") (auto simp: min_def)
qed

lemma in_range_tail: "in_range a (p + k) (n - k) \<longleftrightarrow> in_range a p n \<and> \<not> in_range a p k" if "k \<le> n"
proof -
  have "a - (p + k) = (a - p) - k" by simp
  then show ?thesis unfolding in_range_def using that by uint_arith
qed

lemma sint_small: "0 \<le> sint n" if "unat n < 2 ^ 63" for n :: uptr
proof -
  have "int (unat n) < int (2 ^ 63)" using that by (simp only: of_nat_less_iff)
  then have "uint n < 2 ^ 63" by simp
  then show ?thesis by (simp add: sint_uint_small)
qed

lemma cstring_prefix:
  assumes "cstring m s xs" and "k \<le> length xs"
    and "\<And>i. i < k \<Longrightarrow> m' (d + of_nat i) = m (s + of_nat i)" and "m' (d + of_nat k) = 0"
  shows "cstring m' d (take k xs)"
  using assms cstringD(1,3) [OF assms(1)] by (auto simp: cstring_def dest: in_set_takeD)

lemma cstring_append:
  assumes "cstring m d ys" and "cstring m' (d + of_nat (length ys)) zs"
    and "\<And>i. i < length ys \<Longrightarrow> m' (d + of_nat i) = m (d + of_nat i)" and "length ys + length zs < 2 ^ 64"
  shows "cstring m' d (ys @ zs)"
  unfolding cstring_def
proof (intro conjI allI impI)
  show "length (ys @ zs) < 2 ^ 64" using assms(4) by simp
  show "0 \<notin> set (ys @ zs)" using assms(1,2) by (simp add: cstring_def)
  show "m' (d + of_nat (length (ys @ zs))) = 0" using cstringD(2) [OF assms(2)] by (simp add: add.assoc)
  fix i assume i: "i < length (ys @ zs)"
  show "m' (d + of_nat i) = (ys @ zs) ! i"
  proof (cases "i < length ys")
    case True
    then show ?thesis using assms(3) cstringD(3) [OF assms(1)] by (simp add: nth_append)
  next
    case False
    then obtain j where j: "i = length ys + j" using le_Suc_ex by (metis not_less)
    then have "m' (d + of_nat (length ys) + of_nat j) = zs ! j" using cstringD(3) [OF assms(2)] i by simp
    then show ?thesis by (simp add: j nth_append add.assoc)
  qed
qed

lemma memmove_prefix:
  assumes "i < unat n"
  shows "real_memmove m d s n (d + of_nat i) = m (s + of_nat i)"
proof -
  have "unat (of_nat i :: uptr) = i" using assms unat64_less [of n] by (intro unat_of_nat64) simp
  then have "of_nat i < n" using assms by (simp add: word_less_nat_alt)
  then show ?thesis by (simp add: real_memmove_def)
qed

text \<open>A string moved whole, or cut after \<open>k\<close> characters with a terminator behind them.\<close>

lemma move_string:
  assumes "cstring m s xs" and "unat d + length xs < 2 ^ 64" and "unat s + length xs < 2 ^ 64" and "length xs < 2 ^ 63 - 1"
  shows "internal_memmove m d s (of_nat (length xs) + 1) = Ok (real_memmove m d s (of_nat (length xs) + 1))"
    and "cstring (real_memmove m d s (of_nat (length xs) + 1)) d xs"
proof -
  have n: "unat (of_nat (length xs) + 1 :: uptr) = length xs + 1"
    using assms(4) unat_of_nat64 [of "length xs + 1"] by (simp add: add.commute)
  show "internal_memmove m d s (of_nat (length xs) + 1) = Ok (real_memmove m d s (of_nat (length xs) + 1))"
    using assms n sint_small by (intro internal_memmove_eq) auto
  have "real_memmove m d s (of_nat (length xs) + 1) (d + of_nat i) = m (s + of_nat i)" if "i \<le> length xs" for i
    using that n by (intro memmove_prefix) simp
  from cstring_prefix [OF assms(1) order_refl, of "real_memmove m d s (of_nat (length xs) + 1)" d] this
  show "cstring (real_memmove m d s (of_nat (length xs) + 1)) d xs"
    using cstringD(2) [OF assms(1)] by simp
qed

lemma move_cut:
  assumes "cstring m s xs" and "unat d + unat k < 2 ^ 64" and "unat s + length xs < 2 ^ 64"
    and "unat k \<le> length xs" and "length xs < 2 ^ 63 - 1"
  shows "internal_memmove m d s k = Ok (real_memmove m d s k)"
    and "cstring ((real_memmove m d s k)(d + k := 0)) d (take (unat k) xs)"
proof -
  show "internal_memmove m d s k = Ok (real_memmove m d s k)"
    using assms sint_small [of k] by (intro internal_memmove_eq) auto
  have "d + of_nat i \<noteq> d + k" if "i < unat k" for i
    using that unat_of_nat64 [of i] unat64_less [of k] by fastforce
  then show "cstring ((real_memmove m d s k)(d + k := 0)) d (take (unat k) xs)"
    by (intro cstring_prefix [OF assms(1,4)]) (simp_all add: memmove_prefix)
qed

lemma internal_strlcpy_eq:
  assumes "cstring m src xs" and "unat dst + unat maxlen \<le> 2 ^ 64" and "unat src + length xs < 2 ^ 64"
    and "length xs < 2 ^ 63 - 1" and "0 < maxlen"
  obtains m' where "internal_strlcpy m dst src maxlen = Some (Ok (of_nat (length xs), m'))"
    and "cstring m' dst (take (unat maxlen - 1) xs)" and "\<And>a. \<not> in_range a dst maxlen \<Longrightarrow> m' a = m a"
proof (cases "of_nat (length xs) < maxlen")
  let ?n = "of_nat (length xs) + 1 :: uptr"
  case True
  then have le: "length xs < unat maxlen" using assms(4) by (simp add: word_less_nat_alt unat_of_nat64)
  have n: "?n \<le> maxlen" using True by (rule inc_le)
  show thesis
  proof (rule that [of "real_memmove m dst src ?n"])
    show "internal_strlcpy m dst src maxlen = Some (Ok (of_nat (length xs), real_memmove m dst src ?n))"
      using True move_string(1) [OF assms(1) _ assms(3,4), of dst] assms(2) le
      by (simp add: internal_strlcpy_def strlen_cstring [OF assms(1)])
    show "cstring (real_memmove m dst src ?n) dst (take (unat maxlen - 1) xs)"
      using move_string(2) [OF assms(1) _ assms(3,4), of dst] assms(2) le by simp
    show "real_memmove m dst src ?n a = m a" if "\<not> in_range a dst maxlen" for a
      using that n by (auto simp: real_memmove_def in_range_def)
  qed
next
  case False
  let ?m = "(real_memmove m dst src (maxlen - 1))(dst + (maxlen - 1) := 0)"
  have le: "unat maxlen \<le> length xs" using False assms(4) by (simp add: word_less_nat_alt unat_of_nat64)
  have k: "unat (maxlen - 1) = unat maxlen - 1" using assms(5) by (metis unat_minus_one word_less_1 less_irrefl word_gt_0)
  have p: "0 < unat maxlen" using assms(5) by (simp add: word_less_nat_alt)
  have less: "maxlen - 1 < maxlen" using k p by (simp add: word_less_nat_alt)
  note cut = move_cut [OF assms(1) _ assms(3) _ assms(4), of dst "maxlen - 1"]
  show thesis
  proof (rule that [of ?m])
    show "internal_strlcpy m dst src maxlen = Some (Ok (of_nat (length xs), ?m))"
      using False cut(1) assms(2) le k p
      by (auto simp: internal_strlcpy_def strlen_cstring [OF assms(1)])
    show "cstring ?m dst (take (unat maxlen - 1) xs)"
      using cut(2) assms(2) le p unfolding k by simp
    show "?m a = m a" if "\<not> in_range a dst maxlen" for a
      using that less by (auto simp: real_memmove_def in_range_def)
  qed
qed

lemma internal_strlcat_eq:
  assumes "cstring m dst ys" and "length ys < unat maxlen" and "cstring m src xs"
    and "unat dst + unat maxlen \<le> 2 ^ 64" and "unat src + length xs < 2 ^ 64" and "length xs < 2 ^ 63 - 1"
  obtains m' where "internal_strlcat m dst src maxlen = Some (Ok (of_nat (length ys + length xs), m'))"
    and "cstring m' dst (take (unat maxlen - 1) (ys @ xs))" and "\<And>a. \<not> in_range a dst maxlen \<Longrightarrow> m' a = m a"
proof -
  let ?d = "dst + of_nat (length ys)" and ?room = "maxlen - of_nat (length ys)"
  have len: "internal_strnlen m dst maxlen = of_nat (length ys)"
    using assms(2) cstringD(1) [OF assms(1)] by (simp add: strnlen_cstring [OF assms(1)] min_def word_le_nat_alt unat_of_nat64)
  have ul: "unat (of_nat (length ys) :: uptr) = length ys" using cstringD(1) [OF assms(1)] by (rule unat_of_nat64)
  have ne: "of_nat (length ys) \<noteq> maxlen" using assms(2) ul by auto
  have room: "unat ?room = unat maxlen - length ys" "0 < ?room"
    using assms(2) ul by (simp_all add: unat_sub_if_size word_less_nat_alt)
  have ud: "unat ?d = unat dst + length ys"
    using assms(2,4) ul by (subst unat_add_lem [THEN iffD1]) auto
  have bound: "unat ?d + unat ?room \<le> 2 ^ 64" using assms(2,4) ud room by simp
  obtain m' where c: "internal_strlcpy m ?d src ?room = Some (Ok (of_nat (length xs), m'))"
    and z: "cstring m' ?d (take (unat ?room - 1) xs)" and out: "\<And>a. \<not> in_range a ?d ?room \<Longrightarrow> m' a = m a"
    using internal_strlcpy_eq [OF assms(3) bound assms(5,6) room(2)] by blast
  have last: "?d + (?room - 1) = dst + (maxlen - 1)" by simp
  have keep: "m' a = m a" if "\<not> in_range a dst maxlen \<or> in_range a dst (of_nat (length ys))" for a
  proof (rule out)
    have le: "of_nat (length ys) \<le> maxlen" using assms(2) ul by (simp add: word_le_nat_alt)
    show "\<not> in_range a ?d ?room" using that unfolding in_range_tail [OF le] by blast
  qed
  show thesis
  proof (rule that)
    show "internal_strlcat m dst src maxlen = Some (Ok (of_nat (length ys + length xs), m'))"
      using c ne room(2) unfolding internal_strlcat_def internal_strlcpy_def strlen_cstring [OF assms(3)] len last
      by (auto simp: Let_def outcome_simps bind_ok_eq_Ok split: if_splits)
    show "m' a = m a" if "\<not> in_range a dst maxlen" for a using keep that by blast
    have "cstring m' dst (ys @ take (unat ?room - 1) xs)"
    proof (rule cstring_append [OF assms(1) z])
      fix i assume "i < length ys"
      then have "in_range (dst + of_nat i) dst (of_nat (length ys))"
        using ul unat_of_nat64 [of i] cstringD(1) [OF assms(1)] by (simp add: word_less_nat_alt)
      then show "m' (dst + of_nat i) = m (dst + of_nat i)" using keep by blast
    next
      show "length ys + length (take (unat ?room - 1) xs) < 2 ^ 64"
        using assms(2) unat64_less [of maxlen] room(1) by auto
    qed
    moreover have "take (unat maxlen - 1) (ys @ xs) = ys @ take (unat ?room - 1) xs"
      using assms(2) room(1) by (simp add: take_append)
    ultimately show "cstring m' dst (take (unat maxlen - 1) (ys @ xs))" by simp
  qed
qed

text \<open>The loop that copies up to \<open>n\<close> characters of a string, source and target apart.\<close>

lemma copy_string_correct:
  assumes "cstring m s xs" and "\<And>i j. i < n \<Longrightarrow> j \<le> of_nat (length xs) \<Longrightarrow> d + i \<noteq> s + j"
  shows "copy_string m d s n 0 = (min n (of_nat (length xs)), real_memmove m d s (min n (of_nat (length xs))))"
proof -
  let ?k = "min n (of_nat (length xs)) :: uptr"
  let ?done = "\<lambda>i. real_memmove m d s i"
  have src: "?done i (s + j) = m (s + j)" if "i \<le> n" and "j \<le> of_nat (length xs)" for i j
  proof (rule real_memmove_out)
    show "\<not> in_range (s + j) d i"
      using assms(2) [of "s + j - d" j] that by (auto simp: in_range_def dest: less_le_trans)
  qed
  have "copy_string (?done i) d s n i = (?k, ?done ?k)" if "i \<le> ?k" for i
    using that
  proof (induction "unat (?k - i)" arbitrary: i)
    case 0
    then have i: "i = ?k" by (simp add: unat_eq_zero)
    have "\<not> (i < n \<and> ?done i (s + i) \<noteq> 0)"
    proof (cases "i < n")
      case True
      then have "i = of_nat (length xs)" using i by (auto simp: min_def split: if_splits)
      then show ?thesis using src [of i i] True cstringD(2) [OF assms(1)] by simp
    qed simp
    then show ?case using i by (subst copy_string.simps) auto
  next
    case (Suc x)
    then have lt: "i < ?k" by (metis diff_self less_le nat.distinct(1) unsigned_0)
    then have i: "i < n" "i < of_nat (length xs)" by auto
    have nz: "?done i (s + i) = m (s + i)" "m (s + i) \<noteq> 0"
      using src [of i i] i cstring_offset [OF assms(1) i(2)] by auto
    have step: "(?done i)(d + i := m (s + i)) = ?done (i + 1)"
    proof
      fix a
      have "a - d < i + 1 \<longleftrightarrow> a - d < i \<or> a - d = i" using i(1) by uint_arith
      moreover have "a = d + i \<longleftrightarrow> a - d = i" by auto
      ultimately show "((?done i)(d + i := m (s + i))) a = ?done (i + 1) a"
        by (auto simp: real_memmove_def in_range_def)
    qed
    have "copy_string (?done i) d s n i = copy_string (?done (i + 1)) d s n (i + 1)"
      using i(1) nz step by (subst copy_string.simps) simp
    moreover have "unat (?k - (i + 1)) = x" using Suc.hyps(2) lt by unat_arith
    moreover have "i + 1 \<le> ?k" using lt by (rule inc_le)
    ultimately show ?case using Suc.hyps(1) by simp
  qed
  from this [of 0] show ?thesis by simp
qed

lemma internal_strncpy_eq:
  assumes "cstring m src xs" and "unat dst + unat n < 2 ^ 64"
    and "\<And>i j. i < n \<Longrightarrow> j \<le> of_nat (length xs) \<Longrightarrow> dst + i \<noteq> src + j"
  shows "internal_strncpy m dst src n =
    (\<lambda>a. if in_range a dst n then (if a - dst < of_nat (length xs) then m (src + (a - dst)) else 0) else m a)"
proof -
  let ?k = "min n (of_nat (length xs)) :: uptr"
  have k: "?k \<le> n" by simp
  have "unat (dst + ?k) + unat (n - ?k) < 2 ^ 64"
    using assms(2) k by (simp add: unat_sub_if_size word_le_nat_alt unat_word_ariths)
  then have "internal_strncpy m dst src n = real_memset (real_memmove m dst src ?k) (dst + ?k) 0 (n - ?k)"
    by (simp add: internal_strncpy_def copy_string_correct [OF assms(1,3)] internal_memset_eq)
  also have "\<dots> = (\<lambda>a. if in_range a dst n then (if a - dst < of_nat (length xs) then m (src + (a - dst)) else 0) else m a)"
    unfolding real_memset_def in_range_tail [OF k] by (auto simp: fun_eq_iff real_memmove_def in_range_def)
  finally show ?thesis .
qed

lemma internal_strncat_eq:
  assumes "cstring m dst ys" and "cstring m src xs" and "length ys + length xs < 2 ^ 64 - 1"
    and "\<And>i j. i < n \<Longrightarrow> j \<le> of_nat (length xs) \<Longrightarrow> dst + (of_nat (length ys) + i) \<noteq> src + j"
  obtains m' where "internal_strncat m dst src n = Some m'"
    and "cstring m' dst (ys @ take (unat n) xs)"
    and "\<And>a. \<not> in_range a (dst + of_nat (length ys)) (min n (of_nat (length xs)) + 1) \<Longrightarrow> m' a = m a"
proof -
  define k :: uptr where "k = min n (of_nat (length xs))"
  let ?d = "dst + of_nat (length ys)"
  let ?m = "(real_memmove m ?d src k)(?d + k := 0)"
  have c: "copy_string m ?d src n 0 = (k, real_memmove m ?d src k)"
    unfolding k_def using assms(4) by (intro copy_string_correct [OF assms(2)]) (simp add: add.assoc)
  have uk: "unat k = min (unat n) (length xs)"
    using cstringD(1) [OF assms(2)] by (simp add: k_def min_def word_le_nat_alt unat_of_nat64)
  have ul: "unat (of_nat (length ys) :: uptr) = length ys" using cstringD(1) [OF assms(1)] by (rule unat_of_nat64)
  have keep: "?m a = m a" if "a - ?d \<noteq> k" and "\<not> a - ?d < k" for a
    using that by (auto simp: real_memmove_def in_range_def)
  show thesis
  proof (rule that)
    show "internal_strncat m dst src n = Some ?m"
      using c by (simp add: internal_strncat_def strlen_cstring [OF assms(1)] add.assoc)
    have neq: "?d + of_nat i \<noteq> ?d + k" if "i < unat k" for i
      using that unat_of_nat64 [of i] unat64_less [of k] by fastforce
    have "cstring ?m ?d (take (unat k) xs)"
      using neq uk [symmetric] by (intro cstring_prefix [OF assms(2)]) (simp_all add: memmove_prefix del: add_left_cancel)
    then have z: "cstring ?m ?d (take (unat n) xs)" by (simp add: uk min_def split: if_splits)
    show "cstring ?m dst (ys @ take (unat n) xs)"
    proof (rule cstring_append [OF assms(1) z])
      fix i assume i: "i < length ys"
      have ui: "unat (of_nat i :: uptr) = i" using i cstringD(1) [OF assms(1)] by (intro unat_of_nat64) simp
      have "unat (dst + of_nat i - ?d) = 2 ^ 64 - (length ys - i)"
        using i ul ui by (simp add: unat_sub_if_size word_size)
      then have "unat k < unat (dst + of_nat i - ?d)" using assms(3) i uk by linarith
      then show "?m (dst + of_nat i) = m (dst + of_nat i)"
        by (intro keep) (auto simp: word_less_nat_alt)
    qed (use assms(3) in simp)
    show "?m a = m a" if "\<not> in_range a ?d (min n (of_nat (length xs)) + 1)" for a
    proof (rule keep)
      have "unat (k + 1) = unat k + 1" using uk assms(3) by (subst unat_add_lem [THEN iffD1]) auto
      then show "a - ?d \<noteq> k" "\<not> a - ?d < k" using that unfolding k_def [symmetric] by (auto simp: in_range_def word_less_nat_alt)
    qed
  qed
qed

section \<open>Comparison and search\<close>

lemma memcmp_eq_0_iff: "internal_memcmp m s1 s2 n = 0 \<longleftrightarrow> (\<forall>i < n. m (s1 + i) = m (s2 + i))"
proof -
  have "memcmp_from m s1 s2 n i = 0 \<longleftrightarrow> (\<forall>j. i \<le> j \<and> j < n \<longrightarrow> m (s1 + j) = m (s2 + j))" for i
  proof (induction m s1 s2 n i rule: memcmp_from.induct)
    case (1 m s1 s2 n i)
    show ?case
    proof (cases "i < n")
      case True
      then show ?thesis
        using "1.IH" word_Suc_le [OF True] by (subst memcmp_from.simps) (auto split: if_splits)
    next
      case False
      then show ?thesis by (subst memcmp_from.simps) auto
    qed
  qed
  from this [of 0] show ?thesis by (simp add: internal_memcmp_def)
qed

text \<open>The order of strings: by the first character that differs, as unsigned bytes.\<close>

fun compare_bytes :: "u8 list \<Rightarrow> u8 list \<Rightarrow> int" where
  "compare_bytes [] [] = 0"
| "compare_bytes [] (y # ys) = -1"
| "compare_bytes (x # xs) [] = 1"
| "compare_bytes (x # xs) (y # ys) = (if x = y then compare_bytes xs ys else if x < y then -1 else 1)"

lemma sint_byte: "sint b = (if uint b < 128 then uint b else uint b - 256)" for b :: u8
proof -
  have "sint b = (uint b + 128) mod 256 - 128"
    using signed_take_bit_eq_take_bit_shift [of 7 "uint b"] by (simp add: sint_uint take_bit_eq_mod)
  moreover have "(uint b + 128) mod 256 = uint b - 128" if "128 \<le> uint b"
    using that uint_lt2p [of b] mod_add_self2 [of "uint b - 128" 256] by (simp add: add.commute)
  moreover have "0 \<le> uint b" by simp
  ultimately show ?thesis by simp
qed

lemma char_as_unsigned_order:
  "char_as_unsigned x < char_as_unsigned y \<longleftrightarrow> x < y" "char_as_unsigned x = char_as_unsigned y \<longleftrightarrow> x = y"
  "char_as_unsigned x = 0 \<longleftrightarrow> x = 0"
proof -
  have u: "uint (char_as_unsigned b) = (if uint b < 128 then uint b else uint b + 4294967040)" for b
  proof -
    have "uint (char_as_unsigned b) = sint b mod 2 ^ 32"
      unfolding char_as_unsigned_def by (subst scast_eq) (simp only: uint_word_of_int_eq take_bit_eq_mod len_num0 len_bit0 mult_numeral_1_right, simp)
    moreover have "(uint b - 256) mod 2 ^ 32 = uint b + 4294967040" if "128 \<le> uint b"
      using that uint_lt2p [of b] mod_add_self2 [of "uint b - 256" "2 ^ 32"] by simp
    moreover have "uint b mod 2 ^ 32 = uint b" using uint_lt2p [of b] by simp
    ultimately show ?thesis by (simp add: sint_byte)
  qed
  have b: "0 \<le> uint x" "0 \<le> uint y" "uint x < 256" "uint y < 256" using uint_lt2p [of x] uint_lt2p [of y] by auto
  show "char_as_unsigned x < char_as_unsigned y \<longleftrightarrow> x < y" using b by (auto simp: word_less_def u)
  show eq: "char_as_unsigned x = char_as_unsigned y \<longleftrightarrow> x = y" using b by (auto simp: word_uint_eq_iff u)
  show "char_as_unsigned x = 0 \<longleftrightarrow> x = 0" using b by (auto simp: word_uint_eq_iff u)
qed

lemma cstring_Nil: "cstring m s [] \<longleftrightarrow> m s = 0"
  by (simp add: cstring_def)

lemma cstring_Cons: "cstring m s (x # xs) \<Longrightarrow> m s = x \<and> x \<noteq> 0 \<and> cstring m (s + 1) xs"
  by (auto simp: cstring_def nth_Cons' add.assoc All_less_Suc2 of_nat_Suc algebra_simps
      dest: spec [of _ 0] spec [of _ "Suc _"])

lemma internal_strcmp_eq:
  "cstring m s1 xs \<Longrightarrow> cstring m s2 ys \<Longrightarrow> internal_strcmp m s1 s2 = Some (compare_bytes xs ys)"
  unfolding internal_strcmp_def
proof (induction xs ys arbitrary: s1 s2 rule: compare_bytes.induct)
  case 1
  then show ?case by (subst strcmp_from.simps) (simp add: cstring_Nil char_as_unsigned_order)
next
  case (2 y ys)
  then show ?case
    by (subst strcmp_from.simps) (auto simp: cstring_Nil char_as_unsigned_order Let_def word_gt_0 dest!: cstring_Cons)
next
  case (3 x xs)
  then show ?case
    by (subst strcmp_from.simps) (auto simp: cstring_Nil char_as_unsigned_order Let_def dest!: cstring_Cons)
next
  case (4 x xs y ys)
  then show ?case
    by (subst strcmp_from.simps) (auto simp: char_as_unsigned_order Let_def dest!: cstring_Cons)
qed

lemma compare_bytes_0: "compare_bytes xs ys = 0 \<longleftrightarrow> xs = ys"
  by (induction xs ys rule: compare_bytes.induct) auto

lemma internal_strchr_eq:
  "cstring m s xs \<Longrightarrow> internal_strchr m s c =
    Some (if word_of_int c \<in> set xs then s + of_nat (length (takeWhile (\<lambda>x. x \<noteq> word_of_int c) xs))
          else if word_of_int c = (0 :: u8) then s + of_nat (length xs) else 0)"
proof (induction xs arbitrary: s)
  case Nil
  then show ?case by (subst internal_strchr.simps) (auto simp: cstring_Nil)
next
  case (Cons x xs)
  have x: "m s = x" "x \<noteq> 0" "cstring m (s + 1) xs" using cstring_Cons [OF Cons.prems] by auto
  show ?case
    using x Cons.IH [OF x(3)] by (subst internal_strchr.simps) (auto simp: add.assoc of_nat_Suc algebra_simps)
qed

text \<open>A string occurs in another at a position.\<close>

definition occurs_in :: "u8 list \<Rightarrow> u8 list \<Rightarrow> nat \<Rightarrow> bool" where
  "occurs_in ys xs i \<longleftrightarrow> i + length ys \<le> length xs \<and> take (length ys) (drop i xs) = ys"

lemma memcmp_occurs:
  assumes "cstring m h xs" and "cstring m n ys" and "i + length ys \<le> length xs"
  shows "internal_memcmp m (h + of_nat i) n (of_nat (length ys)) = 0 \<longleftrightarrow> occurs_in ys xs i"
proof -
  have "(\<forall>k < of_nat (length ys) :: uptr. m (h + of_nat i + k) = m (n + k)) \<longleftrightarrow> (\<forall>j < length ys. xs ! (i + j) = ys ! j)"
  proof (intro iffI allI impI)
    fix j assume a: "\<forall>k < of_nat (length ys) :: uptr. m (h + of_nat i + k) = m (n + k)" and j: "j < length ys"
    have "(of_nat j :: uptr) < of_nat (length ys)"
      using j cstringD(1) [OF assms(2)] by (simp add: word_less_nat_alt unat_of_nat64)
    then have "m (h + of_nat i + of_nat j) = m (n + of_nat j)" using a by blast
    then show "xs ! (i + j) = ys ! j"
      using cstringD(3) [OF assms(1), of "i + j"] cstringD(3) [OF assms(2) j] j assms(3) by (simp add: add.assoc)
  next
    fix k :: uptr assume a: "\<forall>j < length ys. xs ! (i + j) = ys ! j" and k: "k < of_nat (length ys)"
    note o = cstring_offset [OF assms(2) k]
    have "m (h + of_nat (i + unat k)) = xs ! (i + unat k)"
      using o(3) assms(3) by (intro cstringD(3) [OF assms(1)]) simp
    then show "m (h + of_nat i + k) = m (n + k)" using a o by (simp add: add.assoc)
  qed
  also have "\<dots> \<longleftrightarrow> occurs_in ys xs i"
    using assms(3) by (auto simp: occurs_in_def list_eq_iff_nth_eq)
  finally show ?thesis by (simp add: memcmp_eq_0_iff)
qed

lemma internal_strstr_eq:
  assumes "cstring m h xs" and "cstring m n ys"
  shows "internal_strstr m h n = Some (if \<exists>i. occurs_in ys xs i then h + of_nat (LEAST i. occurs_in ys xs i) else 0)"
proof (cases "length ys \<le> length xs")
  case False
  then have "\<not> occurs_in ys xs i" for i by (simp add: occurs_in_def)
  then show ?thesis
    using False cstringD(1) [OF assms(1)] cstringD(1) [OF assms(2)]
    by (simp add: internal_strstr_def strlen_cstring [OF assms(1)] strlen_cstring [OF assms(2)] word_less_nat_alt unat_of_nat64)
next
  case True
  let ?f = "strstr_from m h n (of_nat (length xs)) (of_nat (length ys))"
  have d: "unat (of_nat (length xs) - of_nat (length ys) :: uptr) = length xs - length ys"
    using True cstringD(1) [OF assms(1)] cstringD(1) [OF assms(2)] by (simp add: unat_sub_if_size unat_of_nat64)
  have "?f p = (if \<exists>i. occurs_in ys xs i then h + of_nat (LEAST i. occurs_in ys xs i) else 0)"
    if "\<forall>i < p. \<not> occurs_in ys xs i" for p
    using that
  proof (induction "Suc (length xs - length ys) - p" arbitrary: p)
    case 0
    then have "\<not> occurs_in ys xs i" for i
      using True by (cases "i < p") (auto simp: occurs_in_def)
    then show ?case using 0 by (subst strstr_from.simps) (auto simp: d)
  next
    case (Suc k)
    then have p: "p \<le> length xs - length ys" by simp
    note m = memcmp_occurs [OF assms, of p]
    show ?case
    proof (cases "occurs_in ys xs p")
      case hit: True
      then have "(LEAST i. occurs_in ys xs i) = p"
        using Suc.prems by (intro Least_equality) (auto simp: not_less [symmetric])
      then show ?thesis using hit p m True by (subst strstr_from.simps) (auto simp: d)
    next
      case False
      have "?f p = ?f (p + 1)" using False p m True by (subst strstr_from.simps) (simp add: d)
      then show ?thesis using Suc.hyps(1) [of "p + 1"] Suc.hyps(2) Suc.prems False by (auto simp: less_Suc_eq)
    qed
  qed
  from this [of 0] show ?thesis
    using True cstringD(1) [OF assms(1)] cstringD(1) [OF assms(2)]
    by (simp add: internal_strstr_def strlen_cstring [OF assms(1)] strlen_cstring [OF assms(2)] word_less_nat_alt unat_of_nat64)
qed

section \<open>What the functions promise\<close>

text \<open>
  \<^verbatim>\<open>internal_memmove\<close> copies as if it read all bytes first, however source and target overlap, and
  \<^verbatim>\<open>internal_memset\<close>, also on its path of 64-bit words, fills the range with the byte.
\<close>

theorem block_operations_exact:
  assumes "unat d + unat n < 2 ^ 64" and "unat s + unat n < 2 ^ 64" and "unat n < 2 ^ 63"
    and "0 \<le> c \<and> c < 256 \<or> c = -1"
  shows "internal_memmove m d s n = Ok (real_memmove m d s n)"
    and "internal_memset m d c n = real_memset m d (word_of_int c) n"
  using internal_memmove_eq internal_memset_eq sint_small assms by auto

definition example_text :: memory where
  "example_text = (\<lambda>a. if a = 0x100 then 97 else if a = 0x101 then 98 else if a = 0x200 then 99 else 0)"

lemma example_strings: "cstring example_text 0x100 [97, 98]" "cstring example_text 0x200 [99]" "cstring example_text 0x300 []"
  by (simp_all add: cstring_def example_text_def All_less_Suc)

theorem block_operations_exact_witness:
  "internal_memmove example_text 0x101 0x100 2 = Ok (real_memmove example_text 0x101 0x100 2)"
  "internal_memset example_text 0x100 7 32 = real_memset example_text 0x100 7 32"
  using block_operations_exact(1) [where d = "0x101" and n = 2 and s = "0x100" and c = 0 and m = example_text]
    block_operations_exact(2) [where d = "0x100" and n = 32 and s = 0 and c = 7 and m = example_text]
  by simp_all



text \<open>
  On terminated strings \<^verbatim>\<open>internal_strcmp\<close> orders them by unsigned bytes (0 exactly for equal strings), and
  \<^verbatim>\<open>internal_strstr\<close> finds the first occurrence or returns null.
\<close>

theorem string_functions_correct:
  assumes "cstring m s xs" and "cstring m t ys"
  shows "internal_strcmp m s t = Some (compare_bytes xs ys)" and "compare_bytes xs ys = 0 \<longleftrightarrow> xs = ys"
    and "internal_strstr m s t = Some (if \<exists>i. occurs_in ys xs i then s + of_nat (LEAST i. occurs_in ys xs i) else 0)"
  using internal_strcmp_eq [OF assms] internal_strstr_eq [OF assms] compare_bytes_0 by auto

theorem string_functions_correct_witness:
  "internal_strcmp example_text 0x100 0x200 = Some (-1)" "internal_strstr example_text 0x100 0x300 = Some 0x100"
proof -
  show "internal_strcmp example_text 0x100 0x200 = Some (-1)"
    using string_functions_correct(1) [OF example_strings(1,2)] by simp
  have o: "occurs_in [] [97, 98] 0" by (simp add: occurs_in_def)
  then have "(LEAST i. occurs_in [] [97, 98] i) = 0" by (rule Least_eq_0)
  then show "internal_strstr example_text 0x100 0x300 = Some 0x100"
    using string_functions_correct(3) [OF example_strings(1,3)] o by auto
qed

text \<open>
  Where the functions differ from their C namesakes: the fill of aligned blocks with a negative value other than -1
  (the sign bits spread into the neighbours), the sign of \<^verbatim>\<open>internal_memcmp\<close> for bytes from 128 on, the
  search for such a byte given as an unsigned value, and the missing terminator of \<^verbatim>\<open>internal_wcscpy\<close>.
\<close>

theorem libc_divergences:
  "internal_memset (\<lambda>_. 0) 0x100 (-2) 16 0x101 = 0xff"
  "internal_memset (\<lambda>_. 0) 0x101 (-2) 16 0x102 = 0xfe"
  "internal_memcmp ((\<lambda>_. 0)(0x100 := 0x80)) 0x100 0x200 1 = -1"
  "internal_memchr ((\<lambda>_. 0)(0x100 := 0x80)) 0x100 0x80 1 = 0"
  "map_option (\<lambda>m. m 0x204) (internal_wcscpy ((\<lambda>_. 0)(0x100 := 97, 0x204 := 7)) 0x200 0x100) = Some 7"
proof -
  show "internal_memset (\<lambda>_. 0) 0x100 (-2) 16 0x101 = 0xff" by code_simp
  show "internal_memset (\<lambda>_. 0) 0x101 (-2) 16 0x102 = 0xfe" by code_simp
  show "internal_memcmp ((\<lambda>_. 0)(0x100 := 0x80)) 0x100 0x200 1 = -1" by code_simp
  show "internal_memchr ((\<lambda>_. 0)(0x100 := 0x80)) 0x100 0x80 1 = 0" by code_simp
  show "map_option (\<lambda>m. m 0x204) (internal_wcscpy ((\<lambda>_. 0)(0x100 := 97, 0x204 := 7)) 0x200 0x100) = Some 7"
    by (subst internal_wcscpy.simps) (simp add: load32_def store32_def)
qed

end
