(* ===== verification/Startup.thy ===== *)
theory Startup
  imports Report Allocator Libc
begin

text \<open>
  Start-up and threads: mapping of the shadow regions (\<^verbatim>\<open>InitShadow\<close> and \<^verbatim>\<open>InitShadowWithReExec\<close> of
  \<^verbatim>\<open>cqmsan_linux.cpp\<close>), the thread structure of \<^verbatim>\<open>cqmsan_thread.cpp\<close> with fibers and destructors, and
  \<^verbatim>\<open>__cqmsan_init\<close> of \<^verbatim>\<open>cqmsan.cpp\<close>, which the interceptors call first.
\<close>

section \<open>State\<close>

text \<open>
  What the operating system and the thread library answer. \<open>MmapFixedNoAccess\<close> returns the address it
  mapped; \<open>old_personality\<close> is \<^term>\<open>None\<close> when the call fails; \<open>dtls\<close> lists the dynamic TLS blocks.
\<close>

record os =
  MemoryRangeIsAvailable :: "uptr \<Rightarrow> uptr \<Rightarrow> bool"
  MmapFixedNoAccess :: "uptr \<Rightarrow> uptr \<Rightarrow> uptr"
  GetMaxUserVirtualAddress :: uptr
  init_addr :: uptr
  old_personality :: "u32 option"
  set_personality_ok :: bool
  StackSizeIsUnlimited :: bool
  GetThreadStackAndTls :: "bool \<Rightarrow> uptr \<times> uptr \<times> uptr \<times> uptr"
  local_addr :: uptr
  dtls :: "(uptr \<times> uptr) list"
  pthread_destructor_iterations :: nat

text \<open>The address space as start-up changes it: contents, fresh mappings, and pages without access.\<close>

record aspace =
  as_mem :: memory
  as_mapped :: "(uptr \<times> uptr) list"
  as_protected :: "(uptr \<times> uptr) list"

record thread =
  start_routine :: uptr
  thread_arg :: uptr
  destructor_iterations :: nat
  stack_switching :: bool
  stack_bot :: uptr
  stack_end :: uptr
  next_bot :: uptr
  next_end :: uptr
  tls_begin :: uptr
  tls_end :: uptr
  in_signal_handler :: u32

record tls_state =
  tl_param :: "u64 list"
  tl_retval :: "u64 list"
  tl_va_arg :: "u64 list"
  tl_va_arg_origin :: "u32 list"
  tl_va_overflow :: uptr

record rt =
  rspace :: aspace
  rrep :: rstate
  rscope :: int
  rinited :: bool
  rrunning :: bool
  rtsd_inited :: bool
  rtsd :: "thread option"
  rthread :: "thread option"
  rtls :: tls_state

abbreviation rmem :: "rt \<Rightarrow> memory" where
  "rmem st \<equiv> as_mem (rspace st)"

definition set_rmem :: "memory \<Rightarrow> rt \<Rightarrow> rt" where
  "set_rmem m st = st\<lparr>rspace := (rspace st)\<lparr>as_mem := m\<rparr>\<rparr>"

text \<open>Replacing the process is a third way for start-up to end.\<close>

datatype 'a startup = Continue 'a | ReExec

section \<open>Mapping the shadow\<close>

definition CheckMemoryRangeAvailability :: "os \<Rightarrow> uptr \<Rightarrow> uptr \<Rightarrow> bool" where
  "CheckMemoryRangeAvailability o1 beg sz =
    (if sz > 0 then MemoryRangeIsAvailable o1 beg (beg + sz - 1) else True)"

definition ProtectMemoryRange :: "env \<Rightarrow> os \<Rightarrow> uptr \<Rightarrow> uptr \<Rightarrow> aspace \<Rightarrow> bool \<times> aspace" where
  "ProtectMemoryRange e o1 beg sz s =
    (if sz > 0 then
       let addr = MmapFixedNoAccess o1 beg sz in
       if beg = 0 \<and> addr \<noteq> 0 then
         let gap = 16 * PageSize e; beg = beg + gap; sz = sz - gap; addr = MmapFixedNoAccess o1 beg sz in
         if addr \<noteq> beg then (False, s) else (True, s\<lparr>as_protected := (beg, sz) # as_protected s\<rparr>)
       else if addr \<noteq> beg then (False, s) else (True, s\<lparr>as_protected := (beg, sz) # as_protected s\<rparr>)
     else (True, s))"

text \<open>
  One region of the table: the answer, with \<^term>\<open>False\<close> for an early return. \<^verbatim>\<open>madvise\<close> on the shadow is
  left out; it does not change contents.
\<close>

definition init_region :: "env \<Rightarrow> os \<Rightarrow> bool \<Rightarrow> bool \<Rightarrow> MappingDesc \<Rightarrow> aspace \<Rightarrow> (bool \<times> aspace) outcome" where
  "init_region e o1 init_origins dry_run d s =
    (let beg = start d; sz = endp d - start d; type = mtype d in
     if beg \<ge> GetMaxUserVirtualAddress o1 then Ok (True, s)
     else if \<not> init_origins \<and> type = ORIGIN then Ok (True, s)
     else
       let map = (type = SHADOW \<or> init_origins \<and> type = ORIGIN);
           protect = (type = INVALID \<or> \<not> init_origins \<and> type = ORIGIN)
       in check (\<not> (map \<and> protect))
         (if \<not> map \<and> \<not> protect then
            check (type = APP \<or> type = ALLOCATOR)
             (Ok (\<not> (dry_run \<and> type = ALLOCATOR \<and> \<not> CheckMemoryRangeAvailability o1 beg sz), s))
          else if map then
            (if dry_run then Ok (CheckMemoryRangeAvailability o1 beg sz, s)
             else case MmapFixedSuperNoReserve e (as_mem s) beg sz of
                 None \<Rightarrow> Ok (False, s)
               | Some m \<Rightarrow> Ok (True, s\<lparr>as_mem := m, as_mapped := (beg, sz) # as_mapped s\<rparr>))
          else
            (if dry_run then Ok (CheckMemoryRangeAvailability o1 beg sz, s)
             else Ok (ProtectMemoryRange e o1 beg sz s))))"

fun init_regions :: "env \<Rightarrow> os \<Rightarrow> bool \<Rightarrow> bool \<Rightarrow> MappingDesc list \<Rightarrow> aspace \<Rightarrow> (bool \<times> aspace) outcome" where
  "init_regions e o1 init_origins dry_run [] s = Ok (True, s)"
| "init_regions e o1 init_origins dry_run (d # ds) s =
    bind_ok (init_region e o1 init_origins dry_run d s) (\<lambda>(ok, s').
      if ok then init_regions e o1 init_origins dry_run ds s' else Ok (False, s'))"

definition InitShadow :: "platform \<Rightarrow> env \<Rightarrow> os \<Rightarrow> bool \<Rightarrow> bool \<Rightarrow> aspace \<Rightarrow> (bool \<times> aspace) outcome" where
  "InitShadow p e o1 init_origins dry_run s =
    bind_ok (CheckMemoryLayoutSanity p) (\<lambda>_.
      if \<not> MEM_IS_APP p (init_addr o1) then Ok (False, s)
      else init_regions e o1 init_origins dry_run (kMemoryLayout p) s)"

definition ADDR_NO_RANDOMIZE :: u32 where
  "ADDR_NO_RANDOMIZE = 0x0040000"

definition InitShadowWithReExec :: "platform \<Rightarrow> env \<Rightarrow> os \<Rightarrow> bool \<Rightarrow> aspace \<Rightarrow> (bool \<times> aspace) startup outcome" where
  "InitShadowWithReExec p e o1 init_origins s =
    bind_ok (InitShadow p e o1 init_origins True s) (\<lambda>(success, s1).
      if \<not> success then
        (case old_personality o1 of
           Some pers \<Rightarrow> if pers AND ADDR_NO_RANDOMIZE = 0 then check (set_personality_ok o1) (Ok ReExec)
                        else Ok (Continue (False, s1))
         | None \<Rightarrow> Ok (Continue (False, s1)))
      else bind_ok (InitShadow p e o1 init_origins False s1) (\<lambda>r. Ok (Continue r)))"

section \<open>Threads\<close>

definition thread_Create :: "os \<Rightarrow> uptr \<Rightarrow> uptr \<Rightarrow> thread" where
  "thread_Create o1 routine a = \<lparr>start_routine = routine, thread_arg = a,
     destructor_iterations = pthread_destructor_iterations o1, stack_switching = False, stack_bot = 0, stack_end = 0,
     next_bot = 0, next_end = 0, tls_begin = 0, tls_end = 0, in_signal_handler = 0\<rparr>"

definition IsMainThread :: "thread \<Rightarrow> bool" where
  "IsMainThread t \<longleftrightarrow> start_routine t = 0"

text \<open>\<open>frame\<close> is the current frame, \<^verbatim>\<open>GET_CURRENT_FRAME()\<close>.\<close>

definition GetStackBounds :: "uptr \<Rightarrow> thread \<Rightarrow> uptr \<times> uptr" where
  "GetStackBounds frame t =
    (if \<not> stack_switching t then (stack_bot t, stack_end t)
     else if frame \<ge> next_bot t \<and> frame < next_end t then (next_bot t, next_end t)
     else (stack_bot t, stack_end t))"

definition AddrIsInStack :: "uptr \<Rightarrow> thread \<Rightarrow> uptr \<Rightarrow> bool" where
  "AddrIsInStack frame t addr \<longleftrightarrow> (let (b, e) = GetStackBounds frame t in addr \<ge> b \<and> addr < e)"

definition StartSwitchFiber :: "uptr \<Rightarrow> uptr \<Rightarrow> thread \<Rightarrow> thread outcome" where
  "StartSwitchFiber bottom sz t =
    check (\<not> stack_switching t) (Ok (t\<lparr>next_bot := bottom, next_end := bottom + sz, stack_switching := True\<rparr>))"

text \<open>Finishing a switch also hands out the bounds of the stack that was left.\<close>

definition FinishSwitchFiber :: "thread \<Rightarrow> ((uptr \<times> uptr) \<times> thread) outcome" where
  "FinishSwitchFiber t =
    check (stack_switching t)
     (Ok ((stack_bot t, stack_end t - stack_bot t),
          t\<lparr>stack_bot := next_bot t, stack_end := next_end t, stack_switching := False, next_end := 0, next_bot := 0\<rparr>))"

definition SetThreadStackAndTls :: "os \<Rightarrow> thread \<Rightarrow> thread outcome" where
  "SetThreadStackAndTls o1 t =
    (let (b, e, tb, te) = GetThreadStackAndTls o1 (IsMainThread t);
         t1 = t\<lparr>stack_bot := b, stack_end := e, tls_begin := tb, tls_end := te\<rparr>
     in check (AddrIsInStack (local_addr o1) t1 (local_addr o1)) (Ok t1))"

fun unpoison_all :: "platform \<Rightarrow> env \<Rightarrow> (uptr \<times> uptr) list \<Rightarrow> memory \<Rightarrow> memory outcome" where
  "unpoison_all p e [] m = Ok m"
| "unpoison_all p e ((a, n) # rs) m = bind_ok (cqmsan_unpoison p e m a n) (unpoison_all p e rs)"

definition ClearShadowForThreadStackAndTLS :: "platform \<Rightarrow> env \<Rightarrow> os \<Rightarrow> thread \<Rightarrow> memory \<Rightarrow> memory outcome" where
  "ClearShadowForThreadStackAndTLS p e o1 t m =
    bind_ok (cqmsan_unpoison p e m (stack_bot t) (stack_end t - stack_bot t)) (\<lambda>m1.
      bind_ok (if tls_begin t \<noteq> tls_end t then cqmsan_unpoison p e m1 (tls_begin t) (tls_end t - tls_begin t) else Ok m1)
        (unpoison_all p e (dtls o1)))"

definition thread_Init :: "platform \<Rightarrow> env \<Rightarrow> os \<Rightarrow> thread \<Rightarrow> memory \<Rightarrow> (thread \<times> memory) outcome" where
  "thread_Init p e o1 t m =
    bind_ok (SetThreadStackAndTls o1 t) (\<lambda>t1.
      check (MEM_IS_APP p (stack_bot t1)) (check (MEM_IS_APP p (stack_end t1 - 1))
        (bind_ok (ClearShadowForThreadStackAndTLS p e o1 t1 m) (\<lambda>m1. Ok (t1, m1)))))"

text \<open>Destroying a thread clears its shadow once more; the structure itself is then unmapped.\<close>

definition thread_Destroy :: "platform \<Rightarrow> env \<Rightarrow> os \<Rightarrow> thread \<Rightarrow> memory \<Rightarrow> memory outcome" where
  "thread_Destroy p e o1 t m = ClearShadowForThreadStackAndTLS p e o1 t m"

definition CQMsanTSDInit :: "rt \<Rightarrow> rt outcome" where
  "CQMsanTSDInit st = check (\<not> rtsd_inited st) (Ok (st\<lparr>rtsd_inited := True\<rparr>))"

definition SetCurrentThread :: "thread \<Rightarrow> rt \<Rightarrow> rt outcome" where
  "SetCurrentThread t st =
    check (rthread st = None) (check (rtsd_inited st) (Ok (st\<lparr>rthread := Some t, rtsd := Some t\<rparr>)))"

definition CQMsanTSDDtor :: "platform \<Rightarrow> env \<Rightarrow> os \<Rightarrow> thread \<Rightarrow> rt \<Rightarrow> rt outcome" where
  "CQMsanTSDDtor p e o1 t st =
    (if destructor_iterations t > 1 then
       let t1 = t\<lparr>destructor_iterations := destructor_iterations t - 1\<rparr>
       in Ok (st\<lparr>rtsd := Some t1, rthread := map_option (\<lambda>_. t1) (rthread st)\<rparr>)
     else bind_ok (thread_Destroy p e o1 t (rmem st)) (\<lambda>m. Ok (set_rmem m (st\<lparr>rthread := None\<rparr>))))"

text \<open>
  What the thread library does when a thread ends: in each round it takes the value of the key, if there is
  one, and calls the destructor.
\<close>

fun destructor_rounds :: "platform \<Rightarrow> env \<Rightarrow> os \<Rightarrow> nat \<Rightarrow> rt \<Rightarrow> rt outcome" where
  "destructor_rounds p e o1 0 st = Ok st"
| "destructor_rounds p e o1 (Suc k) st =
    (case rtsd st of None \<Rightarrow> Ok st
     | Some t \<Rightarrow> bind_ok (CQMsanTSDDtor p e o1 t (st\<lparr>rtsd := None\<rparr>)) (destructor_rounds p e o1 k))"

section \<open>Fibers at the interface\<close>

definition clear_tls :: "tls_state \<Rightarrow> tls_state" where
  "clear_tls t = t\<lparr>tl_param := map (\<lambda>_. 0) (tl_param t), tl_retval := map (\<lambda>_. 0) (tl_retval t),
     tl_va_arg := map (\<lambda>_. 0) (tl_va_arg t)\<rparr>"

definition cqmsan_start_switch_fiber :: "uptr \<Rightarrow> uptr \<Rightarrow> rt \<Rightarrow> rt outcome" where
  "cqmsan_start_switch_fiber bottom sz st =
    (case rthread st of None \<Rightarrow> Ok st
     | Some t \<Rightarrow> bind_ok (StartSwitchFiber bottom sz t) (\<lambda>t1. Ok (st\<lparr>rthread := Some t1\<rparr>)))"

definition store_if :: "uptr \<Rightarrow> u64 \<Rightarrow> memory \<Rightarrow> memory" where
  "store_if ptr v m = (if ptr \<noteq> 0 then store64 m ptr v else m)"

definition cqmsan_finish_switch_fiber :: "uptr \<Rightarrow> uptr \<Rightarrow> rt \<Rightarrow> rt outcome" where
  "cqmsan_finish_switch_fiber bottom_old size_old st =
    (case rthread st of None \<Rightarrow> Ok st
     | Some t \<Rightarrow> bind_ok (FinishSwitchFiber t) (\<lambda>((b, n), t1).
         Ok (set_rmem (store_if size_old n (store_if bottom_old b (rmem st)))
              (st\<lparr>rthread := Some t1, rtls := clear_tls (rtls st)\<rparr>))))"

section \<open>Initialisation\<close>

text \<open>
  What \<^verbatim>\<open>__cqmsan_init\<close> reads: the platform, the option strings and defaults of the flags, and the environment of
  the fuzzer. Hooks it installs (signals, fork, exit, coverage) have no state here; the list of ranges the flipped convention
  collects is in theory \<^verbatim>\<open>Interface\<close>.
\<close>

record ictx =
  ic_rep :: rctx
  ic_os :: os
  ic_common0 :: CommonFlags
  ic_handlers :: "(string \<times> settings handler) list"
  ic_default_options :: "string option"
  ic_env_options :: "string option"
  ic_afl_require :: bool
  ic_afl_id :: "string option"
  ic_afl_inst_ratio :: bool
  ic_shmat :: "int \<Rightarrow> (uptr \<Rightarrow> u8) option"

abbreviation ic_plat :: "ictx \<Rightarrow> platform" where
  "ic_plat c \<equiv> rc_plat (ic_rep c)"

abbreviation ic_env :: "ictx \<Rightarrow> env" where
  "ic_env c \<equiv> rc_env (ic_rep c)"

definition cqmsan_clear_on_return :: "rt \<Rightarrow> rt" where
  "cqmsan_clear_on_return st = st\<lparr>rtls := (rtls st)\<lparr>tl_param := (tl_param (rtls st))[0 := 0]\<rparr>\<rparr>"

definition start_main_thread :: "ictx \<Rightarrow> rt \<Rightarrow> rt outcome" where
  "start_main_thread c st =
    (let t = thread_Create (ic_os c) 0 0 in
     bind_ok (SetCurrentThread t st) (\<lambda>st1.
       bind_ok (thread_Init (ic_plat c) (ic_env c) (ic_os c) t (rmem st1)) (\<lambda>(t1, m).
         Ok (set_rmem m (st1\<lparr>rthread := Some t1, rtsd := Some t1\<rparr>)))))"

text \<open>The end of \<^verbatim>\<open>__cqmsan_init\<close>, once the shadow is there.\<close>

definition init_threads :: "ictx \<Rightarrow> rt \<Rightarrow> rt startup outcome" where
  "init_threads c st =
    bind_ok (CQMsanTSDInit st) (\<lambda>st.
    bind_ok (start_main_thread c st) (\<lambda>st.
    bind_ok (cqmsan_attach_afl_shm (ic_afl_require c) (ic_afl_id c) (ic_afl_inst_ratio c) (ic_shmat c) (rrep st)) (\<lambda>rep.
      Ok (Continue (st\<lparr>rrunning := False, rinited := True, rrep := rep\<rparr>)))))"

definition cqmsan_init :: "ictx \<Rightarrow> rt \<Rightarrow> rt startup outcome" where
  "cqmsan_init c st =
    check (\<not> rrunning st)
     (if rinited st then Ok (Continue st)
      else
        let st = st\<lparr>rrunning := True\<rparr> in
        bind_ok (InitializeFlags (ic_common0 c) (ic_handlers c) (ic_default_options c) (ic_env_options c)) (\<lambda>fs.
          let st = st\<lparr>rrep := (rrep st)\<lparr>rflags := cq fs\<rparr>\<rparr> in
          if StackSizeIsUnlimited (ic_os c) then Ok ReExec
          else
            let st = cqmsan_clear_on_return st in
            bind_ok (InitShadowWithReExec (ic_plat c) (ic_env c) (ic_os c) (cqmsan_get_track_origins \<noteq> 0) (rspace st)) (\<lambda>r.
              case r of ReExec \<Rightarrow> Ok ReExec
              | Continue (ok, s) \<Rightarrow> if \<not> ok then Died DieCalled else init_threads c (st\<lparr>rspace := s\<rparr>))))"

text \<open>\<^verbatim>\<open>ENSURE_CQMSAN_INITED\<close>, the first line of most interceptors.\<close>

definition ENSURE_CQMSAN_INITED :: "ictx \<Rightarrow> rt \<Rightarrow> rt startup outcome" where
  "ENSURE_CQMSAN_INITED c st = check (\<not> rrunning st) (if \<not> rinited st then cqmsan_init c st else Ok (Continue st))"

section \<open>Effect of mapping\<close>

definition is_mapped :: "os \<Rightarrow> bool \<Rightarrow> MappingDesc \<Rightarrow> bool" where
  "is_mapped o1 origins d \<longleftrightarrow>
    start d < GetMaxUserVirtualAddress o1 \<and> (mtype d = SHADOW \<or> origins \<and> mtype d = ORIGIN)"

definition region_of :: "MappingDesc \<Rightarrow> uptr \<times> uptr" where
  "region_of d = (start d, endp d - start d)"

lemma init_region_dry: "init_region e o1 origins True d s = Ok (ok, s') \<Longrightarrow> s' = s"
  by (auto simp: init_region_def Let_def check_def split: if_splits)

lemma init_regions_dry: "init_regions e o1 origins True ds s = Ok (ok, s') \<Longrightarrow> s' = s"
  by (induction ds arbitrary: s ok) (auto simp: outcome_simps dest: init_region_dry split: if_splits)

lemma ProtectMemoryRange_effect:
  assumes "ProtectMemoryRange e o1 beg sz s = (True, s')" and "0 < beg"
  shows "as_mem s' = as_mem s" and "as_mapped s' = as_mapped s"
    and "as_protected s' = (if 0 < sz then (beg, sz) # as_protected s else as_protected s)"
  using assms by (auto simp: ProtectMemoryRange_def Let_def split: if_splits)

text \<open>The run that maps, by type of region.\<close>

lemma init_region_real:
  "init_region e o1 origins False d s =
    (if is_mapped o1 origins d then
       (if mmap_ok e (start d) (endp d - start d)
        then Ok (True, s\<lparr>as_mem := real_memset (as_mem s) (start d) 0 (endp d - start d), as_mapped := region_of d # as_mapped s\<rparr>)
        else Ok (False, s))
     else if mtype d = INVALID \<and> start d < GetMaxUserVirtualAddress o1
     then Ok (ProtectMemoryRange e o1 (start d) (endp d - start d) s) else Ok (True, s))"
  by (cases "mtype d"; cases "start d < GetMaxUserVirtualAddress o1"; cases origins)
    (simp_all add: init_region_def is_mapped_def region_of_def Let_def MmapFixedSuperNoReserve_def flip: not_less)

lemma init_region_effect:
  assumes "init_region e o1 origins False d s = Ok (True, s')" and "mtype d = INVALID \<Longrightarrow> 0 < start d" and "start d < endp d"
  shows "as_mem s' = (if is_mapped o1 origins d then real_memset (as_mem s) (start d) 0 (endp d - start d) else as_mem s)"
    and "as_mapped s' = (if is_mapped o1 origins d then region_of d # as_mapped s else as_mapped s)"
    and "as_protected s' = (if mtype d = INVALID \<and> start d < GetMaxUserVirtualAddress o1 then region_of d # as_protected s else as_protected s)"
proof -
  have pos: "0 < endp d - start d" using assms(3) by uint_arith
  have "\<not> is_mapped o1 origins d" if "mtype d = INVALID" using that by (simp add: is_mapped_def)
  with assms(1,2) pos
  show "as_mem s' = (if is_mapped o1 origins d then real_memset (as_mem s) (start d) 0 (endp d - start d) else as_mem s)"
    "as_mapped s' = (if is_mapped o1 origins d then region_of d # as_mapped s else as_mapped s)"
    "as_protected s' = (if mtype d = INVALID \<and> start d < GetMaxUserVirtualAddress o1 then region_of d # as_protected s else as_protected s)"
    by (auto simp: init_region_real ProtectMemoryRange_effect region_of_def split: if_splits)
qed

definition covered :: "(uptr \<times> uptr) set \<Rightarrow> uptr \<Rightarrow> bool" where
  "covered rs a \<longleftrightarrow> (\<exists>(b, n) \<in> rs. in_range a b n)"

lemma covered_insert: "covered (insert r rs) a \<longleftrightarrow> in_range a (fst r) (snd r) \<or> covered rs a"
  by (auto simp: covered_def split_def)

lemma init_regions_effect:
  assumes "init_regions e o1 origins False ds s = Ok (True, s')"
    and "\<And>d. d \<in> set ds \<Longrightarrow> (mtype d = INVALID \<longrightarrow> 0 < start d) \<and> start d < endp d"
  shows "as_mem s' = (\<lambda>a. if covered (region_of ` {d \<in> set ds. is_mapped o1 origins d}) a then 0 else as_mem s a)"
    and "set (as_mapped s') = region_of ` {d \<in> set ds. is_mapped o1 origins d} \<union> set (as_mapped s)"
    and "set (as_protected s') =
      region_of ` {d \<in> set ds. mtype d = INVALID \<and> start d < GetMaxUserVirtualAddress o1} \<union> set (as_protected s)"
proof -
  have "as_mem s' = (\<lambda>a. if covered (region_of ` {d \<in> set ds. is_mapped o1 origins d}) a then 0 else as_mem s a)
    \<and> set (as_mapped s') = region_of ` {d \<in> set ds. is_mapped o1 origins d} \<union> set (as_mapped s)
    \<and> set (as_protected s') =
      region_of ` {d \<in> set ds. mtype d = INVALID \<and> start d < GetMaxUserVirtualAddress o1} \<union> set (as_protected s)"
    using assms
  proof (induction ds arbitrary: s)
    case Nil
    then show ?case by (simp add: covered_def)
  next
    case (Cons d ds)
    obtain s1 where 1: "init_region e o1 origins False d s = Ok (True, s1)"
      and 2: "init_regions e o1 origins False ds s1 = Ok (True, s')"
      using Cons.prems(1) by (auto simp: outcome_simps split: if_splits)
    note eff = init_region_effect [OF 1]
    have d: "mtype d = INVALID \<Longrightarrow> 0 < start d" "start d < endp d" using Cons.prems(2) [of d] by auto
    note IH = Cons.IH [OF 2] and E = eff [OF d]
    have sets: "{x \<in> set (d # ds). P x} = (if P d then insert d {x \<in> set ds. P x} else {x \<in> set ds. P x})" for P
      by auto
    have "as_mem s' = (\<lambda>a. if covered (region_of ` {d \<in> set ds. is_mapped o1 origins d}) a then 0 else as_mem s1 a)"
      "set (as_mapped s') = region_of ` {d \<in> set ds. is_mapped o1 origins d} \<union> set (as_mapped s1)"
      "set (as_protected s') =
        region_of ` {d \<in> set ds. mtype d = INVALID \<and> start d < GetMaxUserVirtualAddress o1} \<union> set (as_protected s1)"
      using IH Cons.prems(2) by auto
    then show ?case
      unfolding sets
      by (simp add: E covered_insert image_insert region_of_def real_memset_def fun_eq_iff)
  qed
  then show "as_mem s' = (\<lambda>a. if covered (region_of ` {d \<in> set ds. is_mapped o1 origins d}) a then 0 else as_mem s a)"
    "set (as_mapped s') = region_of ` {d \<in> set ds. is_mapped o1 origins d} \<union> set (as_mapped s)"
    "set (as_protected s') =
      region_of ` {d \<in> set ds. mtype d = INVALID \<and> start d < GetMaxUserVirtualAddress o1} \<union> set (as_protected s)"
    by auto
qed

context shadow_map
begin

lemma startup_effect:
  assumes "InitShadowWithReExec p e o1 False s = Ok (Continue (True, s'))"
    and "\<And>d. d \<in> set (kMemoryLayout p) \<Longrightarrow> start d < GetMaxUserVirtualAddress o1"
    and "\<And>d. d \<in> set (kMemoryLayout p) \<Longrightarrow> mtype d = INVALID \<Longrightarrow> 0 < start d"
  shows "poisoned p (as_mem s') = {}"
    and "MEM_IS_APP p a \<Longrightarrow> as_mem s' a = as_mem s a"
    and "d \<in> set (kMemoryLayout p) \<Longrightarrow> mtype d = SHADOW \<Longrightarrow> region_of d \<in> set (as_mapped s')"
    and "d \<in> set (kMemoryLayout p) \<Longrightarrow> mtype d = INVALID \<Longrightarrow> region_of d \<in> set (as_protected s')"
proof -
  have run: "init_regions e o1 False False (kMemoryLayout p) s = Ok (True, s')"
  proof -
    obtain s1 where d: "InitShadow p e o1 False True s = Ok (True, s1)" and r: "InitShadow p e o1 False False s1 = Ok (True, s')"
      using assms(1) by (auto simp: InitShadowWithReExec_def outcome_simps split: if_splits option.splits prod.splits)
    have "s1 = s" using d init_regions_dry by (auto simp: InitShadow_def outcome_simps split: if_splits)
    then show ?thesis using r by (auto simp: InitShadow_def outcome_simps split: if_splits)
  qed
  have reg: "start d < endp d" if "d \<in> set (kMemoryLayout p)" for d
    using check_regions_after that sane by (simp add: CheckMemoryLayoutSanity_def)
  have wf: "(mtype d = INVALID \<longrightarrow> 0 < start d) \<and> start d < endp d" if "d \<in> set (kMemoryLayout p)" for d
    using reg that assms(3) by blast
  note eff = init_regions_effect [OF run wf]
  have inside: "in_range x (start d) (endp d - start d) \<longleftrightarrow> start d \<le> x \<and> x < endp d" if "d \<in> set (kMemoryLayout p)" for d x
    using reg [OF that] unfolding in_range_def by uint_arith
  have mapped: "covered (region_of ` {d \<in> set (kMemoryLayout p). is_mapped o1 False d}) x \<longleftrightarrow> MEM_IS_SHADOW p x" for x
    using inside assms(2) unfolding covered_def MEM_IS_SHADOW_ex region_of_def is_mapped_def by auto
  have zero: "as_mem s' x = (if MEM_IS_SHADOW p x then 0 else as_mem s x)" for x
    using eff(1) by (simp add: mapped)
  show "poisoned p (as_mem s') = {}" using app_shadow by (auto simp: poisoned_def zero)
  show "as_mem s' a = as_mem s a" if "MEM_IS_APP p a"
    using that sane_disjoint(1) [OF sane] by (auto simp: zero)
  show "region_of d \<in> set (as_mapped s')" if "d \<in> set (kMemoryLayout p)" "mtype d = SHADOW"
    using that assms(2) eff(2) by (auto simp: is_mapped_def)
  show "region_of d \<in> set (as_protected s')" if "d \<in> set (kMemoryLayout p)" "mtype d = INVALID"
    using that assms(2) eff(3) by auto
qed

end

section \<open>Unpoisoning ranges\<close>

lemma unpoison_range:
  assumes "env_ok e" and "\<not> flip e" and "app_range linux_64 a n"
  shows "cqmsan_unpoison linux_64 e m a n = Ok (real_memset m (MEM_TO_SHADOW linux_64 a) 0 n)"
  using SetShadow_range [OF assms(1,3)] app_range_app_0 [OF assms(3)] assms(2)
  by (cases "n = 0") (auto simp: cqmsan_unpoison_def kCleanByte_def word_neq_0_conv)

definition all_bytes :: "(uptr \<times> uptr) list \<Rightarrow> uptr set" where
  "all_bytes rs = (\<Union>(a, n) \<in> set rs. bytes a n)"

lemma all_bytes_simps [simp]:
  "all_bytes [] = {}" "all_bytes ((a, n) # rs) = bytes a n \<union> all_bytes rs" "all_bytes (rs @ rs') = all_bytes rs \<union> all_bytes rs'"
  by (auto simp: all_bytes_def)

definition app_ranges :: "(uptr \<times> uptr) list \<Rightarrow> bool" where
  "app_ranges rs \<longleftrightarrow> (\<forall>(a, n) \<in> set rs. app_range linux_64 a n)"

text \<open>
  \<open>cleans B m m'\<close>: between two memories, exactly the bytes of \<open>B\<close> became initialised and no application byte changed.
\<close>

definition cleans :: "uptr set \<Rightarrow> memory \<Rightarrow> memory \<Rightarrow> bool" where
  "cleans B m m' \<longleftrightarrow> poisoned linux_64 m' = poisoned linux_64 m - B \<and> (\<forall>x. MEM_IS_APP linux_64 x \<longrightarrow> m' x = m x)"

lemma cleans_refl [simp]: "cleans {} m m"
  by (simp add: cleans_def)

lemma cleans_trans: "cleans A m m' \<Longrightarrow> cleans B m' m'' \<Longrightarrow> cleans (A \<union> B) m m''"
  by (auto simp: cleans_def)

lemma cleans_range: "app_range linux_64 a n \<Longrightarrow> cleans (bytes a n) m (real_memset m (MEM_TO_SHADOW linux_64 a) 0 n)"
  by (simp add: cleans_def poisoned_range data_range)

lemma unpoison_cleans:
  assumes "env_ok e" and "\<not> flip e" and "app_range linux_64 a n"
  obtains m' where "cqmsan_unpoison linux_64 e m a n = Ok m'" and "cleans (bytes a n) m m'"
  using unpoison_range [OF assms] cleans_range [OF assms(3)] by blast

lemma unpoison_all_cleans:
  assumes "env_ok e" and "\<not> flip e" and "app_ranges rs"
  obtains m' where "unpoison_all linux_64 e rs m = Ok m'" and "cleans (all_bytes rs) m m'"
proof -
  have "\<exists>m'. unpoison_all linux_64 e rs m = Ok m' \<and> cleans (all_bytes rs) m m'"
    using assms(3)
  proof (induction rs arbitrary: m)
    case (Cons r rs)
    obtain a n where r: "r = (a, n)" by (cases r)
    have "app_range linux_64 a n" using Cons.prems by (simp add: app_ranges_def r)
    then obtain m1 where m1: "cqmsan_unpoison linux_64 e m a n = Ok m1" "cleans (bytes a n) m m1"
      by (rule unpoison_cleans [OF assms(1,2)])
    obtain m2 where "unpoison_all linux_64 e rs m1 = Ok m2" "cleans (all_bytes rs) m1 m2"
      using Cons.IH Cons.prems by (auto simp: app_ranges_def)
    then show ?case using m1 cleans_trans by (auto simp: r)
  qed simp
  then show thesis using that by blast
qed

section \<open>Threads\<close>

text \<open>The ranges a thread owns, and that they are application memory.\<close>

definition thread_ranges :: "os \<Rightarrow> thread \<Rightarrow> (uptr \<times> uptr) list" where
  "thread_ranges o1 t = (stack_bot t, stack_end t - stack_bot t) #
     (if tls_begin t \<noteq> tls_end t then [(tls_begin t, tls_end t - tls_begin t)] else []) @ dtls o1"

lemma ClearShadow_cleans:
  assumes "env_ok e" and "\<not> flip e" and "app_ranges (thread_ranges o1 t)"
  obtains m' where "ClearShadowForThreadStackAndTLS linux_64 e o1 t m = Ok m'" and "cleans (all_bytes (thread_ranges o1 t)) m m'"
proof -
  have "ClearShadowForThreadStackAndTLS linux_64 e o1 t m = unpoison_all linux_64 e (thread_ranges o1 t) m"
  proof -
    have e: "bind_ok r f = (case r of Died x \<Rightarrow> Died x | Ok y \<Rightarrow> f y)" for r :: "memory outcome" and f :: "memory \<Rightarrow> memory outcome"
      by (cases r) auto
    show ?thesis by (simp add: ClearShadowForThreadStackAndTLS_def thread_ranges_def e split: outcome.split)
  qed
  with unpoison_all_cleans [OF assms] show thesis using that by metis
qed

lemma destructor_rounds_waits:
  assumes "rtsd st = Some t" and "rthread st = Some t" and "k < destructor_iterations t"
  shows "\<exists>t'. destructor_rounds p e o1 k st = Ok (st\<lparr>rtsd := Some t', rthread := Some t'\<rparr>) \<and>
    t' = t\<lparr>destructor_iterations := destructor_iterations t - k\<rparr>"
  using assms
proof (induction k arbitrary: st t)
  case 0
  then show ?case by simp
next
  case (Suc k)
  let ?t = "t\<lparr>destructor_iterations := destructor_iterations t - 1\<rparr>"
  let ?st = "st\<lparr>rtsd := Some ?t, rthread := Some ?t\<rparr>"
  have "destructor_rounds p e o1 (Suc k) st = destructor_rounds p e o1 k ?st"
    using Suc.prems by (simp add: CQMsanTSDDtor_def Let_def)
  then show ?case using Suc.IH [of ?st ?t] Suc.prems by simp
qed

lemma destructor_rounds_last:
  assumes "env_ok e" and "\<not> flip e" and "rtsd st = Some t" and "rthread st = Some t"
    and "0 < destructor_iterations t" and "app_ranges (thread_ranges o1 t)"
  obtains st' where "destructor_rounds linux_64 e o1 (destructor_iterations t) st = Ok st'" and "rthread st' = None"
    and "rtsd st' = None" and "cleans (all_bytes (thread_ranges o1 t)) (rmem st) (rmem st')"
proof -
  have "\<exists>st'. destructor_rounds linux_64 e o1 (destructor_iterations t) st = Ok st' \<and> rthread st' = None \<and>
      rtsd st' = None \<and> cleans (all_bytes (thread_ranges o1 t)) (rmem st) (rmem st')"
    using assms(3-6)
  proof (induction "destructor_iterations t" arbitrary: t st)
    case (Suc k)
    let ?t = "t\<lparr>destructor_iterations := k\<rparr>"
    let ?st = "st\<lparr>rtsd := Some ?t, rthread := Some ?t\<rparr>"
    have same: "thread_ranges o1 ?t = thread_ranges o1 t" by (simp add: thread_ranges_def)
    show ?case
    proof (cases "k = 0")
      case True
      obtain m' where "ClearShadowForThreadStackAndTLS linux_64 e o1 t (rmem st) = Ok m'"
        and "cleans (all_bytes (thread_ranges o1 t)) (rmem st) m'"
        using ClearShadow_cleans [OF assms(1,2) Suc.prems(4)] by blast
      then show ?thesis
        using Suc.prems Suc.hyps(2) True
        by (simp add: CQMsanTSDDtor_def thread_Destroy_def set_rmem_def flip: Suc.hyps(2))
    next
      case False
      have "destructor_rounds linux_64 e o1 (destructor_iterations t) st = destructor_rounds linux_64 e o1 k ?st"
        using Suc.prems False by (simp add: CQMsanTSDDtor_def Let_def flip: Suc.hyps(2))
      then show ?thesis using Suc.hyps(1) [of ?t ?st] Suc.prems False same by simp
    qed
  qed simp
  then show thesis using that by blast
qed

section \<open>Properties\<close>

text \<open>
  When start-up succeeds, on every supported layout but ppc64, the whole shadow is mapped and zero: no application
  byte counts as uninitialised. Application memory is as it was, and the invalid regions are without access.
\<close>

theorem startup_shadow_clean:
  assumes "p \<in> set platforms" and "p \<noteq> linux_ppc64"
    and "InitShadowWithReExec p e o1 False s = Ok (Continue (True, s'))"
    and "\<forall>d \<in> set (kMemoryLayout p). start d < GetMaxUserVirtualAddress o1"
  shows "poisoned p (as_mem s') = {} \<and> (\<forall>a. MEM_IS_APP p a \<longrightarrow> as_mem s' a = as_mem s a) \<and>
    (\<forall>d \<in> set (kMemoryLayout p). (mtype d = SHADOW \<longrightarrow> region_of d \<in> set (as_mapped s')) \<and>
      (mtype d = INVALID \<longrightarrow> region_of d \<in> set (as_protected s')))"
proof -
  have "\<exists>k. shadow_map p k"
    using assms(1,2) mips64.shadow_map_axioms aarch64.shadow_map_axioms loongarch64.shadow_map_axioms s390.shadow_map_axioms
      fbsd_aarch64.shadow_map_axioms fbsd_64.shadow_map_axioms x86.shadow_map_axioms
    unfolding platforms_def by auto
  then obtain k where k: "shadow_map p k" ..
  have inv: "0 < start d" if "d \<in> set (kMemoryLayout p)" "mtype d = INVALID" for d
    using that assms(1) unfolding platforms_def by (auto simp: platform_defs)
  note eff = shadow_map.startup_effect [OF k assms(3) _ inv]
  show ?thesis using eff assms(4) by blast
qed

definition example_os :: os where
  "example_os = \<lparr>MemoryRangeIsAvailable = (\<lambda>b e. True), MmapFixedNoAccess = (\<lambda>b n. b),
     GetMaxUserVirtualAddress = 0x800000000000, init_addr = 0x555555555000, old_personality = Some 0, set_personality_ok = True,
     StackSizeIsUnlimited = False,
     GetThreadStackAndTls = (\<lambda>main. (0x7ffe00000000, 0x7ffe00800000, 0x7f0000000000, 0x7f0000001000)),
     local_addr = 0x7ffe00400000, dtls = [(0x7f0000002000, 64)], pthread_destructor_iterations = 4\<rparr>"

definition empty_space :: aspace where
  "empty_space = \<lparr>as_mem = (\<lambda>_. 7), as_mapped = [], as_protected = []\<rparr>"

lemma example_startup: "\<exists>s'. InitShadowWithReExec linux_64 example_env example_os False empty_space = Ok (Continue (True, s'))"
proof -
  have dry: "InitShadow linux_64 example_env example_os False True empty_space = Ok (True, empty_space)"
    by (simp add: InitShadow_def linux_64_sane linux_64_sel layout_eval init_region_def example_os_def
        CheckMemoryRangeAvailability_def Let_def)
  have "\<exists>s'. InitShadow linux_64 example_env example_os False False empty_space = Ok (True, s')"
    by (simp add: InitShadow_def linux_64_sane linux_64_sel layout_eval init_region_real example_os_def is_mapped_def
        example_env_def ProtectMemoryRange_def Let_def)
  then show ?thesis using dry by (auto simp: InitShadowWithReExec_def)
qed

theorem startup_shadow_clean_witness:
  "\<exists>s'. InitShadowWithReExec linux_64 example_env example_os False empty_space = Ok (Continue (True, s')) \<and>
    poisoned linux_64 (as_mem s') = {}"
proof -
  obtain s' where s': "InitShadowWithReExec linux_64 example_env example_os False empty_space = Ok (Continue (True, s'))"
    using example_startup by blast
  have "MEM_TO_SHADOW linux_64 0 \<noteq> MEM_TO_SHADOW linux_ppc64 0" by (simp add: linux_64_sel linux_ppc64_sel)
  then have "linux_64 \<noteq> linux_ppc64" by metis
  then show ?thesis
    using startup_shadow_clean [OF _ _ s'] s' by (simp add: platforms_def linux_64_sel example_os_def)
qed

text \<open>
  A thread outlives all rounds of destructors but the last: until then it stays the current thread and no memory
  changes; the last round, as many as the library makes, unregisters it and leaves its stack and TLS initialised.
\<close>

theorem thread_outlives_destructors:
  assumes "env_ok e" and "\<not> flip e" and "rtsd st = Some t" and "rthread st = Some t"
    and "0 < destructor_iterations t" and "app_ranges (thread_ranges o1 t)"
  shows "(\<forall>k < destructor_iterations t. \<exists>st'. destructor_rounds linux_64 e o1 k st = Ok st' \<and>
      rthread st' \<noteq> None \<and> rmem st' = rmem st) \<and>
    (\<exists>st'. destructor_rounds linux_64 e o1 (destructor_iterations t) st = Ok st' \<and> rthread st' = None \<and>
      cleans (all_bytes (thread_ranges o1 t)) (rmem st) (rmem st'))"
proof (intro conjI allI impI)
  fix k assume "k < destructor_iterations t"
  from destructor_rounds_waits [OF assms(3,4) this, of linux_64 e o1]
  show "\<exists>st'. destructor_rounds linux_64 e o1 k st = Ok st' \<and> rthread st' \<noteq> None \<and> rmem st' = rmem st" by auto
next
  show "\<exists>st'. destructor_rounds linux_64 e o1 (destructor_iterations t) st = Ok st' \<and> rthread st' = None \<and>
      cleans (all_bytes (thread_ranges o1 t)) (rmem st) (rmem st')"
    using destructor_rounds_last [OF assms] by metis
qed

definition example_thread :: thread where
  "example_thread = (thread_Create example_os 0x401000 0)\<lparr>stack_bot := 0x7ffe00000000, stack_end := 0x7ffe00800000,
     tls_begin := 0x7f0000000000, tls_end := 0x7f0000001000\<rparr>"

definition example_rt :: "memory \<Rightarrow> rt" where
  "example_rt m = \<lparr>rspace = empty_space\<lparr>as_mem := m\<rparr>, rrep = example_rstate, rscope = 0, rinited = True, rrunning = False,
     rtsd_inited = True, rtsd = Some example_thread, rthread = Some example_thread,
     rtls = \<lparr>tl_param = replicate 100 1, tl_retval = replicate 100 1, tl_va_arg = replicate 100 1, tl_va_arg_origin = replicate 200 1,
       tl_va_overflow = 0\<rparr>\<rparr>"

lemma example_thread_ranges: "app_ranges (thread_ranges example_os example_thread)"
  by (simp add: app_ranges_def thread_ranges_def example_thread_def example_os_def app_range_def fits_def linux_64_sel)

theorem thread_outlives_destructors_witness:
  "\<exists>st'. destructor_rounds linux_64 example_env example_os 4 (example_rt (\<lambda>_. 1)) = Ok st' \<and> rthread st' = None"
proof -
  have "destructor_iterations example_thread = 4" "rtsd (example_rt (\<lambda>_. 1)) = Some example_thread"
    "rthread (example_rt (\<lambda>_. 1)) = Some example_thread"
    by (simp_all add: example_thread_def thread_Create_def example_os_def example_rt_def)
  then show ?thesis
    using thread_outlives_destructors [OF example_env_ok _ _ _ example_thread_ranges, of "example_rt (\<lambda>_. 1)"] by auto
qed

text \<open>
  Switching fibers: between start and finish the bounds are those of the stack the frame is on; finishing hands out the old bounds and
  installs the new ones; switching back with what was handed out restores the thread; a second start in between fails its check.
\<close>

theorem fiber_switch_roundtrip:
  assumes "\<not> stack_switching t" and "next_bot t = 0" and "next_end t = 0"
  shows "\<exists>t1 t2 t3. StartSwitchFiber b n t = Ok t1 \<and>
      GetStackBounds frame t1 = (if b \<le> frame \<and> frame < b + n then (b, b + n) else (stack_bot t, stack_end t)) \<and>
      StartSwitchFiber b' n' t1 = Died CheckFailed \<and>
      FinishSwitchFiber t1 = Ok ((stack_bot t, stack_end t - stack_bot t), t2) \<and>
      GetStackBounds frame t2 = (b, b + n) \<and>
      StartSwitchFiber (stack_bot t) (stack_end t - stack_bot t) t2 = Ok t3 \<and>
      FinishSwitchFiber t3 = Ok ((b, n), t)"
  using assms by (simp add: StartSwitchFiber_def FinishSwitchFiber_def GetStackBounds_def)

theorem fiber_switch_roundtrip_witness:
  "\<exists>t1 t2. StartSwitchFiber 0x100 64 example_thread = Ok t1 \<and> FinishSwitchFiber t1 = Ok ((0x7ffe00000000, 0x800000), t2)"
proof -
  have "\<not> stack_switching example_thread" "next_bot example_thread = 0" "next_end example_thread = 0"
    "stack_bot example_thread = 0x7ffe00000000" "stack_end example_thread = 0x7ffe00800000"
    by (simp_all add: example_thread_def thread_Create_def)
  then show ?thesis using fiber_switch_roundtrip [of example_thread "0x100" 64 0 0 0] by auto
qed

text \<open>What the operating system says the main thread owns.\<close>

definition main_ranges :: "os \<Rightarrow> (uptr \<times> uptr) list" where
  "main_ranges o1 = (let (b, e, tb, te) = GetThreadStackAndTls o1 True in
     (b, e - b) # (if tb \<noteq> te then [(tb, te - tb)] else []) @ dtls o1)"

lemma start_main_thread_effect:
  assumes "start_main_thread c st = Ok st'" and "ic_plat c = linux_64" and "env_ok (ic_env c)" and "\<not> flip (ic_env c)"
    and "app_ranges (main_ranges (ic_os c))"
  shows "rthread st' \<noteq> None" and "cleans (all_bytes (main_ranges (ic_os c))) (rmem st) (rmem st')" and "rrep st' = rrep st"
proof -
  let ?t = "thread_Create (ic_os c) 0 0"
  obtain t1 m where t1: "SetThreadStackAndTls (ic_os c) ?t = Ok t1"
    and m: "ClearShadowForThreadStackAndTLS linux_64 (ic_env c) (ic_os c) t1 (rmem st) = Ok m"
    and st': "st' = set_rmem m (st\<lparr>rthread := Some t1, rtsd := Some t1\<rparr>)"
    using assms(1,2) by (auto simp: start_main_thread_def Let_def SetCurrentThread_def thread_Init_def outcome_simps)
  have r: "thread_ranges (ic_os c) t1 = main_ranges (ic_os c)"
    using t1 by (auto simp: SetThreadStackAndTls_def thread_ranges_def main_ranges_def IsMainThread_def thread_Create_def
        Let_def outcome_simps split: prod.splits)
  have "cleans (all_bytes (main_ranges (ic_os c))) (rmem st) m"
    using ClearShadow_cleans [OF assms(3,4), of "ic_os c" t1 "rmem st"] m assms(5) unfolding r by auto
  then show "rthread st' \<noteq> None" "cleans (all_bytes (main_ranges (ic_os c))) (rmem st) (rmem st')" "rrep st' = rrep st"
    using st' by (simp_all add: set_rmem_def)
qed


definition example_ictx :: ictx where
  "example_ictx = \<lparr>ic_rep = example_rctx (\<lambda>_. 0), ic_os = example_os, ic_common0 = example_common, ic_handlers = [],
     ic_default_options = None, ic_env_options = None, ic_afl_require = False, ic_afl_id = None, ic_afl_inst_ratio = False,
     ic_shmat = (\<lambda>_. None)\<rparr>"

definition fresh_rt :: rt where
  "fresh_rt = (example_rt (\<lambda>_. 7))\<lparr>rinited := False, rtsd_inited := False, rtsd := None, rthread := None\<rparr>"

lemma example_main_ranges: "app_ranges (main_ranges example_os)"
  by (simp add: app_ranges_def main_ranges_def example_os_def app_range_def fits_def linux_64_sel)

lemma example_init: "\<exists>st'. cqmsan_init example_ictx fresh_rt = Ok (Continue st')"
proof -
  obtain fs where fs: "InitializeFlags example_common [] None None = Ok fs"
    by (simp add: InitializeFlags_def ParseString_def Flags_SetDefaults_def kMaxDepth_def kStackDepotMaxUseCount_def)
  let ?st = "cqmsan_clear_on_return (fresh_rt\<lparr>rrunning := True, rrep := (rrep fresh_rt)\<lparr>rflags := cq fs\<rparr>\<rparr>)"
  have sp: "rspace ?st = empty_space"
    by (simp add: cqmsan_clear_on_return_def fresh_rt_def example_rt_def empty_space_def)
  obtain s where s: "InitShadowWithReExec linux_64 example_env example_os False empty_space = Ok (Continue (True, s))"
    using example_startup by blast
  let ?t = "(thread_Create example_os 0 0)\<lparr>stack_bot := 0x7ffe00000000, stack_end := 0x7ffe00800000,
     tls_begin := 0x7f0000000000, tls_end := 0x7f0000001000\<rparr>"
  have set: "SetThreadStackAndTls example_os (thread_Create example_os 0 0) = Ok ?t"
    by (simp add: SetThreadStackAndTls_def example_os_def thread_Create_def AddrIsInStack_def GetStackBounds_def)
  have rg: "app_ranges (thread_ranges example_os ?t)"
    by (simp add: app_ranges_def thread_ranges_def thread_Create_def example_os_def app_range_def fits_def linux_64_sel)
  have app: "MEM_IS_APP linux_64 0x7ffe00000000" "MEM_IS_APP linux_64 (0x7ffe00800000 - 1)"
    by (simp_all add: layout_eval linux_64_sel)
  obtain m where m: "ClearShadowForThreadStackAndTLS linux_64 example_env example_os ?t (as_mem s) = Ok m"
    using ClearShadow_cleans [OF example_env_ok rg] by blast
  have "thread_Init linux_64 example_env example_os (thread_Create example_os 0 0) (as_mem s) = Ok (?t, m)"
    using app m by (simp add: thread_Init_def set)
  then have "\<exists>st'. init_threads example_ictx (?st\<lparr>rspace := s\<rparr>) = Ok (Continue st')"
    by (simp add: init_threads_def CQMsanTSDInit_def start_main_thread_def SetCurrentThread_def cqmsan_attach_afl_shm_def
        example_ictx_def example_rctx_def cqmsan_clear_on_return_def fresh_rt_def)
  then show ?thesis
    using s sp fs by (simp add: cqmsan_init_def example_ictx_def example_rctx_def example_os_def fresh_rt_def example_rt_def Let_def
        cqmsan_get_track_origins_def)
qed


end
