(* ===== verification/Interceptors.thy ===== *)
theory Interceptors
  imports Startup
begin

text \<open>
  The interceptors of \<^verbatim>\<open>cqmsan_interceptors.cpp\<close> and the helpers of \<^verbatim>\<open>cqmsan_dl.cpp\<close>: each calls the function it
  replaces, \<^verbatim>\<open>REAL(f)\<close>, and marks what that function wrote. The replaced functions are code outside the
  repository; each is an argument \<open>real\<close>, a function on memory that also returns a value.
\<close>

section \<open>Steps\<close>

text \<open>
  An interceptor returns to its caller, or the process ends in a check with \<^verbatim>\<open>halt_on_error\<close> (what was reported stays), or
  initialisation replaces the process. \<^term>\<open>None\<close> is a call that does not return.
\<close>

datatype 'a res = Returned 'a | Halted | Replaced

type_synonym 'a act = "rt \<Rightarrow> ('a res \<times> rt) outcome option"
type_synonym 'a real = "memory \<Rightarrow> memory \<times> 'a"

text \<open>
  What the interceptors read: the caller, a flag, the addresses of library variables, and the sizes of structures of
  \<^verbatim>\<open>sanitizer_platform_limits_posix.cpp\<close>.
\<close>

record kctx =
  kc_init :: ictx
  kc_pc :: uptr
  kc_bp :: uptr
  strict_string_checks :: bool
  errno_location :: uptr
  environ_loc :: uptr
  tzname_loc :: uptr
  struct_stat_sz :: uptr
  struct_stat64_sz :: uptr
  struct_rlimit_sz :: uptr
  struct_rlimit64_sz :: uptr
  struct_epoll_event_sz :: uptr
  struct_rusage_sz :: uptr
  pthread_t_sz :: uptr
  struct_ElfW_Phdr_sz :: uptr

abbreviation kc_plat :: "kctx \<Rightarrow> platform" where
  "kc_plat c \<equiv> ic_plat (kc_init c)"

abbreviation kc_env :: "kctx \<Rightarrow> env" where
  "kc_env c \<equiv> ic_env (kc_init c)"

definition ret :: "'a \<Rightarrow> 'a act" where
  "ret x st = Some (Ok (Returned x, st))"

definition andthen :: "'a act \<Rightarrow> ('a \<Rightarrow> 'b act) \<Rightarrow> 'b act" where
  "andthen f g st =
    (case f st of None \<Rightarrow> None
     | Some (Died d) \<Rightarrow> Some (Died d)
     | Some (Ok (Returned x, st')) \<Rightarrow> g x st'
     | Some (Ok (Halted, st')) \<Rightarrow> Some (Ok (Halted, st'))
     | Some (Ok (Replaced, st')) \<Rightarrow> Some (Ok (Replaced, st')))"

definition when_act :: "bool \<Rightarrow> unit act \<Rightarrow> unit act" where
  "when_act b f = (if b then f else ret ())"

definition lift_mem :: "(memory \<Rightarrow> memory outcome) \<Rightarrow> unit act" where
  "lift_mem f st = Some (bind_ok (f (rmem st)) (\<lambda>m. Ok (Returned (), set_rmem m st)))"

definition unpoison :: "kctx \<Rightarrow> uptr \<Rightarrow> uptr \<Rightarrow> unit act" where
  "unpoison c a n = lift_mem (\<lambda>m. cqmsan_unpoison (kc_plat c) (kc_env c) m a n)"

definition call_real :: "'a real \<Rightarrow> 'a act" where
  "call_real f st = (let (m, r) = f (rmem st) in Some (Ok (Returned r, set_rmem m st)))"

definition ensure_inited :: "kctx \<Rightarrow> unit act" where
  "ensure_inited c st = Some (bind_ok (ENSURE_CQMSAN_INITED (kc_init c) st) (\<lambda>r.
     case r of ReExec \<Rightarrow> Ok (Replaced, st) | Continue st' \<Rightarrow> Ok (Returned (), st')))"

definition read_mem :: "(memory \<Rightarrow> 'a option) \<Rightarrow> 'a act" where
  "read_mem f st = (case f (rmem st) of None \<Rightarrow> None | Some x \<Rightarrow> ret x st)"

abbreviation strlen_act :: "uptr \<Rightarrow> uptr act" where
  "strlen_act s \<equiv> read_mem (\<lambda>m. internal_strlen m s)"

definition check_act :: "bool \<Rightarrow> unit act" where
  "check_act b st = (if b then ret () st else Some (Died CheckFailed))"

text \<open>\<^verbatim>\<open>CHECK_UNPOISONED\<close> in the current memory and scope.\<close>

definition check_unpoisoned :: "kctx \<Rightarrow> uptr \<Rightarrow> uptr \<Rightarrow> unit act" where
  "check_unpoisoned c x n st =
    Some (bind_ok (CHECK_UNPOISONED ((ic_rep (kc_init c))\<lparr>rc_mem := rmem st, rc_in_interceptor := (rscope st \<noteq> 0)\<rparr>)
      (kc_pc c) (kc_bp c) x n (rrep st)) (\<lambda>(rep, h).
        Ok (if h then Halted else Returned (), st\<lparr>rrep := rep\<rparr>)))"

definition CHECK_UNPOISONED_STRING :: "kctx \<Rightarrow> uptr \<Rightarrow> uptr \<Rightarrow> unit act" where
  "CHECK_UNPOISONED_STRING c x n =
    andthen (strlen_act x) (\<lambda>len. check_unpoisoned c x (if strict_string_checks c then len + 1 else n))"

text \<open>\<^verbatim>\<open>InterceptorScope\<close>: the constructor enters, the destructor leaves.\<close>

definition change_scope :: "int \<Rightarrow> unit act" where
  "change_scope d st = ret () (st\<lparr>rscope := rscope st + d\<rparr>)"

definition in_scope :: "'a act \<Rightarrow> 'a act" where
  "in_scope f = andthen (change_scope 1) (\<lambda>_. andthen f (\<lambda>r. andthen (change_scope (-1)) (\<lambda>_. ret r)))"

definition if_running :: "'a act \<Rightarrow> 'a act \<Rightarrow> 'a act" where
  "if_running f g st = (if rrunning st then f st else g st)"

definition COMMON_INTERCEPTOR_ENTER :: "kctx \<Rightarrow> 'a real \<Rightarrow> 'a act \<Rightarrow> 'a act" where
  "COMMON_INTERCEPTOR_ENTER c real body =
    if_running (call_real real)
      (andthen (ensure_inited c) (\<lambda>_. in_scope (andthen (unpoison c (errno_location c) 4) (\<lambda>_. body))))"

text \<open>Marking a string that may be absent, with its terminator.\<close>

definition unpoison_string :: "kctx \<Rightarrow> uptr \<Rightarrow> unit act" where
  "unpoison_string c s = andthen (strlen_act s) (\<lambda>n. unpoison c s (n + 1))"

section \<open>Blocks\<close>

definition fread_unlocked :: "kctx \<Rightarrow> uptr real \<Rightarrow> uptr \<Rightarrow> uptr \<Rightarrow> uptr act" where
  "fread_unlocked c real ptr sz =
    andthen (ensure_inited c) (\<lambda>_. andthen (call_real real) (\<lambda>res.
      andthen (when_act (res > 0) (unpoison c ptr (res * sz))) (\<lambda>_. ret res)))"

text \<open>
  \<^verbatim>\<open>__cqmsan_memcpy\<close>, \<^verbatim>\<open>__cqmsan_memset\<close> and \<^verbatim>\<open>__cqmsan_memmove\<close>. Before initialisation the runtime's own routine is called; during it
  and inside the symbolizer the library's, without marking.
\<close>

definition block_function :: "kctx \<Rightarrow> (memory \<Rightarrow> memory outcome) \<Rightarrow> (memory \<Rightarrow> memory) \<Rightarrow> uptr \<Rightarrow> uptr \<Rightarrow> uptr act" where
  "block_function c internal real dest n st =
    (if \<not> rinited st then andthen (lift_mem internal) (\<lambda>_. ret dest) st
     else if rrunning st \<or> rc_in_symbolizer (ic_rep (kc_init c)) then call_real (\<lambda>m. (real m, dest)) st
     else andthen (ensure_inited c) (\<lambda>_. andthen (call_real (\<lambda>m. (real m, dest))) (\<lambda>res.
       andthen (unpoison c dest n) (\<lambda>_. ret res))) st)"

definition cqmsan_memcpy :: "kctx \<Rightarrow> uptr \<Rightarrow> uptr \<Rightarrow> uptr \<Rightarrow> uptr act" where
  "cqmsan_memcpy c dest src n =
    block_function c (\<lambda>m. Ok (internal_memcpy m dest src n)) (\<lambda>m. real_memmove m dest src n) dest n"

definition cqmsan_memset :: "kctx \<Rightarrow> uptr \<Rightarrow> int \<Rightarrow> uptr \<Rightarrow> uptr act" where
  "cqmsan_memset c s v n =
    block_function c (\<lambda>m. Ok (internal_memset m s v n)) (\<lambda>m. real_memset m s (word_of_int v) n) s n"

definition cqmsan_memmove :: "kctx \<Rightarrow> uptr \<Rightarrow> uptr \<Rightarrow> uptr \<Rightarrow> uptr act" where
  "cqmsan_memmove c dest src n =
    block_function c (\<lambda>m. internal_memmove m dest src n) (\<lambda>m. real_memmove m dest src n) dest n"

definition mempcpy :: "kctx \<Rightarrow> uptr \<Rightarrow> uptr \<Rightarrow> uptr \<Rightarrow> uptr act" where
  "mempcpy c dest src n = andthen (cqmsan_memcpy c dest src n) (\<lambda>r. ret (r + n))"

definition bcopy :: "kctx \<Rightarrow> uptr \<Rightarrow> uptr \<Rightarrow> uptr \<Rightarrow> uptr act" where
  "bcopy c src dest n = cqmsan_memmove c dest src n"

definition memccpy :: "kctx \<Rightarrow> uptr real \<Rightarrow> uptr \<Rightarrow> uptr \<Rightarrow> uptr \<Rightarrow> uptr act" where
  "memccpy c real dest src n =
    andthen (ensure_inited c) (\<lambda>_. andthen (call_real real) (\<lambda>res.
      andthen (check_act (res = 0 \<or> res \<ge> dest \<and> res \<le> dest + n)) (\<lambda>_.
      let sz = (if res \<noteq> 0 then res - dest else n) in
      andthen (check_unpoisoned c src sz) (\<lambda>_. andthen (unpoison c dest sz) (\<lambda>_. ret res)))))"

text \<open>The wide block functions; \<^verbatim>\<open>wmemset\<close> first checks its argument.\<close>

definition marked_call :: "kctx \<Rightarrow> 'a real \<Rightarrow> uptr \<Rightarrow> uptr \<Rightarrow> 'a act" where
  "marked_call c real dest n =
    andthen (ensure_inited c) (\<lambda>_. andthen (call_real real) (\<lambda>res. andthen (unpoison c dest n) (\<lambda>_. ret res)))"

definition wmemcpy :: "kctx \<Rightarrow> uptr real \<Rightarrow> uptr \<Rightarrow> uptr \<Rightarrow> uptr act" where
  "wmemcpy c real dest n = marked_call c real dest (n * 4)"

definition wmempcpy :: "kctx \<Rightarrow> uptr real \<Rightarrow> uptr \<Rightarrow> uptr \<Rightarrow> uptr act" where
  "wmempcpy c real dest n = marked_call c real dest (n * 4)"

definition wmemset :: "kctx \<Rightarrow> uptr real \<Rightarrow> uptr \<Rightarrow> uptr \<Rightarrow> uptr act" where
  "wmemset c real s n = andthen (check_act (MEM_IS_APP (kc_plat c) s)) (\<lambda>_. marked_call c real s (n * 4))"

definition wmemmove :: "kctx \<Rightarrow> uptr real \<Rightarrow> uptr \<Rightarrow> uptr \<Rightarrow> uptr act" where
  "wmemmove c real dest n = marked_call c real dest (n * 4)"

section \<open>Strings\<close>

definition strcpy :: "kctx \<Rightarrow> uptr real \<Rightarrow> uptr \<Rightarrow> uptr \<Rightarrow> uptr act" where
  "strcpy c real dest src =
    andthen (ensure_inited c) (\<lambda>_. andthen (strlen_act src) (\<lambda>n.
      andthen (CHECK_UNPOISONED_STRING c (src + n) 0) (\<lambda>_. andthen (call_real real) (\<lambda>res.
      andthen (unpoison c dest (n + 1)) (\<lambda>_. ret res)))))"

definition strncpy :: "kctx \<Rightarrow> uptr real \<Rightarrow> uptr \<Rightarrow> uptr \<Rightarrow> uptr act" where
  "strncpy c real dest n = marked_call c real dest n"

definition stpcpy :: "kctx \<Rightarrow> uptr real \<Rightarrow> uptr \<Rightarrow> uptr \<Rightarrow> uptr act" where
  "stpcpy c real dest src =
    andthen (ensure_inited c) (\<lambda>_. andthen (strlen_act src) (\<lambda>n.
      andthen (call_real real) (\<lambda>res. andthen (unpoison c dest (n + 1)) (\<lambda>_. ret res))))"

definition stpncpy :: "kctx \<Rightarrow> uptr real \<Rightarrow> uptr \<Rightarrow> uptr \<Rightarrow> uptr act" where
  "stpncpy c real dest n = marked_call c real dest n"

definition strdup :: "kctx \<Rightarrow> uptr real \<Rightarrow> uptr \<Rightarrow> uptr act" where
  "strdup c real src =
    andthen (ensure_inited c) (\<lambda>_. andthen (strlen_act src) (\<lambda>n.
      andthen (call_real real) (\<lambda>res. andthen (unpoison c res (n + 1)) (\<lambda>_. ret res))))"

definition strdup_alias :: "kctx \<Rightarrow> uptr real \<Rightarrow> uptr \<Rightarrow> uptr act" where
  "strdup_alias c real src = strdup c real src"

definition gcvt :: "kctx \<Rightarrow> uptr real \<Rightarrow> uptr \<Rightarrow> uptr act" where
  "gcvt c real buf =
    andthen (ensure_inited c) (\<lambda>_. andthen (call_real real) (\<lambda>res. andthen (unpoison_string c buf) (\<lambda>_. ret res)))"

definition strcat :: "kctx \<Rightarrow> uptr real \<Rightarrow> uptr \<Rightarrow> uptr \<Rightarrow> uptr act" where
  "strcat c real dest src =
    andthen (ensure_inited c) (\<lambda>_. andthen (strlen_act src) (\<lambda>src_size. andthen (strlen_act dest) (\<lambda>dest_size.
      andthen (call_real real) (\<lambda>res. andthen (unpoison c (dest + dest_size) (src_size + 1)) (\<lambda>_. ret res)))))"

definition strncat :: "kctx \<Rightarrow> uptr real \<Rightarrow> uptr \<Rightarrow> uptr \<Rightarrow> uptr \<Rightarrow> uptr act" where
  "strncat c real dest src n =
    andthen (ensure_inited c) (\<lambda>_. andthen (strlen_act dest) (\<lambda>dest_size.
      andthen (read_mem (\<lambda>m. Some (internal_strnlen m src n))) (\<lambda>copy_size.
      andthen (call_real real) (\<lambda>res. andthen (unpoison c (dest + dest_size) (copy_size + 1)) (\<lambda>_. ret res)))))"

text \<open>The length of a wide string is taken after the copy.\<close>

definition wcscpy :: "kctx \<Rightarrow> uptr real \<Rightarrow> uptr \<Rightarrow> uptr \<Rightarrow> uptr act" where
  "wcscpy c real dest src =
    andthen (ensure_inited c) (\<lambda>_. andthen (call_real real) (\<lambda>res.
      andthen (read_mem (\<lambda>m. internal_wcslen m src)) (\<lambda>n. andthen (unpoison c dest (4 * (n + 1))) (\<lambda>_. ret res))))"

definition wcsncpy :: "kctx \<Rightarrow> uptr real \<Rightarrow> uptr \<Rightarrow> uptr \<Rightarrow> uptr \<Rightarrow> uptr act" where
  "wcsncpy c real dest src n =
    andthen (ensure_inited c) (\<lambda>_. andthen (read_mem (\<lambda>m. Some (internal_wcsnlen m src n))) (\<lambda>copy_size.
      andthen (call_real real) (\<lambda>res. andthen (unpoison c dest (n * 4)) (\<lambda>_. ret res))))"

definition cqmsan_unpoison_string :: "kctx \<Rightarrow> uptr \<Rightarrow> unit act" where
  "cqmsan_unpoison_string c s = when_act (MEM_IS_APP (kc_plat c) s) (unpoison_string c s)"

definition fgets_unlocked :: "kctx \<Rightarrow> uptr real \<Rightarrow> uptr \<Rightarrow> uptr act" where
  "fgets_unlocked c real s =
    andthen (ensure_inited c) (\<lambda>_. andthen (call_real real) (\<lambda>res.
      andthen (when_act (res \<noteq> 0) (unpoison_string c s)) (\<lambda>_. ret res)))"

text \<open>Functions that return a string of the library.\<close>

definition marked_result :: "kctx \<Rightarrow> uptr real \<Rightarrow> uptr act" where
  "marked_result c real =
    andthen (call_real real) (\<lambda>res. andthen (when_act (res \<noteq> 0) (unpoison_string c res)) (\<lambda>_. ret res))"

definition getenv :: "kctx \<Rightarrow> uptr real \<Rightarrow> uptr act" where
  "getenv c real = if_running (call_real real) (andthen (ensure_inited c) (\<lambda>_. marked_result c real))"

definition strsignal :: "kctx \<Rightarrow> uptr real \<Rightarrow> uptr act" where
  "strsignal c real = COMMON_INTERCEPTOR_ENTER c real (marked_result c real)"

definition dlerror :: "kctx \<Rightarrow> uptr real \<Rightarrow> uptr act" where
  "dlerror c real = COMMON_INTERCEPTOR_ENTER c real (marked_result c real)"

definition fcvt :: "kctx \<Rightarrow> uptr real \<Rightarrow> uptr \<Rightarrow> uptr \<Rightarrow> uptr act" where
  "fcvt c real b d =
    andthen (ensure_inited c) (\<lambda>_. andthen (call_real real) (\<lambda>res. andthen (unpoison c b 4) (\<lambda>_.
      andthen (unpoison c d 4) (\<lambda>_. andthen (when_act (res \<noteq> 0) (unpoison_string c res)) (\<lambda>_. ret res)))))"

definition tzset :: "kctx \<Rightarrow> unit real \<Rightarrow> unit act" where
  "tzset c real =
    andthen (ensure_inited c) (\<lambda>_. in_scope (andthen (call_real real) (\<lambda>_.
      andthen (read_mem (\<lambda>m. Some (load64 m (tzname_loc c)))) (\<lambda>n0. andthen (when_act (n0 \<noteq> 0) (unpoison_string c n0)) (\<lambda>_.
      andthen (read_mem (\<lambda>m. Some (load64 m (tzname_loc c + 8)))) (\<lambda>n1. when_act (n1 \<noteq> 0) (unpoison_string c n1)))))))"

definition errno_ENAMETOOLONG :: u32 where
  "errno_ENAMETOOLONG = 36"

definition gethostname :: "kctx \<Rightarrow> int real \<Rightarrow> uptr \<Rightarrow> uptr \<Rightarrow> int act" where
  "gethostname c real name len =
    andthen (ensure_inited c) (\<lambda>_. andthen (call_real real) (\<lambda>res.
      andthen (read_mem (\<lambda>m. Some (load32 m (errno_location c), internal_strnlen m name len))) (\<lambda>(err, n).
      andthen (when_act (res = 0 \<or> res = -1 \<and> err = errno_ENAMETOOLONG)
        (unpoison c name (if n < len then n + 1 else n))) (\<lambda>_. ret res))))"

section \<open>Conversions and times\<close>

text \<open>All of \<^verbatim>\<open>strtod\<close>, \<^verbatim>\<open>strtol\<close>, \<^verbatim>\<open>wcstod\<close> and their kin; the second form returns through a pointer.\<close>

definition INTERCEPTOR_STRTO_BODY :: "kctx \<Rightarrow> 'a real \<Rightarrow> uptr \<Rightarrow> 'a act" where
  "INTERCEPTOR_STRTO_BODY c real endptr = marked_call c real endptr 8"

definition INTERCEPTOR_STRTO_SRET_BODY :: "kctx \<Rightarrow> unit real \<Rightarrow> uptr \<Rightarrow> uptr \<Rightarrow> uptr \<Rightarrow> unit act" where
  "INTERCEPTOR_STRTO_SRET_BODY c real sret sret_sz endptr =
    andthen (ensure_inited c) (\<lambda>_. andthen (call_real real) (\<lambda>_.
      andthen (unpoison c sret sret_sz) (\<lambda>_. unpoison c endptr 8)))"

definition vswprintf :: "kctx \<Rightarrow> int real \<Rightarrow> uptr \<Rightarrow> int act" where
  "vswprintf c real str =
    andthen (ensure_inited c) (\<lambda>_. andthen (call_real real) (\<lambda>res.
      andthen (when_act (res \<ge> 0) (unpoison c str (word_of_int (4 * (res + 1))))) (\<lambda>_. ret res)))"

definition swprintf :: "kctx \<Rightarrow> int real \<Rightarrow> uptr \<Rightarrow> int act" where
  "swprintf c real str = andthen (ensure_inited c) (\<lambda>_. vswprintf c real str)"

definition INTERCEPTOR_STRFTIME_BODY :: "uptr \<Rightarrow> kctx \<Rightarrow> uptr real \<Rightarrow> uptr \<Rightarrow> uptr act" where
  "INTERCEPTOR_STRFTIME_BODY char_size c real s =
    andthen (ensure_inited c) (\<lambda>_. in_scope (andthen (call_real real) (\<lambda>res.
      andthen (when_act (s \<noteq> 0) (unpoison c s (char_size * (res + 1)))) (\<lambda>_. ret res))))"

definition strftime :: "kctx \<Rightarrow> uptr real \<Rightarrow> uptr \<Rightarrow> uptr act" where
  "strftime = INTERCEPTOR_STRFTIME_BODY 1"

definition strftime_l :: "kctx \<Rightarrow> uptr real \<Rightarrow> uptr \<Rightarrow> uptr act" where
  "strftime_l = INTERCEPTOR_STRFTIME_BODY 1"

definition wcsftime :: "kctx \<Rightarrow> uptr real \<Rightarrow> uptr \<Rightarrow> uptr act" where
  "wcsftime = INTERCEPTOR_STRFTIME_BODY 4"

definition wcsftime_l :: "kctx \<Rightarrow> uptr real \<Rightarrow> uptr \<Rightarrow> uptr act" where
  "wcsftime_l = INTERCEPTOR_STRFTIME_BODY 4"

definition mbtowc :: "kctx \<Rightarrow> int real \<Rightarrow> uptr \<Rightarrow> int act" where
  "mbtowc c real dest =
    andthen (ensure_inited c) (\<lambda>_. andthen (call_real real) (\<lambda>res.
      andthen (when_act (res \<noteq> -1 \<and> dest \<noteq> 0) (unpoison c dest 4)) (\<lambda>_. ret res)))"

definition mbrtowc :: "kctx \<Rightarrow> uptr real \<Rightarrow> uptr \<Rightarrow> uptr act" where
  "mbrtowc c real dest =
    andthen (ensure_inited c) (\<lambda>_. andthen (call_real real) (\<lambda>res.
      andthen (when_act (res \<noteq> -1 \<and> dest \<noteq> 0) (unpoison c dest 4)) (\<lambda>_. ret res)))"

definition gettimeofday :: "kctx \<Rightarrow> int real \<Rightarrow> uptr \<Rightarrow> uptr \<Rightarrow> int act" where
  "gettimeofday c real tv tz =
    andthen (ensure_inited c) (\<lambda>_. andthen (call_real real) (\<lambda>res.
      andthen (when_act (tv \<noteq> 0) (unpoison c tv 16)) (\<lambda>_. andthen (when_act (tz \<noteq> 0) (unpoison c tz 8)) (\<lambda>_. ret res))))"

section \<open>Results through pointers\<close>

text \<open>The body most of the following share: mark the structure when the call succeeded.\<close>

definition filled_on_success :: "kctx \<Rightarrow> int real \<Rightarrow> uptr \<Rightarrow> uptr \<Rightarrow> int act" where
  "filled_on_success c real buf sz =
    andthen (ensure_inited c) (\<lambda>_. andthen (call_real real) (\<lambda>res.
      andthen (when_act (res = 0) (unpoison c buf sz)) (\<lambda>_. ret res)))"

definition fstat :: "kctx \<Rightarrow> int real \<Rightarrow> uptr \<Rightarrow> int act" where
  "fstat c real buf = filled_on_success c real buf (struct_stat_sz c)"

definition fstat64 :: "kctx \<Rightarrow> int real \<Rightarrow> uptr \<Rightarrow> int act" where
  "fstat64 c real buf = filled_on_success c real buf (struct_stat64_sz c)"

definition fxstat :: "kctx \<Rightarrow> int real \<Rightarrow> uptr \<Rightarrow> int act" where
  "fxstat c real buf = filled_on_success c real buf (struct_stat_sz c)"

definition fxstat64 :: "kctx \<Rightarrow> int real \<Rightarrow> uptr \<Rightarrow> int act" where
  "fxstat64 c real buf = filled_on_success c real buf (struct_stat64_sz c)"

definition fstatat :: "kctx \<Rightarrow> int real \<Rightarrow> uptr \<Rightarrow> int act" where
  "fstatat c real buf = filled_on_success c real buf (struct_stat_sz c)"

definition fstatat64 :: "kctx \<Rightarrow> int real \<Rightarrow> uptr \<Rightarrow> int act" where
  "fstatat64 c real buf = filled_on_success c real buf (struct_stat64_sz c)"

definition fxstatat :: "kctx \<Rightarrow> int real \<Rightarrow> uptr \<Rightarrow> int act" where
  "fxstatat c real buf = filled_on_success c real buf (struct_stat_sz c)"

definition fxstatat64 :: "kctx \<Rightarrow> int real \<Rightarrow> uptr \<Rightarrow> int act" where
  "fxstatat64 c real buf = filled_on_success c real buf (struct_stat64_sz c)"

definition pipe :: "kctx \<Rightarrow> int real \<Rightarrow> uptr \<Rightarrow> int act" where
  "pipe c real pipefd = if_running (call_real real) (filled_on_success c real pipefd 8)"

definition pipe2 :: "kctx \<Rightarrow> int real \<Rightarrow> uptr \<Rightarrow> int act" where
  "pipe2 c real pipefd = filled_on_success c real pipefd 8"

definition socketpair :: "kctx \<Rightarrow> int real \<Rightarrow> uptr \<Rightarrow> int act" where
  "socketpair c real sv = filled_on_success c real sv 8"

definition getrusage :: "kctx \<Rightarrow> int real \<Rightarrow> uptr \<Rightarrow> int act" where
  "getrusage c real usage = filled_on_success c real usage (struct_rusage_sz c)"

text \<open>During initialisation every \<^verbatim>\<open>getrlimit\<close> variant calls the plain function, \<open>real_getrlimit\<close>.\<close>

definition INTERCEPTOR_GETRLIMIT_BODY :: "kctx \<Rightarrow> int real \<Rightarrow> int real \<Rightarrow> uptr \<Rightarrow> int act" where
  "INTERCEPTOR_GETRLIMIT_BODY c real_getrlimit real rlim =
    if_running (call_real real_getrlimit) (filled_on_success c real rlim (struct_rlimit_sz c))"

definition getrlimit :: "kctx \<Rightarrow> int real \<Rightarrow> uptr \<Rightarrow> int act" where
  "getrlimit c real rlim = INTERCEPTOR_GETRLIMIT_BODY c real real rlim"

definition getrlimit_alias :: "kctx \<Rightarrow> int real \<Rightarrow> int real \<Rightarrow> uptr \<Rightarrow> int act" where
  "getrlimit_alias c real_getrlimit real rlim = INTERCEPTOR_GETRLIMIT_BODY c real_getrlimit real rlim"

definition getrlimit64 :: "kctx \<Rightarrow> int real \<Rightarrow> uptr \<Rightarrow> int act" where
  "getrlimit64 c real rlim = if_running (call_real real) (filled_on_success c real rlim (struct_rlimit64_sz c))"

definition prlimit_body :: "uptr \<Rightarrow> kctx \<Rightarrow> int real \<Rightarrow> uptr \<Rightarrow> uptr \<Rightarrow> int act" where
  "prlimit_body sz c real new_rlimit old_rlimit =
    if_running (call_real real)
      (andthen (ensure_inited c) (\<lambda>_. andthen (check_unpoisoned c new_rlimit sz) (\<lambda>_. andthen (call_real real) (\<lambda>res.
        andthen (when_act (res = 0) (unpoison c old_rlimit sz)) (\<lambda>_. ret res)))))"

definition prlimit :: "kctx \<Rightarrow> int real \<Rightarrow> uptr \<Rightarrow> uptr \<Rightarrow> int act" where
  "prlimit c = prlimit_body (struct_rlimit_sz c) c"

definition prlimit64 :: "kctx \<Rightarrow> int real \<Rightarrow> uptr \<Rightarrow> uptr \<Rightarrow> int act" where
  "prlimit64 c = prlimit_body (struct_rlimit64_sz c) c"

definition epoll_wait :: "kctx \<Rightarrow> int real \<Rightarrow> uptr \<Rightarrow> int act" where
  "epoll_wait c real events =
    andthen (ensure_inited c) (\<lambda>_. andthen (call_real real) (\<lambda>res.
      andthen (when_act (res > 0) (unpoison c events (struct_epoll_event_sz c * word_of_int res))) (\<lambda>_. ret res)))"

definition epoll_pwait :: "kctx \<Rightarrow> int real \<Rightarrow> uptr \<Rightarrow> int act" where
  "epoll_pwait c real events = epoll_wait c real events"

definition openpty :: "kctx \<Rightarrow> int real \<Rightarrow> uptr \<Rightarrow> uptr \<Rightarrow> int act" where
  "openpty c real aparent aworker =
    andthen (ensure_inited c) (\<lambda>_. in_scope (andthen (call_real real) (\<lambda>res.
      andthen (when_act (res = 0) (andthen (unpoison c aparent 4) (\<lambda>_. unpoison c aworker 4))) (\<lambda>_. ret res))))"

definition forkpty :: "kctx \<Rightarrow> int real \<Rightarrow> uptr \<Rightarrow> int act" where
  "forkpty c real aparent =
    andthen (ensure_inited c) (\<lambda>_. in_scope (andthen (call_real real) (\<lambda>res.
      andthen (when_act (res \<noteq> -1) (unpoison c aparent 4)) (\<lambda>_. ret res))))"

text \<open>\<open>real_shmctl\<close> reports the size of the segment, when it succeeds.\<close>

definition shmat :: "kctx \<Rightarrow> uptr real \<Rightarrow> (memory \<Rightarrow> memory \<times> uptr option) \<Rightarrow> uptr act" where
  "shmat c real real_shmctl =
    andthen (ensure_inited c) (\<lambda>_. andthen (call_real real) (\<lambda>p.
      if p \<noteq> -1 then
        andthen (call_real real_shmctl) (\<lambda>sz. case sz of None \<Rightarrow> ret p | Some n \<Rightarrow> andthen (unpoison c p n) (\<lambda>_. ret p))
      else ret p))"

section \<open>Threads\<close>

definition marked_if :: "kctx \<Rightarrow> int real \<Rightarrow> uptr \<Rightarrow> uptr \<Rightarrow> int act" where
  "marked_if c real ptr sz =
    andthen (ensure_inited c) (\<lambda>_. andthen (call_real real) (\<lambda>res.
      andthen (when_act (res = 0 \<and> ptr \<noteq> 0) (unpoison c ptr sz)) (\<lambda>_. ret res)))"

definition pthread_key_create :: "kctx \<Rightarrow> int real \<Rightarrow> uptr \<Rightarrow> int act" where
  "pthread_key_create c real key = if_running (call_real real) (marked_if c real key 4)"

definition pthread_join :: "kctx \<Rightarrow> int real \<Rightarrow> uptr \<Rightarrow> int act" where
  "pthread_join c real retval = marked_if c real retval 8"

definition pthread_tryjoin_np :: "kctx \<Rightarrow> int real \<Rightarrow> uptr \<Rightarrow> int act" where
  "pthread_tryjoin_np c real retval = marked_if c real retval 8"

definition pthread_timedjoin_np :: "kctx \<Rightarrow> int real \<Rightarrow> uptr \<Rightarrow> int act" where
  "pthread_timedjoin_np c real retval = marked_if c real retval 8"

text \<open>
  The new thread gets a thread structure; attributes and the signal mask around the call are the library's. What the
  thread itself does first is \<open>CQMsanThreadStartFunc\<close>, here up to the call of the start routine.
\<close>

definition pthread_create :: "kctx \<Rightarrow> (thread \<Rightarrow> int real) \<Rightarrow> uptr \<Rightarrow> uptr \<Rightarrow> uptr \<Rightarrow> int act" where
  "pthread_create c real th callback param =
    andthen (ensure_inited c) (\<lambda>_.
      let t = thread_Create (ic_os (kc_init c)) callback param in
      andthen (call_real (real t)) (\<lambda>res. andthen (when_act (res = 0) (unpoison c th (pthread_t_sz c))) (\<lambda>_. ret res)))"

definition CQMsanThreadStartFunc :: "kctx \<Rightarrow> thread \<Rightarrow> rt \<Rightarrow> rt outcome" where
  "CQMsanThreadStartFunc c t st =
    bind_ok (SetCurrentThread t st) (\<lambda>st1.
      bind_ok (thread_Init (kc_plat c) (kc_env c) (ic_os (kc_init c)) t (rmem st1)) (\<lambda>(t1, m).
        Ok (set_rmem m (st1\<lparr>rthread := Some t1, rtsd := Some t1\<rparr>))))"

section \<open>The environment\<close>

partial_function (option) unpoison_env :: "platform \<Rightarrow> env \<Rightarrow> memory \<Rightarrow> uptr \<Rightarrow> memory outcome option" where
  "unpoison_env p e m envp =
    (let v = load64 m envp in
     if v \<noteq> 0 then
       (case cqmsan_unpoison p e m envp 8 of Died d \<Rightarrow> Some (Died d)
        | Ok m1 \<Rightarrow> Option.bind (internal_strlen m1 v) (\<lambda>n.
            case cqmsan_unpoison p e m1 v (n + 1) of Died d \<Rightarrow> Some (Died d)
            | Ok m2 \<Rightarrow> unpoison_env p e m2 (envp + 8)))
     else Some (cqmsan_unpoison p e m envp 8))"

definition UnpoisonEnviron :: "kctx \<Rightarrow> unit act" where
  "UnpoisonEnviron c st =
    map_option (\<lambda>r. bind_ok r (\<lambda>m. Ok (Returned (), set_rmem m st)))
      (unpoison_env (kc_plat c) (kc_env c) (rmem st) (load64 (rmem st) (environ_loc c)))"

definition setenv :: "kctx \<Rightarrow> int real \<Rightarrow> uptr \<Rightarrow> int act" where
  "setenv c real name =
    andthen (ensure_inited c) (\<lambda>_. andthen (CHECK_UNPOISONED_STRING c name 0) (\<lambda>_. andthen (call_real real) (\<lambda>res.
      andthen (when_act (res = 0) (UnpoisonEnviron c)) (\<lambda>_. ret res))))"

definition putenv :: "kctx \<Rightarrow> int real \<Rightarrow> int act" where
  "putenv c real =
    andthen (ensure_inited c) (\<lambda>_. andthen (call_real real) (\<lambda>res.
      andthen (when_act (res = 0) (UnpoisonEnviron c)) (\<lambda>_. ret res)))"

section \<open>The dynamic loader\<close>

definition unpoison_string_at :: "kctx \<Rightarrow> uptr \<Rightarrow> unit act" where
  "unpoison_string_at c loc =
    andthen (read_mem (\<lambda>m. Some (load64 m loc))) (\<lambda>s. when_act (s \<noteq> 0) (unpoison_string c s))"

text \<open>\<^verbatim>\<open>Dl_info\<close> has 32 bytes, the file name at 0 and the symbol name at 16.\<close>

definition UnpoisonDllAddrInfo :: "kctx \<Rightarrow> uptr \<Rightarrow> unit act" where
  "UnpoisonDllAddrInfo c info =
    andthen (unpoison c info 32) (\<lambda>_. andthen (unpoison_string_at c info) (\<lambda>_. unpoison_string_at c (info + 16)))"

text \<open>A \<^verbatim>\<open>link_map\<close> has 40 bytes: the name at 8, the next one at 24, the previous at 32.\<close>

definition unpoison_link :: "platform \<Rightarrow> env \<Rightarrow> memory \<Rightarrow> uptr \<Rightarrow> memory outcome option" where
  "unpoison_link p e m ptr =
    (case cqmsan_unpoison p e m ptr 40 of Died d \<Rightarrow> Some (Died d)
     | Ok m1 \<Rightarrow> (let name = load64 m1 (ptr + 8) in
         if name \<noteq> 0 then map_option (\<lambda>n. cqmsan_unpoison p e m1 name (n + 1)) (internal_strlen m1 name) else Some (Ok m1)))"

partial_function (option) walk_links :: "uptr \<Rightarrow> platform \<Rightarrow> env \<Rightarrow> memory \<Rightarrow> uptr \<Rightarrow> memory outcome option" where
  "walk_links field p e m ptr =
    (if ptr \<noteq> 0 then Option.bind (unpoison_link p e m ptr) (\<lambda>r.
       case r of Died d \<Rightarrow> Some (Died d) | Ok m1 \<Rightarrow> walk_links field p e m1 (load64 m1 (ptr + field)))
     else Some (Ok m))"

definition lift_opt :: "(memory \<Rightarrow> memory outcome option) \<Rightarrow> unit act" where
  "lift_opt f st = map_option (\<lambda>r. bind_ok r (\<lambda>m. Ok (Returned (), set_rmem m st))) (f (rmem st))"

definition RTLD_DL_SYMENT :: int where
  "RTLD_DL_SYMENT = 1"

definition RTLD_DL_LINKMAP :: int where
  "RTLD_DL_LINKMAP = 2"

definition UnpoisonDllAddr1ExtraInfo :: "kctx \<Rightarrow> uptr \<Rightarrow> int \<Rightarrow> unit act" where
  "UnpoisonDllAddr1ExtraInfo c extra_info flags =
    (if flags = RTLD_DL_SYMENT then
       andthen (unpoison c extra_info 8) (\<lambda>_. andthen (read_mem (\<lambda>m. Some (load64 m extra_info))) (\<lambda>s. unpoison c s 24))
     else if flags = RTLD_DL_LINKMAP then
       andthen (unpoison c extra_info 8) (\<lambda>_. andthen (read_mem (\<lambda>m. Some (load64 m extra_info))) (\<lambda>map.
         andthen (lift_opt (\<lambda>m. walk_links 24 (kc_plat c) (kc_env c) m map)) (\<lambda>_.
         if map = 0 then ret ()
         else lift_opt (\<lambda>m. walk_links 32 (kc_plat c) (kc_env c) m (load64 m (map + 32))))))
     else ret ())"

definition dladdr :: "kctx \<Rightarrow> int real \<Rightarrow> uptr \<Rightarrow> int act" where
  "dladdr c real info = COMMON_INTERCEPTOR_ENTER c real
    (andthen (call_real real) (\<lambda>res. andthen (when_act (res \<noteq> 0) (UnpoisonDllAddrInfo c info)) (\<lambda>_. ret res)))"

definition dladdr1 :: "kctx \<Rightarrow> int real \<Rightarrow> uptr \<Rightarrow> uptr \<Rightarrow> int \<Rightarrow> int act" where
  "dladdr1 c real info extra_info flags = COMMON_INTERCEPTOR_ENTER c real
    (andthen (call_real real) (\<lambda>res. andthen (when_act (res \<noteq> 0)
      (andthen (UnpoisonDllAddrInfo c info) (\<lambda>_. UnpoisonDllAddr1ExtraInfo c extra_info flags))) (\<lambda>_. ret res)))"

text \<open>
  The callback of \<^verbatim>\<open>dl_iterate_phdr\<close>: \<^verbatim>\<open>dl_phdr_info\<close> has the name at 8, the headers at 16 and their number, 16 bits, at 24. The
  first three parameters of the user's callback count as initialised.
\<close>

definition load16 :: "memory \<Rightarrow> uptr \<Rightarrow> u16" where
  "load16 m a = ucast (m a) OR push_bit 8 (ucast (m (a + 1)))"

definition rt_UnpoisonParam :: "nat \<Rightarrow> unit act" where
  "rt_UnpoisonParam n st =
    ret () (st\<lparr>rtls := (rtls st)\<lparr>tl_param := replicate (min n (length (tl_param (rtls st)))) 0 @ drop n (tl_param (rtls st))\<rparr>\<rparr>)"

definition cqmsan_dl_iterate_phdr_cb :: "kctx \<Rightarrow> uptr \<Rightarrow> uptr \<Rightarrow> 'a act \<Rightarrow> 'a act" where
  "cqmsan_dl_iterate_phdr_cb c info sz callback =
    andthen (when_act (info \<noteq> 0)
      (andthen (unpoison c info sz) (\<lambda>_.
       andthen (read_mem (\<lambda>m. Some (load64 m (info + 16), ucast (load16 m (info + 24)) :: uptr))) (\<lambda>(phdr, phnum).
       andthen (when_act (phdr \<noteq> 0 \<and> phnum \<noteq> 0) (unpoison c phdr (struct_ElfW_Phdr_sz c * phnum))) (\<lambda>_.
       unpoison_string_at c (info + 8))))))
     (\<lambda>_. andthen (rt_UnpoisonParam 3) (\<lambda>_. callback))"

section \<open>Mappings\<close>

definition MAP_FIXED :: u32 where
  "MAP_FIXED = 16"

definition set_errno :: "kctx \<Rightarrow> u32 \<Rightarrow> unit act" where
  "set_errno c v = lift_mem (\<lambda>m. Ok (store32 m (errno_location c) v))"

text \<open>\<open>real_mmap\<close> takes the address hint; \<open>munmap\<close> undoes a mapping.\<close>

definition mmap_interceptor :: "kctx \<Rightarrow> (uptr \<Rightarrow> uptr real) \<Rightarrow> (uptr \<Rightarrow> uptr \<Rightarrow> unit real) \<Rightarrow> uptr \<Rightarrow> uptr \<Rightarrow> u32 \<Rightarrow> uptr act" where
  "mmap_interceptor c real_mmap munmap addr length1 flags =
    (let p = kc_plat c;
         rounded_length = RoundUpTo length1 (PageSize (kc_env c));
         end_addr = addr + (rounded_length - 1);
         bad = (addr \<noteq> 0 \<and> (\<not> MEM_IS_APP p addr \<or> \<not> MEM_IS_APP p end_addr))
     in if bad \<and> flags AND MAP_FIXED \<noteq> 0 then andthen (set_errno c 22) (\<lambda>_. ret (-1))
        else andthen (call_real (real_mmap (if bad then 0 else addr))) (\<lambda>res.
          if res \<noteq> -1 then
            (if MEM_IS_APP p res \<and> MEM_IS_APP p (res + (rounded_length - 1))
             then andthen (unpoison c res rounded_length) (\<lambda>_. ret res)
             else andthen (call_real (munmap res length1)) (\<lambda>_. andthen (set_errno c 12) (\<lambda>_. ret (-1))))
          else ret res))"

section \<open>Evaluation\<close>

text \<open>The runtime is up, on the layout of Linux on x86-64.\<close>

definition ready :: "kctx \<Rightarrow> rt \<Rightarrow> bool" where
  "ready c st \<longleftrightarrow> rinited st \<and> \<not> rrunning st \<and> kc_plat c = linux_64 \<and> env_ok (kc_env c) \<and> \<not> flip (kc_env c)"

lemma rmem_set [simp]: "rmem (set_rmem m st) = m" "set_rmem m' (set_rmem m st) = set_rmem m' st" "set_rmem (rmem st) st = st"
  by (simp_all add: set_rmem_def)

lemma set_rmem_keeps [simp]:
  "rinited (set_rmem m st) = rinited st" "rrunning (set_rmem m st) = rrunning st" "rscope (set_rmem m st) = rscope st"
  "rrep (set_rmem m st) = rrep st" "rthread (set_rmem m st) = rthread st" "rtls (set_rmem m st) = rtls st"
  "(set_rmem m st)\<lparr>rscope := k\<rparr> = set_rmem m (st\<lparr>rscope := k\<rparr>)"
  by (simp_all add: set_rmem_def)

lemma ready_keeps [simp]: "ready c (set_rmem m st) = ready c st" "ready c (st\<lparr>rscope := k\<rparr>) = ready c st"
  by (simp_all add: ready_def)

lemma ready_not_running: "ready c st \<Longrightarrow> \<not> rrunning st"
  by (simp add: ready_def)

lemma ensure_inited_ready: "ready c st \<Longrightarrow> ensure_inited c st = Some (Ok (Returned (), st))"
  by (simp add: ready_def ensure_inited_def ENSURE_CQMSAN_INITED_def)

lemma call_real_eq: "call_real f st = Some (Ok (Returned (snd (f (rmem st))), set_rmem (fst (f (rmem st))) st))"
  by (simp add: call_real_def split_def Let_def)

lemma unpoison_ready:
  "ready c st \<Longrightarrow> app_range linux_64 a n \<Longrightarrow>
    unpoison c a n st = Some (Ok (Returned (), set_rmem (real_memset (rmem st) (MEM_TO_SHADOW linux_64 a) 0 n) st))"
  by (simp add: ready_def unpoison_def lift_mem_def unpoison_range)

lemma andthen_returned:
  "andthen f g st = Some (Ok (Returned y, st')) \<longleftrightarrow>
    (\<exists>x st1. f st = Some (Ok (Returned x, st1)) \<and> g x st1 = Some (Ok (Returned y, st')))"
  by (auto simp: andthen_def split: option.splits outcome.splits prod.splits res.splits)

lemma if_running_ready: "ready c st \<Longrightarrow> if_running f g st = g st"
  by (simp add: if_running_def ready_def)

lemmas act_eval = ensure_inited_ready call_real_eq unpoison_ready if_running_ready andthen_def ret_def when_act_def
  read_mem_def check_act_def in_scope_def change_scope_def

text \<open>
  \<open>intercepts real f st W\<close>: to the program, \<open>f\<close> is the call of \<open>real\<close>: the same result and the same memory. Exactly the bytes of \<open>W\<close>
  have become initialised, and nothing else of the runtime changed.
\<close>

definition intercepts :: "'a real \<Rightarrow> 'a act \<Rightarrow> rt \<Rightarrow> uptr set \<Rightarrow> bool" where
  "intercepts real f st W \<longleftrightarrow> (\<exists>m'. f st = Some (Ok (Returned (snd (real (rmem st))), set_rmem m' st)) \<and>
     poisoned linux_64 m' = poisoned linux_64 (rmem st) - W \<and>
     (\<forall>x. MEM_IS_APP linux_64 x \<longrightarrow> m' x = fst (real (rmem st)) x))"

text \<open>What a library function promises: it writes nothing outside \<open>W\<close>.\<close>

definition writes_only :: "'a real \<Rightarrow> memory \<Rightarrow> uptr set \<Rightarrow> bool" where
  "writes_only real m W \<longleftrightarrow> (\<forall>x. x \<notin> W \<longrightarrow> fst (real m) x = m x)"

definition app_only :: "uptr set \<Rightarrow> bool" where
  "app_only W \<longleftrightarrow> (\<forall>x \<in> W. MEM_IS_APP linux_64 x)"

lemma app_only_simps [simp]: "app_only {}" "app_only (A \<union> B) \<longleftrightarrow> app_only A \<and> app_only B"
  by (auto simp: app_only_def)

lemma app_only_bytes: "app_range linux_64 a n \<Longrightarrow> app_only (bytes a n)"
  using app_range_app by (auto simp: app_only_def elim!: in_rangeE)

lemma poisoned_real: "poisoned linux_64 (fst (real m)) = poisoned linux_64 m" if "writes_only real m W" "app_only W"
proof -
  have "fst (real m) (MEM_TO_SHADOW linux_64 x) = m (MEM_TO_SHADOW linux_64 x)" if "MEM_IS_APP linux_64 x" for x
    using that \<open>writes_only real m W\<close> \<open>app_only W\<close> x86.app_shadow sane_disjoint(1) [OF linux_64_sane]
    unfolding writes_only_def app_only_def by blast
  then show ?thesis by (auto simp: poisoned_def)
qed

lemma interceptsI:
  assumes "writes_only real (rmem st) A" and "app_only A"
    and "f st = Some (Ok (Returned (snd (real (rmem st))), set_rmem m' st))" and "cleans W (fst (real (rmem st))) m'"
  shows "intercepts real f st W"
  using assms poisoned_real [OF assms(1,2)] by (auto simp: intercepts_def cleans_def)

text \<open>The shapes the interceptors share: a call, then marking when the result says so.\<close>

lemma conditional_mark:
  fixes real :: "'a real"
  assumes "ready c st" and "r = snd (real (rmem st))" and "W = (if P r then bytes (A r) (N r) else {})"
    and "writes_only real (rmem st) W" and "P r \<Longrightarrow> app_range linux_64 (A r) (N r)"
  shows "intercepts real (andthen (ensure_inited c) (\<lambda>_. andthen (call_real real) (\<lambda>res.
      andthen (when_act (P res) (unpoison c (A res) (N res))) (\<lambda>_. ret res)))) st W"
    and "intercepts real (andthen (ensure_inited c) (\<lambda>_. in_scope (andthen (call_real real) (\<lambda>res.
      andthen (when_act (P res) (unpoison c (A res) (N res))) (\<lambda>_. ret res))))) st W"
proof -
  have app: "app_only W" using assms(3,5) by (auto simp: app_only_bytes)
  let ?m = "if P r then real_memset (fst (real (rmem st))) (MEM_TO_SHADOW linux_64 (A r)) 0 (N r) else fst (real (rmem st))"
  have cl: "cleans W (fst (real (rmem st))) ?m" using assms(3,5) by (simp add: cleans_range)
  show "intercepts real (andthen (ensure_inited c) (\<lambda>_. andthen (call_real real) (\<lambda>res.
      andthen (when_act (P res) (unpoison c (A res) (N res))) (\<lambda>_. ret res)))) st W"
    using assms(1,2,5) by (intro interceptsI [OF assms(4) app _ cl]) (simp add: act_eval)
  show "intercepts real (andthen (ensure_inited c) (\<lambda>_. in_scope (andthen (call_real real) (\<lambda>res.
      andthen (when_act (P res) (unpoison c (A res) (N res))) (\<lambda>_. ret res))))) st W"
    using assms(1,2,5) by (intro interceptsI [OF assms(4) app _ cl]) (simp add: act_eval)
qed

lemma marked_call_intercepts:
  assumes "ready c st" and "writes_only real (rmem st) (bytes dest n)" and "app_range linux_64 dest n"
  shows "intercepts real (marked_call c real dest n) st (bytes dest n)"
  using assms by (intro interceptsI [OF _ app_only_bytes _ cleans_range]) (simp_all add: marked_call_def act_eval)

lemma filled_intercepts:
  assumes "ready c st" and "W = (if snd (real (rmem st)) = 0 then bytes buf sz else {})"
    and "writes_only real (rmem st) W" and "app_range linux_64 buf sz"
  shows "intercepts real (filled_on_success c real buf sz) st W"
  using conditional_mark(1) [where P = "\<lambda>r. r = 0" and A = "\<lambda>_. buf" and N = "\<lambda>_. sz", OF assms(1) refl assms(2,3)] assms(4)
  by (simp add: filled_on_success_def)

lemma marked_if_intercepts:
  assumes "ready c st" and "W = (if snd (real (rmem st)) = 0 \<and> buf \<noteq> 0 then bytes buf sz else {})"
    and "writes_only real (rmem st) W" and "buf \<noteq> 0 \<Longrightarrow> app_range linux_64 buf sz"
  shows "intercepts real (marked_if c real buf sz) st W"
  using conditional_mark(1) [where P = "\<lambda>r. r = 0 \<and> buf \<noteq> 0" and A = "\<lambda>_. buf" and N = "\<lambda>_. sz", OF assms(1) refl assms(2,3)] assms(4)
  by (simp add: marked_if_def)

lemma intercepts_guarded: "ready c st \<Longrightarrow> intercepts real (if_running f g) st W \<longleftrightarrow> intercepts real g st W"
  by (simp add: intercepts_def if_running_ready)

text \<open>A string function marks a range whose length it computed before the call.\<close>

lemma measured_intercepts:
  assumes "ready c st" and "writes_only real (rmem st) (bytes a n)" and "app_range linux_64 a n"
    and "f st = (andthen (call_real real) (\<lambda>res. andthen (unpoison c a n) (\<lambda>_. ret res))) st"
  shows "intercepts real f st (bytes a n)"
  using assms by (intro interceptsI [OF _ app_only_bytes _ cleans_range]) (simp_all add: act_eval)

text \<open>A check of no bytes, the one in front of a string when \<^verbatim>\<open>strict_string_checks\<close> is off, changes nothing.\<close>

lemma test_shadow_empty: "cqmsan_test_shadow p m a 0 = Ok (-1)"
  by (simp add: cqmsan_test_shadow_def mem_is_zero_def Let_def first_set.simps)

lemma check_string_lax:
  assumes "\<not> strict_string_checks c" and "internal_strlen (rmem st) x = Some n"
  shows "CHECK_UNPOISONED_STRING c x 0 st = Some (Ok (Returned (), st))"
  using assms by (simp add: CHECK_UNPOISONED_STRING_def andthen_def read_mem_def ret_def check_unpoisoned_def CHECK_UNPOISONED_def
      CHECK_UNPOISONED_0_FAST_def test_shadow_empty)

section \<open>Block functions\<close>

text \<open>A routine that fills \<open>n\<close> bytes from \<open>d\<close> on and nothing else, with further arguments \<open>v\<close>.\<close>

locale block_writer =
  fixes w :: "'v \<Rightarrow> memory \<Rightarrow> uptr \<Rightarrow> uptr \<Rightarrow> memory"
  assumes frame: "\<not> in_range x d n \<Longrightarrow> w v m d n x = m x"
begin

lemma writes: "writes_only (\<lambda>m. (w v m d n, r)) m (bytes d n)"
  by (simp add: writes_only_def frame)

lemma block_intercepts:
  assumes "ready c st" and "\<not> rc_in_symbolizer (ic_rep (kc_init c))" and "app_range linux_64 d n"
  shows "intercepts (\<lambda>m. (w v m d n, d)) (block_function c i (\<lambda>m. w v m d n) d n) st (bytes d n)"
proof (rule measured_intercepts [OF assms(1) writes assms(3)])
  show "block_function c i (\<lambda>m. w v m d n) d n st =
      andthen (call_real (\<lambda>m. (w v m d n, d))) (\<lambda>res. andthen (unpoison c d n) (\<lambda>_. ret res)) st"
    using assms(1,2) by (simp add: block_function_def ready_def ensure_inited_ready andthen_def [of "ensure_inited c"])
qed

lemma block_unmarked:
  assumes "rinited st" and "rrunning st \<or> rc_in_symbolizer (ic_rep (kc_init c))"
  shows "block_function c i (\<lambda>m. w v m d n) d n st = Some (Ok (Returned d, set_rmem (w v (rmem st) d n) st))"
  using assms by (simp add: block_function_def call_real_eq)

end

interpretation fill: block_writer "\<lambda>v m d n. real_memset m d v n"
  by unfold_locales (rule real_memset_out)

interpretation move: block_writer "\<lambda>s m d n. real_memmove m d s n"
  by unfold_locales (rule real_memmove_out)

section \<open>Properties\<close>


definition example_kctx :: kctx where
  "example_kctx = \<lparr>kc_init = example_ictx, kc_pc = 0x401000, kc_bp = 0x7ffe00400000, strict_string_checks = False,
     errno_location = 0x7f0000000100, environ_loc = 0x7f0000003000, tzname_loc = 0x7f0000003100, struct_stat_sz = 144, struct_stat64_sz = 144,
     struct_rlimit_sz = 16, struct_rlimit64_sz = 16, struct_epoll_event_sz = 12, struct_rusage_sz = 144, pthread_t_sz = 8,
     struct_ElfW_Phdr_sz = 56\<rparr>"

lemma example_ready: "ready example_kctx (example_rt m)"
  using example_env_ok by (simp add: ready_def example_kctx_def example_ictx_def example_rctx_def example_rt_def)




text \<open>
  C23. Results through pointers. If the library's function fills the structure exactly when it succeeds, the interceptor is that function to
  the program, and marks the whole structure on success and nothing on failure.
\<close>

theorem out_parameters_exact:
  fixes real :: "int real"
  assumes "ready c st" and "W = (if snd (real (rmem st)) = 0 then bytes buf sz else {})"
    and "writes_only real (rmem st) W" and "app_range linux_64 buf sz" and "buf \<noteq> 0"
  shows "(sz = struct_stat_sz c \<longrightarrow> intercepts real (fstat c real buf) st W \<and> intercepts real (fxstat c real buf) st W \<and>
      intercepts real (fstatat c real buf) st W \<and> intercepts real (fxstatat c real buf) st W) \<and>
    (sz = struct_stat64_sz c \<longrightarrow> intercepts real (fstat64 c real buf) st W \<and> intercepts real (fxstat64 c real buf) st W \<and>
      intercepts real (fstatat64 c real buf) st W \<and> intercepts real (fxstatat64 c real buf) st W) \<and>
    (sz = struct_rusage_sz c \<longrightarrow> intercepts real (getrusage c real buf) st W) \<and>
    (sz = struct_rlimit_sz c \<longrightarrow> intercepts real (getrlimit c real buf) st W \<and> intercepts real (getrlimit_alias c real' real buf) st W) \<and>
    (sz = struct_rlimit64_sz c \<longrightarrow> intercepts real (getrlimit64 c real buf) st W) \<and>
    (sz = 8 \<longrightarrow> intercepts real (pipe c real buf) st W \<and> intercepts real (pipe2 c real buf) st W \<and> intercepts real (socketpair c real buf) st W \<and>
      intercepts real (pthread_join c real buf) st W \<and> intercepts real (pthread_tryjoin_np c real buf) st W \<and>
      intercepts real (pthread_timedjoin_np c real buf) st W) \<and>
    (sz = 4 \<longrightarrow> intercepts real (pthread_key_create c real buf) st W) \<and>
    (sz = pthread_t_sz c \<longrightarrow> intercepts real (pthread_create c (\<lambda>_. real) buf routine param) st W)"
proof -
  note filled = filled_intercepts [OF assms(1-4)]
  have "intercepts real (marked_if c real buf sz) st W"
    using assms by (intro marked_if_intercepts) simp_all
  moreover have "pthread_create c (\<lambda>_. real) buf routine param = filled_on_success c real buf (pthread_t_sz c)"
    by (simp add: pthread_create_def filled_on_success_def)
  ultimately show ?thesis
    using filled
    by (auto simp: fstat_def fxstat_def fstatat_def fxstatat_def fstat64_def fxstat64_def fstatat64_def fxstatat64_def getrusage_def
        getrlimit_def getrlimit_alias_def INTERCEPTOR_GETRLIMIT_BODY_def getrlimit64_def pipe_def pipe2_def socketpair_def
        pthread_join_def pthread_tryjoin_np_def pthread_timedjoin_np_def pthread_key_create_def intercepts_guarded [OF assms(1)])
qed

theorem out_parameters_exact_witness:
  "intercepts (\<lambda>m. (real_memset m 0x700000000200 5 8, 0)) (pipe example_kctx (\<lambda>m. (real_memset m 0x700000000200 5 8, 0)) 0x700000000200)
     (example_rt (\<lambda>_. 1)) (bytes 0x700000000200 8) \<and>
   intercepts (\<lambda>m. (m, -1)) (pipe example_kctx (\<lambda>m. (m, -1)) 0x700000000200) (example_rt (\<lambda>_. 1)) {}"
proof -
  have a: "app_range linux_64 0x700000000200 8" by (simp add: app_range_def fits_def linux_64_sel)
  have w: "writes_only (\<lambda>m. (real_memset m 0x700000000200 5 8, 0 :: int)) (rmem (example_rt (\<lambda>_. 1))) (bytes 0x700000000200 8)"
    by (rule fill.writes)
  have "writes_only (\<lambda>m. (m, -1 :: int)) (rmem (example_rt (\<lambda>_. 1))) {}" by (simp add: writes_only_def)
  then show ?thesis
    using out_parameters_exact [OF example_ready _ w a] out_parameters_exact [where W = "{}" and st = "example_rt (\<lambda>_. 1)" and real = "\<lambda>m. (m, -1)", OF example_ready _ _ a] by simp
qed

section \<open>Walks\<close>

lemma agree_load64:
  assumes "app_range linux_64 a n" and "\<forall>x. MEM_IS_APP linux_64 x \<longrightarrow> m' x = m x" and "i + 8 \<le> n" and "i \<le> i + 8"
  shows "load64 m' (a + i) = load64 m (a + i)"
proof (rule load64_cong)
  fix j :: uptr assume j: "j < 8"
  have i8: "unat (i + 8) = unat i + 8" using assms(4) by (simp add: unat_plus_simple)
  moreover have j8: "unat j < 8" using j by (simp add: word_less_nat_alt)
  moreover have "unat (i + j) = unat i + unat j"
    using i8 j8 unat64_less [of "i + 8"] by (subst unat_add_lem [THEN iffD1]) simp_all
  ultimately have "i + j < n" using assms(3) by (simp add: word_less_nat_alt word_le_nat_alt)
  then show "m' (a + i + j) = m (a + i + j)"
    using app_range_app [OF assms(1), of "i + j"] assms(2) by (simp add: add.assoc)
qed

text \<open>A string in application memory, and that it is the same in a memory that agrees there.\<close>

definition app_string :: "memory \<Rightarrow> uptr \<Rightarrow> u8 list \<Rightarrow> bool" where
  "app_string m v s \<longleftrightarrow> cstring m v s \<and> length s + 1 < 2 ^ 64 \<and> app_range linux_64 v (of_nat (length s) + 1)"

lemma agree_string:
  assumes "app_string m v s" and "\<forall>x. MEM_IS_APP linux_64 x \<longrightarrow> m' x = m x"
  shows "app_string m' v s"
proof -
  have "m' (v + of_nat i) = m (v + of_nat i)" if "i \<le> length s" for i
  proof -
    have "unat (of_nat i :: uptr) = i" "unat (of_nat (length s) + 1 :: uptr) = length s + 1"
      using that assms(1) unat_of_nat64 [of "length s + 1"] unat_of_nat64 [of i] by (simp_all add: app_string_def add.commute)
    then have "of_nat i < (of_nat (length s) + 1 :: uptr)" using that by (simp add: word_less_nat_alt)
    then have "MEM_IS_APP linux_64 (v + of_nat i)" using assms(1) app_range_app by (auto simp: app_string_def)
    then show ?thesis using assms(2) by simp
  qed
  then show ?thesis using assms(1) by (simp add: app_string_def cstring_def)
qed

subsection \<open>The environment\<close>

fun env_block :: "memory \<Rightarrow> uptr \<Rightarrow> (uptr \<times> u8 list) list \<Rightarrow> bool" where
  "env_block m envp [] \<longleftrightarrow> app_range linux_64 envp 8 \<and> load64 m envp = 0"
| "env_block m envp ((v, s) # vs) \<longleftrightarrow>
    app_range linux_64 envp 8 \<and> load64 m envp = v \<and> v \<noteq> 0 \<and> app_string m v s \<and> env_block m (envp + 8) vs"

fun env_bytes :: "uptr \<Rightarrow> (uptr \<times> u8 list) list \<Rightarrow> uptr set" where
  "env_bytes envp [] = bytes envp 8"
| "env_bytes envp ((v, s) # vs) = bytes envp 8 \<union> bytes v (of_nat (length s) + 1) \<union> env_bytes (envp + 8) vs"

lemma agree_env:
  "env_block m envp vs \<Longrightarrow> \<forall>x. MEM_IS_APP linux_64 x \<longrightarrow> m' x = m x \<Longrightarrow> env_block m' envp vs"
proof (induction m envp vs rule: env_block.induct)
  case (1 m envp)
  then show ?case using agree_load64 [of envp 8 m' m 0] by simp
next
  case (2 m envp v s vs)
  then show ?case using agree_load64 [of envp 8 m' m 0] agree_string [of m v s m'] by simp
qed

lemma cleans_agree: "cleans W m m' \<Longrightarrow> \<forall>x. MEM_IS_APP linux_64 x \<longrightarrow> m' x = m x"
  by (simp add: cleans_def)

lemma unpoison_env_cleans:
  assumes "env_ok e" and "\<not> flip e" and "env_block m envp vs"
  shows "\<exists>m'. unpoison_env linux_64 e m envp = Some (Ok m') \<and> cleans (env_bytes envp vs) m m'"
  using assms(3)
proof (induction vs arbitrary: m envp)
  case Nil
  then have r: "app_range linux_64 envp 8" by simp
  obtain m' where "cqmsan_unpoison linux_64 e m envp 8 = Ok m'" "cleans (bytes envp 8) m m'"
    by (rule unpoison_cleans [OF assms(1,2) r])
  then show ?case using Nil by (subst unpoison_env.simps) simp
next
  case (Cons x vs)
  obtain v s where x: "x = (v, s)" by (cases x)
  have r: "app_range linux_64 envp 8" using Cons.prems by (simp add: x)
  obtain m1 where m1: "cqmsan_unpoison linux_64 e m envp 8 = Ok m1" and c1: "cleans (bytes envp 8) m m1"
    by (rule unpoison_cleans [OF assms(1,2) r])
  note a1 = cleans_agree [OF c1]
  have s1: "app_string m1 v s" using Cons.prems agree_string [OF _ a1] by (simp add: x)
  then have r1: "app_range linux_64 v (of_nat (length s) + 1)" by (simp add: app_string_def)
  obtain m2 where m2: "cqmsan_unpoison linux_64 e m1 v (of_nat (length s) + 1) = Ok m2"
    and c2: "cleans (bytes v (of_nat (length s) + 1)) m1 m2"
    by (rule unpoison_cleans [OF assms(1,2) r1])
  have "env_block m2 (envp + 8) vs" using Cons.prems agree_env [of m "envp + 8" vs m2] a1 cleans_agree [OF c2] by (simp add: x)
  from Cons.IH [OF this] obtain m' where m': "unpoison_env linux_64 e m2 (envp + 8) = Some (Ok m')"
    and c': "cleans (env_bytes (envp + 8) vs) m2 m'" by blast
  have "unpoison_env linux_64 e m envp = Some (Ok m')"
    using Cons.prems m1 m2 m' strlen_cstring [of m1 v s] s1
    by (subst unpoison_env.simps) (simp add: x Let_def app_string_def)
  moreover have "cleans (env_bytes envp (x # vs)) m m'"
    using cleans_trans [OF cleans_trans [OF c1 c2] c'] by (simp add: x)
  ultimately show ?case by blast
qed

subsection \<open>Loaded objects\<close>

fun link_chain :: "uptr \<Rightarrow> memory \<Rightarrow> uptr \<Rightarrow> (uptr \<times> u8 list option) list \<Rightarrow> bool" where
  "link_chain field m ptr [] \<longleftrightarrow> ptr = 0"
| "link_chain field m ptr ((q, name) # ls) \<longleftrightarrow>
    ptr = q \<and> q \<noteq> 0 \<and> app_range linux_64 q 40 \<and>
    (case name of None \<Rightarrow> load64 m (q + 8) = 0 | Some s \<Rightarrow> load64 m (q + 8) \<noteq> 0 \<and> app_string m (load64 m (q + 8)) s) \<and>
    link_chain field m (load64 m (q + field)) ls"

fun link_bytes :: "memory \<Rightarrow> (uptr \<times> u8 list option) list \<Rightarrow> uptr set" where
  "link_bytes m [] = {}"
| "link_bytes m ((q, name) # ls) =
    bytes q 40 \<union> (case name of None \<Rightarrow> {} | Some s \<Rightarrow> bytes (load64 m (q + 8)) (of_nat (length s) + 1)) \<union> link_bytes m ls"

lemma agree_links:
  assumes "link_chain field m ptr ls" and "\<forall>x. MEM_IS_APP linux_64 x \<longrightarrow> m' x = m x" and "field = 24 \<or> field = 32"
  shows "link_chain field m' ptr ls" and "link_bytes m' ls = link_bytes m ls"
proof -
  have "link_chain field m' ptr ls \<and> link_bytes m' ls = link_bytes m ls"
    using assms
  proof (induction field m ptr ls rule: link_chain.induct)
    case (2 field m ptr q name ls)
    have "load64 m' (q + 8) = load64 m (q + 8)" "load64 m' (q + field) = load64 m (q + field)"
      using "2.prems" agree_load64 [of q 40 m' m] by auto
    then show ?case using 2 agree_string [OF _ "2.prems"(2)] by (auto split: option.splits)
  qed simp
  then show "link_chain field m' ptr ls" "link_bytes m' ls = link_bytes m ls" by simp_all
qed

lemma walk_links_cleans:
  assumes "env_ok e" and "\<not> flip e" and "link_chain field m ptr ls" and "field = 24 \<or> field = 32"
  shows "\<exists>m'. walk_links field linux_64 e m ptr = Some (Ok m') \<and> cleans (link_bytes m ls) m m'"
  using assms(3)
proof (induction ls arbitrary: m ptr)
  case Nil
  then show ?case by (subst walk_links.simps) simp
next
  case (Cons x ls)
  obtain q name where x: "x = (q, name)" by (cases x)
  have r: "app_range linux_64 q 40" using Cons.prems by (simp add: x)
  obtain m1 where m1: "cqmsan_unpoison linux_64 e m q 40 = Ok m1" and c1: "cleans (bytes q 40) m m1"
    by (rule unpoison_cleans [OF assms(1,2) r])
  note a1 = cleans_agree [OF c1]
  note l1 = agree_links [OF Cons.prems a1 assms(4)]
  have n1: "load64 m1 (q + 8) = load64 m (q + 8)"
    using Cons.prems a1 agree_load64 [of q 40 m1 m 8] by (simp add: x)
  obtain m2 where m2: "unpoison_link linux_64 e m q = Some (Ok m2)"
    and c2: "cleans (case name of None \<Rightarrow> {} | Some s \<Rightarrow> bytes (load64 m (q + 8)) (of_nat (length s) + 1)) m1 m2"
  proof (cases name)
    case None
    then show thesis using that [of m1] m1 Cons.prems n1 by (simp add: unpoison_link_def x)
  next
    case (Some s)
    have s1: "app_string m1 (load64 m (q + 8)) s" and nz: "load64 m (q + 8) \<noteq> 0" using l1(1) Some n1 by (simp_all add: x)
    have r1: "app_range linux_64 (load64 m (q + 8)) (of_nat (length s) + 1)" using s1 by (simp add: app_string_def)
    obtain m2 where "cqmsan_unpoison linux_64 e m1 (load64 m (q + 8)) (of_nat (length s) + 1) = Ok m2"
      and "cleans (bytes (load64 m (q + 8)) (of_nat (length s) + 1)) m1 m2"
      by (rule unpoison_cleans [OF assms(1,2) r1])
    then show thesis using that [of m2] m1 n1 nz s1 Some strlen_cstring [of m1 _ s] by (simp add: unpoison_link_def app_string_def)
  qed
  note l2 = agree_links [OF l1(1) cleans_agree [OF c2] assms(4)]
  have "link_chain field m2 (load64 m2 (q + field)) ls" using l2(1) by (simp add: x)
  from Cons.IH [OF this] obtain m' where m': "walk_links field linux_64 e m2 (load64 m2 (q + field)) = Some (Ok m')"
    and c': "cleans (link_bytes m2 ls) m2 m'" by blast
  have tail: "link_chain field m (load64 m (q + field)) ls" using Cons.prems by (simp add: x)
  have "\<forall>x. MEM_IS_APP linux_64 x \<longrightarrow> m2 x = m x" using a1 cleans_agree [OF c2] by simp
  then have "link_bytes m2 ls = link_bytes m ls" by (rule agree_links(2) [OF tail _ assms(4)])
  then have "cleans (link_bytes m (x # ls)) m m'" using cleans_trans [OF cleans_trans [OF c1 c2] c'] by (simp add: x)
  moreover have "walk_links field linux_64 e m ptr = Some (Ok m')"
    using Cons.prems m2 m' by (subst walk_links.simps) (simp add: x del: walk_links.simps)
  ultimately show ?case by blast
qed

text \<open>
  After a successful \<^verbatim>\<open>putenv\<close> or \<^verbatim>\<open>setenv\<close> the walk over the environment ends, and exactly the array with its
  terminating null pointer and every string in it have become initialised; after a failure nothing has.
\<close>

theorem environment_marked:
  assumes "ready c st" and "\<not> strict_string_checks c" and "cstring (rmem st) name ns"
    and "writes_only real (rmem st) A" and "app_only A" and "m1 = fst (real (rmem st))" and "envp = load64 m1 (environ_loc c)"
    and "env_block m1 envp vs" and "W = (if snd (real (rmem st)) = 0 then env_bytes envp vs else {})"
  shows "intercepts real (putenv c real) st W \<and> intercepts real (setenv c real name) st W"
proof -
  have c: "kc_plat c = linux_64" "env_ok (kc_env c)" "\<not> flip (kc_env c)" using assms(1) by (simp_all add: ready_def)
  obtain m2 where m2: "unpoison_env linux_64 (kc_env c) m1 envp = Some (Ok m2)" "cleans (env_bytes envp vs) m1 m2"
    using unpoison_env_cleans [OF c(2,3) assms(8)] by blast
  then have walk: "UnpoisonEnviron c (set_rmem m1 st) = Some (Ok (Returned (), set_rmem m2 st))"
    using assms(7) c(1) by (simp add: UnpoisonEnviron_def)
  define m' where "m' = (if snd (real (rmem st)) = 0 then m2 else m1)"
  have put: "putenv c real st = Some (Ok (Returned (snd (real (rmem st))), set_rmem m' st))"
    using assms(1) walk by (simp add: putenv_def act_eval m'_def flip: assms(6))
  have set: "setenv c real name st = putenv c real st"
    using assms(1) check_string_lax [OF assms(2) strlen_cstring [OF assms(3)]] by (simp add: setenv_def putenv_def act_eval)
  have "cleans W (fst (real (rmem st))) m'" using m2(2) assms(6,9) by (simp add: m'_def)
  then show ?thesis using interceptsI [OF assms(4,5)] put set by metis
qed

definition env_memory :: memory where
  "env_memory = (\<lambda>a. if a = 0x7f0000003000 \<or> a = 0x7f0000004010 then 0x10 else if a = 0x7f0000003005 \<or> a = 0x7f0000004015 then 0x7f
     else if a = 0x7f0000003001 then 0x40 else if a = 0x7f0000004011 then 0x50
     else if a = 0x7f0000005010 then 65 else if a = 0x7f0000005011 then 61 else 0)"

lemma env_memory_block: "env_block env_memory 0x7f0000004010 [(0x7f0000005010, [65, 61])]"
proof -
  have "load64 env_memory 0x7f0000004010 = 0x7f0000005010" "load64 env_memory 0x7f0000004018 = 0"
    by (simp_all add: env_memory_def load64_def load32_def)
  moreover have "cstring env_memory 0x7f0000005010 [65, 61]"
    by (simp add: cstring_def env_memory_def All_less_Suc)
  ultimately show ?thesis by (simp add: app_string_def app_range_def fits_def linux_64_sel)
qed

theorem environment_marked_witness:
  "intercepts (\<lambda>m. (m, 0)) (putenv example_kctx (\<lambda>m. (m, 0))) (example_rt env_memory)
     (bytes 0x7f0000004010 8 \<union> bytes 0x7f0000005010 3 \<union> bytes 0x7f0000004018 8)"
proof -
  have m: "rmem (example_rt env_memory) = env_memory" by (simp add: example_rt_def)
  have s: "\<not> strict_string_checks example_kctx" "environ_loc example_kctx = 0x7f0000003000" by (simp_all add: example_kctx_def)
  have e: "0x7f0000004010 = load64 env_memory (environ_loc example_kctx)"
    unfolding s(2) by (simp add: env_memory_def load64_def load32_def)
  have n: "cstring (rmem (example_rt env_memory)) 0x7f0000005010 [65, 61]"
    using env_memory_block by (simp add: m app_string_def)
  have w: "writes_only (\<lambda>m. (m, 0 :: int)) (rmem (example_rt env_memory)) {}" by (simp add: writes_only_def)
  show ?thesis
    using environment_marked [where ?m1.0 = env_memory, OF example_ready s(1) n w _ _ e env_memory_block refl] by (simp add: m)
qed

text \<open>
  C24. For \<^verbatim>\<open>dladdr1\<close> with \<^verbatim>\<open>RTLD_DL_LINKMAP\<close> both walks along the list of loaded objects end, and exactly the pointer,
  every object reached forwards and backwards and the names of these objects have become initialised.
\<close>

theorem loaded_objects_marked:
  assumes "ready c st" and "app_range linux_64 extra 8" and "lmap = load64 (rmem st) extra"
    and "link_chain 24 (rmem st) lmap fs"
    and "if lmap = 0 then bs = [] else link_chain 32 (rmem st) (load64 (rmem st) (lmap + 32)) bs"
  shows "\<exists>m'. UnpoisonDllAddr1ExtraInfo c extra RTLD_DL_LINKMAP st = Some (Ok (Returned (), set_rmem m' st)) \<and>
    cleans (bytes extra 8 \<union> link_bytes (rmem st) fs \<union> link_bytes (rmem st) bs) (rmem st) m'"
proof -
  let ?m = "rmem st"
  have c: "kc_plat c = linux_64" "env_ok (kc_env c)" "\<not> flip (kc_env c)" using assms(1) by (simp_all add: ready_def)
  define m1 where "m1 = real_memset ?m (MEM_TO_SHADOW linux_64 extra) 0 8"
  have c1: "cleans (bytes extra 8) ?m m1" unfolding m1_def by (rule cleans_range [OF assms(2)])
  note a1 = cleans_agree [OF c1]
  have lmap: "load64 m1 extra = lmap" using agree_load64 [OF assms(2) a1, of 0] assms(3) by simp
  note f1 = agree_links [OF assms(4) a1 disjI1 [OF refl]]
  obtain m2 where m2: "walk_links 24 linux_64 (kc_env c) m1 lmap = Some (Ok m2)" and c2: "cleans (link_bytes ?m fs) m1 m2"
    using walk_links_cleans [OF c(2,3) f1(1) disjI1 [OF refl]] f1(2) by auto
  have a2: "\<forall>x. MEM_IS_APP linux_64 x \<longrightarrow> m2 x = ?m x" using a1 cleans_agree [OF c2] by simp
  note c12 = cleans_trans [OF c1 c2]
  have step: "UnpoisonDllAddr1ExtraInfo c extra RTLD_DL_LINKMAP st =
      (if lmap = 0 then ret () else lift_opt (\<lambda>m. walk_links 32 linux_64 (kc_env c) m (load64 m (lmap + 32)))) (set_rmem m2 st)"
    using assms(1,2) lmap m2 c(1) unfolding m1_def
    by (simp add: UnpoisonDllAddr1ExtraInfo_def RTLD_DL_LINKMAP_def RTLD_DL_SYMENT_def act_eval lift_opt_def)
  show ?thesis
  proof (cases "lmap = 0")
    case True
    then show ?thesis using step c12 assms(5) by (auto simp: ret_def)
  next
    case False
    then have bs: "link_chain 32 ?m (load64 ?m (lmap + 32)) bs" using assms(5) by simp
    obtain ls where "fs = (lmap, snd (hd fs)) # ls" using assms(4) False by (cases fs) auto
    then have "app_range linux_64 lmap 40" using assms(4) by (metis link_chain.simps(2))
    then have prev: "load64 m2 (lmap + 32) = load64 ?m (lmap + 32)" using agree_load64 [OF _ a2, of lmap 40 32] by simp
    note b = agree_links [OF bs a2 disjI2 [OF refl]]
    obtain m3 where m3: "walk_links 32 linux_64 (kc_env c) m2 (load64 m2 (lmap + 32)) = Some (Ok m3)" and c3: "cleans (link_bytes ?m bs) m2 m3"
      using walk_links_cleans [OF c(2,3) b(1) disjI2 [OF refl]] b(2) prev by auto
    show ?thesis using step False m3 cleans_trans [OF c12 c3] by (auto simp: lift_opt_def)
  qed
qed

definition link_memory :: memory where
  "link_memory = (\<lambda>a. if a = 0x7f0000003001 then 0x40 else if a = 0x7f0000003005 then 0x7f else 0)"

lemma link_memory_eval:
  "load64 link_memory 0x7f0000003000 = 0x7f0000004000" "load64 link_memory 0x7f0000004008 = 0"
  "load64 link_memory 0x7f0000004018 = 0" "load64 link_memory 0x7f0000004020 = 0"
  by (simp_all add: link_memory_def load64_def load32_def)

theorem loaded_objects_marked_witness:
  "\<exists>m'. UnpoisonDllAddr1ExtraInfo example_kctx 0x7f0000003000 RTLD_DL_LINKMAP (example_rt link_memory) =
      Some (Ok (Returned (), set_rmem m' (example_rt link_memory))) \<and>
    cleans (bytes 0x7f0000003000 8 \<union> bytes 0x7f0000004000 40) link_memory m'"
proof -
  have m: "rmem (example_rt link_memory) = link_memory" by (simp add: example_rt_def)
  have "app_range linux_64 0x7f0000003000 8" "app_range linux_64 0x7f0000004000 40" by (simp_all add: app_range_def fits_def linux_64_sel)
  then show ?thesis
    using loaded_objects_marked [where extra = "0x7f0000003000" and lmap = "0x7f0000004000" and fs = "[(0x7f0000004000, None)]" and bs = "[]",
        OF example_ready [of link_memory]] link_memory_eval by (simp add: m)
qed

text \<open>
  Results with a count. Reads, event lists and wide formatted output mark exactly as many elements as the library's function says it
  stored, and a conversion marks its one character; a negative answer marks nothing.
\<close>

theorem counted_results_exact:
  fixes f :: "uptr real" and g :: "int real"
  assumes "ready c st" and "app_range linux_64 buf k" and "buf \<noteq> 0"
    and "writes_only f (rmem st) (bytes buf k)" and "writes_only g (rmem st) W"
    and "W = (if snd (g (rmem st)) < 0 then {} else bytes buf k)"
  shows "(k = snd (f (rmem st)) * sz \<longrightarrow> intercepts f (fread_unlocked c f buf sz) st (bytes buf k)) \<and>
    (k = struct_epoll_event_sz c * word_of_int (snd (g (rmem st))) \<longrightarrow>
      intercepts g (epoll_wait c g buf) st W \<and> intercepts g (epoll_pwait c g buf) st W) \<and>
    (k = 4 * (word_of_int (snd (g (rmem st))) + 1) \<longrightarrow> intercepts g (vswprintf c g buf) st W \<and> intercepts g (swprintf c g buf) st W) \<and>
    (k = 4 \<and> snd (g (rmem st)) \<ge> -1 \<longrightarrow> intercepts g (mbtowc c g buf) st W)"
proof -
  have fread: "intercepts f (fread_unlocked c f buf sz) st (bytes buf k)" if "k = snd (f (rmem st)) * sz"
  proof -
    have e: "bytes buf k = (if 0 < snd (f (rmem st)) then bytes buf (snd (f (rmem st)) * sz) else {})"
      using that by (auto simp: word_greater_zero_iff)
    show ?thesis
      unfolding fread_unlocked_def using conditional_mark(1) [where P = "\<lambda>r. 0 < r" and A = "\<lambda>_. buf" and N = "\<lambda>r. r * sz",
        OF assms(1) refl e assms(4)] assms(2) that by simp
  qed
  have epoll: "intercepts g (epoll_wait c g buf) st W" if "k = struct_epoll_event_sz c * word_of_int (snd (g (rmem st)))"
  proof -
    have e: "W = (if 0 < snd (g (rmem st)) then bytes buf (struct_epoll_event_sz c * word_of_int (snd (g (rmem st)))) else {})"
      using that assms(6) by (cases "snd (g (rmem st)) = 0") auto
    show ?thesis
      unfolding epoll_wait_def
      using conditional_mark(1) [where P = "\<lambda>r. 0 < r" and A = "\<lambda>_. buf" and N = "\<lambda>r. struct_epoll_event_sz c * word_of_int r", OF assms(1) refl e assms(5)] assms(2) that by simp
  qed
  have print: "intercepts g (vswprintf c g buf) st W" if "k = 4 * (word_of_int (snd (g (rmem st))) + 1)"
  proof -
    have e: "W = (if 0 \<le> snd (g (rmem st)) then bytes buf (word_of_int (4 * (snd (g (rmem st)) + 1))) else {})"
      using that assms(6) by simp
    show ?thesis
      unfolding vswprintf_def
      using conditional_mark(1) [where P = "\<lambda>r. 0 \<le> r" and A = "\<lambda>_. buf" and N = "\<lambda>r. word_of_int (4 * (r + 1))", OF assms(1) refl e assms(5)] assms(2) that by simp
  qed
  have conv: "intercepts g (mbtowc c g buf) st W" if "k = 4" "snd (g (rmem st)) \<ge> -1"
  proof -
    have e: "W = (if snd (g (rmem st)) \<noteq> -1 \<and> buf \<noteq> 0 then bytes buf 4 else {})" using that assms(3,6) by simp
    show ?thesis
      unfolding mbtowc_def
      using conditional_mark(1) [where P = "\<lambda>r. r \<noteq> -1 \<and> buf \<noteq> 0" and A = "\<lambda>_. buf" and N = "\<lambda>_. 4", OF assms(1) refl e assms(5)] assms(2) that by simp
  qed
  have "swprintf c g buf st = vswprintf c g buf st"
    using assms(1) by (simp add: swprintf_def andthen_def ensure_inited_ready)
  then show ?thesis using fread epoll print conv by (simp add: epoll_pwait_def intercepts_def)
qed

theorem counted_results_exact_witness:
  "intercepts (\<lambda>m. (real_memset m 0x700000000200 7 24, 2)) (epoll_wait example_kctx (\<lambda>m. (real_memset m 0x700000000200 7 24, 2)) 0x700000000200)
     (example_rt (\<lambda>_. 1)) (bytes 0x700000000200 24)"
proof -
  have a: "app_range linux_64 0x700000000200 24" by (simp add: app_range_def fits_def linux_64_sel)
  have w: "writes_only (\<lambda>m. (real_memset m 0x700000000200 7 24, r)) (rmem (example_rt (\<lambda>_. 1))) (bytes 0x700000000200 24)" for r :: 'r
    by (rule fill.writes)
  show ?thesis
    using counted_results_exact [OF example_ready a _ w [of 24] w [of 2]] by (simp add: example_kctx_def)
qed

text \<open>
  C25. \<^verbatim>\<open>mmap\<close>. A fixed mapping with an end outside application memory fails with \<^verbatim>\<open>EINVAL\<close> and the system is not asked. A mapping that is
  returned has both ends in application memory; when the whole of it is, the program sees the system's answer, and exactly its pages have become initialised.
\<close>

theorem mmap_stays_in_application:
  assumes "ready c st" and "len = RoundUpTo length1 (PageSize (kc_env c))"
  shows "(addr \<noteq> 0 \<and> (\<not> MEM_IS_APP linux_64 addr \<or> \<not> MEM_IS_APP linux_64 (addr + (len - 1))) \<and> flags AND MAP_FIXED \<noteq> 0 \<longrightarrow>
      mmap_interceptor c real_mmap munmap addr length1 flags st =
        Some (Ok (Returned (-1), set_rmem (store32 (rmem st) (errno_location c) 22) st))) \<and>
    (\<forall>r st'. mmap_interceptor c real_mmap munmap addr length1 flags st = Some (Ok (Returned r, st')) \<and> r \<noteq> -1 \<longrightarrow>
      MEM_IS_APP linux_64 r \<and> MEM_IS_APP linux_64 (r + (len - 1))) \<and>
    (\<forall>r. snd (real_mmap addr (rmem st)) = r \<and> r \<noteq> -1 \<and> 0 < len \<and> app_range linux_64 r len \<and> app_range linux_64 addr len \<and>
      writes_only (real_mmap addr) (rmem st) (bytes r len) \<longrightarrow>
      intercepts (real_mmap addr) (mmap_interceptor c real_mmap munmap addr length1 flags) st (bytes r len))"
proof (intro conjI allI impI)
  have p: "kc_plat c = linux_64" using assms(1) by (simp add: ready_def)
  note m = mmap_interceptor_def Let_def p assms(2)
  show "mmap_interceptor c real_mmap munmap addr length1 flags st =
      Some (Ok (Returned (-1), set_rmem (store32 (rmem st) (errno_location c) 22) st))"
    if "addr \<noteq> 0 \<and> (\<not> MEM_IS_APP linux_64 addr \<or> \<not> MEM_IS_APP linux_64 (addr + (len - 1))) \<and> flags AND MAP_FIXED \<noteq> 0"
    using that by (simp add: m andthen_def set_errno_def lift_mem_def ret_def)
  show "MEM_IS_APP linux_64 r" "MEM_IS_APP linux_64 (r + (len - 1))"
    if "mmap_interceptor c real_mmap munmap addr length1 flags st = Some (Ok (Returned r, st')) \<and> r \<noteq> -1" for r st'
    using that by (auto simp: m andthen_returned ret_def call_real_eq split: if_splits)
  show "intercepts (real_mmap addr) (mmap_interceptor c real_mmap munmap addr length1 flags) st (bytes r len)"
    if "snd (real_mmap addr (rmem st)) = r \<and> r \<noteq> -1 \<and> 0 < len \<and> app_range linux_64 r len \<and> app_range linux_64 addr len \<and>
      writes_only (real_mmap addr) (rmem st) (bytes r len)" for r
  proof -
    have "0 < len" using that by simp
    then have last: "len - 1 < len" by unat_arith
    then have ends: "MEM_IS_APP linux_64 a" "MEM_IS_APP linux_64 (a + (len - 1))" if "app_range linux_64 a len" for a
      using app_range_app_0 [OF that \<open>0 < len\<close>] app_range_app [OF that last] by simp_all
    show ?thesis
      using that ends assms(1)
      by (intro measured_intercepts) (simp_all add: m call_real_eq andthen_def)
  qed
qed

theorem mmap_stays_in_application_witness:
  "intercepts (\<lambda>m. (real_memset m 0x700000000000 0 4096, 0x700000000000))
     (mmap_interceptor example_kctx (\<lambda>a m. (real_memset m a 0 4096, a)) (\<lambda>a n m. (m, ())) 0x700000000000 100 0)
     (example_rt (\<lambda>_. 1)) (bytes 0x700000000000 4096)"
proof -
  have l: "(4096 :: uptr) = RoundUpTo 100 (PageSize (kc_env example_kctx))"
    by (simp add: example_kctx_def example_ictx_def example_rctx_def example_env_def RoundUpTo_def)
  have a: "app_range linux_64 0x700000000000 4096" by (simp add: app_range_def fits_def linux_64_sel)
  have w: "writes_only (\<lambda>m. (real_memset m 0x700000000000 0 4096, 0x700000000000 :: uptr)) (rmem (example_rt (\<lambda>_. 1))) (bytes 0x700000000000 4096)"
    by (rule fill.writes)
  show ?thesis
    using mmap_stays_in_application [where st = "example_rt (\<lambda>_. 1)" and addr = "0x700000000000" and flags = 0
        and real_mmap = "\<lambda>a m. (real_memset m a 0 4096, a)" and munmap = "\<lambda>a n m. (m, ())", OF example_ready l] a w
    by simp
qed

text \<open>
  Three calls that do not do what they mean to. \<^verbatim>\<open>mbrtowc\<close> marks its result although the answer \<^verbatim>\<open>(size_t)-2\<close>, an incomplete
  character, stores nothing. \<^verbatim>\<open>mmap\<close> looks at the two ends of a fixed mapping only: a request that begins and ends in
  application memory and covers shadow in between goes to the system as it is. \<^verbatim>\<open>strftime\<close> with a buffer that is too small,
  answer 0, marks a byte.
\<close>

theorem interceptor_divergences:
  "(\<exists>a m'. a \<in> poisoned linux_64 (\<lambda>_. 1) \<and>
      mbrtowc example_kctx (\<lambda>m. (m, -2)) a (example_rt (\<lambda>_. 1)) = Some (Ok (Returned (-2), set_rmem m' (example_rt (\<lambda>_. 1)))) \<and>
      a \<notin> poisoned linux_64 m') \<and>
   (\<exists>addr len x. in_range x addr len \<and> MEM_IS_SHADOW linux_64 x \<and>
      (\<forall>f m. mmap_interceptor example_kctx (\<lambda>a m. (f a m, -1)) (\<lambda>a n m. (m, ())) addr len MAP_FIXED (example_rt m) =
        Some (Ok (Returned (-1), set_rmem (f addr m) (example_rt m))))) \<and>
   (\<exists>a m'. a \<in> poisoned linux_64 (\<lambda>_. 1) \<and>
      strftime example_kctx (\<lambda>m. (m, 0)) a (example_rt (\<lambda>_. 1)) = Some (Ok (Returned 0, set_rmem m' (example_rt (\<lambda>_. 1)))) \<and>
      a \<notin> poisoned linux_64 m')"
proof (intro conjI)
  let ?st = "example_rt (\<lambda>_. 1)" and ?a = "0x700000000200 :: uptr"
  have p: "?a \<in> poisoned linux_64 (\<lambda>_. 1)" by (simp add: poisoned_def layout_eval linux_64_sel)
  have w: "writes_only (\<lambda>m. (m, r)) m (bytes ?a k)" for r :: uptr and m k by (simp add: writes_only_def)
  have 4: "app_range linux_64 ?a 4" and 1: "app_range linux_64 ?a 1" by (simp_all add: app_range_def fits_def linux_64_sel)
  have "intercepts (\<lambda>m. (m, -2)) (mbrtowc example_kctx (\<lambda>m. (m, -2)) ?a) ?st (bytes ?a 4)"
    unfolding mbrtowc_def
    using conditional_mark(1) [where P = "\<lambda>r. r \<noteq> -1 \<and> ?a \<noteq> 0" and A = "\<lambda>_. ?a" and N = "\<lambda>_. 4" and W = "bytes ?a 4", OF example_ready refl _ w] 4 by simp
  then show "\<exists>a m'. a \<in> poisoned linux_64 (\<lambda>_. 1) \<and>
      mbrtowc example_kctx (\<lambda>m. (m, -2)) a ?st = Some (Ok (Returned (-2), set_rmem m' ?st)) \<and> a \<notin> poisoned linux_64 m'"
    using p unfolding intercepts_def by - (rule exI [of _ ?a], auto simp: in_range_def)
  have "intercepts (\<lambda>m. (m, 0)) (strftime example_kctx (\<lambda>m. (m, 0)) ?a) ?st (bytes ?a 1)"
    unfolding strftime_def INTERCEPTOR_STRFTIME_BODY_def
    using conditional_mark(2) [where P = "\<lambda>_. ?a \<noteq> 0" and A = "\<lambda>_. ?a" and N = "\<lambda>r. 1 * (r + 1)" and W = "bytes ?a 1"
        and real = "\<lambda>m. (m, 0)" and st = ?st, OF example_ready refl _ w] 1 by simp
  then show "\<exists>a m'. a \<in> poisoned linux_64 (\<lambda>_. 1) \<and>
      strftime example_kctx (\<lambda>m. (m, 0)) a ?st = Some (Ok (Returned 0, set_rmem m' ?st)) \<and> a \<notin> poisoned linux_64 m'"
    using p unfolding intercepts_def by - (rule exI [of _ ?a], auto simp: in_range_def)
next
  have "MEM_IS_SHADOW linux_64 0x020000000000" "in_range (0x020000000000 :: uptr) 0xfffffff000 0x500000002000"
    by (simp_all add: layout_eval linux_64_sel in_range_def)
  moreover have "mmap_interceptor example_kctx (\<lambda>a m. (f a m, -1)) (\<lambda>a n m. (m, ())) 0xfffffff000 0x500000002000 MAP_FIXED (example_rt m) =
      Some (Ok (Returned (-1), set_rmem (f 0xfffffff000 m) (example_rt m)))" for f m
    by (simp add: mmap_interceptor_def example_kctx_def example_ictx_def example_rctx_def example_env_def RoundUpTo_def
        layout_eval linux_64_sel call_real_eq andthen_def ret_def example_rt_def)
  ultimately show "\<exists>addr len x. in_range x addr len \<and> MEM_IS_SHADOW linux_64 x \<and>
      (\<forall>f m. mmap_interceptor example_kctx (\<lambda>a m. (f a m, -1)) (\<lambda>a n m. (m, ())) addr len MAP_FIXED (example_rt m) =
        Some (Ok (Returned (-1), set_rmem (f addr m) (example_rt m))))"
    by blast
qed

text \<open>The check of an argument, in terms of the bytes of the argument.\<close>

lemma check_unpoisoned_effect:
  assumes "ready c st" and "reporting_ok (ic_rep (kc_init c)) (rrep st)" and "report_umrs (rflags (rrep st))"
    and "\<not> rc_in_symbolizer (ic_rep (kc_init c))" and "rscope st = 0" and "app_range linux_64 x n" and "0 < n" and "n \<le> 2 ^ 40"
  obtains rep where "check_unpoisoned c x n st =
      Some (Ok (if rep \<noteq> rrep st \<and> halt_on_error (rflags (rrep st)) then Halted else Returned (), st\<lparr>rrep := rep\<rparr>))"
    and "bytes x n \<inter> poisoned linux_64 (rmem st) = {} \<Longrightarrow> rep = rrep st"
    and "bytes x n \<inter> poisoned linux_64 (rmem st) \<noteq> {} \<Longrightarrow> report_count rep = report_count (rrep st) + 1 \<and>
      site_reported rep (GetPreviousInstructionPc (rc_arch (ic_rep (kc_init c))) (kc_pc c)) \<and> rflags rep = rflags (rrep st)"
proof -
  let ?c = "(ic_rep (kc_init c))\<lparr>rc_mem := rmem st, rc_in_interceptor := (rscope st \<noteq> 0)\<rparr>"
  have "reporting_ok ?c (rrep st)" using assms(2) by (simp add: reporting_ok_def)
  then obtain rep where rep: "record_fast ?c (kc_pc c) (kc_bp c) (rrep st) = Ok rep" "report_count rep = report_count (rrep st) + 1"
      "site_reported rep (GetPreviousInstructionPc (rc_arch ?c) (kc_pc c))" "rflags rep = rflags (rrep st)"
    by (rule record_fast_effect)
  then have ne: "rep \<noteq> rrep st" by auto
  have "rc_plat ?c = linux_64" "\<not> rc_in_symbolizer ?c" using assms(1,4) by (simp_all add: ready_def)
  note check = check_unpoisoned_fast_cases [OF this assms(3,6-8), of "kc_pc c" "kc_bp c"]
  show thesis
  proof (cases "bytes x n \<inter> poisoned linux_64 (rmem st) = {}")
    case True
    then show thesis using that [of "rrep st"] check assms(5) by (simp add: check_unpoisoned_def CHECK_UNPOISONED_def)
  next
    case False
    then show thesis using that [of rep] check assms(5) rep ne by (simp add: check_unpoisoned_def CHECK_UNPOISONED_def halt_if_def)
  qed
qed

text \<open>
  C19. \<^verbatim>\<open>prlimit\<close> checks what it passes to the system first. Uninitialised limits are recorded, one violation at the caller; with
  \<^verbatim>\<open>halt_on_error\<close> the process ends there and the system is never asked. Otherwise, and on initialised limits without a
  record, the call is the system's and its result is marked on success. Inside another interceptor nothing is checked.
\<close>

theorem prlimit_checks_first:
  fixes real :: "int real"
  assumes "ready c st" and "reporting_ok (ic_rep (kc_init c)) (rrep st)" and "report_umrs (rflags (rrep st))"
    and "\<not> rc_in_symbolizer (ic_rep (kc_init c))" and "rscope st = 0"
    and "app_range linux_64 new (struct_rlimit_sz c)" and "0 < struct_rlimit_sz c" and "struct_rlimit_sz c \<le> 2 ^ 40"
    and "app_range linux_64 old (struct_rlimit_sz c)"
    and "W = (if snd (real (rmem st)) = 0 then bytes old (struct_rlimit_sz c) else {})" and "writes_only real (rmem st) W"
    and "bad \<longleftrightarrow> bytes new (struct_rlimit_sz c) \<inter> poisoned linux_64 (rmem st) \<noteq> {}"
  shows "\<exists>rep. report_count rep = report_count (rrep st) + (if bad then 1 else 0) \<and>
    (bad \<longrightarrow> site_reported rep (GetPreviousInstructionPc (rc_arch (ic_rep (kc_init c))) (kc_pc c))) \<and>
    (if bad \<and> halt_on_error (rflags (rrep st)) then prlimit c real new old st = Some (Ok (Halted, st\<lparr>rrep := rep\<rparr>))
     else \<exists>m'. prlimit c real new old st = Some (Ok (Returned (snd (real (rmem st))), set_rmem m' (st\<lparr>rrep := rep\<rparr>))) \<and>
       poisoned linux_64 m' = poisoned linux_64 (rmem st) - W) \<and>
    check_unpoisoned c new (struct_rlimit_sz c) (st\<lparr>rscope := 1\<rparr>) = Some (Ok (Returned (), st\<lparr>rscope := 1\<rparr>))"
proof -
  let ?n = "struct_rlimit_sz c"
  obtain rep where chk: "check_unpoisoned c new ?n st =
      Some (Ok (if rep \<noteq> rrep st \<and> halt_on_error (rflags (rrep st)) then Halted else Returned (), st\<lparr>rrep := rep\<rparr>))"
    and clean: "\<not> bad \<Longrightarrow> rep = rrep st"
    and dirty: "bad \<Longrightarrow> report_count rep = report_count (rrep st) + 1 \<and>
      site_reported rep (GetPreviousInstructionPc (rc_arch (ic_rep (kc_init c))) (kc_pc c))"
    using check_unpoisoned_effect [OF assms(1-8)] assms(12) by metis
  have ne: "rep \<noteq> rrep st \<longleftrightarrow> bad" using clean dirty by fastforce
  have ready: "ready c (st\<lparr>rrep := rep\<rparr>)" using assms(1) by (simp add: ready_def)
  have run: "prlimit c real new old st = (if bad \<and> halt_on_error (rflags (rrep st)) then Some (Ok (Halted, st\<lparr>rrep := rep\<rparr>))
      else filled_on_success c real old ?n (st\<lparr>rrep := rep\<rparr>))"
    using assms(1) chk ne ready by (simp add: prlimit_def prlimit_body_def filled_on_success_def if_running_ready andthen_def ensure_inited_ready)
  have call: "intercepts real (filled_on_success c real old ?n) (st\<lparr>rrep := rep\<rparr>) W"
    using assms(9-11) by (intro filled_intercepts [OF ready]) simp_all
  have "check_unpoisoned c new ?n (st\<lparr>rscope := 1\<rparr>) = Some (Ok (Returned (), st\<lparr>rscope := 1\<rparr>))"
    by (simp add: check_unpoisoned_def CHECK_UNPOISONED_def)
  moreover have "if bad \<and> halt_on_error (rflags (rrep st)) then prlimit c real new old st = Some (Ok (Halted, st\<lparr>rrep := rep\<rparr>))
     else \<exists>m'. prlimit c real new old st = Some (Ok (Returned (snd (real (rmem st))), set_rmem m' (st\<lparr>rrep := rep\<rparr>))) \<and>
       poisoned linux_64 m' = poisoned linux_64 (rmem st) - W"
    using run call unfolding intercepts_def by auto
  ultimately show ?thesis using clean dirty by (intro exI [of _ rep]) auto
qed

theorem prlimit_checks_first_witness:
  "\<exists>rep m'. prlimit example_kctx (\<lambda>m. (m, -1)) 0x700000000200 0x700000000300 (example_rt (\<lambda>_. 1)) =
      Some (Ok (Returned (-1), set_rmem m' ((example_rt (\<lambda>_. 1))\<lparr>rrep := rep\<rparr>))) \<and> report_count rep = 1"
proof -
  let ?st = "example_rt (\<lambda>_. 1)"
  have k: "struct_rlimit_sz example_kctx = 16" "ic_rep (kc_init example_kctx) = example_rctx (\<lambda>_. 0)" "rrep ?st = example_rstate" "rscope ?st = 0"
    "rmem ?st = (\<lambda>_. 1)"
    by (simp_all add: example_kctx_def example_ictx_def example_rt_def)
  have f: "report_umrs (rflags example_rstate)" "\<not> rc_in_symbolizer (example_rctx (\<lambda>_. 0))" "\<not> halt_on_error (rflags example_rstate)"
    "report_count example_rstate = 0"
    by (simp_all add: example_rctx_def example_rstate_def Flags_SetDefaults_def)
  have a: "app_range linux_64 0x700000000200 16" "app_range linux_64 0x700000000300 16" by (simp_all add: app_range_def fits_def linux_64_sel)
  have "0x700000000200 \<in> bytes 0x700000000200 16 \<inter> poisoned linux_64 (\<lambda>_. 1)" by (simp add: poisoned_def layout_eval linux_64_sel in_range_def)
  then have b: "bytes 0x700000000200 16 \<inter> poisoned linux_64 (\<lambda>_. 1) \<noteq> {}" by blast
  have "writes_only (\<lambda>m. (m, -1 :: int)) (\<lambda>_. 1) {}" by (simp add: writes_only_def)
  then show ?thesis
    using prlimit_checks_first [where c = example_kctx and st = ?st and new = "0x700000000200" and old = "0x700000000300"
        and real = "\<lambda>m. (m, -1)" and W = "{}" and bad = True, OF example_ready] example_reporting_ok [of "\<lambda>_. 0"] k f a b by auto
qed

text \<open>
  While the runtime initialises, the interceptors that the initialisation itself may reach call the library at once and change nothing
  else; the others stop the process in the check of \<^verbatim>\<open>ENSURE_CQMSAN_INITED\<close>, before the library is called.
\<close>

theorem initialisation_guards:
  assumes "rrunning st"
  shows "getenv c f st = call_real f st \<and> strsignal c f st = call_real f st \<and> dlerror c f st = call_real f st \<and>
    dladdr c g info st = call_real g st \<and> dladdr1 c g info extra fl st = call_real g st \<and>
    pipe c g buf st = call_real g st \<and> getrlimit c g buf st = call_real g st \<and> getrlimit64 c g buf st = call_real g st \<and>
    prlimit c g new old st = call_real g st \<and> prlimit64 c g new old st = call_real g st \<and> pthread_key_create c g buf st = call_real g st \<and>
    strcpy c f dest src st = Some (Died CheckFailed) \<and> strcat c f dest src st = Some (Died CheckFailed) \<and>
    strncpy c f dest n st = Some (Died CheckFailed) \<and> strdup c f src st = Some (Died CheckFailed) \<and>
    fread_unlocked c f buf n st = Some (Died CheckFailed) \<and> fstat c g buf st = Some (Died CheckFailed) \<and>
    epoll_wait c g buf st = Some (Died CheckFailed) \<and> pthread_join c g buf st = Some (Died CheckFailed) \<and>
    pthread_create c (\<lambda>_. g) buf routine param st = Some (Died CheckFailed)"
proof -
  have e: "ensure_inited c st = Some (Died CheckFailed)" using assms by (simp add: ensure_inited_def ENSURE_CQMSAN_INITED_def)
  then have d: "andthen (ensure_inited c) k st = Some (Died CheckFailed)" for k :: "unit \<Rightarrow> 'x act" by (simp add: andthen_def)
  have r: "if_running h k st = h st" for h k :: "'x act" using assms by (simp add: if_running_def)
  show ?thesis
    by (simp add: getenv_def strsignal_def dlerror_def dladdr_def dladdr1_def COMMON_INTERCEPTOR_ENTER_def pipe_def getrlimit_def
        INTERCEPTOR_GETRLIMIT_BODY_def getrlimit64_def prlimit_def prlimit64_def prlimit_body_def pthread_key_create_def r
        strcpy_def strcat_def strncpy_def marked_call_def strdup_def fread_unlocked_def fstat_def filled_on_success_def
        epoll_wait_def pthread_join_def marked_if_def pthread_create_def d)
qed

theorem initialisation_guards_witness:
  "getenv example_kctx (\<lambda>m. (m, 0)) ((example_rt (\<lambda>_. 1))\<lparr>rrunning := True\<rparr>) =
     call_real (\<lambda>m. (m, 0)) ((example_rt (\<lambda>_. 1))\<lparr>rrunning := True\<rparr>)"
proof -
  have "rrunning ((example_rt (\<lambda>_. 1))\<lparr>rrunning := True\<rparr>)" by simp
  from initialisation_guards [OF this] show ?thesis by blast
qed

end
