(* ===== verification/Handlers.thy ===== *)
theory Handlers
  imports Interceptors
begin

text \<open>
  Signal handlers and exit handlers: the wrappers the runtime installs between the library and the program's functions
  (\<^verbatim>\<open>cqmsan_interceptors.cpp\<close>, \<^verbatim>\<open>sanitizer_signal_interceptors.inc\<close>) and the thread-local state they save
  (\<^verbatim>\<open>ScopedThreadLocalStateBackup\<close> of \<^verbatim>\<open>cqmsan.cpp\<close>).
\<close>

section \<open>Signal state\<close>

text \<open>
  A \<^verbatim>\<open>sigaction\<close> structure has 152 bytes: the handler at 0, the flags at 136; the other bytes are not interpreted.
\<close>

record sigact =
  sa_handler :: uptr
  sa_flags :: u32
  sa_rest :: "uptr \<Rightarrow> u8"

definition rest_byte :: "uptr \<Rightarrow> bool" where
  "rest_byte i \<longleftrightarrow> 8 \<le> i \<and> i < 136 \<or> 140 \<le> i \<and> i < 152"

definition get_act :: "memory \<Rightarrow> uptr \<Rightarrow> sigact" where
  "get_act m a = \<lparr>sa_handler = load64 m a, sa_flags = load32 m (a + 136), sa_rest = (\<lambda>i. if rest_byte i then m (a + i) else 0)\<rparr>"

definition put_act :: "memory \<Rightarrow> uptr \<Rightarrow> sigact \<Rightarrow> memory" where
  "put_act m a s = store64 (store32 (\<lambda>x. if in_range x a 152 then sa_rest s (x - a) else m x) (a + 136) (sa_flags s)) a (sa_handler s)"

text \<open>
  The table \<^verbatim>\<open>sigactions\<close>, and the actions the system holds. \<^verbatim>\<open>REAL(sigaction)\<close> and \<^verbatim>\<open>REAL(signal)\<close> are arguments: they answer from and
  change the latter.
\<close>

record sigstate =
  sigactions :: "int \<Rightarrow> uptr"
  kernel :: "int \<Rightarrow> sigact"

type_synonym sigaction_fun = "int \<Rightarrow> sigact option \<Rightarrow> (int \<Rightarrow> sigact) \<Rightarrow> int \<times> (int \<Rightarrow> sigact)"
type_synonym signal_fun = "int \<Rightarrow> uptr \<Rightarrow> (int \<Rightarrow> sigact) \<Rightarrow> uptr \<times> (int \<Rightarrow> sigact)"

text \<open>The addresses of the two wrappers, and the signals that \<^verbatim>\<open>GetHandleSignalMode\<close> reserves for the runtime.\<close>

record sigctx =
  SignalHandler_addr :: uptr
  SignalAction_addr :: uptr
  exclusive_signal :: "int \<Rightarrow> bool"
  ucontext_t_sz :: "uptr \<Rightarrow> uptr"

definition kMaxSignals :: int where
  "kMaxSignals = 1024"

definition sig_dfl :: uptr where
  "sig_dfl = 0"

definition sig_ign :: uptr where
  "sig_ign = 1"

definition sa_siginfo :: u32 where
  "sa_siginfo = 4"

section \<open>Thread-local state\<close>

definition Backup :: "tls_state \<Rightarrow> uptr" where
  "Backup t = tl_va_overflow t"

definition Restore :: "uptr \<Rightarrow> tls_state \<Rightarrow> tls_state" where
  "Restore saved t = t\<lparr>tl_va_overflow := saved, tl_param := map (\<lambda>_. 0) (tl_param t), tl_retval := map (\<lambda>_. 0) (tl_retval t),
     tl_va_arg := map (\<lambda>_. 0) (tl_va_arg t), tl_va_arg_origin := map (\<lambda>_. 0) (tl_va_arg_origin t)\<rparr>"

definition ask :: "(rt \<Rightarrow> 'a) \<Rightarrow> 'a act" where
  "ask f st = ret (f st) st"

definition EnterSignalHandler :: "unit act" where
  "EnterSignalHandler st = ret () (st\<lparr>rthread := map_option (\<lambda>t. t\<lparr>in_signal_handler := in_signal_handler t + 1\<rparr>) (rthread st)\<rparr>)"

definition LeaveSignalHandler :: "unit act" where
  "LeaveSignalHandler st = ret () (st\<lparr>rthread := map_option (\<lambda>t. t\<lparr>in_signal_handler := in_signal_handler t - 1\<rparr>) (rthread st)\<rparr>)"

text \<open>\<^verbatim>\<open>SignalHandlerScope\<close> and \<^verbatim>\<open>ScopedThreadLocalStateBackup\<close> around a handler; destructors run in reverse order.\<close>

definition signal_scope :: "unit act \<Rightarrow> unit act" where
  "signal_scope body =
    andthen EnterSignalHandler (\<lambda>_. andthen (ask (\<lambda>st. Backup (rtls st))) (\<lambda>saved. andthen body (\<lambda>_.
      andthen (\<lambda>st. ret () (st\<lparr>rtls := Restore saved (rtls st)\<rparr>)) (\<lambda>_. LeaveSignalHandler))))"

text \<open>The program's handler is an argument, a step for each address.\<close>

definition SignalHandler :: "sigstate \<Rightarrow> int \<Rightarrow> (uptr \<Rightarrow> unit act) \<Rightarrow> unit act" where
  "SignalHandler sg signo cb = signal_scope (andthen (rt_UnpoisonParam 1) (\<lambda>_. cb (sigactions sg signo)))"

definition SignalAction :: "kctx \<Rightarrow> sigctx \<Rightarrow> sigstate \<Rightarrow> int \<Rightarrow> uptr \<Rightarrow> uptr \<Rightarrow> (uptr \<Rightarrow> unit act) \<Rightarrow> unit act" where
  "SignalAction c sc sg signo si uc cb = signal_scope
    (andthen (rt_UnpoisonParam 3) (\<lambda>_. andthen (unpoison c si 128) (\<lambda>_. andthen (unpoison c uc (ucontext_t_sz sc uc)) (\<lambda>_.
      andthen (cb (sigactions sg signo)) (\<lambda>_. check_unpoisoned c uc (ucontext_t_sz sc uc))))))"

section \<open>Installing handlers\<close>

definition read_sigaction :: "kctx \<Rightarrow> uptr \<Rightarrow> unit act" where
  "read_sigaction c a =
    andthen (check_unpoisoned c (a + 136) 4) (\<lambda>_. andthen (ask (\<lambda>st. sa_flags (get_act (rmem st) a))) (\<lambda>fl.
      andthen (if fl AND sa_siginfo \<noteq> 0 then check_unpoisoned c a 8 else check_unpoisoned c a 8) (\<lambda>_.
        check_unpoisoned c (a + 8) 128)))"

text \<open>The copy of the new action that goes to the system, and the table entry to set.\<close>

definition wrap_act :: "sigctx \<Rightarrow> sigact \<Rightarrow> sigact" where
  "wrap_act sc a =
    (let new_cb = (if sa_flags a AND sa_siginfo \<noteq> 0 then SignalAction_addr sc else SignalHandler_addr sc)
     in if sa_handler a \<noteq> sig_ign \<and> sa_handler a \<noteq> sig_dfl then a\<lparr>sa_handler := new_cb\<rparr> else a)"

definition unwrap_act :: "sigctx \<Rightarrow> uptr \<Rightarrow> sigact \<Rightarrow> sigact" where
  "unwrap_act sc old_cb a =
    (if sa_handler a = SignalAction_addr sc \<or> sa_handler a = SignalHandler_addr sc then a\<lparr>sa_handler := old_cb\<rparr> else a)"

definition store_cb :: "int \<Rightarrow> uptr \<Rightarrow> sigstate \<Rightarrow> sigstate" where
  "store_cb signo cb sg = (if cb \<noteq> sig_ign \<and> cb \<noteq> sig_dfl then sg\<lparr>sigactions := (sigactions sg)(signo := cb)\<rparr> else sg)"

text \<open>What \<^verbatim>\<open>REAL(sigaction)\<close> writes through \<open>oldact\<close> is the action the system held before.\<close>

definition sigaction_impl :: "kctx \<Rightarrow> sigctx \<Rightarrow> sigaction_fun \<Rightarrow> int \<Rightarrow> uptr \<Rightarrow> uptr \<Rightarrow> sigstate \<Rightarrow> (int \<times> sigstate) act" where
  "sigaction_impl c sc real signo act oldact sg =
    andthen (ensure_inited c) (\<lambda>_.
      if signo \<le> 0 \<or> signo \<ge> kMaxSignals then andthen (set_errno c 22) (\<lambda>_. ret (-1, sg))
      else andthen (when_act (act \<noteq> 0) (read_sigaction c act)) (\<lambda>_.
        andthen (ask (\<lambda>st. (wrap_signals (rflags (rrep st)), if act \<noteq> 0 then Some (get_act (rmem st) act) else None))) (\<lambda>(wrap, a).
        let old = kernel sg signo;
            sg1 = (if wrap then (case a of None \<Rightarrow> sg | Some b \<Rightarrow> store_cb signo (sa_handler b) sg) else sg);
            (res, k) = real signo (if wrap then map_option (wrap_act sc) a else a) (kernel sg);
            old1 = (if wrap then unwrap_act sc (sigactions sg signo) old else old)
        in andthen (when_act (res = 0 \<and> oldact \<noteq> 0) (andthen (lift_mem (\<lambda>m. Ok (put_act m oldact old1))) (\<lambda>_. unpoison c oldact 152)))
             (\<lambda>_. ret (res, sg1\<lparr>kernel := k\<rparr>)))))"

definition sigaction_interceptor :: "kctx \<Rightarrow> sigctx \<Rightarrow> sigaction_fun \<Rightarrow> int \<Rightarrow> uptr \<Rightarrow> uptr \<Rightarrow> sigstate \<Rightarrow> (int \<times> sigstate) act" where
  "sigaction_interceptor c sc real signo act oldact sg =
    andthen (ensure_inited c) (\<lambda>_.
      if exclusive_signal sc signo then
        (if oldact = 0 then ret (0, sg) else sigaction_impl c sc real signo 0 oldact sg)
      else sigaction_impl c sc real signo act oldact sg)"

definition signal_impl :: "kctx \<Rightarrow> sigctx \<Rightarrow> int \<Rightarrow> uptr \<Rightarrow> sigstate \<Rightarrow> (uptr \<times> sigstate) act" where
  "signal_impl c sc signo cb sg =
    andthen (ensure_inited c) (\<lambda>_.
      if signo \<le> 0 \<or> signo \<ge> kMaxSignals then andthen (set_errno c 22) (\<lambda>_. ret (-1, sg))
      else andthen (ask (\<lambda>st. wrap_signals (rflags (rrep st)))) (\<lambda>wrap.
        if wrap \<and> cb \<noteq> sig_ign \<and> cb \<noteq> sig_dfl then ret (SignalHandler_addr sc, store_cb signo cb sg) else ret (cb, sg)))"

definition signal_interceptor :: "kctx \<Rightarrow> sigctx \<Rightarrow> signal_fun \<Rightarrow> int \<Rightarrow> uptr \<Rightarrow> sigstate \<Rightarrow> (uptr \<times> sigstate) act" where
  "signal_interceptor c sc real signo handler sg =
    andthen (ensure_inited c) (\<lambda>_.
      if exclusive_signal sc signo then ret (0, sg)
      else andthen (signal_impl c sc signo handler sg) (\<lambda>(h, sg1).
        in_scope (let (r, k) = real signo h (kernel sg1) in ret (r, sg1\<lparr>kernel := k\<rparr>))))"

section \<open>Exit handlers\<close>

text \<open>
  The library's list of exit handlers, the next to run first. \<open>StackWrapper\<close> is \<^verbatim>\<open>CQMSanAtExitWrapper\<close>; \<open>CxaWrapper i\<close> is \<^verbatim>\<open>CQMSanCxaAtExitWrapper\<close> with
  record \<open>i\<close>; \<open>Direct\<close> was registered during initialisation. \<open>AtExitStack\<close> holds its last element last.
\<close>

datatype exit_entry = StackWrapper | CxaWrapper nat | Direct uptr uptr

record exit_state =
  AtExitStack :: "(uptr \<times> uptr) list"
  exit_records :: "(uptr \<times> uptr) list"
  libc_exit :: "exit_entry list"

type_synonym cxa_atexit_fun = "exit_entry \<Rightarrow> uptr \<Rightarrow> exit_entry list \<Rightarrow> int \<times> exit_entry list"

definition setup_at_exit_wrapper :: "kctx \<Rightarrow> cxa_atexit_fun \<Rightarrow> uptr \<Rightarrow> uptr \<Rightarrow> uptr \<Rightarrow> exit_state \<Rightarrow> (int \<times> exit_state) act" where
  "setup_at_exit_wrapper c real f a dso ex =
    andthen (ensure_inited c) (\<lambda>_.
      if dso = 0 then
        let (res, l) = real StackWrapper 0 (libc_exit ex); ex1 = ex\<lparr>libc_exit := l\<rparr>
        in ret (res, if res = 0 then ex1\<lparr>AtExitStack := AtExitStack ex1 @ [(f, a)]\<rparr> else ex1)
      else
        let (res, l) = real (CxaWrapper (length (exit_records ex))) dso (libc_exit ex)
        in ret (res, ex\<lparr>libc_exit := l, exit_records := exit_records ex @ [(f, a)]\<rparr>))"

definition cxa_atexit :: "kctx \<Rightarrow> cxa_atexit_fun \<Rightarrow> uptr \<Rightarrow> uptr \<Rightarrow> uptr \<Rightarrow> exit_state \<Rightarrow> (int \<times> exit_state) act" where
  "cxa_atexit c real f a dso ex =
    if_running (let (res, l) = real (Direct f a) dso (libc_exit ex) in ret (res, ex\<lparr>libc_exit := l\<rparr>))
      (setup_at_exit_wrapper c real f a dso ex)"

definition atexit :: "kctx \<Rightarrow> cxa_atexit_fun \<Rightarrow> uptr \<Rightarrow> exit_state \<Rightarrow> (int \<times> exit_state) act" where
  "atexit c real f ex =
    if_running (let (res, l) = real (Direct f 0) 0 (libc_exit ex) in ret (res, ex\<lparr>libc_exit := l\<rparr>))
      (setup_at_exit_wrapper c real f 0 0 ex)"

text \<open>
  The wrappers; \<open>call\<close> is the program's function, which may register further handlers. The accesses to the
  stack are in range when it is not empty.
\<close>

definition CQMSanAtExitWrapper :: "(uptr \<Rightarrow> uptr \<Rightarrow> exit_state \<Rightarrow> exit_state act) \<Rightarrow> exit_state \<Rightarrow> exit_state act" where
  "CQMSanAtExitWrapper call ex =
    andthen (check_act (AtExitStack ex \<noteq> [])) (\<lambda>_.
      let r = AtExitStack ex ! (length (AtExitStack ex) - 1); ex1 = ex\<lparr>AtExitStack := butlast (AtExitStack ex)\<rparr>
      in andthen (rt_UnpoisonParam 1) (\<lambda>_. call (fst r) 0 ex1))"

definition CQMSanCxaAtExitWrapper :: "(uptr \<Rightarrow> uptr \<Rightarrow> exit_state \<Rightarrow> exit_state act) \<Rightarrow> nat \<Rightarrow> exit_state \<Rightarrow> exit_state act" where
  "CQMSanCxaAtExitWrapper call i ex =
    andthen (rt_UnpoisonParam 1) (\<lambda>_.
      let r = exit_records ex ! i in
      if fst r = 0 then ret ex
      else andthen (call (fst r) (snd r) ex) (\<lambda>ex1. ret (ex1\<lparr>exit_records := (exit_records ex1)[i := (0, snd r)]\<rparr>)))"

text \<open>The library at exit: take the next handler off its list and call it.\<close>

definition run_exit :: "(uptr \<Rightarrow> uptr \<Rightarrow> exit_state \<Rightarrow> exit_state act) \<Rightarrow> exit_state \<Rightarrow> exit_state act" where
  "run_exit call ex =
    (case libc_exit ex of [] \<Rightarrow> ret ex
     | StackWrapper # l \<Rightarrow> CQMSanAtExitWrapper call (ex\<lparr>libc_exit := l\<rparr>)
     | CxaWrapper i # l \<Rightarrow> CQMSanCxaAtExitWrapper call i (ex\<lparr>libc_exit := l\<rparr>)
     | Direct f a # l \<Rightarrow> call f a (ex\<lparr>libc_exit := l\<rparr>))"

section \<open>Structures in memory\<close>

definition wf_act :: "sigact \<Rightarrow> bool" where
  "wf_act a \<longleftrightarrow> (\<forall>i. \<not> rest_byte i \<longrightarrow> sa_rest a i = 0)"

lemma wf_get_act [simp]: "wf_act (get_act m a)"
  by (simp add: wf_act_def get_act_def)

lemma in_act: "in_range x (a + 136) 4 \<longleftrightarrow> 136 \<le> x - a \<and> x - a < 140"
  using in_range_off [of 136 4 x a] by (simp add: word_le_nat_alt word_less_nat_alt)

lemma small_offset: "i < 4 \<Longrightarrow> unat (136 + i) = 136 + unat i" for i :: uptr
  by (simp add: word_less_nat_alt unat_word_ariths)

lemma get_put_act: "wf_act s \<Longrightarrow> get_act (put_act m a s) a = s"
proof -
  assume wf: "wf_act s"
  let ?m1 = "\<lambda>x. if in_range x a 152 then sa_rest s (x - a) else m x"
  let ?m2 = "store32 ?m1 (a + 136) (sa_flags s)"
  have out: "\<not> in_range (a + (136 + i)) a 8" if "i < 4" for i :: uptr
    using that small_offset [OF that] unfolding in_range_offset by (simp add: word_less_nat_alt)
  have "load32 (put_act m a s) (a + 136) = load32 ?m2 (a + 136)"
    unfolding put_act_def by (rule load32_cong) (use out in \<open>simp add: store64_out add.assoc\<close>)
  then have fl: "load32 (put_act m a s) (a + 136) = sa_flags s" by (simp add: load32_store32)
  have "put_act m a s (a + i) = sa_rest s i" if "rest_byte i" for i
  proof -
    have "\<not> in_range (a + i) a 8" "\<not> in_range (a + i) (a + 136) 4" "in_range (a + i) a 152"
      using that unfolding in_act in_range_offset rest_byte_def by (auto simp: word_less_nat_alt word_le_nat_alt)
    then show ?thesis by (simp add: put_act_def store64_out store32_out)
  qed
  then show ?thesis
    using wf fl by (auto simp: get_act_def put_act_def load64_store64 wf_act_def fun_eq_iff intro!: sigact.equality)
qed

lemma put_act_out: "\<not> in_range x a 152 \<Longrightarrow> put_act m a s x = m x"
proof -
  assume x: "\<not> in_range x a 152"
  then have "\<not> in_range x a 8" "\<not> in_range x (a + 136) 4"
    using in_act [of x a] by (simp_all add: in_range_def word_less_nat_alt word_le_nat_alt)
  then show ?thesis using x by (simp add: put_act_def store64_out store32_out)
qed

lemma get_act_agree:
  assumes "app_range linux_64 a 152" and "\<forall>x. MEM_IS_APP linux_64 x \<longrightarrow> m' x = m x"
  shows "get_act m' a = get_act m a"
proof -
  have app: "m' (a + i) = m (a + i)" if "i < 152" for i
    using app_range_app [OF assms(1) that] assms(2) by simp
  have "load64 m' a = load64 m a" using agree_load64 [OF assms, of 0] by simp
  moreover have "load32 m' (a + 136) = load32 m (a + 136)"
  proof (rule load32_cong)
    fix i :: uptr assume "i < 4"
    then have "136 + i < 152" using small_offset [of i] by (simp add: word_less_nat_alt)
    then show "m' (a + 136 + i) = m (a + 136 + i)" using app by (simp add: add.assoc)
  qed
  moreover have "rest_byte i \<Longrightarrow> i < 152" for i by (auto simp: rest_byte_def intro: less_trans)
  ultimately show ?thesis using app by (auto simp: get_act_def fun_eq_iff)
qed

lemma check_unpoisoned_clean:
  assumes "ready c st" and "app_range linux_64 x n" and "0 < n" and "n \<le> 2 ^ 40" and "bytes x n \<inter> poisoned linux_64 (rmem st) = {}"
  shows "check_unpoisoned c x n st = Some (Ok (Returned (), st))"
proof -
  have p: "kc_plat c = linux_64" using assms(1) by (simp add: ready_def)
  have "cqmsan_test_shadow linux_64 (rmem st) x n = Ok (-1)"
    using assms(2-4)
  proof (cases rule: test_shadow_cases [where m = "rmem st"])
    case (dirty j)
    then have "x + j \<in> bytes x n \<inter> poisoned linux_64 (rmem st)" by simp
    then show ?thesis using assms(5) by blast
  qed
  then show ?thesis by (simp add: check_unpoisoned_def CHECK_UNPOISONED_def CHECK_UNPOISONED_0_FAST_def p)
qed

lemma read_sigaction_clean:
  assumes "ready c st" and "app_range linux_64 a 152" and "bytes a 152 \<inter> poisoned linux_64 (rmem st) = {}"
  shows "read_sigaction c a st = Some (Ok (Returned (), st))"
proof -
  have sub: "check_unpoisoned c (a + off) k st = Some (Ok (Returned (), st))" if "0 < k" "unat off + unat k \<le> 152" for off k
  proof (rule check_unpoisoned_clean [OF assms(1)])
    show "app_range linux_64 (a + off) k" using app_range_sub [OF assms(2), of off k] that by simp
    show "0 < k" by fact
    show "k \<le> 2 ^ 40" using that by (simp add: word_le_nat_alt)
    have "in_range x (a + off) k \<Longrightarrow> in_range x a 152" for x
      using in_range_off [of off k x a] that by (simp add: in_range_def word_less_nat_alt)
    then have "bytes (a + off) k \<subseteq> bytes a 152" by auto
    then show "bytes (a + off) k \<inter> poisoned linux_64 (rmem st) = {}" using assms(3) by blast
  qed
  show ?thesis
    using sub [of 4 136] sub [of 8 0] sub [of 128 8] by (simp add: read_sigaction_def andthen_def ask_def ret_def)
qed

section \<open>The program's view of its handlers\<close>

text \<open>
  Documented behaviour of \<^verbatim>\<open>sigaction\<close>: \<open>acc\<close> are the signals whose action may be changed; asking for the action always succeeds.
\<close>

definition posix_sigaction :: "(int \<Rightarrow> bool) \<Rightarrow> sigaction_fun \<Rightarrow> bool" where
  "posix_sigaction acc real \<longleftrightarrow> (\<forall>s a k. real s a k =
     (case a of None \<Rightarrow> (0, k) | Some b \<Rightarrow> if acc s then (0, k(s := b)) else (-1, k)))"

definition wrapper :: "sigctx \<Rightarrow> uptr \<Rightarrow> bool" where
  "wrapper sc h \<longleftrightarrow> h = SignalAction_addr sc \<or> h = SignalHandler_addr sc"

definition wrappers_ok :: "sigctx \<Rightarrow> bool" where
  "wrappers_ok sc \<longleftrightarrow> SignalAction_addr sc \<noteq> SignalHandler_addr sc \<and> \<not> wrapper sc sig_dfl \<and> \<not> wrapper sc sig_ign"

text \<open>
  \<open>shows_actions acc sc sg D\<close>: the table and the system's actions together are the program's actions \<open>D\<close>, and each wrapper is the one
  that fits the flags. A signal whose action cannot change has no wrapper.
\<close>

definition shows_actions :: "(int \<Rightarrow> bool) \<Rightarrow> sigctx \<Rightarrow> sigstate \<Rightarrow> (int \<Rightarrow> sigact) \<Rightarrow> bool" where
  "shows_actions acc sc sg D \<longleftrightarrow> (\<forall>s. 0 < s \<and> s < kMaxSignals \<longrightarrow>
     unwrap_act sc (sigactions sg s) (kernel sg s) = D s \<and> wf_act (D s) \<and> \<not> wrapper sc (sa_handler (D s)) \<and>
     (wrapper sc (sa_handler (kernel sg s)) \<longrightarrow> acc s \<and> sa_handler (D s) \<noteq> sig_dfl \<and> sa_handler (D s) \<noteq> sig_ign \<and>
       (sa_handler (kernel sg s) = SignalAction_addr sc \<longleftrightarrow> sa_flags (D s) AND sa_siginfo \<noteq> 0)))"

lemma shows_actionsD:
  assumes "shows_actions acc sc sg D" and "0 < s" and "s < kMaxSignals"
  shows "unwrap_act sc (sigactions sg s) (kernel sg s) = D s" and "wf_act (D s)"
    and "wrapper sc (sa_handler (kernel sg s)) \<Longrightarrow> acc s"
  using assms unfolding shows_actions_def by blast+

lemma shows_actions_install:
  assumes "shows_actions acc sc sg D" and "wrappers_ok sc" and "wf_act a" and "\<not> wrapper sc (sa_handler a)" and "acc signo"
  shows "shows_actions acc sc ((store_cb signo (sa_handler a) sg)\<lparr>kernel := (kernel sg)(signo := wrap_act sc a)\<rparr>) (D(signo := a))"
proof -
  have self: "b\<lparr>sa_handler := x, sa_handler := sa_handler b\<rparr> = b" for b :: sigact and x by (cases b) simp
  have "unwrap_act sc (sa_handler a) (wrap_act sc a) = a" if "sa_handler a \<noteq> sig_ign" "sa_handler a \<noteq> sig_dfl"
    using that self [of a] by (auto simp: wrap_act_def unwrap_act_def Let_def)
  moreover have "wrap_act sc a = a" if "sa_handler a = sig_ign \<or> sa_handler a = sig_dfl" using that by (auto simp: wrap_act_def)
  moreover have "unwrap_act sc x a = a" for x using assms(4) by (simp add: unwrap_act_def wrapper_def)
  moreover have "sa_handler (wrap_act sc a) = SignalAction_addr sc \<longleftrightarrow> sa_flags a AND sa_siginfo \<noteq> 0"
    if "wrapper sc (sa_handler (wrap_act sc a))"
    using that assms(2,4) by (auto simp: wrap_act_def wrapper_def wrappers_ok_def Let_def split: if_splits)
  ultimately show ?thesis
    using assms unfolding shows_actions_def by (auto simp: store_cb_def)
qed

lemma shows_actions_refused:
  assumes "shows_actions acc sc sg D" and "\<not> acc signo"
  shows "shows_actions acc sc (store_cb signo cb sg) D"
proof -
  have "unwrap_act sc x (kernel sg signo) = D signo" if "0 < signo" "signo < kMaxSignals" for x
    using shows_actionsD(1,3) [OF assms(1) that] assms(2) by (auto simp: unwrap_act_def wrapper_def)
  then show ?thesis using assms(1) unfolding shows_actions_def store_cb_def by (auto simp: fun_upd_def)
qed


definition example_sigctx :: sigctx where
  "example_sigctx = \<lparr>SignalHandler_addr = 0x402000, SignalAction_addr = 0x402100, exclusive_signal = (\<lambda>s. s = 11), ucontext_t_sz = (\<lambda>_. 936)\<rparr>"

definition example_sigstate :: sigstate where
  "example_sigstate = \<lparr>sigactions = (\<lambda>_. 0), kernel = (\<lambda>_. \<lparr>sa_handler = 0, sa_flags = 0, sa_rest = (\<lambda>_. 0)\<rparr>)\<rparr>"

definition example_sigaction :: sigaction_fun where
  "example_sigaction s a k = (case a of None \<Rightarrow> (0, k) | Some b \<Rightarrow> if s \<noteq> 9 then (0, k(s := b)) else (-1, k))"

definition act_memory :: memory where
  "act_memory = (\<lambda>a. if a = 0x7f0000003001 then 0x10 else if a = 0x7f0000003002 then 0x40 else 0)"

lemma example_sig:
  "posix_sigaction (\<lambda>s. s \<noteq> 9) example_sigaction" "wrappers_ok example_sigctx"
  "shows_actions (\<lambda>s. s \<noteq> 9) example_sigctx example_sigstate (kernel example_sigstate)"
  by (simp_all add: posix_sigaction_def example_sigaction_def wrappers_ok_def wrapper_def example_sigctx_def sig_dfl_def sig_ign_def
      shows_actions_def example_sigstate_def unwrap_act_def wf_act_def)


section \<open>Delivery\<close>

text \<open>What a handler is when the system calls the address it holds for a signal.\<close>

definition deliver :: "kctx \<Rightarrow> sigctx \<Rightarrow> sigstate \<Rightarrow> int \<Rightarrow> uptr \<Rightarrow> uptr \<Rightarrow> (uptr \<Rightarrow> unit act) \<Rightarrow> unit act" where
  "deliver c sc sg signo si uc cb =
    (let h = sa_handler (kernel sg signo) in
     if h = SignalHandler_addr sc then SignalHandler sg signo cb
     else if h = SignalAction_addr sc then SignalAction c sc sg signo si uc cb else cb h)"

lemma signal_scope_eq:
  assumes "body (st\<lparr>rthread := map_option (\<lambda>t. t\<lparr>in_signal_handler := in_signal_handler t + 1\<rparr>) (rthread st)\<rparr>) = Some (Ok (Returned (), st1))"
  shows "signal_scope body st = Some (Ok (Returned (), st1\<lparr>rtls := Restore (tl_va_overflow (rtls st)) (rtls st1),
    rthread := map_option (\<lambda>t. t\<lparr>in_signal_handler := in_signal_handler t - 1\<rparr>) (rthread st1)\<rparr>))"
  using assms by (simp add: signal_scope_def EnterSignalHandler_def LeaveSignalHandler_def ask_def andthen_def ret_def Backup_def)

text \<open>The state in which a wrapper calls the program's handler.\<close>

definition handler_state :: "nat \<Rightarrow> rt \<Rightarrow> rt" where
  "handler_state n st = st\<lparr>rthread := map_option (\<lambda>t. t\<lparr>in_signal_handler := in_signal_handler t + 1\<rparr>) (rthread st),
     rtls := (rtls st)\<lparr>tl_param := replicate (min n (length (tl_param (rtls st)))) 0 @ drop n (tl_param (rtls st))\<rparr>\<rparr>"

text \<open>
  C26. Delivery. When a signal arrives whose action is the program's handler, that handler is called, by the wrapper that fits the flags, with
  its parameters initialised, and with the signal's information and context initialised if it asks for them. When it returns, the thread is
  no longer in a handler, the count of variadic bytes of the interrupted code is back, and what the handler left in the
  thread-local shadow of parameters and results is gone; memory is as the handler left it.
\<close>

theorem signal_delivery:
  assumes "ready c st" and "shows_actions acc sc sg D" and "wrappers_ok sc" and "0 < signo" and "signo < kMaxSignals"
    and "wrapper sc (sa_handler (kernel sg signo))" and "app_range linux_64 si 128" and "app_range linux_64 uc (ucontext_t_sz sc uc)"
    and "0 < ucontext_t_sz sc uc" and "ucontext_t_sz sc uc \<le> 2 ^ 40"
    and "n = (if sa_flags (D signo) AND sa_siginfo \<noteq> 0 then 3 else 1)"
    and "m = (if n = 3 then real_memset (real_memset (rmem st) (MEM_TO_SHADOW linux_64 si) 0 128)
          (MEM_TO_SHADOW linux_64 uc) 0 (ucontext_t_sz sc uc) else rmem st)"
    and "cb (sa_handler (D signo)) (set_rmem m (handler_state n st)) = Some (Ok (Returned (), st1))"
    and "n = 3 \<longrightarrow> ready c st1 \<and> bytes uc (ucontext_t_sz sc uc) \<inter> poisoned linux_64 (rmem st1) = {}"
    and "rthread st1 = rthread (handler_state n st)"
  shows "\<exists>st'. deliver c sc sg signo si uc cb st = Some (Ok (Returned (), st')) \<and> rmem st' = rmem st1 \<and> rthread st' = rthread st \<and>
    tl_va_overflow (rtls st') = tl_va_overflow (rtls st) \<and> set (tl_param (rtls st')) \<subseteq> {0} \<and> set (tl_retval (rtls st')) \<subseteq> {0} \<and>
    set (tl_va_arg (rtls st')) \<subseteq> {0}"
proof -
  let ?h = "sa_handler (kernel sg signo)"
  have D: "unwrap_act sc (sigactions sg signo) (kernel sg signo) = D signo" by (rule shows_actionsD [OF assms(2,4,5)])
  then have cb: "sigactions sg signo = sa_handler (D signo)" using assms(6) unfolding D [symmetric] by (auto simp: unwrap_act_def wrapper_def)
  have fl: "?h = SignalAction_addr sc \<longleftrightarrow> n = 3"
    using assms(2,4,5,6,11) unfolding shows_actions_def by (auto split: if_splits)
  let ?st0 = "st\<lparr>rthread := map_option (\<lambda>t. t\<lparr>in_signal_handler := in_signal_handler t + 1\<rparr>) (rthread st)\<rparr>"
  have "map_option (\<lambda>t. t\<lparr>in_signal_handler := in_signal_handler t - 1\<rparr>) (rthread st1) = rthread st"
    unfolding assms(15) by (cases "rthread st") (simp_all add: handler_state_def)
  note post = this
  have "\<exists>body. deliver c sc sg signo si uc cb = signal_scope body \<and> body ?st0 = Some (Ok (Returned (), st1))"
  proof (cases "n = 3")
    case True
    have rdy: "ready c (handler_state 3 st)" using assms(1) by (simp add: ready_def handler_state_def)
    have hs: "rt_UnpoisonParam 3 ?st0 = Some (Ok (Returned (), handler_state 3 st))"
      by (simp add: rt_UnpoisonParam_def ret_def handler_state_def)
    have mem: "rmem (handler_state 3 st) = rmem st" by (simp add: handler_state_def)
    have chk: "check_unpoisoned c uc (ucontext_t_sz sc uc) st1 = Some (Ok (Returned (), st1))"
      using assms(8-10,14) True by (intro check_unpoisoned_clean) simp_all
    have "deliver c sc sg signo si uc cb = SignalAction c sc sg signo si uc cb"
      using fl True assms(3) by (auto simp: deliver_def wrappers_ok_def)
    then show ?thesis
      using hs rdy chk assms(7,8,12,13) True mem
      unfolding SignalAction_def by (intro exI conjI) (assumption, simp add: andthen_def unpoison_ready cb)
  next
    case False
    then have n: "n = 1" using assms(11) by (simp split: if_splits)
    have "deliver c sc sg signo si uc cb = SignalHandler sg signo cb"
      using fl False assms(6) by (auto simp: deliver_def wrapper_def)
    moreover have "rt_UnpoisonParam 1 ?st0 = Some (Ok (Returned (), handler_state 1 st))"
      by (simp add: rt_UnpoisonParam_def ret_def handler_state_def)
    moreover have "set_rmem (rmem st) (handler_state 1 st) = handler_state 1 st" by (simp add: set_rmem_def handler_state_def)
    ultimately show ?thesis
      using assms(12,13) n unfolding SignalHandler_def by (intro exI conjI) (assumption, simp add: andthen_def cb)
  qed
  then obtain body where "deliver c sc sg signo si uc cb = signal_scope body" and "body ?st0 = Some (Ok (Returned (), st1))" by blast
  then show ?thesis using signal_scope_eq [of body st st1] post by (auto simp: Restore_def)
qed

definition handled_state :: sigstate where
  "handled_state = \<lparr>sigactions = (\<lambda>_. 0x401000), kernel = (\<lambda>_. \<lparr>sa_handler = 0x402000, sa_flags = 0, sa_rest = (\<lambda>_. 0)\<rparr>)\<rparr>"

theorem signal_delivery_witness:
  "\<exists>st'. deliver example_kctx example_sigctx handled_state 2 0x7f0000003000 0x7f0000004000 (\<lambda>h. ret ()) (example_rt (\<lambda>_. 1)) =
      Some (Ok (Returned (), st')) \<and> rthread st' = Some example_thread \<and> set (tl_param (rtls st')) \<subseteq> {0}"
proof -
  let ?D = "\<lambda>_. \<lparr>sa_handler = 0x401000, sa_flags = 0, sa_rest = (\<lambda>_. 0)\<rparr>"
  have s: "shows_actions (\<lambda>_. True) example_sigctx handled_state ?D" "wrapper example_sigctx (sa_handler (kernel handled_state 2))"
    by (simp_all add: shows_actions_def handled_state_def unwrap_act_def example_sigctx_def wf_act_def wrapper_def sig_dfl_def sig_ign_def)
  have r: "app_range linux_64 0x7f0000003000 128" "app_range linux_64 0x7f0000004000 (ucontext_t_sz example_sigctx 0x7f0000004000)"
    by (simp_all add: app_range_def fits_def linux_64_sel example_sigctx_def)
  show ?thesis
    using signal_delivery [where cb = "\<lambda>h. ret ()" and n = 1 and st = "example_rt (\<lambda>_. 1)" and signo = 2 and m = "rmem (example_rt (\<lambda>_. 1))"
        and ?st1.0 = "set_rmem (rmem (example_rt (\<lambda>_. 1))) (handler_state 1 (example_rt (\<lambda>_. 1)))", OF example_ready s(1) example_sig(2) _ _ s(2) r]
    by (auto simp: kMaxSignals_def example_sigctx_def ret_def example_rt_def)
qed

definition example_signal :: signal_fun where
  "example_signal s h k = (sa_handler (k s), k(s := (k s)\<lparr>sa_handler := h\<rparr>))"


section \<open>Exit handlers as a stack\<close>

text \<open>The functions and arguments that will be called, the next one first. \<open>rs\<close> is the runtime's stack, top first.\<close>

fun exit_view :: "exit_entry list \<Rightarrow> (uptr \<times> uptr) list \<Rightarrow> (uptr \<times> uptr) list \<Rightarrow> (uptr \<times> uptr) list" where
  "exit_view [] rs recs = []"
| "exit_view (StackWrapper # l) [] recs = []"
| "exit_view (StackWrapper # l) (r # rs) recs = (fst r, 0) # exit_view l rs recs"
| "exit_view (CxaWrapper i # l) rs recs = recs ! i # exit_view l rs recs"
| "exit_view (Direct f a # l) rs recs = (f, a) # exit_view l rs recs"

definition exit_calls :: "exit_state \<Rightarrow> (uptr \<times> uptr) list" where
  "exit_calls ex = exit_view (libc_exit ex) (rev (AtExitStack ex)) (exit_records ex)"

fun stack_entries :: "exit_entry list \<Rightarrow> nat" where
  "stack_entries [] = 0"
| "stack_entries (StackWrapper # l) = Suc (stack_entries l)"
| "stack_entries (CxaWrapper i # l) = stack_entries l"
| "stack_entries (Direct f a # l) = stack_entries l"

definition cxa_entries :: "exit_entry list \<Rightarrow> nat list" where
  "cxa_entries l = concat (map (\<lambda>e. case e of CxaWrapper i \<Rightarrow> [i] | _ \<Rightarrow> []) l)"

lemma cxa_entries_simps [simp]:
  "cxa_entries [] = []" "cxa_entries (StackWrapper # l) = cxa_entries l" "cxa_entries (CxaWrapper i # l) = i # cxa_entries l"
  "cxa_entries (Direct f a # l) = cxa_entries l"
  by (simp_all add: cxa_entries_def)

definition exit_ok :: "exit_state \<Rightarrow> bool" where
  "exit_ok ex \<longleftrightarrow> stack_entries (libc_exit ex) = length (AtExitStack ex) \<and> distinct (cxa_entries (libc_exit ex)) \<and>
     (\<forall>i \<in> set (cxa_entries (libc_exit ex)). i < length (exit_records ex) \<and> fst (exit_records ex ! i) \<noteq> 0)"

lemma exit_view_cong:
  "\<forall>i \<in> set (cxa_entries l). recs' ! i = recs ! i \<Longrightarrow> exit_view l rs recs' = exit_view l rs recs"
  by (induction l rs recs rule: exit_view.induct) auto

text \<open>Later states: records are only added, and an entry that is gone does not come back.\<close>

definition exit_later :: "exit_state \<Rightarrow> exit_state \<Rightarrow> bool" where
  "exit_later ex ex' \<longleftrightarrow> length (exit_records ex) \<le> length (exit_records ex') \<and>
     (\<forall>i \<in> set (cxa_entries (libc_exit ex')). i < length (exit_records ex) \<longrightarrow> i \<in> set (cxa_entries (libc_exit ex)))"

definition cxa_atexit_ok :: "cxa_atexit_fun \<Rightarrow> bool" where
  "cxa_atexit_ok real \<longleftrightarrow> (\<forall>e dso l. real e dso l = (0, e # l) \<or> (\<exists>r. r \<noteq> 0 \<and> real e dso l = (r, l)))"

lemma setup_at_exit_view:
  assumes "ready c st" and "exit_ok ex" and "cxa_atexit_ok real" and "f \<noteq> 0"
  obtains res ex' where "setup_at_exit_wrapper c real f a dso ex st = Some (Ok (Returned (res, ex'), st))"
    and "exit_ok ex'" and "exit_later ex ex'"
    and "exit_calls ex' = (if res = 0 then (f, if dso = 0 then 0 else a) # exit_calls ex else exit_calls ex)"
proof (cases "dso = 0")
  case True
  obtain res l where r: "real StackWrapper 0 (libc_exit ex) = (res, l)" by force
  then have l: "l = (if res = 0 then StackWrapper # libc_exit ex else libc_exit ex)"
    using assms(3) unfolding cxa_atexit_ok_def by (metis prod.inject)
  show thesis
    using that [of res "if res = 0 then ex\<lparr>libc_exit := l, AtExitStack := AtExitStack ex @ [(f, a)]\<rparr> else ex\<lparr>libc_exit := l\<rparr>"] assms(1,2) r l True
    by (simp add: setup_at_exit_wrapper_def andthen_def ensure_inited_ready ret_def exit_ok_def exit_later_def exit_calls_def)
next
  case False
  obtain res l where r: "real (CxaWrapper (length (exit_records ex))) dso (libc_exit ex) = (res, l)" by force
  then have l: "l = (if res = 0 then CxaWrapper (length (exit_records ex)) # libc_exit ex else libc_exit ex)"
    using assms(3) unfolding cxa_atexit_ok_def by (metis prod.inject)
  let ?ex = "ex\<lparr>libc_exit := l, exit_records := exit_records ex @ [(f, a)]\<rparr>"
  have old: "exit_view (libc_exit ex) (rev (AtExitStack ex)) (exit_records ex @ [(f, a)]) = exit_calls ex"
    unfolding exit_calls_def using assms(2) by (intro exit_view_cong) (simp add: exit_ok_def nth_append)
  have "exit_ok ?ex" using assms(2,4) l by (auto simp: exit_ok_def nth_append)
  moreover have "exit_later ex ?ex" using l by (auto simp: exit_later_def)
  moreover have "exit_calls ?ex = (if res = 0 then (f, a) # exit_calls ex else exit_calls ex)"
    using l old by (simp add: exit_calls_def)
  ultimately show thesis
    using that [of res ?ex] assms(1) r False by (simp add: setup_at_exit_wrapper_def andthen_def ensure_inited_ready ret_def)
qed

text \<open>What the step at exit does besides calling the function, by the kind of the entry.\<close>

definition params_clean :: "nat \<Rightarrow> rt \<Rightarrow> rt" where
  "params_clean n st = st\<lparr>rtls := (rtls st)\<lparr>tl_param := replicate (min n (length (tl_param (rtls st)))) 0 @ drop n (tl_param (rtls st))\<rparr>\<rparr>"

definition forget_record :: "nat \<Rightarrow> uptr \<Rightarrow> exit_state \<Rightarrow> exit_state" where
  "forget_record i a ex = ex\<lparr>exit_records := (exit_records ex)[i := (0, a)]\<rparr>"

lemma andthen_params: "andthen (rt_UnpoisonParam n) g st = g () (params_clean n st)"
  by (simp add: andthen_def rt_UnpoisonParam_def ret_def params_clean_def)

lemma andthen_ret: "andthen f ret = f"
  by (auto simp: andthen_def fun_eq_iff ret_def split: option.splits outcome.splits prod.splits res.splits)

lemma forget_record_view:
  assumes "exit_ok ex" and "i \<notin> set (cxa_entries (libc_exit ex))"
  shows "exit_ok (forget_record i a ex)" and "exit_calls (forget_record i a ex) = exit_calls ex"
proof -
  have same: "(exit_records ex)[i := (0, a)] ! j = exit_records ex ! j" if "j \<in> set (cxa_entries (libc_exit ex))" for j
    using that assms(2) by (metis nth_list_update_neq)
  then show "exit_ok (forget_record i a ex)" using assms(1) by (simp add: exit_ok_def forget_record_def)
  show "exit_calls (forget_record i a ex) = exit_calls ex"
    unfolding exit_calls_def forget_record_def using same by (simp add: exit_view_cong)
qed

lemma run_exit_view:
  assumes "exit_ok ex" and "exit_calls ex = (f, a) # rest"
  obtains ex1 st1 fin where "run_exit call ex st = andthen (call f a ex1) (\<lambda>ex2. ret (fin ex2)) st1"
    and "st1 = st \<or> st1 = params_clean 1 st" and "exit_ok ex1" and "exit_calls ex1 = rest"
    and "\<And>ex2. exit_ok ex2 \<Longrightarrow> exit_later ex1 ex2 \<Longrightarrow> exit_ok (fin ex2) \<and> exit_calls (fin ex2) = exit_calls ex2"
proof -
  obtain e l where l: "libc_exit ex = e # l" using assms(2) by (cases "libc_exit ex") (auto simp: exit_calls_def)
  have id: "(\<lambda>ex2. ret (id ex2)) = (ret :: exit_state \<Rightarrow> exit_state act)" by (simp add: fun_eq_iff)
  show thesis
  proof (cases e)
    case StackWrapper
    let ?stk = "AtExitStack ex"
    have ne: "?stk \<noteq> []" using assms(1) l StackWrapper by (auto simp: exit_ok_def)
    then have last: "?stk ! (length ?stk - 1) = last ?stk" by (simp add: last_conv_nth)
    have "?stk = butlast ?stk @ [last ?stk]" using ne by simp
    then have rv: "rev ?stk = last ?stk # rev (butlast ?stk)" by (metis rev_eq_Cons_iff rev_rev_ident)
    have c: "f = fst (last ?stk)" "a = 0" "rest = exit_view l (rev (butlast ?stk)) (exit_records ex)"
      using assms(2) unfolding exit_calls_def l StackWrapper rv by simp_all
    show thesis
    proof (rule that [of "ex\<lparr>libc_exit := l, AtExitStack := butlast ?stk\<rparr>" id "params_clean 1 st"])
      show "run_exit call ex st = andthen (call f a (ex\<lparr>libc_exit := l, AtExitStack := butlast ?stk\<rparr>)) (\<lambda>ex2. ret (id ex2)) (params_clean 1 st)"
        unfolding id andthen_ret using l StackWrapper ne last c
        by (simp add: run_exit_def CQMSanAtExitWrapper_def andthen_def check_act_def ret_def rt_UnpoisonParam_def params_clean_def Let_def)
    qed (use assms(1) l StackWrapper c in \<open>auto simp: exit_ok_def exit_calls_def\<close>)
  next
    case (CxaWrapper i)
    let ?ex = "ex\<lparr>libc_exit := l\<rparr>" and ?r = "exit_records ex ! i"
    have i: "i < length (exit_records ex)" "fst ?r \<noteq> 0" "i \<notin> set (cxa_entries l)"
      using assms(1) l CxaWrapper by (simp_all add: exit_ok_def)
    have c: "?r = (f, a)" "rest = exit_calls ?ex" using assms(2) l CxaWrapper by (simp_all add: exit_calls_def)
    show thesis
    proof (rule that [of ?ex "forget_record i a" "params_clean 1 st"])
      show "run_exit call ex st = andthen (call f a ?ex) (\<lambda>ex2. ret (forget_record i a ex2)) (params_clean 1 st)"
        using l CxaWrapper i(2) c(1)
        by (simp add: run_exit_def CQMSanCxaAtExitWrapper_def andthen_params forget_record_def)
      show "exit_ok (forget_record i a ex2) \<and> exit_calls (forget_record i a ex2) = exit_calls ex2" if "exit_ok ex2" "exit_later ?ex ex2" for ex2
        using forget_record_view [OF that(1)] that(2) i(1,3) by (auto simp: exit_later_def)
    qed (use assms(1) l CxaWrapper c in \<open>auto simp: exit_ok_def\<close>)
  next
    case (Direct g b)
    show thesis
    proof (rule that [of "ex\<lparr>libc_exit := l\<rparr>" id st])
      show "run_exit call ex st = andthen (call f a (ex\<lparr>libc_exit := l\<rparr>)) (\<lambda>ex2. ret (id ex2)) st"
        unfolding id andthen_ret using assms(2) l Direct by (simp add: run_exit_def exit_calls_def)
    qed (use assms l Direct in \<open>auto simp: exit_ok_def exit_calls_def\<close>)
  qed
qed

text \<open>
  C27. Exit handlers are a stack. Registering pushes the program's function, unless the library refuses; at exit, also when handlers register further
  ones, each step calls the top of the stack and pops it, and no function is called twice. A handler registered without
  a module loses its argument.
\<close>

theorem exit_handlers_stack:
  assumes "exit_ok ex" and "cxa_atexit_ok real" and "f \<noteq> 0"
  shows "(ready c st \<longrightarrow> (\<exists>res ex'. cxa_atexit c real f a dso ex st = Some (Ok (Returned (res, ex'), st)) \<and> exit_ok ex' \<and> exit_later ex ex' \<and>
      exit_calls ex' = (if res = 0 then (f, if dso = 0 then 0 else a) # exit_calls ex else exit_calls ex))) \<and>
    (ready c st \<longrightarrow> (\<exists>res ex'. atexit c real f ex st = Some (Ok (Returned (res, ex'), st)) \<and> exit_ok ex' \<and> exit_later ex ex' \<and>
      exit_calls ex' = (if res = 0 then (f, 0) # exit_calls ex else exit_calls ex))) \<and>
    (\<forall>g b rest. exit_calls ex = (g, b) # rest \<longrightarrow>
      (\<exists>ex1 st1 fin. run_exit call ex st = andthen (call g b ex1) (\<lambda>ex2. ret (fin ex2)) st1 \<and>
        (st1 = st \<or> st1 = params_clean 1 st) \<and> exit_ok ex1 \<and> exit_calls ex1 = rest \<and>
        (\<forall>ex2. exit_ok ex2 \<and> exit_later ex1 ex2 \<longrightarrow> exit_ok (fin ex2) \<and> exit_calls (fin ex2) = exit_calls ex2)))"
proof (intro conjI impI allI)
  assume r: "ready c st"
  show "\<exists>res ex'. cxa_atexit c real f a dso ex st = Some (Ok (Returned (res, ex'), st)) \<and> exit_ok ex' \<and> exit_later ex ex' \<and>
      exit_calls ex' = (if res = 0 then (f, if dso = 0 then 0 else a) # exit_calls ex else exit_calls ex)"
    using setup_at_exit_view [OF r assms, of a dso] by (metis cxa_atexit_def if_running_ready [OF r])
  show "\<exists>res ex'. atexit c real f ex st = Some (Ok (Returned (res, ex'), st)) \<and> exit_ok ex' \<and> exit_later ex ex' \<and>
      exit_calls ex' = (if res = 0 then (f, 0) # exit_calls ex else exit_calls ex)"
    using setup_at_exit_view [OF r assms, of 0 0] by (metis atexit_def if_running_ready [OF r])
next
  fix g b rest assume "exit_calls ex = (g, b) # rest"
  then show "\<exists>ex1 st1 fin. run_exit call ex st = andthen (call g b ex1) (\<lambda>ex2. ret (fin ex2)) st1 \<and>
        (st1 = st \<or> st1 = params_clean 1 st) \<and> exit_ok ex1 \<and> exit_calls ex1 = rest \<and>
        (\<forall>ex2. exit_ok ex2 \<and> exit_later ex1 ex2 \<longrightarrow> exit_ok (fin ex2) \<and> exit_calls (fin ex2) = exit_calls ex2)"
    using run_exit_view [OF assms(1), of g b rest call st] by metis
qed

definition example_exit :: exit_state where
  "example_exit = \<lparr>AtExitStack = [(0x401000, 5), (0x402000, 0)], exit_records = [(0x403000, 7)], libc_exit = [StackWrapper, CxaWrapper 0, StackWrapper]\<rparr>"

theorem exit_handlers_stack_witness:
  "exit_calls example_exit = [(0x402000, 0), (0x403000, 7), (0x401000, 0)] \<and>
   (\<exists>res ex'. atexit example_kctx (\<lambda>e dso l. (0, e # l)) 0x404000 example_exit (example_rt (\<lambda>_. 0)) =
      Some (Ok (Returned (res, ex'), example_rt (\<lambda>_. 0))) \<and> exit_ok ex')"
proof -
  have "exit_ok example_exit" by (simp add: exit_ok_def example_exit_def)
  moreover have "cxa_atexit_ok (\<lambda>e dso l. (0, e # l))" by (simp add: cxa_atexit_ok_def)
  ultimately have "\<exists>res ex'. atexit example_kctx (\<lambda>e dso l. (0, e # l)) 0x404000 example_exit (example_rt (\<lambda>_. 0)) =
      Some (Ok (Returned (res, ex'), example_rt (\<lambda>_. 0))) \<and> exit_ok ex'"
    using exit_handlers_stack [where f = "0x404000" and st = "example_rt (\<lambda>_. 0)" and c = example_kctx] example_ready by simp blast
  then show ?thesis by (simp add: exit_calls_def example_exit_def)
qed

end
