(* ===== verification/Heap_Interface.thy ===== *)
theory Heap_Interface
  imports Allocator Libc
begin

text \<open>
  The entry points of the heap: the C++ operators of \<^verbatim>\<open>cqmsan_new_delete.cpp\<close>, and the interceptors of the \<^verbatim>\<open>malloc\<close> family, which
  serve requests from the runtime's internal heap until initialisation is done (\<^verbatim>\<open>DlSymAllocator\<close>).
\<close>

section \<open>Operators\<close>

definition OPERATOR_NEW_BODY :: "bool \<Rightarrow> ('s, 'l) actx \<Rightarrow> ('s, 'l) astate \<Rightarrow> uptr \<Rightarrow> ('s, 'l, uptr) alloc" where
  "OPERATOR_NEW_BODY nothrow c st sz =
    bind_oo (cqmsan_malloc c st sz) (\<lambda>(res, st1).
      if \<not> nothrow \<and> res = 0 then Some (Died (Fatal ''out-of-memory'')) else Some (Ok (res, st1)))"

definition OPERATOR_NEW_BODY_ALIGN :: "bool \<Rightarrow> ('s, 'l) actx \<Rightarrow> ('s, 'l) astate \<Rightarrow> uptr \<Rightarrow> uptr \<Rightarrow> ('s, 'l, uptr) alloc" where
  "OPERATOR_NEW_BODY_ALIGN nothrow c st align sz =
    bind_oo (cqmsan_memalign c st align sz) (\<lambda>(res, st1).
      if \<not> nothrow \<and> res = 0 then Some (Died (Fatal ''out-of-memory'')) else Some (Ok (res, st1)))"

definition OPERATOR_DELETE_BODY :: "('s, 'l) actx \<Rightarrow> ('s, 'l) astate \<Rightarrow> uptr \<Rightarrow> ('s, 'l, unit) alloc" where
  "OPERATOR_DELETE_BODY c st ptr = (if ptr \<noteq> 0 then CQMsanDeallocate c st ptr else Some (Ok ((), st)))"

section \<open>The internal heap\<close>

text \<open>
  The internal size-class heap, through the functions \<^verbatim>\<open>DlSymAllocator\<close> calls; \<open>from_primary\<close> tells its addresses.
\<close>

record 'i iheap =
  InternalAlloc :: "'i \<Rightarrow> memory \<Rightarrow> uptr \<Rightarrow> 'i \<times> memory \<times> uptr"
  InternalCalloc :: "'i \<Rightarrow> memory \<Rightarrow> uptr \<Rightarrow> uptr \<Rightarrow> 'i \<times> memory \<times> uptr"
  InternalFree :: "'i \<Rightarrow> memory \<Rightarrow> uptr \<Rightarrow> 'i \<times> memory"
  GetActuallyAllocatedSize :: "'i \<Rightarrow> uptr \<Rightarrow> uptr"
  from_primary :: "uptr \<Rightarrow> bool"

type_synonym ('s, 'l, 'i) hstate = "('s, 'l) astate \<times> 'i"
type_synonym ('s, 'l, 'i, 'a) heap_act = "('a \<times> ('s, 'l, 'i) hstate) outcome option"

definition dlsym_Allocate :: "'i iheap \<Rightarrow> ('s, 'l, 'i) hstate \<Rightarrow> uptr \<Rightarrow> ('s, 'l, 'i, uptr) heap_act" where
  "dlsym_Allocate ih s sz =
    (let (i, m, ptr) = InternalAlloc ih (snd s) (amem (fst s)) sz
     in Some (check (from_primary ih ptr) (Ok (ptr, ((fst s)\<lparr>amem := m\<rparr>, i)))))"

definition dlsym_Callocate :: "'i iheap \<Rightarrow> ('s, 'l, 'i) hstate \<Rightarrow> uptr \<Rightarrow> uptr \<Rightarrow> ('s, 'l, 'i, uptr) heap_act" where
  "dlsym_Callocate ih s nmemb sz =
    (let (i, m, ptr) = InternalCalloc ih (snd s) (amem (fst s)) nmemb sz
     in Some (check (from_primary ih ptr) (Ok (ptr, ((fst s)\<lparr>amem := m\<rparr>, i)))))"

definition dlsym_Free :: "'i iheap \<Rightarrow> ('s, 'l, 'i) hstate \<Rightarrow> uptr \<Rightarrow> ('s, 'l, 'i, unit) heap_act" where
  "dlsym_Free ih s ptr =
    (let (i, m) = InternalFree ih (snd s) (amem (fst s)) ptr in Some (Ok ((), ((fst s)\<lparr>amem := m\<rparr>, i))))"

definition dlsym_Realloc :: "'i iheap \<Rightarrow> ('s, 'l, 'i) hstate \<Rightarrow> uptr \<Rightarrow> uptr \<Rightarrow> ('s, 'l, 'i, uptr) heap_act" where
  "dlsym_Realloc ih s ptr new_size =
    (if ptr = 0 then dlsym_Allocate ih s new_size
     else if \<not> from_primary ih ptr then Some (Died CheckFailed)
     else if new_size = 0 then bind_oo (dlsym_Free ih s ptr) (\<lambda>(_, s1). Some (Ok (0, s1)))
     else
       let memcpy_size = min new_size (GetActuallyAllocatedSize ih (snd s) ptr)
       in bind_oo (dlsym_Allocate ih s new_size) (\<lambda>(new_ptr, s1).
            let s2 = (if new_ptr \<noteq> 0 then ((fst s1)\<lparr>amem := internal_memcpy (amem (fst s1)) new_ptr ptr memcpy_size\<rparr>, snd s1) else s1)
            in bind_oo (dlsym_Free ih s2 ptr) (\<lambda>(_, s3). Some (Ok (new_ptr, s3)))))"

section \<open>The interceptors\<close>

definition in_heap :: "('s, 'l, 'a) alloc \<Rightarrow> 'i \<Rightarrow> ('s, 'l, 'i, 'a) heap_act" where
  "in_heap r i = map_option (\<lambda>x. bind_ok x (\<lambda>(v, st). Ok (v, (st, i)))) r"

text \<open>\<open>inited\<close> is \<^verbatim>\<open>cqmsan_inited\<close>.\<close>

definition malloc_interceptor :: "bool \<Rightarrow> 'i iheap \<Rightarrow> ('s, 'l) actx \<Rightarrow> ('s, 'l, 'i) hstate \<Rightarrow> uptr \<Rightarrow> ('s, 'l, 'i, uptr) heap_act" where
  "malloc_interceptor inited ih c s sz =
    (if \<not> inited then dlsym_Allocate ih s sz else in_heap (cqmsan_malloc c (fst s) sz) (snd s))"

definition calloc_interceptor :: "bool \<Rightarrow> 'i iheap \<Rightarrow> ('s, 'l) actx \<Rightarrow> ('s, 'l, 'i) hstate \<Rightarrow> uptr \<Rightarrow> uptr \<Rightarrow> ('s, 'l, 'i, uptr) heap_act" where
  "calloc_interceptor inited ih c s nmemb sz =
    (if \<not> inited then dlsym_Callocate ih s nmemb sz else in_heap (cqmsan_calloc c (fst s) nmemb sz) (snd s))"

definition realloc_interceptor :: "bool \<Rightarrow> 'i iheap \<Rightarrow> ('s, 'l) actx \<Rightarrow> ('s, 'l, 'i) hstate \<Rightarrow> uptr \<Rightarrow> uptr \<Rightarrow> ('s, 'l, 'i, uptr) heap_act" where
  "realloc_interceptor inited ih c s ptr sz =
    (if \<not> inited \<or> from_primary ih ptr then dlsym_Realloc ih s ptr sz else in_heap (cqmsan_realloc c (fst s) ptr sz) (snd s))"

definition reallocarray_interceptor :: "('s, 'l) actx \<Rightarrow> ('s, 'l, 'i) hstate \<Rightarrow> uptr \<Rightarrow> uptr \<Rightarrow> uptr \<Rightarrow> ('s, 'l, 'i, uptr) heap_act" where
  "reallocarray_interceptor c s ptr nmemb sz = in_heap (cqmsan_reallocarray c (fst s) ptr nmemb sz) (snd s)"

definition free_interceptor :: "'i iheap \<Rightarrow> ('s, 'l) actx \<Rightarrow> ('s, 'l, 'i) hstate \<Rightarrow> uptr \<Rightarrow> ('s, 'l, 'i, unit) heap_act" where
  "free_interceptor ih c s ptr =
    (if ptr = 0 then Some (Ok ((), s))
     else if from_primary ih ptr then dlsym_Free ih s ptr
     else in_heap (CQMsanDeallocate c (fst s) ptr) (snd s))"

definition cfree :: "'i iheap \<Rightarrow> ('s, 'l) actx \<Rightarrow> ('s, 'l, 'i) hstate \<Rightarrow> uptr \<Rightarrow> ('s, 'l, 'i, unit) heap_act" where
  "cfree ih c s ptr =
    (if ptr = 0 then Some (Ok ((), s))
     else if from_primary ih ptr then dlsym_Free ih s ptr
     else in_heap (CQMsanDeallocate c (fst s) ptr) (snd s))"

definition posix_memalign_interceptor :: "('s, 'l) actx \<Rightarrow> ('s, 'l) astate \<Rightarrow> uptr \<Rightarrow> uptr \<Rightarrow> uptr \<Rightarrow> ('s, 'l, int) alloc" where
  "posix_memalign_interceptor c st memptr alignment sz =
    (if memptr = 0 then Some (Died CheckFailed)
     else bind_oo (cqmsan_posix_memalign c st memptr alignment sz) (\<lambda>(res, st1).
       if res = 0 then
         Some (bind_ok (cqmsan_unpoison (ac_plat c) (ac_env c) (amem st1) memptr 8) (\<lambda>m. Ok (res, st1\<lparr>amem := m\<rparr>)))
       else Some (Ok (res, st1))))"

definition libc_memalign :: "('s, 'l) actx \<Rightarrow> ('s, 'l) astate \<Rightarrow> uptr \<Rightarrow> uptr \<Rightarrow> ('s, 'l, uptr) alloc" where
  "libc_memalign c st alignment sz = cqmsan_memalign c st alignment sz"

definition malloc_usable_size :: "('s, 'l) actx \<Rightarrow> ('s, 'l) astate \<Rightarrow> uptr \<Rightarrow> uptr" where
  "malloc_usable_size c st ptr = AllocationSize c (amem st) ptr"

section \<open>Copies between disjoint blocks\<close>

lemma copy_up_disjoint:
  assumes "ranges_disjoint d n s n"
  shows "copy_up m d s n i = (\<lambda>a. if i \<le> a - d \<and> a - d < n then m (s + (a - d)) else m a)"
  using assms
proof (induction m d s n i rule: copy_up.induct)
  case (1 m d s n i)
  show ?case
  proof (cases "i < n")
    case True
    note step = word_Suc_le [OF True]
    have "in_range (d + i) d n" using True by simp
    then have apart: "s + j \<noteq> d + i" if "j < n" for j
      using "1.prems" that in_range_offset [of s j n] unfolding ranges_disjoint_def by metis
    have "copy_up m d s n i = copy_up (m(d + i := m (s + i))) d s n (i + 1)"
      by (subst copy_up.simps) (simp add: True)
    also have "\<dots> = (\<lambda>a. if i + 1 \<le> a - d \<and> a - d < n then (m(d + i := m (s + i))) (s + (a - d)) else (m(d + i := m (s + i))) a)"
      by (rule "1.IH" [OF True "1.prems"])
    also have "\<dots> = (\<lambda>a. if i \<le> a - d \<and> a - d < n then m (s + (a - d)) else m a)"
    proof
      fix a
      have "a = d + i \<longleftrightarrow> a - d = i" by auto
      then show "(if i + 1 \<le> a - d \<and> a - d < n then (m(d + i := m (s + i))) (s + (a - d)) else (m(d + i := m (s + i))) a)
        = (if i \<le> a - d \<and> a - d < n then m (s + (a - d)) else m a)"
        using apart [of "a - d"] True unfolding step by auto
    qed
    finally show ?thesis .
  next
    case False
    then have "\<not> (i \<le> a - d \<and> a - d < n)" for a by auto
    then show ?thesis by (subst copy_up.simps) (auto simp: False fun_eq_iff)
  qed
qed

lemma internal_memcpy_disjoint: "ranges_disjoint d n s n \<Longrightarrow> internal_memcpy m d s n = real_memmove m d s n"
  by (simp add: internal_memcpy_def copy_up_disjoint real_memmove_def in_range_def)

section \<open>Properties\<close>

text \<open>
  The operators. When the C library grants the request, each form of \<^verbatim>\<open>new\<close> returns a fresh pointer of its alignment, and \<^verbatim>\<open>delete\<close>
  of that pointer returns and restores the table of live chunks. When it refuses, the throwing forms end the process and so never
  return null, and the others return null. Deleting null does nothing.
\<close>

theorem new_delete_correct:
  fixes c :: "('s, 'l) actx"
  assumes "alloc_ok c I B" and "I (aheap st)" and "heap_rel (amem st) (B (aheap st)) T"
    and "sz \<le> max_malloc_size c" and "\<not> rss_exceeded c" and "IsPowerOfTwo al" and "al \<noteq> 0" and "al \<le> 2 ^ 40"
    and "libc_reply c st (real_size_for sz al) False = (h, m, raw)"
  shows "(raw \<noteq> 0 \<longrightarrow> (\<exists>u st1 st2. OPERATOR_NEW_BODY_ALIGN nothrow c st al sz = Some (Ok (u, st1)) \<and>
      (al = 8 \<longrightarrow> OPERATOR_NEW_BODY nothrow c st sz = Some (Ok (u, st1))) \<and> u \<noteq> 0 \<and> IsAligned u al \<and> T u = None \<and>
      OPERATOR_DELETE_BODY c st1 u = Some (Ok ((), st2)) \<and> I (aheap st2) \<and> heap_rel (amem st2) (B (aheap st2)) T)) \<and>
    (raw = 0 \<longrightarrow> OPERATOR_NEW_BODY_ALIGN False c st al sz = Some (Died (Fatal ''out-of-memory'')) \<and>
      (may_return_null c \<longrightarrow> (\<exists>st'. OPERATOR_NEW_BODY_ALIGN True c st al sz = Some (Ok (0, st'))))) \<and>
    OPERATOR_DELETE_BODY c st 0 = Some (Ok ((), st))"
proof (intro conjI impI)
  assume raw: "raw \<noteq> 0"
  from allocate_ok [OF assms raw] obtain u st1
    where a: "CQMsanAllocate c st sz al False = Some (Ok (u, st1))" "u \<noteq> 0" "IsAligned u al" "T u = None"
      "I (aheap st1)" "aheap st1 = h" "heap_rel (amem st1) (B h) (T(u \<mapsto> (sz, raw, real_size_for sz al)))"
    by (elim exE conjE) (rule that)
  have "heap_rel (amem st1) (B (aheap st1)) (T(u \<mapsto> (sz, raw, real_size_for sz al)))" using a(6,7) by simp
  from free_ok [OF assms(1) a(5) this] obtain st2
    where f: "CQMsanDeallocate c st1 u = Some (Ok ((), st2))" "I (aheap st2)"
      "heap_rel (amem st2) (B (aheap st2)) ((T(u \<mapsto> (sz, raw, real_size_for sz al)))(u := None))"
    by (metis fun_upd_same)
  have T: "(T(u \<mapsto> (sz, raw, real_size_for sz al)))(u := None) = T" using a(4) by auto
  have "cqmsan_memalign c st al sz = Some (Ok (u, st1))" "al = 8 \<longrightarrow> cqmsan_malloc c st sz = Some (Ok (u, st1))"
    using SetErrnoOnNull_ok [OF a(1,2)] assms(6) by (auto simp: cqmsan_memalign_def cqmsan_malloc_def)
  then show "\<exists>u st1 st2. OPERATOR_NEW_BODY_ALIGN nothrow c st al sz = Some (Ok (u, st1)) \<and>
      (al = 8 \<longrightarrow> OPERATOR_NEW_BODY nothrow c st sz = Some (Ok (u, st1))) \<and> u \<noteq> 0 \<and> IsAligned u al \<and> T u = None \<and>
      OPERATOR_DELETE_BODY c st1 u = Some (Ok ((), st2)) \<and> I (aheap st2) \<and> heap_rel (amem st2) (B (aheap st2)) T"
    using a(2-4) f T
    by (intro exI [of _ u] exI [of _ st1] exI [of _ st2]) (simp add: OPERATOR_NEW_BODY_ALIGN_def OPERATOR_NEW_BODY_def OPERATOR_DELETE_BODY_def bind_oo_def)
next
  assume raw: "raw = 0"
  have "CQMsanAllocate c st sz al False = (if may_return_null c then Some (Ok (0, st\<lparr>aheap := h, amem := m, out_of_memory := True\<rparr>))
      else Some (Died (Fatal ''out-of-memory'')))"
    using assms(4,5,9) raw by (simp add: CQMsanAllocate_def Let_def flip: not_less)
  then have "cqmsan_memalign c st al sz = (if may_return_null c
      then Some (Ok (0, st\<lparr>aheap := h, amem := m, out_of_memory := True, errno := errno_ENOMEM\<rparr>)) else Some (Died (Fatal ''out-of-memory'')))"
    using assms(6) by (simp add: cqmsan_memalign_def SetErrnoOnNull_def bind_oo_def)
  then show "OPERATOR_NEW_BODY_ALIGN False c st al sz = Some (Died (Fatal ''out-of-memory''))"
    "may_return_null c \<Longrightarrow> \<exists>st'. OPERATOR_NEW_BODY_ALIGN True c st al sz = Some (Ok (0, st'))"
    by (simp_all add: OPERATOR_NEW_BODY_ALIGN_def bind_oo_def)
qed (simp add: OPERATOR_DELETE_BODY_def)

theorem new_delete_correct_witness:
  "\<exists>u st1 st2. OPERATOR_NEW_BODY_ALIGN False example_actx example_heap 64 100 = Some (Ok (u, st1)) \<and> u \<noteq> 0 \<and>
     OPERATOR_DELETE_BODY example_actx st1 u = Some (Ok ((), st2)) \<and> heap_rel (amem st2) (arena_blocks (aheap st2)) Map.empty"
proof -
  have "(100 :: uptr) \<le> max_malloc_size example_actx" "\<not> rss_exceeded example_actx" "IsPowerOfTwo (64 :: uptr)"
    by (simp_all add: example_actx_def initial_max_malloc_size_def kMaxAllowedMallocSize_def IsPowerOfTwo_def)
  then show ?thesis
    using new_delete_correct [OF example_alloc_ok example_empty _ _ _ _ _ example_reply, of False] by fastforce
qed

text \<open>
  Requests during initialisation. A pointer of the internal heap, the only ones handed out then, goes back to the internal heap, also when
  it is released or resized after initialisation; resizing keeps the contents up to the smaller size. \<^verbatim>\<open>reallocarray\<close> is the
  exception: it takes such a pointer for one of the program's heap and ends the process.
\<close>

theorem internal_pointers_stay:
  fixes ih :: "'i iheap" and c :: "('s, 'l) actx"
  assumes "from_primary ih ptr" and "ptr \<noteq> 0" and "n \<noteq> 0"
    and "\<And>h m k. InternalAlloc ih h m k = (alloc_state h k, m, alloc_ptr h k)" and "\<And>h k. from_primary ih (alloc_ptr h k)"
    and "\<And>h m p. InternalFree ih h m p = (free_state h p, m)"
    and "q = alloc_ptr (snd s) n" and "q \<noteq> 0" and "k = min n (GetActuallyAllocatedSize ih (snd s) ptr)" and "ranges_disjoint q k ptr k"
    and "load64 (amem (fst s)) (ptr - 24) \<noteq> CQMsanCanaryFor ptr" and "\<not> CheckForCallocOverflow 1 n"
  shows "(\<forall>j. \<exists>p s'. malloc_interceptor False ih c s j = Some (Ok (p, s')) \<and> from_primary ih p) \<and>
    free_interceptor ih c s ptr = Some (Ok ((), (fst s, free_state (snd s) ptr))) \<and>
    (\<exists>s'. realloc_interceptor inited ih c s ptr n = Some (Ok (q, s')) \<and> from_primary ih q \<and>
      (\<forall>i < k. amem (fst s') (q + i) = amem (fst s) (ptr + i))) \<and>
    reallocarray_interceptor c s ptr n 1 = Some (Died DieCalled)"
proof (intro conjI)
  obtain st i where s: "s = (st, i)" by (cases s)
  show "\<forall>j. \<exists>p s'. malloc_interceptor False ih c s j = Some (Ok (p, s')) \<and> from_primary ih p"
    using assms(4,5) by (simp add: malloc_interceptor_def dlsym_Allocate_def)
  show "free_interceptor ih c s ptr = Some (Ok ((), (fst s, free_state (snd s) ptr)))"
    using assms(1,2,6) by (simp add: free_interceptor_def dlsym_Free_def)
  show "\<exists>s'. realloc_interceptor inited ih c s ptr n = Some (Ok (q, s')) \<and> from_primary ih q \<and>
      (\<forall>i < k. amem (fst s') (q + i) = amem (fst s) (ptr + i))"
    using assms(1-10)
    by (simp add: realloc_interceptor_def dlsym_Realloc_def dlsym_Allocate_def dlsym_Free_def bind_oo_def internal_memcpy_disjoint real_memmove_def s)
  show "reallocarray_interceptor c s ptr n 1 = Some (Died DieCalled)"
    using assms(2,3,11,12)
    by (simp add: reallocarray_interceptor_def cqmsan_reallocarray_def cqmsan_realloc_def SetErrnoOnNull_def bind_oo_def in_heap_def
        CQMsanReallocate_def CQMsanReallocateGlibc_def Let_def)
qed

definition example_iheap :: "uptr iheap" where
  "example_iheap = \<lparr>InternalAlloc = (\<lambda>h m k. (h + 64, m, h)), InternalCalloc = (\<lambda>h m a b. (h + 64, real_memset m h 0 (a * b), h)),
     InternalFree = (\<lambda>h m p. (h, m)), GetActuallyAllocatedSize = (\<lambda>h p. 64), from_primary = (\<lambda>p. True)\<rparr>"

theorem internal_pointers_stay_witness:
  "free_interceptor example_iheap example_actx (example_heap, 0x600000000040) 0x600000000000 = Some (Ok ((), (example_heap, 0x600000000040))) \<and>
   reallocarray_interceptor example_actx (example_heap, 0x600000000040 :: uptr) 0x600000000000 16 1 = Some (Died DieCalled)"
proof -
  have "load64 (amem example_heap) (0x600000000000 - 24) = 0" by (simp add: example_heap_def load64_def load32_def)
  moreover have "CQMsanCanaryFor 0x600000000000 \<noteq> 0" by (simp add: CQMsanCanaryFor_def kHeaderMagic_def)
  moreover have "ranges_disjoint 0x600000000040 16 0x600000000000 (16 :: uptr)"
    using in_range_off [of "0x40" 16 _ "0x600000000000"] by (auto simp: ranges_disjoint_def in_range_def word_less_nat_alt)
  moreover have "\<not> CheckForCallocOverflow 1 16" by (simp add: CheckForCallocOverflow_def)
  ultimately show ?thesis
    using internal_pointers_stay [where ih = example_iheap and ptr = "0x600000000000" and n = 16 and s = "(example_heap, 0x600000000040)"
        and alloc_state = "\<lambda>h k. h + 64" and alloc_ptr = "\<lambda>h k. h" and free_state = "\<lambda>h p. h" and q = "0x600000000040" and k = 16
        and c = example_actx] by (simp add: example_iheap_def)
qed

end
