(* ===== verification/Interface.thy ===== *)
theory Interface
  imports Handlers Heap_Interface
begin

text \<open>
  Functions of \<^verbatim>\<open>cqmsan.cpp\<close> that instrumented code and the program call directly: unaligned accesses with their shadow in thread-local
  storage, copies of shadow, the nesting count of disabled checks, and the list of ranges the loader initialised.
\<close>

section \<open>Unaligned accesses\<close>

definition store16 :: "memory \<Rightarrow> uptr \<Rightarrow> u16 \<Rightarrow> memory" where
  "store16 m a v = m(a := ucast v, a + 1 := ucast (drop_bit 8 v))"

text \<open>The first \<open>k\<close> bits of the slot of the result; the slot has no further effect when \<open>k\<close> is 64.\<close>

definition set_retval :: "nat \<Rightarrow> u64 \<Rightarrow> tls_state \<Rightarrow> tls_state" where
  "set_retval k v t = t\<lparr>tl_retval := (tl_retval t)[0 := (tl_retval t ! 0 AND NOT (mask k)) OR v]\<rparr>"

definition unaligned_load16 :: "platform \<Rightarrow> uptr \<Rightarrow> rt \<Rightarrow> u16 \<times> rt" where
  "unaligned_load16 p a st =
    (load16 (rmem st) a, st\<lparr>rtls := set_retval 16 (ucast (load16 (rmem st) (MEM_TO_SHADOW p a))) (rtls st)\<rparr>)"

definition unaligned_load32 :: "platform \<Rightarrow> uptr \<Rightarrow> rt \<Rightarrow> u32 \<times> rt" where
  "unaligned_load32 p a st =
    (load32 (rmem st) a, st\<lparr>rtls := set_retval 32 (ucast (load32 (rmem st) (MEM_TO_SHADOW p a))) (rtls st)\<rparr>)"

definition unaligned_load64 :: "platform \<Rightarrow> uptr \<Rightarrow> rt \<Rightarrow> u64 \<times> rt" where
  "unaligned_load64 p a st =
    (load64 (rmem st) a, st\<lparr>rtls := set_retval 64 (load64 (rmem st) (MEM_TO_SHADOW p a)) (rtls st)\<rparr>)"

definition unaligned_store16 :: "platform \<Rightarrow> uptr \<Rightarrow> u16 \<Rightarrow> rt \<Rightarrow> rt" where
  "unaligned_store16 p a x st =
    (let s = ucast (tl_param (rtls st) ! 1) in set_rmem (store16 (store16 (rmem st) (MEM_TO_SHADOW p a) s) a x) st)"

definition unaligned_store32 :: "platform \<Rightarrow> uptr \<Rightarrow> u32 \<Rightarrow> rt \<Rightarrow> rt" where
  "unaligned_store32 p a x st =
    (let s = ucast (tl_param (rtls st) ! 1) in set_rmem (store32 (store32 (rmem st) (MEM_TO_SHADOW p a) s) a x) st)"

definition unaligned_store64 :: "platform \<Rightarrow> uptr \<Rightarrow> u64 \<Rightarrow> rt \<Rightarrow> rt" where
  "unaligned_store64 p a x st =
    (let s = tl_param (rtls st) ! 1 in set_rmem (store64 (store64 (rmem st) (MEM_TO_SHADOW p a) s) a x) st)"

section \<open>Copies of shadow\<close>

definition partial_poison :: "platform \<Rightarrow> memory \<Rightarrow> uptr \<Rightarrow> uptr \<Rightarrow> uptr \<Rightarrow> memory" where
  "partial_poison p m data shadow sz = internal_memcpy m (MEM_TO_SHADOW p data) shadow sz"

definition load_unpoisoned :: "platform \<Rightarrow> env \<Rightarrow> memory \<Rightarrow> uptr \<Rightarrow> uptr \<Rightarrow> uptr \<Rightarrow> memory outcome" where
  "load_unpoisoned p e m src sz dst = cqmsan_unpoison p e (internal_memcpy m dst src sz) dst sz"

section \<open>Ranges the loader initialised\<close>

datatype phdr = PT_LOAD uptr uptr | PT_TLS uptr | Other_phdr

text \<open>
  A loaded object: its load address, the address of the thread's instance of its TLS segment (0 if there is none or the structure is too
  short to have it), and its program headers (virtual address and size in memory).
\<close>

record dl_object =
  dlpi_addr :: uptr
  dlpi_tls_data :: uptr
  dlpi_phdr :: "phdr list"

definition kMaxStaticRanges :: nat where
  "kMaxStaticRanges = 256"

fun collect_headers :: "dl_object \<Rightarrow> phdr list \<Rightarrow> (uptr \<times> uptr) list \<Rightarrow> (uptr \<times> uptr) list" where
  "collect_headers ob [] rs = rs"
| "collect_headers ob (PT_LOAD vaddr memsz # hs) rs =
    (if length rs \<ge> kMaxStaticRanges then rs
     else let beg = dlpi_addr ob + vaddr in collect_headers ob hs (rs @ [(beg, beg + memsz)]))"
| "collect_headers ob (PT_TLS memsz # hs) rs =
    (if dlpi_tls_data ob = 0 then collect_headers ob hs rs
     else if length rs \<ge> kMaxStaticRanges then rs
     else collect_headers ob hs (rs @ [(dlpi_tls_data ob, dlpi_tls_data ob + memsz)]))"
| "collect_headers ob (Other_phdr # hs) rs = collect_headers ob hs rs"

definition CollectPhdrRanges :: "dl_object \<Rightarrow> (uptr \<times> uptr) list \<Rightarrow> (uptr \<times> uptr) list" where
  "CollectPhdrRanges ob rs = collect_headers ob (dlpi_phdr ob) rs"

definition InitStaticRangeList :: "dl_object list \<Rightarrow> (uptr \<times> uptr) list" where
  "InitStaticRangeList obs = fold CollectPhdrRanges obs []"

fun is_static_range :: "(uptr \<times> uptr) list \<Rightarrow> uptr \<Rightarrow> bool" where
  "is_static_range [] addr \<longleftrightarrow> False"
| "is_static_range ((b, e) # rs) addr \<longleftrightarrow> (if addr \<ge> b \<and> addr < e then True else is_static_range rs addr)"

section \<open>Bytes of an access and their shadow\<close>

lemma load16_cong: "(\<And>i. i < 2 \<Longrightarrow> m (a + i) = m' (a + i)) \<Longrightarrow> load16 m a = load16 m' a"
proof -
  assume *: "\<And>i. i < 2 \<Longrightarrow> m (a + i) = m' (a + i)"
  show ?thesis using * [of 0] * [of 1] by (simp add: load16_def)
qed

lemma store16_out: "\<not> in_range x a 2 \<Longrightarrow> store16 m a v x = m x"
proof -
  assume "\<not> in_range x a 2"
  then have "x \<noteq> a + i" if "i < 2" for i using that by auto
  from this [of 0] this [of 1] show ?thesis by (simp add: store16_def)
qed

lemma load16_store16: "load16 (store16 m a v) a = v"
proof (rule bit_word_eqI)
  fix n assume "n < LENGTH(16)"
  then show "bit (load16 (store16 m a v) a) n = bit v n"
    by (cases "n < 8") (auto simp: load16_def store16_def bit_simps)
qed

text \<open>The shadow of application bytes lies apart from application bytes.\<close>

lemma shadow_apart:
  assumes "app_range linux_64 a n" and "0 < n" and "i < n"
  shows "\<not> in_range (MEM_TO_SHADOW linux_64 a + i) a n"
proof
  assume "in_range (MEM_TO_SHADOW linux_64 a + i) a n"
  then obtain j where "j < n" "MEM_TO_SHADOW linux_64 a + i = a + j" by (auto elim: in_rangeE)
  moreover have "MEM_TO_SHADOW linux_64 a + i = MEM_TO_SHADOW linux_64 (a + i)"
    using x86.shadow_offset [OF app_range_block [OF assms(1,2)] assms(3)] by simp
  ultimately have "MEM_IS_APP linux_64 (MEM_TO_SHADOW linux_64 (a + i))" using app_range_app [OF assms(1)] by simp
  then show False
    using x86.app_shadow [OF app_range_app [OF assms(1,3)]] sane_disjoint(1) [OF linux_64_sane] by blast
qed

lemma set_retval_nth: "tl_retval t \<noteq> [] \<Longrightarrow> tl_retval (set_retval k v t) ! 0 = (tl_retval t ! 0 AND NOT (mask k)) OR v"
  by (simp add: set_retval_def)

section \<open>Properties\<close>

text \<open>
  Unaligned accesses carry the shadow of the value: after a store, a load of the same width at that address returns the value, and the
  shadow of its result is the shadow the stored value came with, cut to the width.
\<close>

theorem unaligned_roundtrip:
  assumes "tl_retval (rtls st) \<noteq> []" and "s = tl_param (rtls st) ! 1"
    and "app_range linux_64 a n"
  shows "(n = 2 \<longrightarrow> (\<exists>st'. unaligned_load16 linux_64 a (unaligned_store16 linux_64 a x st) = (x, st') \<and>
      take_bit 16 (tl_retval (rtls st') ! 0) = take_bit 16 s)) \<and>
    (n = 4 \<longrightarrow> (\<exists>st'. unaligned_load32 linux_64 a (unaligned_store32 linux_64 a y st) = (y, st') \<and>
      take_bit 32 (tl_retval (rtls st') ! 0) = take_bit 32 s)) \<and>
    (n = 8 \<longrightarrow> (\<exists>st'. unaligned_load64 linux_64 a (unaligned_store64 linux_64 a z st) = (z, st') \<and> tl_retval (rtls st') ! 0 = s))"
proof -
  note apart = shadow_apart [OF assms(3)]
  have 2: "load16 (store16 (store16 (rmem st) (MEM_TO_SHADOW linux_64 a) v) a x) (MEM_TO_SHADOW linux_64 a) = v" if "n = 2" for v
    using apart that load16_cong [of "store16 (store16 (rmem st) (MEM_TO_SHADOW linux_64 a) v) a x" _ "store16 (rmem st) (MEM_TO_SHADOW linux_64 a) v"]
    by (simp add: store16_out load16_store16)
  have 4: "load32 (store32 (store32 (rmem st) (MEM_TO_SHADOW linux_64 a) v) a y) (MEM_TO_SHADOW linux_64 a) = v" if "n = 4" for v
    using apart that load32_cong [of "store32 (store32 (rmem st) (MEM_TO_SHADOW linux_64 a) v) a y" _ "store32 (rmem st) (MEM_TO_SHADOW linux_64 a) v"]
    by (simp add: store32_out load32_store32)
  have 8: "load64 (store64 (store64 (rmem st) (MEM_TO_SHADOW linux_64 a) v) a z) (MEM_TO_SHADOW linux_64 a) = v" if "n = 8" for v
    using apart that by (simp add: load64_store64_other load64_store64)
  show ?thesis
    using assms(1,2) 2 4 8
    by (auto simp: unaligned_load16_def unaligned_store16_def unaligned_load32_def unaligned_store32_def unaligned_load64_def unaligned_store64_def
        load16_store16 load32_store32 load64_store64 set_retval_nth)
      (auto simp: bit_eq_iff bit_simps)
qed

theorem unaligned_roundtrip_witness:
  "\<exists>st'. unaligned_load32 linux_64 0x700000000201 (unaligned_store32 linux_64 0x700000000201 77 (example_rt (\<lambda>_. 0))) = (77, st') \<and>
     take_bit 32 (tl_retval (rtls st') ! 0) = 1"
proof -
  have "app_range linux_64 0x700000000201 4" by (simp add: app_range_def fits_def linux_64_sel)
  moreover have "tl_retval (rtls (example_rt (\<lambda>_. 0))) \<noteq> []" "1 = tl_param (rtls (example_rt (\<lambda>_. 0))) ! 1"
    by (simp_all add: example_rt_def)
  moreover have "take_bit 32 (1 :: u64) = 1" by simp
  ultimately show ?thesis using unaligned_roundtrip [of "example_rt (\<lambda>_. 0)" 1 "0x700000000201" 4] by metis
qed

text \<open>The ranges an object asks for.\<close>

fun wanted :: "dl_object \<Rightarrow> phdr list \<Rightarrow> (uptr \<times> uptr) list" where
  "wanted ob [] = []"
| "wanted ob (PT_LOAD vaddr memsz # hs) = (dlpi_addr ob + vaddr, dlpi_addr ob + vaddr + memsz) # wanted ob hs"
| "wanted ob (PT_TLS memsz # hs) =
    (if dlpi_tls_data ob = 0 then wanted ob hs else (dlpi_tls_data ob, dlpi_tls_data ob + memsz) # wanted ob hs)"
| "wanted ob (Other_phdr # hs) = wanted ob hs"

lemma collect_headers_eq:
  "length rs \<le> kMaxStaticRanges \<Longrightarrow> collect_headers ob hs rs = take kMaxStaticRanges (rs @ wanted ob hs)"
  by (induction ob hs rs rule: collect_headers.induct) (auto simp: Let_def Suc_le_eq)

lemma InitStaticRangeList_eq:
  "InitStaticRangeList obs = take kMaxStaticRanges (concat (map (\<lambda>ob. wanted ob (dlpi_phdr ob)) obs))"
proof -
  have "fold CollectPhdrRanges obs rs = take kMaxStaticRanges (rs @ concat (map (\<lambda>ob. wanted ob (dlpi_phdr ob)) obs))"
    if "length rs \<le> kMaxStaticRanges" for rs
    using that
  proof (induction obs arbitrary: rs)
    case (Cons ob obs)
    have "length (take kMaxStaticRanges (rs @ wanted ob (dlpi_phdr ob))) \<le> kMaxStaticRanges" by simp
    from Cons.IH [OF this] show ?case
      using Cons.prems by (simp add: CollectPhdrRanges_def collect_headers_eq min_def)
  qed simp
  from this [of "[]"] show ?thesis by (simp add: InitStaticRangeList_def)
qed

lemma is_static_range_iff: "is_static_range rs addr \<longleftrightarrow> (\<exists>(b, e) \<in> set rs. b \<le> addr \<and> addr < e)"
  by (induction rs addr rule: is_static_range.induct) auto

text \<open>
  An address counts as initialised by the loader exactly when it lies in one of the first 256 ranges that the loaded objects ask for, in their order:
  loadable segments with their zeroed tail, and the thread's TLS block where there is one.
\<close>

theorem static_ranges_exact:
  "length (InitStaticRangeList obs) \<le> 256 \<and>
   (is_static_range (InitStaticRangeList obs) addr \<longleftrightarrow>
     (\<exists>i b e. i < 256 \<and> i < length (concat (map (\<lambda>ob. wanted ob (dlpi_phdr ob)) obs)) \<and>
        concat (map (\<lambda>ob. wanted ob (dlpi_phdr ob)) obs) ! i = (b, e) \<and> b \<le> addr \<and> addr < e))"
proof -
  let ?ws = "concat (map (\<lambda>ob. wanted ob (dlpi_phdr ob)) obs)"
  have mem: "(b, e) \<in> set (take 256 ?ws) \<longleftrightarrow> (\<exists>i. i < 256 \<and> i < length ?ws \<and> ?ws ! i = (b, e))" for b e
    by (auto simp: in_set_conv_nth)
  have "is_static_range (InitStaticRangeList obs) addr \<longleftrightarrow> (\<exists>b e. (b, e) \<in> set (take 256 ?ws) \<and> b \<le> addr \<and> addr < e)"
    unfolding is_static_range_iff InitStaticRangeList_eq kMaxStaticRanges_def by blast
  then show ?thesis unfolding mem by (auto simp: InitStaticRangeList_eq kMaxStaticRanges_def)
qed

text \<open>
  Copies of shadow. Loading without shadow copies the bytes and leaves exactly the target initialised; poisoning from a shadow buffer makes a byte
  uninitialised exactly when its byte in the buffer is not 0, and changes no byte of the program.
\<close>

theorem shadow_copies_exact:
  assumes "env_ok e" and "\<not> flip e" and "app_range linux_64 a n" and "0 < n" and "app_range linux_64 b n" and "ranges_disjoint a n b n"
  shows "(\<exists>m'. load_unpoisoned linux_64 e m b n a = Ok m' \<and> (\<forall>i < n. m' (a + i) = m (b + i)) \<and>
      poisoned linux_64 m' = poisoned linux_64 m - bytes a n) \<and>
    (\<forall>x. x \<in> poisoned linux_64 (partial_poison linux_64 m a b n) \<longleftrightarrow>
      (if in_range x a n then m (b + (x - a)) \<noteq> 0 else x \<in> poisoned linux_64 m)) \<and>
    (\<forall>x. MEM_IS_APP linux_64 x \<longrightarrow> partial_poison linux_64 m a b n x = m x)"
proof (intro conjI)
  let ?m = "real_memmove m a b n" and ?s = "MEM_TO_SHADOW linux_64 a"
  have cp: "internal_memcpy m a b n = ?m" by (rule internal_memcpy_disjoint [OF assms(6)])
  obtain m' where m': "cqmsan_unpoison linux_64 e ?m a n = Ok m'" and cl: "cleans (bytes a n) ?m m'"
    by (rule unpoison_cleans [OF assms(1-3)])
  have "writes_only (\<lambda>m. (real_memmove m a b n, ())) m (bytes a n)" by (simp add: writes_only_def real_memmove_out)
  then have "poisoned linux_64 ?m = poisoned linux_64 m" using poisoned_real [OF _ app_only_bytes [OF assms(3)]] by fastforce
  moreover have "m' (a + i) = m (b + i)" if "i < n" for i
    using cl app_range_app [OF assms(3) that] that by (simp add: cleans_def real_memmove_def)
  ultimately show "\<exists>m'. load_unpoisoned linux_64 e m b n a = Ok m' \<and> (\<forall>i < n. m' (a + i) = m (b + i)) \<and>
      poisoned linux_64 m' = poisoned linux_64 m - bytes a n"
    using m' cl cp by (auto simp: load_unpoisoned_def cleans_def)
next
  let ?s = "MEM_TO_SHADOW linux_64 a"
  note blk = app_range_block [OF assms(3,4)] and app = app_range_app [OF assms(3)]
  have not_app: "in_range x ?s n \<Longrightarrow> \<not> MEM_IS_APP linux_64 x" for x by (rule x86.shadow_range_not_app [OF blk app])
  have "in_range x b n \<Longrightarrow> MEM_IS_APP linux_64 x" for x using app_range_app [OF assms(5)] by (auto elim: in_rangeE)
  then have "ranges_disjoint ?s n b n" using not_app by (auto simp: ranges_disjoint_def)
  then have pp: "partial_poison linux_64 m a b n = real_memmove m ?s b n" by (simp add: partial_poison_def internal_memcpy_disjoint)
  show "\<forall>x. MEM_IS_APP linux_64 x \<longrightarrow> partial_poison linux_64 m a b n x = m x"
    using not_app by (auto simp: pp real_memmove_def)
  show "\<forall>x. x \<in> poisoned linux_64 (partial_poison linux_64 m a b n) \<longleftrightarrow>
      (if in_range x a n then m (b + (x - a)) \<noteq> 0 else x \<in> poisoned linux_64 m)"
  proof
    fix x
    show "x \<in> poisoned linux_64 (partial_poison linux_64 m a b n) \<longleftrightarrow>
      (if in_range x a n then m (b + (x - a)) \<noteq> 0 else x \<in> poisoned linux_64 m)"
    proof (cases "in_range x a n")
      case True
      then obtain i where i: "i < n" "x = a + i" by (rule in_rangeE)
      then show ?thesis using x86.shadow_offset [OF blk i(1)] app [OF i(1)] by (simp add: pp poisoned_def real_memmove_def)
    next
      case False
      then show ?thesis using x86.in_range_shadow_iff [OF blk app, of x] by (auto simp: pp poisoned_def real_memmove_def)
    qed
  qed
qed

theorem shadow_copies_exact_witness:
  "\<exists>m'. load_unpoisoned linux_64 example_env (\<lambda>_. 3) 0x700000000300 16 0x700000000200 = Ok m' \<and>
     poisoned linux_64 m' = poisoned linux_64 (\<lambda>_. 3) - bytes 0x700000000200 16"
proof -
  have "app_range linux_64 0x700000000200 16" "app_range linux_64 0x700000000300 16" by (simp_all add: app_range_def fits_def linux_64_sel)
  moreover have "ranges_disjoint 0x700000000200 16 0x700000000300 (16 :: uptr)"
    using in_range_off [of "0x100" 16 _ "0x700000000200"] by (auto simp: ranges_disjoint_def in_range_def word_less_nat_alt)
  ultimately show ?thesis
    using shadow_copies_exact [of example_env "0x700000000200" 16 "0x700000000300" "\<lambda>_. 3", THEN conjunct1] example_env_ok by auto
qed

end
