(* ===== verification/Pass_Shadow.thy ===== *)
theory Pass_Shadow
  imports Report
begin

text \<open>
  The compiler pass, first part: the shadow type of an IR type, clean and poisoned shadow constants,
  and the code that reduces a shadow to one bit (\<^verbatim>\<open>CompilerQEMUMemorySanitizer.cpp\<close>, methods
  \<^verbatim>\<open>getShadowTy\<close>, \<^verbatim>\<open>getCleanShadow\<close>, \<^verbatim>\<open>getPoisonedShadow\<close>, \<^verbatim>\<open>convertShadowToScalar\<close>,
  \<^verbatim>\<open>convertToBool\<close>, \<^verbatim>\<open>materializeOneCheck\<close>). The pass builds IR; here it builds expressions, and an
  evaluator gives the values they have when the compiled program runs. The switch
  \<^verbatim>\<open>CQMSAN_FLIP_CONVENTION\<close> is the argument \<open>fl\<close>.
\<close>

section \<open>Types and values\<close>

text \<open>
  The IR types the pass distinguishes. A scalable vector has a multiple of its element count of
  lanes, the multiple being fixed per run.
\<close>

datatype ty = IntegerTy nat | FloatTy nat | PointerTy | FixedVectorTy nat ty | ScalableVectorTy nat ty
  | ArrayTy nat ty | StructTy bool "ty list" | UnsizedTy

datatype sval = IntV nat nat | VecV nat "nat list" | AggV "sval list"

fun isSized :: "ty \<Rightarrow> bool" where
  "isSized UnsizedTy = False"
| "isSized (ArrayTy n t) = isSized t"
| "isSized (StructTy pk ts) = list_all isSized ts"
| "isSized _ = True"

text \<open>The data layout's size of a scalar type: 64-bit pointers.\<close>

fun scalar_bits :: "ty \<Rightarrow> nat" where
  "scalar_bits (IntegerTy w) = w"
| "scalar_bits (FloatTy w) = w"
| "scalar_bits PointerTy = 64"
| "scalar_bits _ = 0"

fun getShadowTy :: "ty \<Rightarrow> ty option" where
  "getShadowTy UnsizedTy = None"
| "getShadowTy (IntegerTy w) = Some (IntegerTy w)"
| "getShadowTy (FixedVectorTy n t) = Some (FixedVectorTy n (IntegerTy (scalar_bits t)))"
| "getShadowTy (ScalableVectorTy n t) = Some (ScalableVectorTy n (IntegerTy (scalar_bits t)))"
| "getShadowTy (ArrayTy n t) = (if isSized t then map_option (ArrayTy n) (getShadowTy t) else None)"
| "getShadowTy (StructTy pk ts) =
    (if list_all isSized ts then map_option (StructTy pk) (those (map getShadowTy ts)) else None)"
| "getShadowTy (FloatTy w) = Some (IntegerTy w)"
| "getShadowTy PointerTy = Some (IntegerTy 64)"

fun has_ty :: "nat \<Rightarrow> sval \<Rightarrow> ty \<Rightarrow> bool" where
  "has_ty k (IntV w v) (IntegerTy w') \<longleftrightarrow> w = w' \<and> v < 2 ^ w"
| "has_ty k (VecV w vs) (FixedVectorTy n (IntegerTy w')) \<longleftrightarrow> w = w' \<and> length vs = n \<and> list_all (\<lambda>v. v < 2 ^ w) vs"
| "has_ty k (VecV w vs) (ScalableVectorTy n (IntegerTy w')) \<longleftrightarrow>
    w = w' \<and> length vs = k * n \<and> list_all (\<lambda>v. v < 2 ^ w) vs"
| "has_ty k (AggV xs) (ArrayTy n t) \<longleftrightarrow> length xs = n \<and> list_all (\<lambda>x. has_ty k x t) xs"
| "has_ty k (AggV xs) (StructTy pk ts) \<longleftrightarrow> list_all2 (has_ty k) xs ts"
| "has_ty k _ _ \<longleftrightarrow> False"

text \<open>The scalar parts of a shadow, lane by lane.\<close>

fun leaves :: "sval \<Rightarrow> nat list" where
  "leaves (IntV w v) = [v]"
| "leaves (VecV w vs) = vs"
| "leaves (AggV xs) = concat (map leaves xs)"

section \<open>Shadow constants\<close>

text \<open>\<^verbatim>\<open>Constant::getNullValue\<close> and \<^verbatim>\<open>Constant::getAllOnesValue\<close> of a type.\<close>

fun getNullValue :: "nat \<Rightarrow> ty \<Rightarrow> sval" where
  "getNullValue k (IntegerTy w) = IntV w 0"
| "getNullValue k (FixedVectorTy n (IntegerTy w)) = VecV w (replicate n 0)"
| "getNullValue k (ScalableVectorTy n (IntegerTy w)) = VecV w (replicate (k * n) 0)"
| "getNullValue k (ArrayTy n t) = AggV (replicate n (getNullValue k t))"
| "getNullValue k (StructTy pk ts) = AggV (map (getNullValue k) ts)"
| "getNullValue k _ = AggV []"

fun getAllOnesShadow :: "nat \<Rightarrow> ty \<Rightarrow> sval" where
  "getAllOnesShadow k (IntegerTy w) = IntV w (2 ^ w - 1)"
| "getAllOnesShadow k (FixedVectorTy n (IntegerTy w)) = VecV w (replicate n (2 ^ w - 1))"
| "getAllOnesShadow k (ScalableVectorTy n (IntegerTy w)) = VecV w (replicate (k * n) (2 ^ w - 1))"
| "getAllOnesShadow k (ArrayTy n t) = AggV (replicate n (getAllOnesShadow k t))"
| "getAllOnesShadow k (StructTy pk ts) = AggV (map (getAllOnesShadow k) ts)"
| "getAllOnesShadow k _ = AggV []"

definition getCleanShadow :: "bool \<Rightarrow> nat \<Rightarrow> ty \<Rightarrow> sval option" where
  "getCleanShadow fl k t = map_option (if fl then getAllOnesShadow k else getNullValue k) (getShadowTy t)"

definition getPoisonedShadow :: "bool \<Rightarrow> nat \<Rightarrow> ty \<Rightarrow> sval option" where
  "getPoisonedShadow fl k t = map_option (if fl then getNullValue k else getAllOnesShadow k) (getShadowTy t)"

section \<open>Generated expressions\<close>

datatype expr = Val nat | Const sval | ExtractValue expr nat | Or expr expr | ICmpNE0 expr | ICmpEQ0 expr
  | BitCast nat expr | OrReduce expr | AndReduce expr | ZExt nat expr

text \<open>The lanes of a vector read as one integer, the first lane lowest.\<close>

fun pack :: "nat \<Rightarrow> nat list \<Rightarrow> nat" where
  "pack w [] = 0"
| "pack w (v # vs) = v + 2 ^ w * pack w vs"

definition i1 :: "bool \<Rightarrow> sval" where
  "i1 b = IntV 1 (if b then 1 else 0)"

fun int_val :: "sval \<Rightarrow> nat" where
  "int_val (IntV w v) = v"
| "int_val _ = 0"

fun int_width :: "sval \<Rightarrow> nat" where
  "int_width (IntV w v) = w"
| "int_width _ = 0"

fun element :: "sval \<Rightarrow> nat \<Rightarrow> sval" where
  "element (AggV xs) i = (if i < length xs then xs ! i else AggV [])"
| "element v i = AggV []"

fun bitcast :: "nat \<Rightarrow> sval \<Rightarrow> sval" where
  "bitcast n (VecV w vs) = IntV n (pack w vs)"
| "bitcast n v = v"

fun reduce :: "(nat \<Rightarrow> nat \<Rightarrow> nat) \<Rightarrow> (nat \<Rightarrow> nat) \<Rightarrow> sval \<Rightarrow> sval" where
  "reduce f z (VecV w vs) = IntV w (foldr f vs (z w))"
| "reduce f z v = v"

primrec ev :: "(nat \<Rightarrow> sval) \<Rightarrow> expr \<Rightarrow> sval" where
  "ev \<rho> (Val x) = \<rho> x"
| "ev \<rho> (Const c) = c"
| "ev \<rho> (ExtractValue e i) = element (ev \<rho> e) i"
| "ev \<rho> (Or a b) = IntV (int_width (ev \<rho> a)) (int_val (ev \<rho> a) OR int_val (ev \<rho> b))"
| "ev \<rho> (ICmpNE0 e) = i1 (int_val (ev \<rho> e) \<noteq> 0)"
| "ev \<rho> (ICmpEQ0 e) = i1 (int_val (ev \<rho> e) = 0)"
| "ev \<rho> (BitCast n e) = bitcast n (ev \<rho> e)"
| "ev \<rho> (OrReduce e) = reduce (OR) (\<lambda>_. 0) (ev \<rho> e)"
| "ev \<rho> (AndReduce e) = reduce (AND) (\<lambda>w. 2 ^ w - 1) (ev \<rho> e)"
| "ev \<rho> (ZExt n e) = IntV n (int_val (ev \<rho> e))"

definition FalseVal :: expr where
  "FalseVal = Const (IntV 1 0)"

text \<open>The integer case of \<^verbatim>\<open>convertToBool\<close>: a one-bit value is taken as it is.\<close>

definition int_to_bool :: "bool \<Rightarrow> nat \<times> expr \<Rightarrow> expr" where
  "int_to_bool fl we = (if fst we = 1 then snd we else if fl then ICmpEQ0 (snd we) else ICmpNE0 (snd we))"

text \<open>
  The scalar form of a shadow of type \<open>t\<close>: its width and the expression. Structs are collapsed
  to one bit, arrays by OR-ing their elements' scalars, vectors by a cast or a reduction.
\<close>

fun convertShadowToScalar :: "bool \<Rightarrow> ty \<Rightarrow> expr \<Rightarrow> nat \<times> expr"
  and collapseStructShadow :: "bool \<Rightarrow> ty list \<Rightarrow> nat \<Rightarrow> expr \<Rightarrow> expr \<Rightarrow> expr" where
  "convertShadowToScalar fl (IntegerTy w) e = (w, e)"
| "convertShadowToScalar fl (FixedVectorTy n (IntegerTy w)) e = (n * w, BitCast (n * w) e)"
| "convertShadowToScalar fl (ScalableVectorTy n (IntegerTy w)) e = (w, if fl then AndReduce e else OrReduce e)"
| "convertShadowToScalar fl (ArrayTy n t) e =
    (if n = 0 then (1, FalseVal)
     else (fst (convertShadowToScalar fl t (ExtractValue e 0)),
           fold (\<lambda>i agg. Or agg (snd (convertShadowToScalar fl t (ExtractValue e i)))) [1..<n]
             (snd (convertShadowToScalar fl t (ExtractValue e 0)))))"
| "convertShadowToScalar fl (StructTy pk ts) e = (1, collapseStructShadow fl ts 0 e FalseVal)"
| "convertShadowToScalar fl t e = (0, e)"
| "collapseStructShadow fl [] i sh agg = agg"
| "collapseStructShadow fl (t # ts) i sh agg =
    (let b = int_to_bool fl (convertShadowToScalar fl t (ExtractValue sh i))
     in collapseStructShadow fl ts (i + 1) sh (if agg \<noteq> FalseVal then Or agg b else b))"

definition convertToBool :: "bool \<Rightarrow> ty \<Rightarrow> expr \<Rightarrow> expr" where
  "convertToBool fl t e = int_to_bool fl (convertShadowToScalar fl t e)"

text \<open>\<^verbatim>\<open>normalizeShadow\<close>, used on the loop accumulators (integers and vectors).\<close>

fun normalizeShadow :: "bool \<Rightarrow> ty \<Rightarrow> expr \<Rightarrow> expr" where
  "normalizeShadow fl (IntegerTy w) e = (if fl then ICmpEQ0 e else ICmpNE0 e)"
| "normalizeShadow fl t e = (if fl then ICmpEQ0 (AndReduce e) else ICmpNE0 (OrReduce e))"

section \<open>What the generated code computes\<close>

text \<open>\<open>nz v\<close>: some scalar part of the shadow is not zero.\<close>

definition nz :: "sval \<Rightarrow> bool" where
  "nz v \<longleftrightarrow> (\<exists>y \<in> set (leaves v). y \<noteq> 0)"

lemma nz_simps [simp]:
  "nz (IntV w v) \<longleftrightarrow> v \<noteq> 0" "nz (VecV w vs) \<longleftrightarrow> (\<exists>y \<in> set vs. y \<noteq> 0)" "nz (AggV xs) \<longleftrightarrow> (\<exists>x \<in> set xs. nz x)"
  by (auto simp: nz_def)

lemma pack_less: "list_all (\<lambda>v. v < 2 ^ w) vs \<Longrightarrow> pack w vs < 2 ^ (length vs * w)"
proof (induction vs)
  case (Cons v vs)
  then have "v < 2 ^ w" "pack w vs + 1 \<le> 2 ^ (length vs * w)" by simp_all
  then have "v + 2 ^ w * pack w vs < 2 ^ w * (pack w vs + 1)" by simp
  also have "\<dots> \<le> 2 ^ w * 2 ^ (length vs * w)" using \<open>pack w vs + 1 \<le> _\<close> by (intro mult_le_mono2)
  finally show ?case by (simp add: power_add)
qed simp

lemma pack_eq_0: "pack w vs = 0 \<longleftrightarrow> (\<forall>v \<in> set vs. v = 0)"
  by (induction vs) auto

lemma foldr_or_eq_0: "foldr (OR) vs (0 :: nat) = 0 \<longleftrightarrow> (\<forall>v \<in> set vs. v = 0)"
  by (induction vs) (auto simp: or_eq_0_iff)

lemma or_less_exp: "a < 2 ^ w \<Longrightarrow> b < 2 ^ w \<Longrightarrow> a OR b < (2 :: nat) ^ w"
  using take_bit_or [of w a b] by (metis take_bit_nat_eq_self_iff)

lemma foldr_or_less: "list_all (\<lambda>v. v < 2 ^ w) vs \<Longrightarrow> foldr (OR) vs (0 :: nat) < 2 ^ w"
  by (induction vs) (auto intro: or_less_exp)

text \<open>\<open>scalar_of \<rho> p z\<close>: the pair is an integer of its width, zero exactly when \<open>z\<close> is false.\<close>

definition scalar_of :: "(nat \<Rightarrow> sval) \<Rightarrow> nat \<times> expr \<Rightarrow> bool \<Rightarrow> bool" where
  "scalar_of \<rho> we z \<longleftrightarrow> (\<exists>x. ev \<rho> (snd we) = IntV (fst we) x \<and> x < 2 ^ fst we \<and> (x \<noteq> 0 \<longleftrightarrow> z))"

lemma int_to_bool_ok: "scalar_of \<rho> we z \<Longrightarrow> ev \<rho> (int_to_bool False we) = i1 z"
  by (auto simp: scalar_of_def int_to_bool_def i1_def)

lemma scalar_width: "fst (convertShadowToScalar fl t e) = fst (convertShadowToScalar fl t e')"
proof (induction t arbitrary: e e')
  case (FixedVectorTy n t)
  then show ?case by (cases t) auto
next
  case (ScalableVectorTy n t)
  then show ?case by (cases t) auto
next
  case (ArrayTy n t)
  then show ?case by auto
qed auto

lemma or_scalars:
  assumes "\<And>i. i \<in> set is \<Longrightarrow> scalar_of \<rho> (w, f i) (z i)" and "scalar_of \<rho> (w, e) z0"
  shows "scalar_of \<rho> (w, fold (\<lambda>i agg. Or agg (f i)) is e) (z0 \<or> (\<exists>i \<in> set is. z i))"
  using assms
proof (induction "is" arbitrary: e z0)
  case (Cons i "is")
  from Cons.prems(1) [of i] obtain y where y: "ev \<rho> (f i) = IntV w y" "y < 2 ^ w" "y \<noteq> 0 \<longleftrightarrow> z i"
    by (auto simp: scalar_of_def)
  from Cons.prems(2) obtain x where x: "ev \<rho> e = IntV w x" "x < 2 ^ w" "x \<noteq> 0 \<longleftrightarrow> z0" by (auto simp: scalar_of_def)
  have "scalar_of \<rho> (w, Or e (f i)) (z0 \<or> z i)"
  proof -
    have "x OR y \<noteq> 0 \<longleftrightarrow> z0 \<or> z i" unfolding or_eq_0_iff using x(3) y(3) by auto
    then show ?thesis using x y or_less_exp [OF x(2) y(2)] by (simp add: scalar_of_def)
  qed
  from Cons.IH [OF _ this] Cons.prems(1) show ?case by (simp add: disj_assoc)
qed simp

lemma scalar_struct_ok:
  shows "has_ty k (ev \<rho> e) t \<Longrightarrow> scalar_of \<rho> (convertShadowToScalar False t e) (nz (ev \<rho> e))"
    and "ev \<rho> sh = AggV xs \<Longrightarrow> list_all2 (has_ty k) (drop i xs) ts \<Longrightarrow> ev \<rho> agg = i1 b \<Longrightarrow>
      ev \<rho> (collapseStructShadow False ts i sh agg) = i1 (b \<or> (\<exists>x \<in> set (drop i xs). nz x))"
proof (induction False t e and False ts i sh agg arbitrary: and xs b rule: convertShadowToScalar_collapseStructShadow.induct)
  case (1 w e)
  then show ?case by (cases "ev \<rho> e") (auto simp: scalar_of_def)
next
  case (2 n w e)
  then obtain vs where v: "ev \<rho> e = VecV w vs" "length vs = n" "list_all (\<lambda>v. v < 2 ^ w) vs" by (cases "ev \<rho> e") auto
  then show ?case using pack_less [OF v(3)] pack_eq_0 [of w vs] by (auto simp: scalar_of_def)
next
  case (3 n w e)
  then obtain vs where v: "ev \<rho> e = VecV w vs" "list_all (\<lambda>v. v < 2 ^ w) vs" by (cases "ev \<rho> e") auto
  then show ?case using foldr_or_less [OF v(2)] foldr_or_eq_0 [of vs] by (auto simp: scalar_of_def)
next
  case (4 n t e)
  then obtain xs where x: "ev \<rho> e = AggV xs" "length xs = n" "list_all (\<lambda>x. has_ty k x t) xs" by (cases "ev \<rho> e") auto
  show ?case
  proof (cases "n = 0")
    case True
    then show ?thesis using x by (simp add: scalar_of_def FalseVal_def)
  next
    case False
    define w where "w = fst (convertShadowToScalar False t (ExtractValue e 0))"
    have el: "scalar_of \<rho> (w, snd (convertShadowToScalar False t (ExtractValue e i))) (nz (xs ! i))" if "i < n" for i
    proof -
      have "has_ty k (ev \<rho> (ExtractValue e i)) t" using x that by (simp add: list_all_length)
      then have "scalar_of \<rho> (convertShadowToScalar False t (ExtractValue e i)) (nz (ev \<rho> (ExtractValue e i)))"
        using 4 False that by (cases "i = 0") auto
      then show ?thesis using x that scalar_width [of False t "ExtractValue e i" "ExtractValue e 0"]
        by (simp add: w_def scalar_of_def)
    qed
    have "scalar_of \<rho> (w, fold (\<lambda>i agg. Or agg (snd (convertShadowToScalar False t (ExtractValue e i)))) [1..<n]
        (snd (convertShadowToScalar False t (ExtractValue e 0)))) (nz (xs ! 0) \<or> (\<exists>i \<in> set [1..<n]. nz (xs ! i)))"
      using False by (intro or_scalars el) auto
    moreover have "nz (xs ! 0) \<or> (\<exists>i \<in> set [1..<n]. nz (xs ! i)) \<longleftrightarrow> nz (AggV xs)"
    proof -
      have "(\<exists>x \<in> set xs. nz x) \<longleftrightarrow> (\<exists>i < n. nz (xs ! i))" using x(2) by (metis in_set_conv_nth)
      also have "\<dots> \<longleftrightarrow> nz (xs ! 0) \<or> (\<exists>i \<in> set [1..<n]. nz (xs ! i))"
      proof -
        have "{0..<n} = insert 0 {1..<n}" using False by auto
        then have "(\<exists>i \<in> {0..<n}. nz (xs ! i)) \<longleftrightarrow> nz (xs ! 0) \<or> (\<exists>i \<in> {1..<n}. nz (xs ! i))" by simp
        then show ?thesis by auto
      qed
      finally show ?thesis by simp
    qed
    ultimately show ?thesis using False x(1) by (simp add: w_def)
  qed
next
  case (5 pk ts e)
  then obtain xs where x: "ev \<rho> e = AggV xs" "list_all2 (has_ty k) xs ts" by (cases "ev \<rho> e") auto
  have "ev \<rho> FalseVal = i1 False" by (simp add: FalseVal_def i1_def)
  with 5 x have "ev \<rho> (collapseStructShadow False ts 0 e FalseVal) = i1 (nz (ev \<rho> e))" by fastforce
  then show ?case by (auto simp: scalar_of_def i1_def)
next
  case (8 t ts i sh agg)
  then obtain x ys where d: "drop i xs = x # ys" "has_ty k x t" "list_all2 (has_ty k) ys ts"
    by (auto simp: list_all2_Cons2)
  then have i: "i < length xs" "xs ! i = x" "drop (i + 1) xs = ys"
    by (metis drop_all linorder_not_le neq_Nil_conv, metis drop_all hd_drop_conv_nth linorder_not_le list.distinct(1) list.sel(1),
        metis Suc_eq_plus1 drop_Suc list.sel(3) tl_drop)
  let ?b = "int_to_bool False (convertShadowToScalar False t (ExtractValue sh i))"
  have el: "ev \<rho> (ExtractValue sh i) = x" using "8.prems"(1) i by simp
  have "ev \<rho> ?b = i1 (nz x)" using "8.hyps"(1) d(2) el by (intro int_to_bool_ok) simp
  moreover have "\<not> b" if "agg = FalseVal" using "8.prems"(3) that by (auto simp: FalseVal_def i1_def split: if_splits)
  ultimately have "ev \<rho> (if agg \<noteq> FalseVal then Or agg ?b else ?b) = i1 (b \<or> nz x)"
    using "8.prems"(3) by (auto simp: i1_def)
  from "8.hyps"(2) [OF refl "8.prems"(1) _ this] show ?case using d i by (auto simp: Let_def)
qed auto

section \<open>One check\<close>

definition kNumberOfAccessSizes :: nat where
  "kNumberOfAccessSizes = 4"

text \<open>\<^verbatim>\<open>Log2_32_Ceil\<close> of the LLVM support library.\<close>

fun Log2_32_Ceil :: "nat \<Rightarrow> nat" where
  "Log2_32_Ceil n = (if n \<le> 1 then 0 else 1 + Log2_32_Ceil ((n + 1) div 2))"

declare Log2_32_Ceil.simps [simp del]

definition TypeSizeToSizeIndex :: "bool \<Rightarrow> nat \<Rightarrow> nat" where
  "TypeSizeToSizeIndex scalable bits =
    (if scalable then kNumberOfAccessSizes
     else if bits \<le> 8 then 0 else Log2_32_Ceil ((bits + 7) div 8))"

fun is_scalable :: "ty \<Rightarrow> bool" where
  "is_scalable (ScalableVectorTy n t) = True"
| "is_scalable _ = False"

fun is_constant :: "expr \<Rightarrow> bool" where
  "is_constant (Const c) = True"
| "is_constant _ = False"

text \<open>
  A check is either a call of \<^verbatim>\<open>__cqmsan_maybe_warning_N\<close> or a branch around a call of the warning
  function. \<open>threshold\<close> is \<^verbatim>\<open>ClInstrumentationWithCallThreshold\<close>, \<open>count\<close> is \<^verbatim>\<open>SplittableBlocksCount\<close>
  and \<open>bits\<close> the data layout's size of a type.
\<close>

datatype check_code = CallMaybeWarning nat expr | BranchToWarning expr | WarnAlways

definition instrumentWithCalls :: "int \<Rightarrow> int \<Rightarrow> expr \<Rightarrow> bool \<times> int" where
  "instrumentWithCalls threshold count e =
    (if is_constant e then (False, count)
     else (threshold \<ge> 0 \<and> count + 1 > threshold, count + 1))"

definition materializeOneCheck ::
    "int \<Rightarrow> (ty \<Rightarrow> nat) \<Rightarrow> bool \<Rightarrow> int \<Rightarrow> ty \<Rightarrow> expr \<Rightarrow> check_code \<times> int" where
  "materializeOneCheck threshold bits fl count t e =
    (let SizeIndex = TypeSizeToSizeIndex (is_scalable t) (bits t);
         (calls, count') = instrumentWithCalls threshold count e
     in if calls \<and> SizeIndex < kNumberOfAccessSizes
        then (CallMaybeWarning SizeIndex (ZExt (8 * 2 ^ SizeIndex) (snd (convertShadowToScalar fl t e))), count')
        else (BranchToWarning (convertToBool fl t e), count'))"

text \<open>When the check reports, with the runtime's own test for the called form.\<close>

definition maybe_warning_called :: "env \<Rightarrow> nat \<Rightarrow> nat \<Rightarrow> bool" where
  "maybe_warning_called e i v =
    (if i = 0 then maybe_warning_triggered e (of_nat v :: 8 word)
     else if i = 1 then maybe_warning_triggered e (of_nat v :: 16 word)
     else if i = 2 then maybe_warning_triggered e (of_nat v :: 32 word)
     else maybe_warning_triggered e (of_nat v :: 64 word))"

fun fires :: "env \<Rightarrow> (nat \<Rightarrow> sval) \<Rightarrow> check_code \<Rightarrow> bool" where
  "fires e \<rho> (CallMaybeWarning i x) = maybe_warning_called e i (int_val (ev \<rho> x))"
| "fires e \<rho> (BranchToWarning x) = (int_val (ev \<rho> x) \<noteq> 0)"
| "fires e \<rho> WarnAlways = True"

lemma Log2_32_Ceil_bound: "n \<le> 2 ^ Log2_32_Ceil n"
proof (induction n rule: Log2_32_Ceil.induct)
  case (1 n)
  show ?case
  proof (cases "n \<le> 1")
    case False
    have "n \<le> 2 * ((n + 1) div 2)" by linarith
    also have "\<dots> \<le> 2 * 2 ^ Log2_32_Ceil ((n + 1) div 2)" using 1 [OF False] by simp
    finally show ?thesis using False by (subst Log2_32_Ceil.simps) simp
  qed (simp add: Log2_32_Ceil.simps [of n])
qed

lemma size_index_bound: "bits \<le> 8 * 2 ^ TypeSizeToSizeIndex False bits"
proof (cases "bits \<le> 8")
  case False
  have "bits \<le> 8 * ((bits + 7) div 8)" by linarith
  also have "\<dots> \<le> 8 * 2 ^ Log2_32_Ceil ((bits + 7) div 8)" using Log2_32_Ceil_bound by simp
  finally show ?thesis using False by (simp add: TypeSizeToSizeIndex_def)
qed (simp add: TypeSizeToSizeIndex_def)

lemma of_nat_eq_0: "v < 2 ^ LENGTH('a::len) \<Longrightarrow> (of_nat v :: 'a word) = 0 \<longleftrightarrow> v = 0"
  unfolding word_of_nat_eq_0_iff using nat_dvd_not_less by auto

lemma maybe_warning_called_ok:
  assumes "v < 2 ^ (8 * 2 ^ i)" and "i < 4"
  shows "maybe_warning_called e i v \<longleftrightarrow> (if flip e then v = 0 else v \<noteq> 0)"
proof -
  have "i = 0 \<or> i = 1 \<or> i = 2 \<or> i = 3" using assms(2) by linarith
  then show ?thesis
    using assms(1) of_nat_eq_0 [where 'a = 8, of v] of_nat_eq_0 [where 'a = 16, of v] of_nat_eq_0 [where 'a = 32, of v]
      of_nat_eq_0 [where 'a = 64, of v]
    by (auto simp: maybe_warning_called_def maybe_warning_triggered_def)
qed

lemma convertToBool_ok:
  assumes "has_ty k (ev \<rho> e) t"
  shows "ev \<rho> (convertToBool False t e) = i1 (nz (ev \<rho> e))"
  unfolding convertToBool_def by (rule int_to_bool_ok [OF scalar_struct_ok(1) [OF assms]])

lemma one_check_ok:
  assumes "\<not> flip E" and "has_ty k (ev \<rho> e) t" and "fst (convertShadowToScalar False t e) \<le> bits t"
  shows "fires E \<rho> (fst (materializeOneCheck threshold bits False count t e)) \<longleftrightarrow> nz (ev \<rho> e)"
proof -
  let ?i = "TypeSizeToSizeIndex (is_scalable t) (bits t)" and ?s = "convertShadowToScalar False t e"
  obtain x where x: "ev \<rho> (snd ?s) = IntV (fst ?s) x" "x < 2 ^ fst ?s" "x \<noteq> 0 \<longleftrightarrow> nz (ev \<rho> e)"
    using scalar_struct_ok(1) [OF assms(2)] by (auto simp: scalar_of_def)
  have "maybe_warning_called E ?i x \<longleftrightarrow> nz (ev \<rho> e)" if i: "?i < 4"
  proof -
    have "\<not> is_scalable t" using i by (auto simp: TypeSizeToSizeIndex_def kNumberOfAccessSizes_def)
    then have "fst ?s \<le> 8 * 2 ^ ?i" using assms(3) size_index_bound [of "bits t"] by simp
    then have "(2 :: nat) ^ fst ?s \<le> 2 ^ (8 * 2 ^ ?i)" by (intro power_increasing) simp_all
    then have "x < 2 ^ (8 * 2 ^ ?i)" by (rule less_le_trans [OF x(2)])
    from maybe_warning_called_ok [OF this i] assms(1) x(3) show ?thesis by simp
  qed
  moreover have "int_val (i1 b) \<noteq> 0 \<longleftrightarrow> b" for b by (simp add: i1_def)
  ultimately show ?thesis
    using x(1) convertToBool_ok [OF assms(2)]
    by (simp add: materializeOneCheck_def Let_def kNumberOfAccessSizes_def split: prod.splits)
qed

section \<open>Well-typed shadows\<close>

text \<open>The IR's own rules: vector elements are scalars, integers and floats have a positive width.\<close>

fun scalar_ty :: "ty \<Rightarrow> bool" where
  "scalar_ty (IntegerTy w) \<longleftrightarrow> 0 < w"
| "scalar_ty (FloatTy w) \<longleftrightarrow> 0 < w"
| "scalar_ty PointerTy \<longleftrightarrow> True"
| "scalar_ty _ \<longleftrightarrow> False"

fun valid_ty :: "ty \<Rightarrow> bool" where
  "valid_ty (FixedVectorTy n t) \<longleftrightarrow> scalar_ty t \<and> 0 < n"
| "valid_ty (ScalableVectorTy n t) \<longleftrightarrow> scalar_ty t \<and> 0 < n"
| "valid_ty (ArrayTy n t) \<longleftrightarrow> valid_ty t"
| "valid_ty (StructTy pk ts) \<longleftrightarrow> list_all valid_ty ts"
| "valid_ty UnsizedTy \<longleftrightarrow> True"
| "valid_ty t \<longleftrightarrow> scalar_ty t"

text \<open>Does a type have any scalar part?\<close>

fun inhabited :: "ty \<Rightarrow> bool" where
  "inhabited (ArrayTy n t) \<longleftrightarrow> 0 < n \<and> inhabited t"
| "inhabited (StructTy pk ts) \<longleftrightarrow> list_ex inhabited ts"
| "inhabited UnsizedTy \<longleftrightarrow> False"
| "inhabited _ \<longleftrightarrow> True"

lemma scalar_bits_pos: "scalar_ty t \<Longrightarrow> 0 < scalar_bits t"
  by (cases t) auto

lemma those_map_Some: "(\<And>x. x \<in> set xs \<Longrightarrow> f x = Some (g x)) \<Longrightarrow> those (map f xs) = Some (map g xs)"
  by (induction xs) auto

text \<open>The shadow type as a total function, equal to the method on sized types.\<close>

fun shadow_ty :: "ty \<Rightarrow> ty" where
  "shadow_ty (FixedVectorTy n t) = FixedVectorTy n (IntegerTy (scalar_bits t))"
| "shadow_ty (ScalableVectorTy n t) = ScalableVectorTy n (IntegerTy (scalar_bits t))"
| "shadow_ty (ArrayTy n t) = ArrayTy n (shadow_ty t)"
| "shadow_ty (StructTy pk ts) = StructTy pk (map shadow_ty ts)"
| "shadow_ty t = IntegerTy (scalar_bits t)"

lemma getShadowTy_shadow_ty: "isSized t \<Longrightarrow> getShadowTy t = Some (shadow_ty t)"
  by (induction t rule: getShadowTy.induct) (auto simp: list_all_iff intro!: those_map_Some)

lemma getShadowTy_None: "\<not> isSized t \<Longrightarrow> getShadowTy t = None"
  by (cases t) auto

lemma shadow_ty_sized: "isSized t \<Longrightarrow> isSized (shadow_ty t) \<and> shadow_ty (shadow_ty t) = shadow_ty t"
  by (induction t rule: shadow_ty.induct) (auto simp: list_all_iff)

lemma constants_typed:
  assumes "isSized t" and "valid_ty t"
  shows "has_ty k (getNullValue k (shadow_ty t)) (shadow_ty t)" and "has_ty k (getAllOnesShadow k (shadow_ty t)) (shadow_ty t)"
  using assms
  by (induction t rule: shadow_ty.induct)
     (auto simp: list_all_iff list.rel_map list.rel_refl_strong intro!: list_all2_all_nthI dest: scalar_bits_pos)

lemma null_clean: "\<not> nz (getNullValue k t)"
  by (induction k t rule: getNullValue.induct) auto

lemma ones_poisoned:
  assumes "isSized t" and "valid_ty t" and "0 < k"
  shows "nz (getAllOnesShadow k (shadow_ty t)) \<longleftrightarrow> inhabited t"
proof -
  have p: "\<not> (2 :: nat) ^ w \<le> Suc 0" if "0 < w" for w using one_less_power [of "2 :: nat" w] that by simp
  show ?thesis
    using assms(1,2)
    by (induction t rule: shadow_ty.induct)
       (use assms(3) in \<open>auto simp: list_all_iff list_ex_iff p dest!: scalar_bits_pos\<close>)
qed

section \<open>Properties\<close>

text \<open>
  C30: shadows are well typed. A valid IR type has a shadow type exactly when it is sized; shadow
  types are their own shadow types; the clean and the poisoned constant both have the shadow type;
  and the generated test reads the clean one as initialised and the poisoned one as uninitialised
  whenever the type has any scalar part.
\<close>

theorem shadow_well_typed:
  assumes "valid_ty t" and "0 < k"
  shows "(getShadowTy t = None \<longleftrightarrow> \<not> isSized t) \<and>
    (\<forall>s. getShadowTy t = Some s \<longrightarrow> getShadowTy s = Some s \<and>
      (\<exists>c p. getCleanShadow False k t = Some c \<and> getPoisonedShadow False k t = Some p \<and> has_ty k c s \<and> has_ty k p s \<and>
        ev \<rho> (convertToBool False s (Const c)) = i1 False \<and> ev \<rho> (convertToBool False s (Const p)) = i1 (inhabited t)))"
proof (cases "isSized t")
  case True
  note g = getShadowTy_shadow_ty [OF True] and tc = constants_typed [OF True assms(1), of k]
  have "getShadowTy (shadow_ty t) = Some (shadow_ty t)"
    using shadow_ty_sized [OF True] getShadowTy_shadow_ty [of "shadow_ty t"] by simp
  then show ?thesis
    using True g tc convertToBool_ok [where e = "Const (getNullValue k (shadow_ty t))" and \<rho> = \<rho> and k = k]
      convertToBool_ok [where e = "Const (getAllOnesShadow k (shadow_ty t))" and \<rho> = \<rho> and k = k]
      null_clean [of k "shadow_ty t"] ones_poisoned [OF True assms]
    by (simp add: getCleanShadow_def getPoisonedShadow_def)
qed (simp add: getShadowTy_None)

theorem shadow_well_typed_witness:
  "\<exists>s c p. getShadowTy (StructTy False [PointerTy, ArrayTy 3 (FloatTy 32)]) = Some s \<and>
    getCleanShadow False 1 (StructTy False [PointerTy, ArrayTy 3 (FloatTy 32)]) = Some c \<and>
    getPoisonedShadow False 1 (StructTy False [PointerTy, ArrayTy 3 (FloatTy 32)]) = Some p \<and>
    has_ty 1 c s \<and> has_ty 1 p s"
  using shadow_well_typed [of "StructTy False [PointerTy, ArrayTy 3 (FloatTy 32)]" 1 "\<lambda>_. IntV 1 0"] by auto

text \<open>
  The two forms of a check agree: whatever the threshold and the count so far, the code
  generated for a shadow of any type (a branch, or a call of the runtime with the widened scalar)
  reports exactly when some bit of the shadow is set. The data layout is assumed to give an
  aggregate at least the size of its scalar form.
\<close>

theorem check_forms_agree:
  assumes "\<not> flip E" and "has_ty k (ev \<rho> e) t" and "fst (convertShadowToScalar False t e) \<le> bits t"
  shows "fires E \<rho> (fst (materializeOneCheck threshold bits False count t e)) \<longleftrightarrow>
    (\<exists>y \<in> set (leaves (ev \<rho> e)). y \<noteq> 0)"
  unfolding nz_def [symmetric] by (rule one_check_ok [where bits = bits, OF assms])

theorem check_forms_agree_witness:
  "fires example_env (\<lambda>_. VecV 8 [0, 4, 0, 0]) (fst (materializeOneCheck 0 (\<lambda>_. 32) False 0 (FixedVectorTy 4 (IntegerTy 8)) (Val 7)))"
  using check_forms_agree [OF example_env_ok(2), where k = 1 and \<rho> = "\<lambda>_. VecV 8 [0, 4, 0, 0]" and e = "Val 7"
    and t = "FixedVectorTy 4 (IntegerTy 8)" and bits = "\<lambda>_. 32" and threshold = 0 and count = 0] by simp


end
