(* ===== verification/Pass_Address.thy ===== *)
theory Pass_Address
  imports Pass_Shadow
begin

text \<open>
  The compiler pass, second part: the address of the shadow of a memory access
  (\<^verbatim>\<open>getShadowPtrOffset\<close>, \<^verbatim>\<open>tryGetShadowPtrFromBase\<close>, \<^verbatim>\<open>getShadowPtrUserspace\<close>), the choice of
  the mapping (\<^verbatim>\<open>initializeModule\<close>) and the strengthening of atomic orderings. The generated address
  arithmetic has to compute the runtime's \<^verbatim>\<open>MEM_TO_SHADOW\<close>.
\<close>

section \<open>Mapping parameters\<close>

record MemoryMapParams =
  AndMask :: u64
  XorMask :: u64
  ShadowBase :: u64

definition Linux_X86_64_MemoryMapParams :: MemoryMapParams where
  "Linux_X86_64_MemoryMapParams = \<lparr>AndMask = 0, XorMask = 0x500000000000, ShadowBase = 0\<rparr>"

datatype target_os = Linux | OtherOS
datatype target_arch = X86_64 | OtherTarget

text \<open>\<open>override\<close> is given when \<^verbatim>\<open>ClShadowBase\<close> was passed on the command line.\<close>

definition choose_map_params :: "MemoryMapParams option \<Rightarrow> target_os \<Rightarrow> target_arch \<Rightarrow> MemoryMapParams outcome" where
  "choose_map_params override os arch =
    (case override of Some mp \<Rightarrow> Ok mp
     | None \<Rightarrow>
       (case os of Linux \<Rightarrow>
          (case arch of X86_64 \<Rightarrow> Ok Linux_X86_64_MemoryMapParams
           | OtherTarget \<Rightarrow> Died (Fatal ''unsupported architecture''))
        | OtherOS \<Rightarrow> Died (Fatal ''unsupported operating system'')))"

section \<open>Address computations\<close>

text \<open>
  Generated address arithmetic over the value of an IR pointer, lane by lane for a vector of
  pointers (a constant stands for its splat); \<open>PtrOf x\<close> is the IR value \<open>x\<close> itself.
\<close>

datatype aexpr = PtrOf nat | AndK aexpr u64 | XorK aexpr u64 | AddK aexpr u64

primrec aev :: "(nat \<Rightarrow> uptr list) \<Rightarrow> aexpr \<Rightarrow> uptr list" where
  "aev \<sigma> (PtrOf x) = \<sigma> x"
| "aev \<sigma> (AndK e k) = map (\<lambda>a. a AND k) (aev \<sigma> e)"
| "aev \<sigma> (XorK e k) = map (\<lambda>a. a XOR k) (aev \<sigma> e)"
| "aev \<sigma> (AddK e k) = map (\<lambda>a. a + k) (aev \<sigma> e)"

definition getShadowPtrOffset :: "MemoryMapParams \<Rightarrow> nat \<Rightarrow> aexpr" where
  "getShadowPtrOffset mp addr =
    (let e0 = PtrOf addr;
         e1 = (if AndMask mp \<noteq> 0 then AndK e0 (NOT (AndMask mp)) else e0)
     in if XorMask mp \<noteq> 0 then XorK e1 (XorMask mp) else e1)"

text \<open>
  The cache of shadow pointers per base object. An entry that is an instruction has a position: its
  block and its index there; the current insertion point is a block and an index, or the block's
  end. \<open>comesBefore\<close> is the comparison of indices.
\<close>

datatype cached = CachedConstant aexpr | CachedInst nat nat aexpr

type_synonym insert_point = "nat \<times> nat option"

fun cached_expr :: "cached \<Rightarrow> aexpr" where
  "cached_expr (CachedConstant e) = e"
| "cached_expr (CachedInst b i e) = e"

fun shadowBaseUsableHere :: "cached \<Rightarrow> insert_point \<Rightarrow> bool" where
  "shadowBaseUsableHere (CachedConstant e) ip \<longleftrightarrow> True"
| "shadowBaseUsableHere (CachedInst b i e) ip \<longleftrightarrow> b = fst ip \<and> (case snd ip of None \<Rightarrow> True | Some j \<Rightarrow> i < j)"

text \<open>
  What the pass reads besides: the flag \<^verbatim>\<open>ClSharedShadowBase\<close>, whether an address is a vector, and
  LLVM's \<^verbatim>\<open>GetPointerBaseWithConstantOffset\<close> (the base and the offset of an address). \<open>mk\<close> is the
  entry the builder returns for a freshly built value (a constant folds, an instruction has its
  position).
\<close>

record actx_pass =
  map_params :: MemoryMapParams
  ClSharedShadowBase :: bool
  isVectorAddr :: "nat \<Rightarrow> bool"
  baseWithConstantOffset :: "nat \<Rightarrow> (nat \<times> int) option"
  mk :: "insert_point \<Rightarrow> aexpr \<Rightarrow> cached"

definition tryGetShadowPtrFromBase ::
    "actx_pass \<Rightarrow> (nat \<rightharpoonup> cached) \<Rightarrow> insert_point \<Rightarrow> nat \<Rightarrow> aexpr option \<times> (nat \<rightharpoonup> cached)" where
  "tryGetShadowPtrFromBase c cache ip addr =
    (if \<not> ClSharedShadowBase c then (None, cache)
     else if AndMask (map_params c) \<noteq> 0 \<or> ShadowBase (map_params c) \<noteq> 0 then (None, cache)
     else if isVectorAddr c addr then (None, cache)
     else case baseWithConstantOffset c addr of None \<Rightarrow> (None, cache)
       | Some (base, off) \<Rightarrow>
         if base = addr then (None, cache)
         else
           let hit = (case cache base of None \<Rightarrow> None | Some x \<Rightarrow> if shadowBaseUsableHere x ip then Some x else None);
               entry = (case hit of Some x \<Rightarrow> x | None \<Rightarrow> mk c ip (getShadowPtrOffset (map_params c) base));
               cache' = (case hit of Some x \<Rightarrow> cache | None \<Rightarrow> cache(base \<mapsto> entry))
           in (Some (if off = 0 then cached_expr entry else AddK (cached_expr entry) (word_of_int off)), cache'))"

definition getShadowPtrUserspace ::
    "actx_pass \<Rightarrow> (nat \<rightharpoonup> cached) \<Rightarrow> insert_point \<Rightarrow> nat \<Rightarrow> aexpr \<times> (nat \<rightharpoonup> cached)" where
  "getShadowPtrUserspace c cache ip addr =
    (let (shared, cache1) = (if isVectorAddr c addr then (None, cache) else tryGetShadowPtrFromBase c cache ip addr)
     in case shared of Some e \<Rightarrow> (e, cache1)
        | None \<Rightarrow>
          let off = getShadowPtrOffset (map_params c) addr
          in (if ShadowBase (map_params c) \<noteq> 0 then AddK off (ShadowBase (map_params c)) else off, cache1))"

definition getShadowPtr ::
    "actx_pass \<Rightarrow> (nat \<rightharpoonup> cached) \<Rightarrow> insert_point \<Rightarrow> nat \<Rightarrow> aexpr \<times> (nat \<rightharpoonup> cached)" where
  "getShadowPtr c cache ip addr = getShadowPtrUserspace c cache ip addr"

section \<open>Atomic orderings\<close>

datatype AtomicOrdering = NotAtomic | Unordered | Monotonic | Acquire | Release | AcquireRelease | SequentiallyConsistent

fun addReleaseOrdering :: "AtomicOrdering \<Rightarrow> AtomicOrdering" where
  "addReleaseOrdering NotAtomic = NotAtomic"
| "addReleaseOrdering Unordered = Release"
| "addReleaseOrdering Monotonic = Release"
| "addReleaseOrdering Release = Release"
| "addReleaseOrdering Acquire = AcquireRelease"
| "addReleaseOrdering AcquireRelease = AcquireRelease"
| "addReleaseOrdering SequentiallyConsistent = SequentiallyConsistent"

fun addAcquireOrdering :: "AtomicOrdering \<Rightarrow> AtomicOrdering" where
  "addAcquireOrdering NotAtomic = NotAtomic"
| "addAcquireOrdering Unordered = Acquire"
| "addAcquireOrdering Monotonic = Acquire"
| "addAcquireOrdering Acquire = Acquire"
| "addAcquireOrdering Release = AcquireRelease"
| "addAcquireOrdering AcquireRelease = AcquireRelease"
| "addAcquireOrdering SequentiallyConsistent = SequentiallyConsistent"

text \<open>The orderings of the C interface, in their numbering, and the tables indexed by them.\<close>

definition relaxed :: nat where "relaxed = 0"
definition consume :: nat where "consume = 1"
definition acquire :: nat where "acquire = 2"
definition release :: nat where "release = 3"
definition acq_rel :: nat where "acq_rel = 4"
definition seq_cst :: nat where "seq_cst = 5"

lemmas cabi_defs = relaxed_def consume_def acquire_def release_def acq_rel_def seq_cst_def

definition makeAddReleaseOrderingTable :: "nat list" where
  "makeAddReleaseOrderingTable =
    (replicate (seq_cst + 1) 0)[relaxed := release, release := release,
       consume := acq_rel, acquire := acq_rel, acq_rel := acq_rel, seq_cst := seq_cst]"

definition makeAddAcquireOrderingTable :: "nat list" where
  "makeAddAcquireOrderingTable =
    (replicate (seq_cst + 1) 0)[relaxed := acquire, acquire := acquire, consume := acquire,
       release := acq_rel, acq_rel := acq_rel, seq_cst := seq_cst]"

section \<open>Correctness of the address\<close>

lemma getShadowPtrOffset_ok:
  "aev \<sigma> (getShadowPtrOffset mp x) = map (\<lambda>a. (a AND NOT (AndMask mp)) XOR XorMask mp) (\<sigma> x)"
  by (auto simp: getShadowPtrOffset_def Let_def comp_def)

text \<open>A cache entry is right in a run when it evaluates to the offset of its base.\<close>

definition cache_ok :: "actx_pass \<Rightarrow> (nat \<Rightarrow> uptr list) \<Rightarrow> (nat \<rightharpoonup> cached) \<Rightarrow> bool" where
  "cache_ok c \<sigma> cache \<longleftrightarrow> (\<forall>b x. cache b = Some x \<longrightarrow>
     aev \<sigma> (cached_expr x) = aev \<sigma> (getShadowPtrOffset (map_params c) b))"

text \<open>
  What LLVM's base query promises (an in-bounds constant offset from the base, both in the same
  object), as far as the mapping needs it: the two addresses differ by the offset and lie in the same
  region of the address space.
\<close>

definition base_query_ok :: "actx_pass \<Rightarrow> (nat \<Rightarrow> uptr list) \<Rightarrow> bool" where
  "base_query_ok c \<sigma> \<longleftrightarrow> (\<forall>x b off. baseWithConstantOffset c x = Some (b, off) \<longrightarrow>
     (\<exists>p. \<sigma> b = [p] \<and> \<sigma> x = [p + word_of_int off] \<and> drop_bit 44 p = drop_bit 44 (p + word_of_int off)))"

definition builder_ok :: "actx_pass \<Rightarrow> bool" where
  "builder_ok c \<longleftrightarrow> (\<forall>ip e. cached_expr (mk c ip e) = e)"

lemma linux_offset:
  "map_params c = Linux_X86_64_MemoryMapParams \<Longrightarrow>
   aev \<sigma> (getShadowPtrOffset (map_params c) x) = map (MEM_TO_SHADOW linux_64) (\<sigma> x)"
  by (simp add: getShadowPtrOffset_ok Linux_X86_64_MemoryMapParams_def linux_64_sel)

lemma shadow_ptr_ok:
  assumes mp: "map_params c = Linux_X86_64_MemoryMapParams" and q: "base_query_ok c \<sigma>" and b: "builder_ok c"
    and ok: "cache_ok c \<sigma> cache" and get: "getShadowPtrUserspace c cache ip x = (e, cache')"
  shows "aev \<sigma> e = map (MEM_TO_SHADOW linux_64) (\<sigma> x) \<and> cache_ok c \<sigma> cache'"
proof (cases "\<exists>base off. \<not> isVectorAddr c x \<and> ClSharedShadowBase c \<and> baseWithConstantOffset c x = Some (base, off) \<and> base \<noteq> x")
  case False
  then have "e = getShadowPtrOffset (map_params c) x \<and> cache' = cache"
    using get mp by (auto simp: getShadowPtrUserspace_def tryGetShadowPtrFromBase_def Linux_X86_64_MemoryMapParams_def
      split: if_splits option.splits prod.splits)
  then show ?thesis using linux_offset [OF mp] ok by auto
next
  case True
  then obtain base off where t: "\<not> isVectorAddr c x" "ClSharedShadowBase c" "baseWithConstantOffset c x = Some (base, off)" "base \<noteq> x"
    by blast
  from q t(3) obtain p where p: "\<sigma> base = [p]" "\<sigma> x = [p + word_of_int off]" "drop_bit 44 p = drop_bit 44 (p + word_of_int off)"
    unfolding base_query_ok_def by blast
  define hit where "hit = (case cache base of None \<Rightarrow> None | Some y \<Rightarrow> if shadowBaseUsableHere y ip then Some y else None)"
  define entry where "entry = (case hit of Some y \<Rightarrow> y | None \<Rightarrow> mk c ip (getShadowPtrOffset (map_params c) base))"
  have z: "AndMask (map_params c) = 0" "ShadowBase (map_params c) = 0" using mp by (simp_all add: Linux_X86_64_MemoryMapParams_def)
  have e: "e = (if off = 0 then cached_expr entry else AddK (cached_expr entry) (word_of_int off))"
    and c': "cache' = (case hit of Some y \<Rightarrow> cache | None \<Rightarrow> cache(base \<mapsto> entry))"
    using get t z by (cases "cache base"; auto simp: getShadowPtrUserspace_def tryGetShadowPtrFromBase_def Let_def
      hit_def entry_def split: if_splits)+
  have hb: "cache base = Some y" if "hit = Some y" for y
    using that by (auto simp: hit_def split: option.splits if_splits)
  have entry_ok: "aev \<sigma> (cached_expr entry) = aev \<sigma> (getShadowPtrOffset (map_params c) base)"
  proof (cases hit)
    case None
    have "cached_expr (mk c ip e) = e" for e using b unfolding builder_ok_def by blast
    then show ?thesis using None by (simp add: entry_def)
  next
    case (Some y)
    then show ?thesis using ok hb [OF Some] by (simp add: entry_def cache_ok_def)
  qed
  have "MEM_TO_SHADOW linux_64 (p + word_of_int off) = MEM_TO_SHADOW linux_64 p + (p + word_of_int off - p)"
    using x86.linear p(3) unfolding linear_blocks_def by blast
  then have "aev \<sigma> e = map (MEM_TO_SHADOW linux_64) (\<sigma> x)"
    using entry_ok linux_offset [OF mp, of \<sigma> base] p(1,2) by (simp add: e)
  moreover have "cache_ok c \<sigma> cache'" using ok entry_ok by (cases hit) (auto simp: c' cache_ok_def)
  ultimately show ?thesis by blast
qed

section \<open>Properties\<close>

text \<open>
  C32: the pass and the runtime agree on where the shadow of an access is: on x86-64 Linux the
  mapping is chosen without an override, and the generated address, recomputed or taken from the
  cached shadow of the base object plus a constant offset, is the runtime's \<^verbatim>\<open>MEM_TO_SHADOW\<close> of the
  application address, for every lane; the cache stays right for the accesses that follow.
\<close>

theorem pass_runtime_agree:
  assumes "choose_map_params None Linux X86_64 = Ok (map_params c)" and "base_query_ok c \<sigma>" and "builder_ok c"
    and "cache_ok c \<sigma> cache" and "getShadowPtr c cache ip x = (e, cache')"
  shows "aev \<sigma> e = map (MEM_TO_SHADOW linux_64) (\<sigma> x) \<and> cache_ok c \<sigma> cache'"
  by (rule shadow_ptr_ok [OF _ assms(2-4)]) (use assms(1,5) in \<open>simp_all add: choose_map_params_def getShadowPtr_def\<close>)

definition example_pass :: actx_pass where
  "example_pass = \<lparr>map_params = Linux_X86_64_MemoryMapParams, ClSharedShadowBase = True, isVectorAddr = (\<lambda>_. False),
     baseWithConstantOffset = (\<lambda>x. if x = 1 then Some (0, 24) else None),
     mk = (\<lambda>ip e. CachedInst (fst ip) (case snd ip of None \<Rightarrow> 0 | Some i \<Rightarrow> i) e)\<rparr>"

theorem pass_runtime_agree_witness:
  "aev (\<lambda>x. if x = 0 then [0x700000000010] else [0x700000000028]) (fst (getShadowPtr example_pass Map.empty (0, Some 3) 1)) = [0x200000000028]"
proof -
  let ?s = "\<lambda>x. if x = 0 then [0x700000000010] else [0x700000000028 :: uptr]"
  have "base_query_ok example_pass ?s" "builder_ok example_pass" "cache_ok example_pass ?s Map.empty"
    "choose_map_params None Linux X86_64 = Ok (map_params example_pass)"
    by (auto simp: base_query_ok_def example_pass_def builder_ok_def cache_ok_def choose_map_params_def)
  from pass_runtime_agree [OF this(4,1-3), where ip = "(0, Some 3)" and x = 1] show ?thesis
    by (simp add: linux_64_sel) (metis prod.collapse)
qed

text \<open>
  Strengthening an atomic access keeps what its ordering promised and adds release (acquire)
  to every atomic one; the two tables used for the library calls hold the same function in the
  numbering of the C interface.
\<close>

fun toCABI :: "AtomicOrdering \<Rightarrow> nat" where
  "toCABI Acquire = acquire" | "toCABI Release = release" | "toCABI AcquireRelease = acq_rel"
| "toCABI SequentiallyConsistent = seq_cst" | "toCABI _ = relaxed"

definition releases :: "AtomicOrdering \<Rightarrow> bool" where
  "releases a \<longleftrightarrow> a \<in> {Release, AcquireRelease, SequentiallyConsistent}"

definition acquires :: "AtomicOrdering \<Rightarrow> bool" where
  "acquires a \<longleftrightarrow> a \<in> {Acquire, AcquireRelease, SequentiallyConsistent}"

theorem orderings_strengthened:
  "(a = NotAtomic \<or> releases (addReleaseOrdering a) \<and> (acquires (addReleaseOrdering a) \<longleftrightarrow> acquires a)) \<and>
   (a = NotAtomic \<or> acquires (addAcquireOrdering a) \<and> (releases (addAcquireOrdering a) \<longleftrightarrow> releases a)) \<and>
   (a = NotAtomic \<or> makeAddReleaseOrderingTable ! toCABI a = toCABI (addReleaseOrdering a)) \<and>
   (a = NotAtomic \<or> makeAddAcquireOrderingTable ! toCABI a = toCABI (addAcquireOrdering a)) \<and>
   addReleaseOrdering (addAcquireOrdering a) = addAcquireOrdering (addReleaseOrdering a)"
  by (cases a) (simp_all add: releases_def acquires_def makeAddReleaseOrderingTable_def makeAddAcquireOrderingTable_def
    cabi_defs eval_nat_numeral)

end
