(* ===== verification/Pass_IR.thy ===== *)
theory Pass_IR
  imports Pass_Address
begin

text \<open>
  The compiler pass, third part: the intermediate representation it works on. Instructions and blocks
  are numbered; an instruction carries the operands the pass looks at. What LLVM answers about a
  function (use lists, whether an instruction always passes control on) is part of the record.
\<close>

section \<open>Values and instructions\<close>

datatype castop = IntToPtr | PtrToInt | BitCastOp | AddrSpaceCast | OtherCast
datatype binop = BAdd | BAnd | BOr | BXor | BShl | BLShr | BAShr | BUDiv | BSDiv | BURem | BSRem | OtherBin

datatype val = VInst nat | VArg nat | VInt int | VUndef ty | VNull | VGlobal string
  | VCast castop val | VBin binop val val | VConst

fun isUndef :: "val \<Rightarrow> bool" where
  "isUndef (VUndef t) = True"
| "isUndef _ = False"

datatype callform = PlainCall | Invoke | CallBr
datatype intrinsic = NotIntrinsic | memmove_intr | memcpy_intr | memset_intr | va_start_intr | va_copy_intr | lifetime_start
  | launder_invariant_group | strip_invariant_group | masked_compressstore | masked_expandload | masked_gather
  | masked_scatter | masked_store | masked_load | is_constant_intr | x86_sse_stmxcsr | x86_sse_ldmxcsr
  | umax | umin | smax | smin | abs_intr | ctpop | ctlz | cttz | bswap | fshl | fshr | OtherIntrinsic

definition isMemIntrinsic :: "intrinsic \<Rightarrow> bool" where
  "isMemIntrinsic ic \<longleftrightarrow> ic \<in> {memmove_intr, memcpy_intr, memset_intr}"

datatype inst =
    LoadI val | StoreI val val | RetI "val option" | BrI "val option" | SwitchI val
  | BinI binop val val | UnI val | CastI castop val | ICmpI val val | FCmpI val val | PhiI "val list" | SelectI val val val
  | GepI val "val list" | ExtractValueI val | InsertValueI val val | ExtractElementI val val | InsertElementI val val val
  | ShuffleVectorI val val | FreezeI val
  | CallI callform intrinsic val "val list" | AtomicRMWI val val | AtomicCmpXchgI val val val
  | AllocaI val | CatchSwitchI | CleanupReturnI | CatchReturnI | EHPadI | OtherTermI "val list" | OtherI "val list"

fun isPHI :: "inst \<Rightarrow> bool" where
  "isPHI (PhiI vs) = True"
| "isPHI _ = False"

fun isEHPad :: "inst \<Rightarrow> bool" where
  "isEHPad EHPadI = True"
| "isEHPad CatchSwitchI = True"
| "isEHPad _ = False"

fun isTerminator :: "inst \<Rightarrow> bool" where
  "isTerminator (RetI v) = True"
| "isTerminator (BrI c) = True"
| "isTerminator (SwitchI c) = True"
| "isTerminator (CallI fm ic cv vs) = (fm \<noteq> PlainCall)"
| "isTerminator CatchSwitchI = True"
| "isTerminator CleanupReturnI = True"
| "isTerminator CatchReturnI = True"
| "isTerminator (OtherTermI vs) = True"
| "isTerminator _ = False"

fun operands :: "inst \<Rightarrow> val list" where
  "operands (LoadI p) = [p]"
| "operands (StoreI v p) = [v, p]"
| "operands (RetI v) = (case v of None \<Rightarrow> [] | Some x \<Rightarrow> [x])"
| "operands (BrI c) = (case c of None \<Rightarrow> [] | Some x \<Rightarrow> [x])"
| "operands (SwitchI c) = [c]"
| "operands (BinI b x y) = [x, y]"
| "operands (UnI x) = [x]"
| "operands (CastI c x) = [x]"
| "operands (ICmpI x y) = [x, y]"
| "operands (FCmpI x y) = [x, y]"
| "operands (PhiI vs) = vs"
| "operands (SelectI c x y) = [c, x, y]"
| "operands (GepI p vs) = p # vs"
| "operands (ExtractValueI x) = [x]"
| "operands (InsertValueI x y) = [x, y]"
| "operands (ExtractElementI x y) = [x, y]"
| "operands (InsertElementI x y z) = [x, y, z]"
| "operands (ShuffleVectorI x y) = [x, y]"
| "operands (FreezeI x) = [x]"
| "operands (CallI fm ic cv vs) = vs @ [cv]"
| "operands (AtomicRMWI p v) = [p, v]"
| "operands (AtomicCmpXchgI p v w) = [p, v, w]"
| "operands (AllocaI n) = [n]"
| "operands (OtherTermI vs) = vs"
| "operands (OtherI vs) = vs"
| "operands _ = []"

section \<open>Functions\<close>

text \<open>
  \<open>users v\<close> lists the users of a value in LLVM's order, \<^term>\<open>None\<close> for one that is not an
  instruction. \<open>transfers i\<close> is \<^verbatim>\<open>isGuaranteedToTransferExecutionToSuccessor\<close>.
\<close>

record func =
  body :: "nat \<Rightarrow> inst"
  ity :: "nat \<Rightarrow> ty"
  blocks :: "nat \<Rightarrow> nat list"
  parent :: "nat \<Rightarrow> nat"
  succs :: "nat \<Rightarrow> nat list"
  users :: "val \<Rightarrow> nat option list"
  nosanitize :: "nat \<Rightarrow> bool"
  transfers :: "nat \<Rightarrow> bool"

primrec index_of :: "'a list \<Rightarrow> 'a \<Rightarrow> nat" where
  "index_of [] x = 0"
| "index_of (y # ys) x = (if x = y then 0 else Suc (index_of ys x))"

definition pos :: "func \<Rightarrow> nat \<Rightarrow> nat" where
  "pos f i = index_of (blocks f (parent f i)) i"

definition comesBefore :: "func \<Rightarrow> nat \<Rightarrow> nat \<Rightarrow> bool" where
  "comesBefore f i j \<longleftrightarrow> pos f i < pos f j"

definition getTerminator :: "func \<Rightarrow> nat \<Rightarrow> nat" where
  "getTerminator f b = last (blocks f b)"

text \<open>The instructions after \<open>i\<close> in its block, in order.\<close>

definition nodes_after :: "func \<Rightarrow> nat \<Rightarrow> nat list" where
  "nodes_after f i = drop (Suc (pos f i)) (blocks f (parent f i))"

definition first_of :: "'a list \<Rightarrow> 'a option" where
  "first_of xs = (case xs of [] \<Rightarrow> None | x # _ \<Rightarrow> Some x)"

text \<open>\<^verbatim>\<open>getFirstInsertionPt\<close>; \<^term>\<open>None\<close> is the end iterator.\<close>

definition getFirstInsertionPt :: "func \<Rightarrow> nat \<Rightarrow> nat option" where
  "getFirstInsertionPt f b =
    (case dropWhile (\<lambda>i. isPHI (body f i)) (blocks f b) of
       [] \<Rightarrow> None
     | i # is \<Rightarrow> if isEHPad (body f i) then first_of is else Some i)"

definition isBBBarrier :: "func \<Rightarrow> nat \<Rightarrow> bool" where
  "isBBBarrier f i \<longleftrightarrow> \<not> transfers f i"

text \<open>
  A well-formed block: its instructions are distinct and know their block, the last one and only
  that is a terminator, and no PHI or landing pad follows the first instruction that is not a PHI.
\<close>

definition wf_block :: "func \<Rightarrow> nat \<Rightarrow> bool" where
  "wf_block f b \<longleftrightarrow> blocks f b \<noteq> [] \<and> distinct (blocks f b) \<and> list_all (\<lambda>i. parent f i = b) (blocks f b) \<and>
    list_all (\<lambda>i. isTerminator (body f i) \<longleftrightarrow> i = last (blocks f b)) (blocks f b) \<and>
    list_all (\<lambda>i. \<not> isPHI (body f i) \<and> \<not> isEHPad (body f i)) (tl (dropWhile (\<lambda>i. isPHI (body f i)) (blocks f b)))"

lemma index_of_less: "x \<in> set xs \<Longrightarrow> index_of xs x < length xs"
  by (induction xs) auto

lemma nth_index_of [simp]: "x \<in> set xs \<Longrightarrow> xs ! index_of xs x = x"
  by (induction xs) auto

lemma index_of_nth: "distinct xs \<Longrightarrow> k < length xs \<Longrightarrow> index_of xs (xs ! k) = k"
  by (induction xs arbitrary: k) (auto simp: nth_Cons split: nat.splits)

lemma wf_block_parent: "wf_block f b \<Longrightarrow> i \<in> set (blocks f b) \<Longrightarrow> parent f i = b"
  by (simp add: wf_block_def list_all_iff)

lemma pos_less: "wf_block f b \<Longrightarrow> i \<in> set (blocks f b) \<Longrightarrow> pos f i < length (blocks f b)"
  using wf_block_parent [of f b i] by (simp add: pos_def index_of_less)

lemma nth_pos: "wf_block f b \<Longrightarrow> i \<in> set (blocks f b) \<Longrightarrow> blocks f b ! pos f i = i"
  using wf_block_parent [of f b i] by (simp add: pos_def)

lemma pos_nth:
  assumes "wf_block f b" and "k < length (blocks f b)"
  shows "pos f (blocks f b ! k) = k"
proof -
  have "parent f (blocks f b ! k) = b" using assms by (intro wf_block_parent nth_mem)
  then show ?thesis using assms by (simp add: pos_def index_of_nth wf_block_def)
qed

lemma wf_block_ne: "wf_block f b \<Longrightarrow> blocks f b \<noteq> []"
  by (simp add: wf_block_def)

lemma pos_last: "wf_block f b \<Longrightarrow> pos f (last (blocks f b)) = length (blocks f b) - 1"
  using pos_nth [of f b "length (blocks f b) - 1"] wf_block_ne [of f b] by (simp add: last_conv_nth)

lemma last_pos:
  assumes "wf_block f b" and "i \<in> set (blocks f b)"
  shows "pos f i = length (blocks f b) - 1 \<longleftrightarrow> i = last (blocks f b)"
  using pos_last [OF assms(1)] nth_pos [OF assms] wf_block_ne [OF assms(1)] by (auto simp: last_conv_nth)

lemma wf_after_nonPHI:
  assumes wf: "wf_block f b" and i: "i \<in> set (blocks f b)" "\<not> isPHI (body f i)" and j: "pos f i < j" "j < length (blocks f b)"
  shows "\<not> isPHI (body f (blocks f b ! j)) \<and> \<not> isEHPad (body f (blocks f b ! j))"
proof -
  let ?P = "\<lambda>i. isPHI (body f i)" and ?B = "blocks f b"
  let ?n = "length (takeWhile ?P ?B)"
  have "?n \<le> pos f i"
  proof (rule ccontr)
    assume "\<not> ?n \<le> pos f i"
    then have l: "pos f i < ?n" by simp
    then have "takeWhile ?P ?B ! pos f i \<in> set (takeWhile ?P ?B)" by (rule nth_mem)
    then have "?P (?B ! pos f i)" using set_takeWhileD takeWhile_nth [OF l] by fastforce
    then show False using i nth_pos [OF wf i(1)] by simp
  qed
  then have n: "?n < j" using j by simp
  have d: "dropWhile ?P ?B = drop ?n ?B" by (rule dropWhile_eq_drop)
  have "?B ! j = tl (dropWhile ?P ?B) ! (j - Suc ?n)" using n j(2) unfolding d by (simp add: nth_tl)
  moreover have "j - Suc ?n < length (tl (dropWhile ?P ?B))" using n j(2) unfolding d by simp
  ultimately have "?B ! j \<in> set (tl (dropWhile ?P ?B))" by (simp only: nth_mem)
  then show ?thesis using wf unfolding wf_block_def list_all_iff by blast
qed

end
