(* ===== verification/Pass_Checks.thy ===== *)
theory Pass_Checks
  imports Pass_IR
begin

text \<open>
  The compiler pass, fourth part: turning the list of requested checks into code
  (\<^verbatim>\<open>materializeChecks\<close> and what it calls). Code is a list of pairs of the instruction it is inserted
  before and the check. Inserting a check splits a block but keeps the order of the instructions, so
  positions are those of the block before the insertions.
\<close>

section \<open>Requested checks and options\<close>

record ShadowAndInsertPoint =
  ShadowTyV :: ty
  ShadowV :: expr
  OrigIns :: nat
  Essential :: bool

text \<open>\<open>bits\<close> is the data layout's size of a type, \<open>isKnownNonZero\<close> LLVM's analysis of a constant.\<close>

record pass_opts =
  flipped :: bool
  ClCheckConstantShadow :: bool
  Recover :: bool
  ClInstrumentationWithCallThreshold :: int
  ClCoalescedIncrementalOr :: bool
  ClBBCoalescedChecks :: bool
  ClLoopCoalescedChecks :: bool
  ClLoopCoalescedInlineExit :: bool
  bits :: "ty \<Rightarrow> nat"
  isKnownNonZero :: "expr \<Rightarrow> bool"

fun shadow_inst :: "expr \<Rightarrow> nat option" where
  "shadow_inst (Val n) = Some n"
| "shadow_inst _ = None"

fun isZeroValue :: "expr \<Rightarrow> bool" where
  "isZeroValue (Const c) = (\<not> nz c)"
| "isZeroValue _ = False"

section \<open>Where a check goes\<close>

definition insertPointAfter :: "func \<Rightarrow> nat \<Rightarrow> nat option" where
  "insertPointAfter f i =
    (if isPHI (body f i) then getFirstInsertionPt f (parent f i)
     else first_of (dropWhile (\<lambda>j. isPHI (body f j) \<or> isEHPad (body f j)) (nodes_after f i)))"

definition last_shadow :: "func \<Rightarrow> nat \<Rightarrow> ShadowAndInsertPoint \<Rightarrow> nat option \<Rightarrow> nat option" where
  "last_shadow f OI C Last =
    (case shadow_inst (ShadowV C) of
       None \<Rightarrow> Last
     | Some SI \<Rightarrow>
         if parent f SI \<noteq> parent f OI \<or> comesBefore f SI OI then Last
         else (case Last of None \<Rightarrow> Some SI | Some l \<Rightarrow> if comesBefore f l SI then Some SI else Last))"

definition checkInsertPoint :: "func \<Rightarrow> ShadowAndInsertPoint list \<Rightarrow> nat" where
  "checkInsertPoint f Checks =
    (let OI = OrigIns (hd Checks)
     in case fold (last_shadow f OI) Checks None of
          None \<Rightarrow> OI
        | Some Last \<Rightarrow>
            (case insertPointAfter f Last of
               None \<Rightarrow> getTerminator f (parent f OI)
             | Some IP \<Rightarrow> IP))"

fun isUnsplittableTerminator :: "inst \<Rightarrow> bool" where
  "isUnsplittableTerminator CatchSwitchI = True"
| "isUnsplittableTerminator CleanupReturnI = True"
| "isUnsplittableTerminator CatchReturnI = True"
| "isUnsplittableTerminator (CallI fm ic cv vs) = (fm = CallBr)"
| "isUnsplittableTerminator i = isEHPad i"

definition anchorFor :: "func \<Rightarrow> nat \<Rightarrow> nat option" where
  "anchorFor f OI =
    (let Term = getTerminator f (parent f OI)
     in if isBBBarrier f OI \<and> \<not> isTerminator (body f OI) then Some OI
        else (case find (isBBBarrier f) (takeWhile (\<lambda>i. i \<noteq> Term) (nodes_after f OI)) of
                Some i \<Rightarrow> Some i
              | None \<Rightarrow> if isUnsplittableTerminator (body f Term) then None else Some Term))"

text \<open>An indirect call, or an atomic update, has to be checked before it runs.\<close>

fun isImmediateEssentialSink :: "inst \<Rightarrow> bool" where
  "isImmediateEssentialSink (CallI fm ic cv vs) =
    (case cv of VInst n \<Rightarrow> True | VArg n \<Rightarrow> True | _ \<Rightarrow> False)"
| "isImmediateEssentialSink (AtomicCmpXchgI p v w) = True"
| "isImmediateEssentialSink (AtomicRMWI p v) = True"
| "isImmediateEssentialSink _ = False"

section \<open>One check per instruction\<close>

type_synonym code = "(nat \<times> check_code) list"

definition or_bools :: "bool \<Rightarrow> ty \<times> expr \<Rightarrow> ty \<times> expr \<Rightarrow> ty \<times> expr" where
  "or_bools fl a b = (IntegerTy 1, Or (convertToBool fl (fst a) (snd a)) (convertToBool fl (fst b) (snd b)))"

text \<open>
  The loop of \<^verbatim>\<open>materializeInstructionChecks\<close>: how many unconditional warnings it emits and the
  shadow accumulated for the final check; a return in the middle drops the latter.
\<close>

fun instruction_checks :: "pass_opts \<Rightarrow> ShadowAndInsertPoint list \<Rightarrow> (ty \<times> expr) option \<Rightarrow> nat \<times> (ty \<times> expr) option" where
  "instruction_checks opts [] Acc = (0, Acc)"
| "instruction_checks opts (C # Cs) Acc =
    (let S = (ShadowTyV C, ShadowV C)
     in if is_constant (ShadowV C) \<and> (\<not> ClCheckConstantShadow opts \<or> isZeroValue (ShadowV C))
        then instruction_checks opts Cs Acc
        else if is_constant (ShadowV C) \<and> isKnownNonZero opts (ShadowV C)
        then (if Recover opts then (let (n, Acc') = instruction_checks opts Cs Acc in (Suc n, Acc')) else (1, None))
        else instruction_checks opts Cs (Some (case Acc of None \<Rightarrow> S | Some A \<Rightarrow> or_bools (flipped opts) A S)))"

definition one_check :: "pass_opts \<Rightarrow> nat \<Rightarrow> ty \<times> expr \<Rightarrow> int \<Rightarrow> code \<times> int" where
  "one_check opts ip S count =
    (let (c, count') = materializeOneCheck (ClInstrumentationWithCallThreshold opts) (bits opts) (flipped opts) count (fst S) (snd S)
     in ([(ip, c)], count'))"

definition materializeInstructionChecks :: "pass_opts \<Rightarrow> func \<Rightarrow> ShadowAndInsertPoint list \<Rightarrow> int \<Rightarrow> code \<times> int" where
  "materializeInstructionChecks opts f Checks count =
    (let InsertPt = checkInsertPoint f Checks;
         (n, Acc) = instruction_checks opts Checks None;
         warns = replicate n (InsertPt, WarnAlways)
     in case Acc of
          None \<Rightarrow> (warns, count)
        | Some S \<Rightarrow> (let (c, count') = one_check opts InsertPt S count in (warns @ c, count')))"

text \<open>Consecutive requests for one instruction are handled together.\<close>

function materializeChecksLegacy :: "pass_opts \<Rightarrow> func \<Rightarrow> ShadowAndInsertPoint list \<Rightarrow> int \<Rightarrow> code \<times> int" where
  "materializeChecksLegacy opts f [] count = ([], count)"
| "materializeChecksLegacy opts f (C # Cs) count =
    (let same = (\<lambda>R. OrigIns R = OrigIns C);
         (c, count') = materializeInstructionChecks opts f (C # takeWhile same Cs) count;
         (cs, count'') = materializeChecksLegacy opts f (dropWhile same Cs) count'
     in (c @ cs, count''))"
  by pat_completeness auto
termination
  by (relation "measure (\<lambda>(opts, f, Cs, count). length Cs)") (auto simp: less_Suc_eq_le length_dropWhile_le)

section \<open>One check per straight-line segment\<close>

text \<open>A \<^verbatim>\<open>MapVector\<close> of lists: push onto the entry of a key, new keys go to the end.\<close>

fun mv_push :: "'k \<Rightarrow> 'v \<Rightarrow> ('k \<times> 'v list) list \<Rightarrow> ('k \<times> 'v list) list" where
  "mv_push k v [] = [(k, [v])]"
| "mv_push k v ((k', vs) # m) = (if k = k' then (k', vs @ [v]) # m else (k', vs) # mv_push k v m)"

definition groupByOrigIns :: "ShadowAndInsertPoint list \<Rightarrow> ShadowAndInsertPoint list" where
  "groupByOrigIns V =
    (if length V < 2 then V else concat (map snd (fold (\<lambda>E m. mv_push (OrigIns E) E m) V [])))"

text \<open>
  The shadows defined in the anchor's block before it, each once (\<^verbatim>\<open>Local\<close>); the others are
  \<^verbatim>\<open>Remote\<close>.
\<close>

definition is_local :: "func \<Rightarrow> nat \<Rightarrow> ty \<times> expr \<Rightarrow> bool" where
  "is_local f At S =
    (case shadow_inst (snd S) of
       None \<Rightarrow> False
     | Some SI \<Rightarrow> SI \<in> set (blocks f (parent f At)) \<and> index_of (blocks f (parent f At)) SI < pos f At)"

fun keep_first :: "expr list \<Rightarrow> (ty \<times> expr) list \<Rightarrow> (ty \<times> expr) list" where
  "keep_first seen [] = []"
| "keep_first seen (S # Ss) =
    (if snd S \<in> set seen then keep_first seen Ss else S # keep_first (snd S # seen) Ss)"

fun inst_of :: "ty \<times> expr \<Rightarrow> nat" where
  "inst_of (t, Val n) = n"
| "inst_of (t, e) = 0"

definition or_all :: "bool \<Rightarrow> (ty \<times> expr) list \<Rightarrow> expr" where
  "or_all fl Ss =
    fold (\<lambda>S acc. Or acc (convertToBool fl (fst S) (snd S))) (tl Ss) (convertToBool fl (fst (hd Ss)) (snd (hd Ss)))"

text \<open>The emitted check, and the insertion points of the OR operations placed early.\<close>

definition emitCoalescedCheck ::
    "pass_opts \<Rightarrow> func \<Rightarrow> (ty \<times> expr) list \<Rightarrow> nat \<Rightarrow> int \<Rightarrow> (code \<times> nat option list) \<times> int" where
  "emitCoalescedCheck opts f Shadows At count =
    (if Shadows = [] then (([], []), count)
     else
       let Local = keep_first [] (filter (is_local f At) Shadows);
           Remote = filter (\<lambda>S. \<not> is_local f At S) Shadows;
           Sorted = sort_key (\<lambda>S. index_of (blocks f (parent f At)) (inst_of S)) Local;
           incr = ClCoalescedIncrementalOr opts \<and> length Shadows > 1 \<and> length Local > 1;
           Acc = or_all (flipped opts) (if incr then Sorted @ Remote else Shadows);
           (c, count') = one_check opts At (IntegerTy 1, Acc) count
       in ((c, if incr then map (\<lambda>S. insertPointAfter f (inst_of S)) Sorted else []), count'))"

definition deferrable :: "func \<Rightarrow> ShadowAndInsertPoint \<Rightarrow> bool" where
  "deferrable f C \<longleftrightarrow> \<not> Essential C \<and> \<not> isImmediateEssentialSink (body f (OrigIns C))"

definition anchored :: "func \<Rightarrow> ShadowAndInsertPoint list \<Rightarrow> (nat \<times> (ty \<times> expr) list) list \<times> ShadowAndInsertPoint list" where
  "anchored f Ds =
    fold (\<lambda>D (m, ess). case anchorFor f (OrigIns D) of
            Some A \<Rightarrow> (mv_push A (ShadowTyV D, ShadowV D) m, ess)
          | None \<Rightarrow> (m, ess @ [D\<lparr>Essential := True\<rparr>])) Ds ([], [])"

fun emit_anchored :: "pass_opts \<Rightarrow> func \<Rightarrow> (nat \<times> (ty \<times> expr) list) list \<Rightarrow> int \<Rightarrow> code \<times> int" where
  "emit_anchored opts f [] count = ([], count)"
| "emit_anchored opts f ((A, Ss) # m) count =
    (let ((c, _), count') = emitCoalescedCheck opts f Ss A count;
         (cs, count'') = emit_anchored opts f m count'
     in (c @ cs, count''))"

definition materializeCoalescedChecks :: "pass_opts \<Rightarrow> func \<Rightarrow> ShadowAndInsertPoint list \<Rightarrow> int \<Rightarrow> code \<times> int" where
  "materializeCoalescedChecks opts f InstrumentationList count =
    (let (ByAnchor, noAnchor) = anchored f (filter (deferrable f) InstrumentationList);
         Ess = filter (\<lambda>C. \<not> deferrable f C) InstrumentationList @ noAnchor;
         (c, count') = materializeChecksLegacy opts f (groupByOrigIns Ess) count;
         (cs, count'') = emit_anchored opts f ByAnchor count'
     in (c @ cs, count''))"


section \<open>Running a block\<close>

text \<open>
  A visit of a block runs its instructions in order and ends early only at an instruction that may
  not pass control on; code inserted before an instruction runs when that instruction is reached.
\<close>

definition reached :: "func \<Rightarrow> nat \<Rightarrow> nat option \<Rightarrow> nat \<Rightarrow> bool" where
  "reached f b stop p \<longleftrightarrow> p \<in> set (blocks f b) \<and> (case stop of None \<Rightarrow> True | Some q \<Rightarrow> pos f p \<le> pos f q)"

definition stop_ok :: "func \<Rightarrow> nat \<Rightarrow> nat option \<Rightarrow> bool" where
  "stop_ok f b stop \<longleftrightarrow> (case stop of None \<Rightarrow> True | Some q \<Rightarrow> q \<in> set (blocks f b) \<and> isBBBarrier f q)"

definition reports :: "env \<Rightarrow> func \<Rightarrow> nat \<Rightarrow> nat option \<Rightarrow> (nat \<Rightarrow> sval) \<Rightarrow> code \<Rightarrow> bool" where
  "reports E f b stop \<rho> cs \<longleftrightarrow> (\<exists>(p, c) \<in> set cs. reached f b stop p \<and> fires E \<rho> c)"

text \<open>What the requests ask for, independently of how the checks are placed.\<close>

definition counts :: "pass_opts \<Rightarrow> (nat \<Rightarrow> sval) \<Rightarrow> ShadowAndInsertPoint \<Rightarrow> bool" where
  "counts opts \<rho> C \<longleftrightarrow> nz (ev \<rho> (ShadowV C)) \<and> (\<not> is_constant (ShadowV C) \<or> ClCheckConstantShadow opts)"

definition wanted :: "pass_opts \<Rightarrow> func \<Rightarrow> nat \<Rightarrow> nat option \<Rightarrow> (nat \<Rightarrow> sval) \<Rightarrow> ShadowAndInsertPoint list \<Rightarrow> bool" where
  "wanted opts f b stop \<rho> Cs \<longleftrightarrow> (\<exists>C \<in> set Cs. reached f b stop (OrigIns C) \<and> counts opts \<rho> C)"

definition opts_ok :: "pass_opts \<Rightarrow> bool" where
  "opts_ok opts \<longleftrightarrow> \<not> flipped opts \<and> 1 \<le> bits opts (IntegerTy 1) \<and> (\<forall>c. isKnownNonZero opts (Const c) \<longrightarrow> nz c)"

definition quiet :: "func \<Rightarrow> nat \<Rightarrow> nat \<Rightarrow> nat \<Rightarrow> bool" where
  "quiet f b i j \<longleftrightarrow> (\<forall>m. i \<le> m \<and> m < j \<longrightarrow> \<not> isBBBarrier f (blocks f b ! m))"

text \<open>
  A placed request: its instruction is in a well-formed block and is not a PHI, and a shadow computed
  in that block at or after it is computed before control can leave.
\<close>

definition placed :: "func \<Rightarrow> ShadowAndInsertPoint \<Rightarrow> bool" where
  "placed f C \<longleftrightarrow> (let b = parent f (OrigIns C) in
     wf_block f b \<and> OrigIns C \<in> set (blocks f b) \<and> \<not> isPHI (body f (OrigIns C)) \<and>
     (case shadow_inst (ShadowV C) of None \<Rightarrow> True | Some s \<Rightarrow>
        parent f s = b \<and> \<not> comesBefore f s (OrigIns C) \<longrightarrow>
          s \<in> set (blocks f b) \<and> \<not> isTerminator (body f s) \<and> quiet f b (pos f (OrigIns C)) (Suc (pos f s))))"

definition typed :: "pass_opts \<Rightarrow> nat \<Rightarrow> (nat \<Rightarrow> sval) \<Rightarrow> ty \<times> expr \<Rightarrow> bool" where
  "typed opts k \<rho> S \<longleftrightarrow> has_ty k (ev \<rho> (snd S)) (fst S) \<and> fst (convertShadowToScalar False (fst S) (snd S)) \<le> bits opts (fst S)"

abbreviation shadow_of :: "ShadowAndInsertPoint \<Rightarrow> ty \<times> expr" where
  "shadow_of C \<equiv> (ShadowTyV C, ShadowV C)"

section \<open>Checks of one instruction\<close>

lemma nz_i1 [simp]: "nz (i1 b) \<longleftrightarrow> b"
  by (simp add: i1_def)

lemma has_ty_i1 [simp]: "has_ty k (i1 b) (IntegerTy (Suc 0))"
  by (simp add: i1_def)

lemma ev_Or_i1: "ev \<rho> a = i1 x \<Longrightarrow> ev \<rho> b = i1 y \<Longrightarrow> ev \<rho> (Or a b) = i1 (x \<or> y)"
  by (simp add: i1_def)

lemma or_bools_ok:
  assumes "typed opts k \<rho> a" and "typed opts k \<rho> b" and "opts_ok opts"
  shows "ev \<rho> (snd (or_bools False a b)) = i1 (nz (ev \<rho> (snd a)) \<or> nz (ev \<rho> (snd b)))"
    and "typed opts k \<rho> (or_bools False a b)"
proof -
  show *: "ev \<rho> (snd (or_bools False a b)) = i1 (nz (ev \<rho> (snd a)) \<or> nz (ev \<rho> (snd b)))"
    unfolding or_bools_def snd_conv
    by (intro ev_Or_i1 convertToBool_ok [where k = k]) (use assms(1,2) in \<open>simp_all add: typed_def\<close>)
  have "fst (or_bools False a b) = IntegerTy 1" by (simp add: or_bools_def)
  with * show "typed opts k \<rho> (or_bools False a b)" using assms(3) by (simp add: typed_def opts_ok_def)
qed

lemma constant_zero: "is_constant e \<Longrightarrow> isZeroValue e \<longleftrightarrow> \<not> nz (ev \<rho> e)"
  by (cases e) auto

lemma known_nonzero: "opts_ok opts \<Longrightarrow> is_constant e \<Longrightarrow> isKnownNonZero opts e \<Longrightarrow> nz (ev \<rho> e)"
  by (cases e) (auto simp: opts_ok_def)

lemma instruction_checks_ok:
  assumes "opts_ok opts" and "list_all (\<lambda>C. typed opts k \<rho> (shadow_of C)) Cs"
    and "case Acc of None \<Rightarrow> True | Some S \<Rightarrow> typed opts k \<rho> S" and "instruction_checks opts Cs Acc = (n, Acc')"
  shows "(case Acc' of None \<Rightarrow> True | Some S \<Rightarrow> typed opts k \<rho> S) \<and>
    ((0 < n \<or> (\<exists>S. Acc' = Some S \<and> nz (ev \<rho> (snd S)))) \<longleftrightarrow>
     ((\<exists>S. Acc = Some S \<and> nz (ev \<rho> (snd S))) \<or> (\<exists>C \<in> set Cs. counts opts \<rho> C)))"
  using assms(2-)
proof (induction Cs arbitrary: Acc n Acc')
  case (Cons C Cs)
  let ?S = "shadow_of C" and ?c = "is_constant (ShadowV C)"
  have fl: "flipped opts = False" using assms(1) by (simp add: opts_ok_def)
  note r = Cons.prems(3)
  consider (skip) "?c" "\<not> ClCheckConstantShadow opts \<or> isZeroValue (ShadowV C)"
    | (warn) "?c" "ClCheckConstantShadow opts" "\<not> isZeroValue (ShadowV C)" "isKnownNonZero opts (ShadowV C)"
    | (acc) "?c \<longrightarrow> ClCheckConstantShadow opts \<and> \<not> isZeroValue (ShadowV C)" "\<not> (?c \<and> isKnownNonZero opts (ShadowV C))"
    by blast
  then show ?case
  proof cases
    case skip
    then have "\<not> counts opts \<rho> C" using constant_zero [of "ShadowV C" \<rho>] by (auto simp: counts_def)
    then show ?thesis using Cons.IH [OF _ Cons.prems(2)] Cons.prems(1) r skip by simp
  next
    case warn
    then have cC: "counts opts \<rho> C" using known_nonzero [OF assms(1)] by (simp add: counts_def)
    show ?thesis
    proof (cases "Recover opts")
      case True
      obtain m A where m: "instruction_checks opts Cs Acc = (m, A)" by fastforce
      then have "n = Suc m" "Acc' = A" using r warn True by (auto simp: Let_def)
      then show ?thesis using Cons.IH [OF _ Cons.prems(2) m] Cons.prems(1) cC by simp
    next
      case False
      then have "n = 1" "Acc' = None" using r warn by (auto simp: Let_def)
      then show ?thesis using cC by simp
    qed
  next
    case acc
    let ?A = "case Acc of None \<Rightarrow> ?S | Some A \<Rightarrow> or_bools (flipped opts) A ?S"
    have t: "typed opts k \<rho> ?S" using Cons.prems(1) by simp
    have "counts opts \<rho> C \<longleftrightarrow> nz (ev \<rho> (ShadowV C))" using acc(1) by (auto simp: counts_def)
    moreover have "typed opts k \<rho> ?A" "nz (ev \<rho> (snd ?A)) \<longleftrightarrow> (\<exists>S. Acc = Some S \<and> nz (ev \<rho> (snd S))) \<or> nz (ev \<rho> (ShadowV C))"
      using t Cons.prems(2) or_bools_ok [OF _ t assms(1)] by (cases Acc; simp add: fl)+
    moreover have "instruction_checks opts Cs (Some ?A) = (n, Acc')" using r acc by (auto simp: Let_def)
    ultimately show ?thesis using Cons.IH [of "Some ?A" n Acc'] Cons.prems(1) by auto
  qed
qed auto

lemma one_check_reports:
  assumes "\<not> flip E" and "opts_ok opts" and "typed opts k \<rho> S" and "one_check opts ip S count = (c, count')"
  shows "\<exists>x. c = [(ip, x)] \<and> (fires E \<rho> x \<longleftrightarrow> nz (ev \<rho> (snd S)))"
proof -
  have fl: "flipped opts = False" using assms(2) by (simp add: opts_ok_def)
  have "fires E \<rho> (fst (materializeOneCheck (ClInstrumentationWithCallThreshold opts) (bits opts) False count (fst S) (snd S)))
      \<longleftrightarrow> nz (ev \<rho> (snd S))"
    using assms(3) by (intro one_check_ok [where k = k, OF assms(1)]) (auto simp: typed_def)
  then show ?thesis using assms(4) by (auto simp: one_check_def fl Let_def split: prod.splits)
qed

lemma instruction_checks_reports:
  assumes "\<not> flip E" and "opts_ok opts" and "list_all (\<lambda>C. typed opts k \<rho> (shadow_of C)) Cs"
    and m: "materializeInstructionChecks opts f Cs count = (c, count')"
  shows "reports E f b stop \<rho> c \<longleftrightarrow> reached f b stop (checkInsertPoint f Cs) \<and> (\<exists>C \<in> set Cs. counts opts \<rho> C)"
proof -
  obtain n A where n: "instruction_checks opts Cs None = (n, A)" by fastforce
  note ok = instruction_checks_ok [OF assms(2,3) _ n, simplified]
  show ?thesis
  proof (cases A)
    case None
    then have "c = replicate n (checkInsertPoint f Cs, WarnAlways)" using m n by (simp add: materializeInstructionChecks_def)
    then show ?thesis using ok None by (auto simp: reports_def)
  next
    case (Some S)
    obtain d e where d: "one_check opts (checkInsertPoint f Cs) S count = (d, e)" by fastforce
    have c: "c = replicate n (checkInsertPoint f Cs, WarnAlways) @ d"
      using m n d Some by (simp add: materializeInstructionChecks_def)
    obtain x where "d = [(checkInsertPoint f Cs, x)]" "fires E \<rho> x \<longleftrightarrow> nz (ev \<rho> (snd S))"
      using one_check_reports [OF assms(1,2) _ d, where k = k and \<rho> = \<rho>] ok Some by auto
    then show ?thesis using ok Some c by (cases S) (auto simp: reports_def)
  qed
qed


section \<open>Placement\<close>

text \<open>\<open>follows f b p q\<close>: in block \<open>b\<close>, whenever \<open>p\<close> is reached so is the later \<open>q\<close>.\<close>

definition follows :: "func \<Rightarrow> nat \<Rightarrow> nat \<Rightarrow> nat \<Rightarrow> bool" where
  "follows f b p q \<longleftrightarrow> p \<in> set (blocks f b) \<and> q \<in> set (blocks f b) \<and> pos f p \<le> pos f q \<and> quiet f b (pos f p) (pos f q)"

lemma follows_refl: "p \<in> set (blocks f b) \<Longrightarrow> follows f b p p"
  unfolding follows_def quiet_def by auto

lemma reached_follows:
  assumes "wf_block f b" and "stop_ok f b stop" and "follows f b p q"
  shows "reached f b stop q \<longleftrightarrow> reached f b stop p"
proof (cases stop)
  case (Some s)
  then have s: "s \<in> set (blocks f b)" "isBBBarrier f s" using assms(2) by (simp_all add: stop_ok_def)
  have "pos f p \<le> pos f s \<Longrightarrow> pos f q \<le> pos f s"
    using assms(3) s nth_pos [OF assms(1) s(1)] unfolding follows_def quiet_def by (metis linorder_not_le)
  then show ?thesis using assms(3) Some by (auto simp: reached_def follows_def)
qed (use assms(3) in \<open>simp add: reached_def follows_def\<close>)

lemma insertPointAfter_next:
  assumes wf: "wf_block f b" and i: "i \<in> set (blocks f b)" "\<not> isPHI (body f i)" "\<not> isTerminator (body f i)"
  shows "Suc (pos f i) < length (blocks f b)" and "insertPointAfter f i = Some (blocks f b ! Suc (pos f i))"
proof -
  have "i \<noteq> last (blocks f b)" using wf i unfolding wf_block_def list_all_iff by blast
  then show l: "Suc (pos f i) < length (blocks f b)" using last_pos [OF wf i(1)] pos_less [OF wf i(1)] by linarith
  have "\<not> isPHI (body f (blocks f b ! Suc (pos f i))) \<and> \<not> isEHPad (body f (blocks f b ! Suc (pos f i)))"
    using wf_after_nonPHI [OF wf i(1,2) _ l] by simp
  moreover have "nodes_after f i = blocks f b ! Suc (pos f i) # drop (Suc (Suc (pos f i))) (blocks f b)"
    using l wf_block_parent [OF wf i(1)] by (simp add: nodes_after_def Cons_nth_drop_Suc)
  ultimately show "insertPointAfter f i = Some (blocks f b ! Suc (pos f i))"
    using i(2) by (simp add: insertPointAfter_def first_of_def)
qed

lemma last_shadow_from:
  "fold (last_shadow f OI) Cs L = Some l \<Longrightarrow>
   L = Some l \<or> (\<exists>C \<in> set Cs. shadow_inst (ShadowV C) = Some l \<and> parent f l = parent f OI \<and> \<not> comesBefore f l OI)"
proof (induction Cs arbitrary: L)
  case (Cons C Cs)
  then have "last_shadow f OI C L = Some l \<or>
      (\<exists>C \<in> set Cs. shadow_inst (ShadowV C) = Some l \<and> parent f l = parent f OI \<and> \<not> comesBefore f l OI)" by simp
  then show ?case
    by (auto simp: last_shadow_def split: option.splits if_splits)
qed simp

lemma placedD:
  assumes "placed f C"
  shows "wf_block f (parent f (OrigIns C))" and "OrigIns C \<in> set (blocks f (parent f (OrigIns C)))"
    and "\<not> isPHI (body f (OrigIns C))"
    and "shadow_inst (ShadowV C) = Some s \<Longrightarrow> parent f s = parent f (OrigIns C) \<Longrightarrow> \<not> comesBefore f s (OrigIns C) \<Longrightarrow>
      s \<in> set (blocks f (parent f (OrigIns C))) \<and> \<not> isTerminator (body f s) \<and>
      quiet f (parent f (OrigIns C)) (pos f (OrigIns C)) (Suc (pos f s))"
  using assms by (simp_all add: placed_def Let_def)

lemma checkInsertPoint_follows:
  assumes "Cs \<noteq> []" and O: "list_all (\<lambda>C. OrigIns C = OI) Cs" and p: "list_all (placed f) Cs"
  shows "follows f (parent f OI) OI (checkInsertPoint f Cs)"
proof -
  have hd: "OrigIns (hd Cs) = OI" "placed f (hd Cs)" using assms by (cases Cs; simp)+
  note h = placedD(1-3) [OF hd(2), unfolded hd(1)]
  show ?thesis
  proof (cases "fold (last_shadow f OI) Cs None")
    case None
    then show ?thesis using hd h follows_refl by (simp add: checkInsertPoint_def)
  next
    case (Some l)
    from last_shadow_from [OF this] obtain C where
      C: "C \<in> set Cs" "shadow_inst (ShadowV C) = Some l" "parent f l = parent f OI" "\<not> comesBefore f l OI" by auto
    have "OrigIns C = OI" "placed f C" using O p C(1) by (auto simp: list_all_iff)
    with placedD(4) [of f C, OF _ C(2)] C(3,4) have
      l: "l \<in> set (blocks f (parent f OI))" "\<not> isTerminator (body f l)" "quiet f (parent f OI) (pos f OI) (Suc (pos f l))"
      by simp_all
    have ge: "pos f OI \<le> pos f l" using C(4) by (simp add: comesBefore_def)
    have "\<not> isPHI (body f l)"
    proof (cases "pos f OI = pos f l")
      case True
      then have "l = OI" using nth_pos [OF h(1,2)] nth_pos [OF h(1) l(1)] by metis
      then show ?thesis using h(3) by simp
    next
      case False
      then show ?thesis using wf_after_nonPHI [OF h, of "pos f l"] pos_less [OF h(1) l(1)] nth_pos [OF h(1) l(1)] ge by simp
    qed
    note ip = insertPointAfter_next [OF h(1) l(1) this l(2)]
    have "checkInsertPoint f Cs = blocks f (parent f OI) ! Suc (pos f l)" using hd Some ip(2) by (simp add: checkInsertPoint_def)
    then show ?thesis using h(2) l(3) ip(1) ge pos_nth [OF h(1) ip(1)] by (simp add: follows_def)
  qed
qed

lemma takeWhile_last: "distinct xs \<Longrightarrow> xs \<noteq> [] \<Longrightarrow> takeWhile (\<lambda>i. i \<noteq> last xs) xs = butlast xs"
  by (induction xs) (auto dest: last_in_set)

lemma anchorFor_follows:
  assumes wf: "wf_block f b" and OI: "OI \<in> set (blocks f b)" and a: "anchorFor f OI = Some A"
  shows "follows f b OI A"
proof -
  let ?B = "blocks f b" and ?k = "Suc (pos f OI)"
  have par: "parent f OI = b" by (rule wf_block_parent [OF wf OI])
  have tm: "isTerminator (body f OI) \<longleftrightarrow> OI = last ?B" using wf OI unfolding wf_block_def list_all_iff by blast
  have tw: "takeWhile (\<lambda>i. i \<noteq> last ?B) (nodes_after f OI) = butlast (drop ?k ?B)"
  proof (cases "?k < length ?B")
    case True
    then have "last (drop ?k ?B) = last ?B" "drop ?k ?B \<noteq> []" by simp_all
    then show ?thesis using wf takeWhile_last [of "drop ?k ?B"] by (simp add: nodes_after_def par wf_block_def)
  qed (simp add: nodes_after_def par)
  have eq: "anchorFor f OI = (if isBBBarrier f OI \<and> OI \<noteq> last ?B then Some OI
      else case find (isBBBarrier f) (butlast (drop ?k ?B)) of Some i \<Rightarrow> Some i
        | None \<Rightarrow> if isUnsplittableTerminator (body f (last ?B)) then None else Some (last ?B))"
    unfolding anchorFor_def Let_def getTerminator_def par tm tw ..
  consider (bar) "A = OI"
    | (mid) "OI \<noteq> last ?B" "\<not> isBBBarrier f OI" "find (isBBBarrier f) (butlast (drop ?k ?B)) = Some A"
    | (eob) "OI \<noteq> last ?B" "\<not> isBBBarrier f OI" "find (isBBBarrier f) (butlast (drop ?k ?B)) = None" "A = last ?B"
  proof (cases "OI = last ?B")
    case True
    then have "drop ?k ?B = []" using pos_last [OF wf] wf_block_ne [OF wf] by simp
    then have "A = OI" using a True unfolding eq by (simp split: if_splits)
    then show ?thesis by (rule bar)
  next
    case False
    show ?thesis
    proof (cases "isBBBarrier f OI")
      case True
      then have "A = OI" using a False unfolding eq by simp
      then show ?thesis by (rule bar)
    next
      case nb: False
      show ?thesis
      proof (cases "find (isBBBarrier f) (butlast (drop ?k ?B))")
        case None
        then have "A = last ?B" using a nb unfolding eq by (simp split: if_splits)
        then show ?thesis by (rule eob [OF False nb None])
      next
        case (Some i)
        then have "i = A" using a nb unfolding eq by simp
        then show ?thesis using mid [OF False nb] Some by simp
      qed
    qed
  qed
  then show ?thesis
  proof cases
    case mid
    then obtain j where j: "j < length (butlast (drop ?k ?B))" "isBBBarrier f A" "A = butlast (drop ?k ?B) ! j"
      "\<And>i. i < j \<Longrightarrow> \<not> isBBBarrier f (butlast (drop ?k ?B) ! i)"
      by (auto simp: find_Some_iff)
    have n: "butlast (drop ?k ?B) ! i = ?B ! (?k + i)" "?k + i < length ?B" if "i \<le> j" for i
      using that j(1) by (simp_all add: nth_butlast)
    have A: "A = ?B ! (?k + j)" "pos f A = ?k + j" using j(3) n [of j] pos_nth [OF wf] by simp_all
    have "\<not> isBBBarrier f (?B ! m)" if "pos f OI \<le> m" "m < ?k + j" for m
    proof (cases "m = pos f OI")
      case True
      then show ?thesis using mid(2) nth_pos [OF wf OI] by simp
    next
      case False
      then have "m = ?k + (m - ?k)" "m - ?k < j" using that by simp_all
      then show ?thesis using j(4) n(1) by (metis less_imp_le)
    qed
    then show ?thesis using A n(2) [of j] OI by (simp add: follows_def quiet_def)
  next
    case eob
    have k: "?k < length ?B" using eob(1) last_pos [OF wf OI] pos_less [OF wf OI] by linarith
    have "\<not> isBBBarrier f (?B ! m)" if "pos f OI \<le> m" "m < length ?B - 1" for m
    proof (cases "m = pos f OI")
      case True
      then show ?thesis using eob(2) nth_pos [OF wf OI] by simp
    next
      case False
      then have m: "m = ?k + (m - ?k)" "m - ?k < length (butlast (drop ?k ?B))" using that k by simp_all
      then have "?B ! m = butlast (drop ?k ?B) ! (m - ?k)" using k by (simp add: nth_butlast)
      then show ?thesis using m(2) eob(3) nth_mem unfolding find_None_iff by metis
    qed
    then show ?thesis using eob(4) OI pos_last [OF wf] k wf_block_ne [OF wf] by (simp add: follows_def quiet_def)
  qed (use OI follows_refl in auto)
qed


section \<open>Both ways of placing the checks\<close>

lemma reports_append: "reports E f b stop \<rho> (a @ c) \<longleftrightarrow> reports E f b stop \<rho> a \<or> reports E f b stop \<rho> c"
  by (auto simp: reports_def)

definition run_ok :: "env \<Rightarrow> pass_opts \<Rightarrow> func \<Rightarrow> nat \<Rightarrow> nat option \<Rightarrow> bool" where
  "run_ok E opts f b stop \<longleftrightarrow> \<not> flip E \<and> opts_ok opts \<and> wf_block f b \<and> stop_ok f b stop"

definition request_ok :: "pass_opts \<Rightarrow> func \<Rightarrow> nat \<Rightarrow> (nat \<Rightarrow> sval) \<Rightarrow> ShadowAndInsertPoint \<Rightarrow> bool" where
  "request_ok opts f k \<rho> C \<longleftrightarrow> placed f C \<and> typed opts k \<rho> (shadow_of C) \<and> (deferrable f C \<longrightarrow> \<not> is_constant (ShadowV C))"

lemma in_block:
  assumes "wf_block f b" and "placed f C"
  shows "OrigIns C \<in> set (blocks f b) \<longleftrightarrow> parent f (OrigIns C) = b"
  using placedD(2) [OF assms(2)] wf_block_parent [OF assms(1)] by blast

lemma reached_point:
  assumes run: "run_ok E opts f b stop" and fo: "follows f (parent f p) p q" "wf_block f (parent f p)"
  shows "reached f b stop q \<longleftrightarrow> reached f b stop p"
proof (cases "parent f p = b")
  case True
  then show ?thesis using reached_follows [of f b stop p q] run fo by (simp add: run_ok_def)
next
  case False
  have "q \<in> set (blocks f (parent f p))" using fo(1) by (simp add: follows_def)
  then have "parent f q = parent f p" by (rule wf_block_parent [OF fo(2)])
  have wf: "wf_block f b" using run by (simp add: run_ok_def)
  have "p \<notin> set (blocks f b)" using False wf_block_parent [OF wf, of p] by blast
  moreover have "q \<notin> set (blocks f b)" using False wf_block_parent [OF wf, of q] \<open>parent f q = parent f p\<close> by auto
  ultimately show ?thesis by (simp add: reached_def)
qed

lemma group_reports:
  assumes run: "run_ok E opts f b stop" and ok: "list_all (request_ok opts f k \<rho>) Cs"
    and ne: "Cs \<noteq> []" and same: "list_all (\<lambda>C. OrigIns C = OI) Cs"
  shows "reports E f b stop \<rho> (fst (materializeInstructionChecks opts f Cs count)) \<longleftrightarrow> wanted opts f b stop \<rho> Cs"
proof -
  obtain c n where c: "materializeInstructionChecks opts f Cs count = (c, n)" by fastforce
  have p: "list_all (placed f) Cs" and t: "list_all (\<lambda>C. typed opts k \<rho> (shadow_of C)) Cs"
    using ok by (simp_all add: list_all_iff request_ok_def)
  have "wf_block f (parent f OI)" using placedD(1) [of f "hd Cs"] ne p same by (cases Cs) auto
  then have r: "reached f b stop (checkInsertPoint f Cs) \<longleftrightarrow> reached f b stop OI"
    by (rule reached_point [OF run checkInsertPoint_follows [OF ne same p]])
  have "reports E f b stop \<rho> c \<longleftrightarrow> reached f b stop OI \<and> (\<exists>C \<in> set Cs. counts opts \<rho> C)"
    using instruction_checks_reports [OF _ _ t c, of E b stop] run r by (simp add: run_ok_def)
  then show ?thesis using same c by (auto simp: wanted_def list_all_iff)
qed

lemma wanted_append: "wanted opts f b stop \<rho> (xs @ ys) \<longleftrightarrow> wanted opts f b stop \<rho> xs \<or> wanted opts f b stop \<rho> ys"
  by (auto simp: wanted_def)

lemma legacy_reports:
  assumes run: "run_ok E opts f b stop" and "list_all (request_ok opts f k \<rho>) Cs"
  shows "reports E f b stop \<rho> (fst (materializeChecksLegacy opts f Cs count)) \<longleftrightarrow> wanted opts f b stop \<rho> Cs"
  using assms(2)
proof (induction "length Cs" arbitrary: Cs count rule: less_induct)
  case less
  show ?case
  proof (cases Cs)
    case (Cons C Ds)
    let ?same = "\<lambda>R. OrigIns R = OrigIns C"
    let ?G = "C # takeWhile ?same Ds" and ?R = "dropWhile ?same Ds"
    obtain c n where c: "materializeInstructionChecks opts f ?G count = (c, n)" by fastforce
    obtain d m where d: "materializeChecksLegacy opts f ?R n = (d, m)" by fastforce
    have e: "fst (materializeChecksLegacy opts f Cs count) = c @ d" using c d Cons by simp
    have split: "Cs = ?G @ ?R" using Cons by simp
    have okG: "list_all (request_ok opts f k \<rho>) ?G" and okR: "list_all (request_ok opts f k \<rho>) ?R"
      using less.prems split by (metis list_all_append)+
    have "list_all ?same ?G" by (auto simp: list_all_iff dest: set_takeWhileD)
    from group_reports [OF run okG _ this, of count] c have "reports E f b stop \<rho> c \<longleftrightarrow> wanted opts f b stop \<rho> ?G" by simp
    moreover have "length ?R < length Cs" using Cons by (simp add: less_Suc_eq_le length_dropWhile_le)
    then have "reports E f b stop \<rho> d \<longleftrightarrow> wanted opts f b stop \<rho> ?R" using less.hyps [OF _ okR, of n] d by simp
    ultimately show ?thesis unfolding e reports_append by (subst split) (simp only: wanted_append)
  qed (simp add: reports_def wanted_def)
qed


lemma wanted_set: "set xs = set ys \<Longrightarrow> wanted opts f b stop \<rho> xs \<longleftrightarrow> wanted opts f b stop \<rho> ys"
  by (simp add: wanted_def)

lemma mv_push_mem:
  "(\<exists>vs. (k', vs) \<in> set (mv_push k v m) \<and> x \<in> set vs) \<longleftrightarrow> (\<exists>vs. (k', vs) \<in> set m \<and> x \<in> set vs) \<or> k' = k \<and> x = v"
  by (induction k v m rule: mv_push.induct) auto

lemma mv_push_set: "set (concat (map snd (mv_push k v m))) = insert v (set (concat (map snd m)))"
  by (induction k v m rule: mv_push.induct) auto

lemma set_groupByOrigIns [simp]: "set (groupByOrigIns V) = set V"
proof -
  have "set (concat (map snd (fold (\<lambda>E m. mv_push (OrigIns E) E m) V m))) = set V \<union> set (concat (map snd m))" for m
    by (induction V arbitrary: m) (simp_all only: fold_simps mv_push_set list.set, auto)
  then show ?thesis by (simp add: groupByOrigIns_def)
qed

lemma anchored_mem:
  assumes "anchored f Ds = (m, ess)"
  shows "(\<exists>Ss. (A, Ss) \<in> set m \<and> S \<in> set Ss) \<longleftrightarrow> (\<exists>D \<in> set Ds. anchorFor f (OrigIns D) = Some A \<and> shadow_of D = S)"
    and "set ess = (\<lambda>D. D\<lparr>Essential := True\<rparr>) ` {D \<in> set Ds. anchorFor f (OrigIns D) = None}"
proof -
  let ?step = "\<lambda>D (m, ess). case anchorFor f (OrigIns D) of
      Some A \<Rightarrow> (mv_push A (shadow_of D) m, ess) | None \<Rightarrow> (m, ess @ [D\<lparr>Essential := True\<rparr>])"
  have "((\<exists>Ss. (A, Ss) \<in> set m' \<and> S \<in> set Ss) \<longleftrightarrow>
      (\<exists>Ss. (A, Ss) \<in> set m0 \<and> S \<in> set Ss) \<or> (\<exists>D \<in> set Ds. anchorFor f (OrigIns D) = Some A \<and> shadow_of D = S)) \<and>
     set ess' = set ess0 \<union> (\<lambda>D. D\<lparr>Essential := True\<rparr>) ` {D \<in> set Ds. anchorFor f (OrigIns D) = None}"
    if "fold ?step Ds (m0, ess0) = (m', ess')" for m0 ess0 m' ess'
    using that
  proof (induction Ds arbitrary: m0 ess0)
    case (Cons D Ds)
    show ?case
    proof (cases "anchorFor f (OrigIns D)")
      case None
      then have "fold ?step Ds (m0, ess0 @ [D\<lparr>Essential := True\<rparr>]) = (m', ess')" using Cons.prems by simp
      from Cons.IH [OF this] None show ?thesis by auto
    next
      case (Some A')
      then have "fold ?step Ds (mv_push A' (shadow_of D) m0, ess0) = (m', ess')" using Cons.prems by simp
      from Cons.IH [OF this] Some show ?thesis by (auto simp: mv_push_mem)
    qed
  qed simp
  from this [of "[]" "[]" m ess] assms show
    "(\<exists>Ss. (A, Ss) \<in> set m \<and> S \<in> set Ss) \<longleftrightarrow> (\<exists>D \<in> set Ds. anchorFor f (OrigIns D) = Some A \<and> shadow_of D = S)"
    "set ess = (\<lambda>D. D\<lparr>Essential := True\<rparr>) ` {D \<in> set Ds. anchorFor f (OrigIns D) = None}"
    by (simp_all add: anchored_def)
qed

lemma or_all_ok:
  assumes "Ss \<noteq> []" and "list_all (typed opts k \<rho>) Ss"
  shows "ev \<rho> (or_all False Ss) = i1 (\<exists>S \<in> set Ss. nz (ev \<rho> (snd S)))"
proof -
  have cb: "ev \<rho> (convertToBool False (fst S) (snd S)) = i1 (nz (ev \<rho> (snd S)))" if "S \<in> set Ss" for S
    using that assms(2) by (intro convertToBool_ok [where k = k]) (auto simp: list_all_iff typed_def)
  have "ev \<rho> (fold (\<lambda>S acc. Or acc (convertToBool False (fst S) (snd S))) Rs e) = i1 (x \<or> (\<exists>S \<in> set Rs. nz (ev \<rho> (snd S))))"
    if "set Rs \<subseteq> set Ss" and "ev \<rho> e = i1 x" for Rs e x
    using that
  proof (induction Rs arbitrary: e x)
    case (Cons R Rs)
    then have "ev \<rho> (Or e (convertToBool False (fst R) (snd R))) = i1 (x \<or> nz (ev \<rho> (snd R)))" by (intro ev_Or_i1 cb) auto
    from Cons.IH [OF _ this] Cons.prems(1) show ?case by (simp add: disj_assoc)
  qed simp
  from this [OF _ cb, of "tl Ss" "hd Ss"] assms(1) show ?thesis by (cases Ss) (auto simp: or_all_def)
qed

lemma keep_first_mem:
  "set (keep_first seen Ss) \<subseteq> set Ss \<and> snd ` set Ss \<subseteq> set seen \<union> snd ` set (keep_first seen Ss)"
  by (induction seen Ss rule: keep_first.induct) auto

lemma one_or_check:
  assumes run: "run_ok E opts f b stop" and e: "ev \<rho> e = i1 z" and c: "one_check opts At (IntegerTy 1, e) count = (c, n)"
  shows "reports E f b stop \<rho> c \<longleftrightarrow> reached f b stop At \<and> z"
proof -
  have "typed opts k \<rho> (IntegerTy 1, e)" for k using e run by (simp add: typed_def run_ok_def opts_ok_def)
  then show ?thesis using one_check_reports [OF _ _ _ c, of E k \<rho>] run e by (auto simp: run_ok_def reports_def)
qed

lemma coalesced_check_reports:
  assumes run: "run_ok E opts f b stop" and ok: "list_all (typed opts k \<rho>) Ss"
  shows "reports E f b stop \<rho> (fst (fst (emitCoalescedCheck opts f Ss At count))) \<longleftrightarrow>
    reached f b stop At \<and> (\<exists>S \<in> set Ss. nz (ev \<rho> (snd S)))"
proof (cases "Ss = []")
  case False
  define L where "L = keep_first [] (filter (is_local f At) Ss)"
  define incr where "incr \<longleftrightarrow> ClCoalescedIncrementalOr opts \<and> length Ss > 1 \<and> length L > 1"
  define Rs where "Rs = (if incr then sort_key (\<lambda>S. index_of (blocks f (parent f At)) (inst_of S)) L @ filter (\<lambda>S. \<not> is_local f At S) Ss else Ss)"
  have sub: "set L \<subseteq> set Ss" and cov: "snd ` set (filter (is_local f At) Ss) \<subseteq> snd ` set L"
    using keep_first_mem [of "[]" "filter (is_local f At) Ss"] by (auto simp: L_def)
  have img: "snd ` set Rs = snd ` set Ss"
  proof (cases incr)
    case True
    then have a: "set Rs = set L \<union> {S \<in> set Ss. \<not> is_local f At S}" by (simp add: Rs_def)
    have e: "set Ss = set (filter (is_local f At) Ss) \<union> {S \<in> set Ss. \<not> is_local f At S}" by auto
    show ?thesis
    proof (rule equalityI)
      show "snd ` set Rs \<subseteq> snd ` set Ss" by (rule image_mono) (use a sub in auto)
      show "snd ` set Ss \<subseteq> snd ` set Rs" by (subst e) (simp only: a image_Un Un_mono cov subset_refl)
    qed
  qed (simp add: Rs_def)
  have "set Rs \<subseteq> set Ss" using sub by (auto simp: Rs_def)
  then have "Rs \<noteq> []" "list_all (typed opts k \<rho>) Rs" using False ok img by (auto simp: list_all_iff)
  then have "ev \<rho> (or_all False Rs) = i1 (\<exists>S \<in> set Rs. nz (ev \<rho> (snd S)))" by (rule or_all_ok)
  also have "(\<exists>S \<in> set Rs. nz (ev \<rho> (snd S))) \<longleftrightarrow> (\<exists>e \<in> snd ` set Rs. nz (ev \<rho> e))" by blast
  finally have e: "ev \<rho> (or_all False Rs) = i1 (\<exists>e \<in> snd ` set Ss. nz (ev \<rho> e))" unfolding img .
  obtain c n where c: "one_check opts At (IntegerTy 1, or_all False Rs) count = (c, n)" by fastforce
  have "flipped opts = False" using run by (simp add: run_ok_def opts_ok_def)
  then have "fst (fst (emitCoalescedCheck opts f Ss At count)) = c"
    unfolding emitCoalescedCheck_def Let_def L_def [symmetric] incr_def [symmetric] Rs_def [symmetric]
    using False c by simp
  then show ?thesis using one_or_check [OF run e c] by auto
qed (simp add: emitCoalescedCheck_def reports_def)

lemma emit_anchored_reports:
  assumes run: "run_ok E opts f b stop" and "\<forall>(A, Ss) \<in> set m. list_all (typed opts k \<rho>) Ss"
  shows "reports E f b stop \<rho> (fst (emit_anchored opts f m count)) \<longleftrightarrow>
    (\<exists>(A, Ss) \<in> set m. reached f b stop A \<and> (\<exists>S \<in> set Ss. nz (ev \<rho> (snd S))))"
  using assms(2)
proof (induction m arbitrary: count)
  case (Cons p m)
  obtain A Ss where p: "p = (A, Ss)" by fastforce
  obtain c i n where c: "emitCoalescedCheck opts f Ss A count = ((c, i), n)" by (metis prod.collapse)
  obtain cs n' where cs: "emit_anchored opts f m n = (cs, n')" by fastforce
  have "reports E f b stop \<rho> c \<longleftrightarrow> reached f b stop A \<and> (\<exists>S \<in> set Ss. nz (ev \<rho> (snd S)))"
    using coalesced_check_reports [OF run, of k \<rho> Ss A count] Cons.prems p c by simp
  moreover have "reports E f b stop \<rho> cs \<longleftrightarrow> (\<exists>(A, Ss) \<in> set m. reached f b stop A \<and> (\<exists>S \<in> set Ss. nz (ev \<rho> (snd S))))"
    using Cons.IH [of n] Cons.prems cs by simp
  ultimately show ?case using p c cs by (simp add: reports_append)
qed (simp add: reports_def)


lemma request_ok_essential: "request_ok opts f k \<rho> D \<Longrightarrow> request_ok opts f k \<rho> (D\<lparr>Essential := True\<rparr>)"
proof -
  have "placed f (D\<lparr>Essential := True\<rparr>) \<longleftrightarrow> placed f D" by (simp add: placed_def Let_def split: option.split)
  then show "request_ok opts f k \<rho> D \<Longrightarrow> ?thesis" by (simp add: request_ok_def deferrable_def)
qed

lemma anchored_request:
  assumes run: "run_ok E opts f b stop" and D: "placed f D" "\<not> is_constant (ShadowV D)"
  shows "(\<exists>A. anchorFor f (OrigIns D) = Some A \<and> reached f b stop A \<and> nz (ev \<rho> (ShadowV D))) \<longleftrightarrow>
    anchorFor f (OrigIns D) \<noteq> None \<and> reached f b stop (OrigIns D) \<and> counts opts \<rho> D"
proof -
  have "reached f b stop A \<longleftrightarrow> reached f b stop (OrigIns D)" if "anchorFor f (OrigIns D) = Some A" for A
    using reached_point [OF run anchorFor_follows [OF placedD(1,2) [OF D(1)] that] placedD(1) [OF D(1)]] .
  moreover have "counts opts \<rho> D \<longleftrightarrow> nz (ev \<rho> (ShadowV D))" using D(2) by (simp add: counts_def)
  ultimately show ?thesis by (cases "anchorFor f (OrigIns D)") auto
qed

lemma coalesced_reports:
  assumes run: "run_ok E opts f b stop" and ok: "list_all (request_ok opts f k \<rho>) Cs"
  shows "reports E f b stop \<rho> (fst (materializeCoalescedChecks opts f Cs count)) \<longleftrightarrow> wanted opts f b stop \<rho> Cs"
proof -
  let ?D = "filter (deferrable f) Cs" and ?N = "filter (\<lambda>C. \<not> deferrable f C) Cs"
  obtain m ess where m: "anchored f ?D = (m, ess)" by fastforce
  obtain c n where c: "materializeChecksLegacy opts f (groupByOrigIns (?N @ ess)) count = (c, n)" by fastforce
  obtain cs n' where cs: "emit_anchored opts f m n = (cs, n')" by fastforce
  note mem = anchored_mem [OF m]
  have okE: "list_all (request_ok opts f k \<rho>) (groupByOrigIns (?N @ ess))"
    using ok request_ok_essential mem(2) by (auto simp: list_all_iff)
  have we: "wanted opts f b stop \<rho> ess \<longleftrightarrow>
      (\<exists>D \<in> set ?D. anchorFor f (OrigIns D) = None \<and> reached f b stop (OrigIns D) \<and> counts opts \<rho> D)"
    by (auto simp: wanted_def mem(2) counts_def)
  have okA: "\<forall>(A, Ss) \<in> set m. list_all (typed opts k \<rho>) Ss"
  proof (clarify, unfold list_all_iff, rule ballI)
    fix A Ss S assume "(A, Ss) \<in> set m" "S \<in> set Ss"
    then obtain D where "D \<in> set ?D" "shadow_of D = S" using mem(1) [of A S] by blast
    then show "typed opts k \<rho> S" using ok by (auto simp: list_all_iff request_ok_def)
  qed
  have "(\<exists>(A, Ss) \<in> set m. reached f b stop A \<and> (\<exists>S \<in> set Ss. nz (ev \<rho> (snd S)))) \<longleftrightarrow>
      (\<exists>A S. (\<exists>Ss. (A, Ss) \<in> set m \<and> S \<in> set Ss) \<and> reached f b stop A \<and> nz (ev \<rho> (snd S)))" by fast
  also have "\<dots> \<longleftrightarrow> (\<exists>D \<in> set ?D. \<exists>A. anchorFor f (OrigIns D) = Some A \<and> reached f b stop A \<and> nz (ev \<rho> (ShadowV D)))"
    unfolding mem(1) by force
  also have "\<dots> \<longleftrightarrow> (\<exists>D \<in> set ?D. anchorFor f (OrigIns D) \<noteq> None \<and> reached f b stop (OrigIns D) \<and> counts opts \<rho> D)"
    by (rule bex_cong [OF refl]) (rule anchored_request [OF run], use ok in \<open>auto simp: list_all_iff request_ok_def\<close>)
  finally have a: "reports E f b stop \<rho> cs \<longleftrightarrow>
      (\<exists>D \<in> set ?D. anchorFor f (OrigIns D) \<noteq> None \<and> reached f b stop (OrigIns D) \<and> counts opts \<rho> D)"
    using emit_anchored_reports [OF run okA, of n] cs by simp
  have "reports E f b stop \<rho> c \<longleftrightarrow> wanted opts f b stop \<rho> ?N \<or> wanted opts f b stop \<rho> ess"
    using legacy_reports [OF run okE, of count] c wanted_set [OF set_groupByOrigIns, of opts f b stop \<rho> "?N @ ess"]
    by (simp add: wanted_append)
  then have "reports E f b stop \<rho> (c @ cs) \<longleftrightarrow> wanted opts f b stop \<rho> ?N \<or> wanted opts f b stop \<rho> ?D"
    unfolding reports_append a we unfolding wanted_def by blast
  also have "\<dots> \<longleftrightarrow> wanted opts f b stop \<rho> Cs" by (auto simp: wanted_def)
  finally show ?thesis using m c cs by (simp add: materializeCoalescedChecks_def)
qed

text \<open>Each early OR comes after the shadow it reads and no later than the check.\<close>

lemma or_points_ok:
  assumes wf: "wf_block f (parent f At)" and At: "At \<in> set (blocks f (parent f At))"
    and plain: "\<And>S n. S \<in> set Ss \<Longrightarrow> snd S = Val n \<Longrightarrow> \<not> isPHI (body f n) \<and> \<not> isTerminator (body f n)"
    and ip: "ip \<in> set (snd (fst (emitCoalescedCheck opts f Ss At count)))"
  shows "\<exists>S \<in> set Ss. \<exists>n q. snd S = Val n \<and> ip = Some q \<and> pos f n < pos f q \<and> pos f q \<le> pos f At"
proof -
  obtain S where S: "S \<in> set (keep_first [] (filter (is_local f At) Ss))" "ip = insertPointAfter f (inst_of S)"
    using ip by (auto simp: emitCoalescedCheck_def Let_def split: if_splits prod.splits)
  then have loc: "S \<in> set Ss" "is_local f At S" using keep_first_mem by fastforce+
  then obtain n where n: "snd S = Val n" by (cases "snd S") (auto simp: is_local_def)
  have b: "n \<in> set (blocks f (parent f At))" "index_of (blocks f (parent f At)) n < pos f At" using loc(2) n by (auto simp: is_local_def)
  have "pos f n < pos f At" using b wf_block_parent [OF wf b(1)] by (simp add: pos_def)
  moreover have "inst_of S = n" using n by (cases S) auto
  moreover note insertPointAfter_next [OF wf b(1)] plain [OF loc(1) n]
  ultimately show ?thesis using loc(1) n S(2) pos_nth [OF wf, of "Suc (pos f n)"] by (intro bexI [of _ S]) auto
qed

section \<open>Properties\<close>

text \<open>
  C33: merging the checks of a straight-line segment changes nothing that can be observed: in
  every visit of every block, wherever the visit ends, the merged checks report exactly when some
  requested check that the visit reaches has a set bit in its shadow, which is also when the
  separate checks report; and the OR operations that are placed early come after the shadow they
  read and no later than the check.
\<close>

theorem coalescing_exact:
  assumes "run_ok E opts f b stop" and "list_all (request_ok opts f k \<rho>) Cs"
  shows "(reports E f b stop \<rho> (fst (materializeCoalescedChecks opts f Cs count)) \<longleftrightarrow>
      (\<exists>C \<in> set Cs. reached f b stop (OrigIns C) \<and> counts opts \<rho> C)) \<and>
    (reports E f b stop \<rho> (fst (materializeChecksLegacy opts f Cs count)) \<longleftrightarrow>
      reports E f b stop \<rho> (fst (materializeCoalescedChecks opts f Cs count))) \<and>
    (\<forall>At Ss n ip. wf_block f (parent f At) \<and> At \<in> set (blocks f (parent f At)) \<and>
      (\<forall>S \<in> set Ss. \<forall>i. snd S = Val i \<longrightarrow> \<not> isPHI (body f i) \<and> \<not> isTerminator (body f i)) \<and>
      ip \<in> set (snd (fst (emitCoalescedCheck opts f Ss At n))) \<longrightarrow>
      (\<exists>S \<in> set Ss. \<exists>i q. snd S = Val i \<and> ip = Some q \<and> pos f i < pos f q \<and> pos f q \<le> pos f At))"
proof (intro conjI allI impI)
  show "reports E f b stop \<rho> (fst (materializeCoalescedChecks opts f Cs count)) \<longleftrightarrow>
      (\<exists>C \<in> set Cs. reached f b stop (OrigIns C) \<and> counts opts \<rho> C)"
    unfolding coalesced_reports [OF assms] wanted_def ..
  show "reports E f b stop \<rho> (fst (materializeChecksLegacy opts f Cs count)) \<longleftrightarrow>
      reports E f b stop \<rho> (fst (materializeCoalescedChecks opts f Cs count))"
    unfolding coalesced_reports [OF assms] legacy_reports [OF assms] ..
next
  fix At Ss n ip
  assume a: "wf_block f (parent f At) \<and> At \<in> set (blocks f (parent f At)) \<and>
      (\<forall>S \<in> set Ss. \<forall>i. snd S = Val i \<longrightarrow> \<not> isPHI (body f i) \<and> \<not> isTerminator (body f i)) \<and>
      ip \<in> set (snd (fst (emitCoalescedCheck opts f Ss At n)))"
  show "\<exists>S \<in> set Ss. \<exists>i q. snd S = Val i \<and> ip = Some q \<and> pos f i < pos f q \<and> pos f q \<le> pos f At"
    by (rule or_points_ok [where opts = opts and count = n]) (use a in blast)+
qed

text \<open>A block: two loads with their shadow loads, a call that may not return, and a return.\<close>

definition example_func :: func where
  "example_func = \<lparr>body = (\<lambda>i. [LoadI (VArg 0), LoadI (VArg 1), LoadI (VArg 2), LoadI (VArg 3),
       CallI PlainCall NotIntrinsic (VGlobal ''exit'') [], RetI None] ! i),
     ity = (\<lambda>_. IntegerTy 32), blocks = (\<lambda>b. if b = 0 then [0, 1, 2, 3, 4, 5] else []), parent = (\<lambda>_. 0),
     succs = (\<lambda>_. []), users = (\<lambda>_. []), nosanitize = (\<lambda>_. False), transfers = (\<lambda>i. i < 4)\<rparr>"

definition example_opts :: pass_opts where
  "example_opts = \<lparr>flipped = False, ClCheckConstantShadow = True, Recover = True,
     ClInstrumentationWithCallThreshold = -1, ClCoalescedIncrementalOr = True, ClBBCoalescedChecks = True,
     ClLoopCoalescedChecks = False, ClLoopCoalescedInlineExit = False,
     bits = (\<lambda>t. fst (convertShadowToScalar False t (Val 0))), isKnownNonZero = (\<lambda>_. False)\<rparr>"

definition example_requests :: "ShadowAndInsertPoint list" where
  "example_requests = [\<lparr>ShadowTyV = IntegerTy 32, ShadowV = Val 1, OrigIns = 0, Essential = False\<rparr>,
     \<lparr>ShadowTyV = IntegerTy 32, ShadowV = Val 3, OrigIns = 2, Essential = False\<rparr>]"

theorem coalescing_exact_witness:
  "reports example_env example_func 0 (Some 4) (\<lambda>n. IntV 32 (if n = 3 then 255 else 0))
    (fst (materializeCoalescedChecks example_opts example_func example_requests 0)) \<and>
   map fst (fst (materializeCoalescedChecks example_opts example_func example_requests 0)) = [4] \<and>
   map fst (fst (materializeChecksLegacy example_opts example_func example_requests 0)) = [2, 4]"
proof -
  let ?\<rho> = "\<lambda>n :: nat. IntV 32 (if n = 3 then 255 else 0)"
  have run: "run_ok example_env example_opts example_func 0 (Some 4)"
    using example_env_ok(2) by (simp add: run_ok_def opts_ok_def example_opts_def wf_block_def example_func_def stop_ok_def isBBBarrier_def)
  have "quiet example_func 0 i (Suc j)" if "j < 4" for i j
    using that by (auto simp: quiet_def isBBBarrier_def example_func_def less_Suc_eq numeral_eq_Suc nth_Cons')
  then have "list_all (request_ok example_opts example_func 1 ?\<rho>) example_requests"
    by (simp add: request_ok_def placed_def typed_def example_requests_def example_opts_def example_func_def wf_block_def
      comesBefore_def pos_def)
  from coalescing_exact [OF run this, of 0] have
    "reports example_env example_func 0 (Some 4) ?\<rho> (fst (materializeCoalescedChecks example_opts example_func example_requests 0))"
    by (simp add: example_requests_def reached_def example_func_def pos_def counts_def)
  moreover have "map fst (fst (materializeCoalescedChecks example_opts example_func example_requests 0)) = [4]"
    "map fst (fst (materializeChecksLegacy example_opts example_func example_requests 0)) = [2, 4]"
    by code_simp+
  ultimately show ?thesis by blast
qed

end
