(* ===== verification/Pass_Loops.thy ===== *)
theory Pass_Loops
  imports Pass_Checks
begin

text \<open>
  The compiler pass, fifth part: checks of a loop merged into an accumulator that is tested where
  the loop is left (\<^verbatim>\<open>loopFlushIsSound\<close>, \<^verbatim>\<open>materializeCoalescedLoopChecks\<close>), and the dispatch of
  \<^verbatim>\<open>materializeChecks\<close>. LLVM's loop analysis is the record \<open>loop_info\<close>.
\<close>

section \<open>Loops\<close>

record loop_info =
  getLoopFor :: "nat \<Rightarrow> nat option"
  loop_blocks :: "nat \<Rightarrow> nat list"
  getLoopPreheader :: "nat \<Rightarrow> nat option"
  getExitBlocks :: "nat \<Rightarrow> nat list"

definition block_isEHPad :: "func \<Rightarrow> nat \<Rightarrow> bool" where
  "block_isEHPad f b =
    (case dropWhile (\<lambda>i. isPHI (body f i)) (blocks f b) of [] \<Rightarrow> False | i # _ \<Rightarrow> isEHPad (body f i))"

definition flushable :: "func \<Rightarrow> nat \<Rightarrow> bool" where
  "flushable f E \<longleftrightarrow> \<not> block_isEHPad f E \<and> getFirstInsertionPt f E \<noteq> None"

definition loopFlushIsSound :: "func \<Rightarrow> loop_info \<Rightarrow> nat \<Rightarrow> (nat \<rightharpoonup> bool) \<Rightarrow> bool \<times> (nat \<rightharpoonup> bool)" where
  "loopFlushIsSound f LI L Cache =
    (case Cache L of
       Some s \<Rightarrow> (s, Cache)
     | None \<Rightarrow>
         let Sound = getExitBlocks LI L \<noteq> [] \<and> list_all (flushable f) (getExitBlocks LI L) \<and>
                     list_all (\<lambda>B. list_all (\<lambda>i. \<not> isBBBarrier f i) (blocks f B)) (loop_blocks LI L)
         in (Sound, Cache(L \<mapsto> Sound)))"

fun isIntOrIntVectorTy :: "ty \<Rightarrow> bool" where
  "isIntOrIntVectorTy (IntegerTy w) = True"
| "isIntOrIntVectorTy (FixedVectorTy n (IntegerTy w)) = True"
| "isIntOrIntVectorTy (ScalableVectorTy n (IntegerTy w)) = True"
| "isIntOrIntVectorTy _ = False"

section \<open>Accumulators\<close>

type_synonym acc_key = "nat \<times> ty"

text \<open>
  What the first phase leaves: the accumulators in creation order and by loop, the OR operations
  with their insertion points, the checks that go to an anchor, the essential ones, and the cache.
\<close>

record loop_code =
  Acc :: "acc_key list"
  AccsByLoop :: "(nat \<times> acc_key list) list"
  AccOrs :: "(nat option \<times> acc_key \<times> nat) list"
  ByAnchor :: "(nat \<times> (ty \<times> expr) list) list"
  EssentialChecks :: "ShadowAndInsertPoint list"
  LoopSoundCache :: "nat \<rightharpoonup> bool"

definition acc_insert_point :: "func \<Rightarrow> nat \<Rightarrow> nat option" where
  "acc_insert_point f n =
    (if isPHI (body f n) then getFirstInsertionPt f (parent f n) else first_of (nodes_after f n))"

definition to_anchor :: "func \<Rightarrow> ShadowAndInsertPoint \<Rightarrow> loop_code \<Rightarrow> loop_code" where
  "to_anchor f C st =
    (case anchorFor f (OrigIns C) of
       Some A \<Rightarrow> st\<lparr>ByAnchor := mv_push A (shadow_of C) (ByAnchor st)\<rparr>
     | None \<Rightarrow> st\<lparr>EssentialChecks := EssentialChecks st @ [C\<lparr>Essential := True\<rparr>]\<rparr>)"

definition accumulate :: "func \<Rightarrow> acc_key \<Rightarrow> nat \<Rightarrow> loop_code \<Rightarrow> loop_code" where
  "accumulate f Key n st =
    (let st' = (if Key \<in> set (Acc st) then st
                else st\<lparr>Acc := Acc st @ [Key], AccsByLoop := mv_push (fst Key) Key (AccsByLoop st)\<rparr>)
     in st'\<lparr>AccOrs := AccOrs st' @ [(acc_insert_point f n, Key, n)]\<rparr>)"

definition loop_step :: "func \<Rightarrow> loop_info \<Rightarrow> ShadowAndInsertPoint \<Rightarrow> loop_code \<Rightarrow> loop_code" where
  "loop_step f LI C st =
    (if \<not> deferrable f C then st\<lparr>EssentialChecks := EssentialChecks st @ [C]\<rparr>
     else (case (getLoopFor LI (parent f (OrigIns C)), shadow_inst (ShadowV C)) of
             (Some L, Some n) \<Rightarrow>
               if getLoopPreheader LI L = None \<or> parent f n \<notin> set (loop_blocks LI L) \<or> \<not> isIntOrIntVectorTy (ShadowTyV C)
               then to_anchor f C st
               else (let (s, cache) = loopFlushIsSound f LI L (LoopSoundCache st);
                         st' = st\<lparr>LoopSoundCache := cache\<rparr>
                     in if s then accumulate f (L, ShadowTyV C) n st' else to_anchor f C st')
           | _ \<Rightarrow> to_anchor f C st))"

definition loop_phase1 :: "func \<Rightarrow> loop_info \<Rightarrow> ShadowAndInsertPoint list \<Rightarrow> loop_code" where
  "loop_phase1 f LI Cs =
    fold (loop_step f LI) Cs
      \<lparr>Acc = [], AccsByLoop = [], AccOrs = [], ByAnchor = [], EssentialChecks = [], LoopSoundCache = Map.empty\<rparr>"

text \<open>
  The exit checks: for every loop with accumulators and each of its exit blocks once, the loop, the
  block and the accumulators whose tests are OR-ed at the block's first insertion point.
\<close>

fun first_seen :: "nat list \<Rightarrow> nat list \<Rightarrow> nat list" where
  "first_seen seen [] = []"
| "first_seen seen (E # Es) = (if E \<in> set seen then first_seen seen Es else E # first_seen (E # seen) Es)"

definition exit_checks :: "func \<Rightarrow> loop_info \<Rightarrow> (nat \<times> acc_key list) list \<Rightarrow> (nat \<times> nat \<times> acc_key list) list" where
  "exit_checks f LI m =
    concat (map (\<lambda>(L, ks). map (\<lambda>E. (L, E, ks)) (filter (flushable f) (first_seen [] (getExitBlocks LI L)))) m)"

fun emit_plain :: "pass_opts \<Rightarrow> (nat \<times> (ty \<times> expr) list) list \<Rightarrow> int \<Rightarrow> code \<times> int" where
  "emit_plain opts [] count = ([], count)"
| "emit_plain opts ((A, Ss) # m) count =
    (if Ss = [] then emit_plain opts m count
     else (let (c, count') = one_check opts A (IntegerTy 1, or_all (flipped opts) Ss) count;
               (cs, count'') = emit_plain opts m count'
           in (c @ cs, count'')))"

text \<open>
  The generated code: the accumulators (each set to the clean shadow at function entry and at the
  end of its loop's preheader), the OR operations, the exit checks and the ordinary checks.
\<close>

record loop_result =
  res_accs :: "acc_key list"
  res_ors :: "(nat option \<times> acc_key \<times> nat) list"
  res_exits :: "(nat \<times> nat \<times> acc_key list) list"
  res_code :: code

definition materializeCoalescedLoopChecks ::
    "pass_opts \<Rightarrow> func \<Rightarrow> loop_info \<Rightarrow> ShadowAndInsertPoint list \<Rightarrow> int \<Rightarrow> (loop_result \<times> int) outcome" where
  "materializeCoalescedLoopChecks opts f LI InstrumentationList count =
    (let st = loop_phase1 f LI InstrumentationList
     in if ClLoopCoalescedInlineExit opts then Died (Fatal ''inline-exit variant is not present in this tree'')
        else
          let (c, count') = emit_plain opts (ByAnchor st) count;
              (cs, count'') = materializeChecksLegacy opts f (EssentialChecks st) count'
          in Ok (\<lparr>res_accs = Acc st, res_ors = AccOrs st, res_exits = exit_checks f LI (AccsByLoop st),
                  res_code = c @ cs\<rparr>, count''))"

definition materializeChecks ::
    "pass_opts \<Rightarrow> func \<Rightarrow> loop_info \<Rightarrow> ShadowAndInsertPoint list \<Rightarrow> int \<Rightarrow> (loop_result \<times> int) outcome" where
  "materializeChecks opts f LI InstrumentationList count =
    (if ClLoopCoalescedChecks opts then materializeCoalescedLoopChecks opts f LI InstrumentationList count
     else (let (c, count') = (if ClBBCoalescedChecks opts then materializeCoalescedChecks opts f InstrumentationList count
                              else materializeChecksLegacy opts f InstrumentationList count)
           in Ok (\<lparr>res_accs = [], res_ors = [], res_exits = [], res_code = c\<rparr>, count')))"


section \<open>Running a loop\<close>

text \<open>OR of two shadows of one integer or vector type.\<close>

fun sval_or :: "sval \<Rightarrow> sval \<Rightarrow> sval" where
  "sval_or (IntV w a) (IntV w' b) = IntV w (a OR b)"
| "sval_or (VecV w as) (VecV w' bs) = VecV w (map2 (OR) as bs)"
| "sval_or a b = a"

type_synonym accs = "acc_key \<Rightarrow> sval"
type_synonym visits = "(nat \<times> (nat \<Rightarrow> sval)) list"

definition clean_acc :: "bool \<Rightarrow> nat \<Rightarrow> acc_key \<Rightarrow> sval" where
  "clean_acc fl k K = (case getCleanShadow fl k (snd K) of Some c \<Rightarrow> c | None \<Rightarrow> AggV [])"

text \<open>
  The accumulators after a visit of a block: every shadow computed in it is OR-ed into its
  accumulator (the order does not matter), and the end of a preheader resets its loop's accumulators.
\<close>

definition acc_or :: "func \<Rightarrow> nat \<Rightarrow> (nat \<Rightarrow> sval) \<Rightarrow> nat option \<times> acc_key \<times> nat \<Rightarrow> accs \<Rightarrow> accs" where
  "acc_or f b \<rho> x acc =
    (case x of (ip, K, n) \<Rightarrow> if parent f n = b then acc(K := sval_or (acc K) (\<rho> n)) else acc)"

definition block_ors :: "func \<Rightarrow> loop_result \<Rightarrow> nat \<Rightarrow> (nat \<Rightarrow> sval) \<Rightarrow> accs \<Rightarrow> accs" where
  "block_ors f r b \<rho> = fold (acc_or f b \<rho>) (res_ors r)"

definition visit_block :: "bool \<Rightarrow> nat \<Rightarrow> func \<Rightarrow> loop_info \<Rightarrow> loop_result \<Rightarrow> nat \<times> (nat \<Rightarrow> sval) \<Rightarrow> accs \<Rightarrow> accs" where
  "visit_block fl k f LI r v acc =
    (\<lambda>K. if K \<in> set (res_accs r) \<and> getLoopPreheader LI (fst K) = Some (fst v) then clean_acc fl k K
         else block_ors f r (fst v) (snd v) acc K)"

definition exit_test :: "bool \<Rightarrow> accs \<Rightarrow> acc_key list \<Rightarrow> expr" where
  "exit_test fl acc ks =
    fold (\<lambda>K c. Or c (normalizeShadow fl (snd K) (Const (acc K)))) (tl ks)
      (normalizeShadow fl (snd (hd ks)) (Const (acc (hd ks))))"

definition exit_reports :: "bool \<Rightarrow> loop_result \<Rightarrow> accs \<Rightarrow> nat \<Rightarrow> nat \<Rightarrow> bool" where
  "exit_reports fl r acc L E \<longleftrightarrow>
    (\<exists>ks. (L, E, ks) \<in> set (res_exits r) \<and> int_val (ev (\<lambda>_. AggV []) (exit_test fl acc ks)) \<noteq> 0)"

section \<open>Which checks are accumulated\<close>

definition loop_sound :: "func \<Rightarrow> loop_info \<Rightarrow> nat \<Rightarrow> bool" where
  "loop_sound f LI L = fst (loopFlushIsSound f LI L Map.empty)"

text \<open>The loop and the shadow instruction of a check that goes to an accumulator.\<close>

definition loop_of :: "func \<Rightarrow> loop_info \<Rightarrow> ShadowAndInsertPoint \<Rightarrow> (nat \<times> nat) option" where
  "loop_of f LI C =
    (case (getLoopFor LI (parent f (OrigIns C)), shadow_inst (ShadowV C)) of
       (Some L, Some n) \<Rightarrow>
         if deferrable f C \<and> getLoopPreheader LI L \<noteq> None \<and> parent f n \<in> set (loop_blocks LI L) \<and>
            isIntOrIntVectorTy (ShadowTyV C) \<and> loop_sound f LI L then Some (L, n) else None
     | _ \<Rightarrow> None)"

definition cache_sound :: "func \<Rightarrow> loop_info \<Rightarrow> (nat \<rightharpoonup> bool) \<Rightarrow> bool" where
  "cache_sound f LI m \<longleftrightarrow> (\<forall>L s. m L = Some s \<longrightarrow> s = loop_sound f LI L)"

lemma cached_flush:
  assumes "cache_sound f LI m" and "loopFlushIsSound f LI L m = (s, m')"
  shows "s = loop_sound f LI L \<and> cache_sound f LI m'"
proof (cases "m L")
  case None
  then have "loopFlushIsSound f LI L m = (loop_sound f LI L, m(L \<mapsto> loop_sound f LI L))"
    by (simp add: loopFlushIsSound_def loop_sound_def Let_def)
  then have "s = loop_sound f LI L" "m' = m(L \<mapsto> loop_sound f LI L)" using assms(2) by simp_all
  then show ?thesis using assms(1) by (simp add: cache_sound_def)
next
  case (Some x)
  then show ?thesis using assms by (simp add: loopFlushIsSound_def cache_sound_def)
qed

lemma loop_step_cases:
  assumes "cache_sound f LI (LoopSoundCache st)"
  shows "\<exists>m. cache_sound f LI m \<and> loop_step f LI C st =
    (if \<not> deferrable f C then st\<lparr>EssentialChecks := EssentialChecks st @ [C]\<rparr>
     else case loop_of f LI C of
       Some (L, n) \<Rightarrow> accumulate f (L, ShadowTyV C) n (st\<lparr>LoopSoundCache := m\<rparr>)
     | None \<Rightarrow> to_anchor f C (st\<lparr>LoopSoundCache := m\<rparr>))"
proof (cases "\<exists>L n. deferrable f C \<and> getLoopFor LI (parent f (OrigIns C)) = Some L \<and> shadow_inst (ShadowV C) = Some n \<and>
    getLoopPreheader LI L \<noteq> None \<and> parent f n \<in> set (loop_blocks LI L) \<and> isIntOrIntVectorTy (ShadowTyV C)")
  case True
  then obtain L n where L: "deferrable f C" "getLoopFor LI (parent f (OrigIns C)) = Some L" "shadow_inst (ShadowV C) = Some n"
    "getLoopPreheader LI L \<noteq> None" "parent f n \<in> set (loop_blocks LI L)" "isIntOrIntVectorTy (ShadowTyV C)" by blast
  obtain s m where m: "loopFlushIsSound f LI L (LoopSoundCache st) = (s, m)" by fastforce
  from cached_flush [OF assms m] L m show ?thesis by (intro exI [of _ m]) (auto simp: loop_step_def loop_of_def)
next
  case False
  have "st\<lparr>LoopSoundCache := LoopSoundCache st\<rparr> = st" by simp
  then show ?thesis using assms False
    by (intro exI [of _ "LoopSoundCache st"]) (auto simp: loop_step_def loop_of_def split: option.splits)
qed


text \<open>What the first phase has collected from a list of requests.\<close>

definition collected :: "func \<Rightarrow> loop_info \<Rightarrow> ShadowAndInsertPoint set \<Rightarrow> loop_code \<Rightarrow> bool" where
  "collected f LI Cs st \<longleftrightarrow> cache_sound f LI (LoopSoundCache st) \<and>
     set (AccOrs st) = {(acc_insert_point f n, (L, ShadowTyV C), n) | C L n. C \<in> Cs \<and> loop_of f LI C = Some (L, n)} \<and>
     set (Acc st) = {(L, ShadowTyV C) | C L n. C \<in> Cs \<and> loop_of f LI C = Some (L, n)} \<and>
     distinct (map fst (AccsByLoop st)) \<and>
     (\<forall>L ks. (L, ks) \<in> set (AccsByLoop st) \<longrightarrow> ks \<noteq> [] \<and> set ks = {K \<in> set (Acc st). fst K = L}) \<and>
     (\<forall>K \<in> set (Acc st). fst K \<in> fst ` set (AccsByLoop st)) \<and>
     (\<forall>A S. (\<exists>Ss. (A, Ss) \<in> set (ByAnchor st) \<and> S \<in> set Ss) \<longleftrightarrow>
        (\<exists>D \<in> Cs. deferrable f D \<and> loop_of f LI D = None \<and> anchorFor f (OrigIns D) = Some A \<and> shadow_of D = S)) \<and>
     set (EssentialChecks st) = {C \<in> Cs. \<not> deferrable f C} \<union>
       (\<lambda>D. D\<lparr>Essential := True\<rparr>) ` {D \<in> Cs. deferrable f D \<and> loop_of f LI D = None \<and> anchorFor f (OrigIns D) = None}"

lemma collectedD:
  assumes "collected f LI Cs st"
  shows "cache_sound f LI (LoopSoundCache st)"
    and "set (AccOrs st) = {(acc_insert_point f n, (L, ShadowTyV C), n) | C L n. C \<in> Cs \<and> loop_of f LI C = Some (L, n)}"
    and "set (Acc st) = {(L, ShadowTyV C) | C L n. C \<in> Cs \<and> loop_of f LI C = Some (L, n)}"
    and "distinct (map fst (AccsByLoop st))"
    and "\<forall>L ks. (L, ks) \<in> set (AccsByLoop st) \<longrightarrow> ks \<noteq> [] \<and> set ks = {K \<in> set (Acc st). fst K = L}"
    and "\<forall>K \<in> set (Acc st). fst K \<in> fst ` set (AccsByLoop st)"
    and "\<forall>A S. (\<exists>Ss. (A, Ss) \<in> set (ByAnchor st) \<and> S \<in> set Ss) \<longleftrightarrow>
        (\<exists>D \<in> Cs. deferrable f D \<and> loop_of f LI D = None \<and> anchorFor f (OrigIns D) = Some A \<and> shadow_of D = S)"
    and "set (EssentialChecks st) = {C \<in> Cs. \<not> deferrable f C} \<union>
       (\<lambda>D. D\<lparr>Essential := True\<rparr>) ` {D \<in> Cs. deferrable f D \<and> loop_of f LI D = None \<and> anchorFor f (OrigIns D) = None}"
  using assms unfolding collected_def by - (elim conjE, assumption)+

lemma mv_push_keys: "fst ` set (mv_push k v m) = insert k (fst ` set m)"
  by (induction k v m rule: mv_push.induct) auto

lemma mv_push_distinct: "distinct (map fst m) \<Longrightarrow> distinct (map fst (mv_push k v m))"
  by (induction k v m rule: mv_push.induct) (auto simp: mv_push_keys)

lemma mv_push_entry:
  "distinct (map fst m) \<Longrightarrow> (k', vs) \<in> set (mv_push k v m) \<Longrightarrow>
   (k' \<noteq> k \<and> (k', vs) \<in> set m) \<or> k' = k \<and> (k \<notin> fst ` set m \<and> vs = [v] \<or> (\<exists>us. (k, us) \<in> set m \<and> vs = us @ [v]))"
  by (induction k v m rule: mv_push.induct) (auto split: if_splits intro: rev_image_eqI)

lemma loop_of_deferrable: "loop_of f LI C = Some p \<Longrightarrow> deferrable f C"
  by (auto simp: loop_of_def split: option.splits if_splits)

lemma collected_accumulate:
  assumes st: "collected f LI Cs st" and C: "loop_of f LI C = Some (L, n)"
  shows "collected f LI (insert C Cs) (accumulate f (L, ShadowTyV C) n st)"
proof -
  let ?K = "(L, ShadowTyV C)" and ?st = "accumulate f (L, ShadowTyV C) n st"
  have ors: "set (AccOrs ?st) = insert (acc_insert_point f n, ?K, n) (set (AccOrs st))"
    and acc: "set (Acc ?st) = insert ?K (set (Acc st))"
    and rest: "ByAnchor ?st = ByAnchor st" "EssentialChecks ?st = EssentialChecks st" "LoopSoundCache ?st = LoopSoundCache st"
    and byl: "AccsByLoop ?st = (if ?K \<in> set (Acc st) then AccsByLoop st else mv_push L ?K (AccsByLoop st))"
    by (auto simp: accumulate_def Let_def)
  note d = collectedD(4) [OF st]
  have ks: "ks \<noteq> [] \<and> set ks = {K \<in> set (Acc st). fst K = L'}" if "(L', ks) \<in> set (AccsByLoop st)" for L' ks
    using collectedD(5) [OF st] that by blast
  have cov: "fst K \<in> fst ` set (AccsByLoop st)" if "K \<in> set (Acc st)" for K
    using collectedD(6) [OF st] that by blast
  have 1: "distinct (map fst (AccsByLoop ?st))" using d by (simp add: byl mv_push_distinct)
  have 2: "\<forall>K \<in> set (Acc ?st). fst K \<in> fst ` set (AccsByLoop ?st)"
    using cov unfolding acc by (auto simp: byl mv_push_keys)
  have 3: "ks \<noteq> [] \<and> set ks = {K \<in> set (Acc ?st). fst K = L'}" if in': "(L', ks) \<in> set (AccsByLoop ?st)" for L' ks
  proof (cases "?K \<in> set (Acc st)")
    case True
    then show ?thesis using ks [of L' ks] in' unfolding acc by (auto simp: byl insert_absorb)
  next
    case False
    then have "(L', ks) \<in> set (mv_push L ?K (AccsByLoop st))" using in' by (simp add: byl)
    from mv_push_entry [OF d this] consider (other) "L' \<noteq> L" "(L', ks) \<in> set (AccsByLoop st)"
      | (new) "L' = L" "L \<notin> fst ` set (AccsByLoop st)" "ks = [?K]"
      | (old) us where "L' = L" "(L, us) \<in> set (AccsByLoop st)" "ks = us @ [?K]" by blast
    then show ?thesis
    proof cases
      case other
      have "{K \<in> insert ?K (set (Acc st)). fst K = L'} = {K \<in> set (Acc st). fst K = L'}" using other(1) by auto
      then show ?thesis using ks [OF other(2)] unfolding acc by simp
    next
      case new
      have "{K \<in> set (Acc st). fst K = L} = {}" using cov new(2) by blast
      then show ?thesis using new(1,3) unfolding acc by auto
    next
      case old
      have "set us = {K \<in> set (Acc st). fst K = L}" using ks [OF old(2)] by blast
      moreover have "{K \<in> insert ?K (set (Acc st)). fst K = L} = insert ?K {K \<in> set (Acc st). fst K = L}" by auto
      ultimately show ?thesis unfolding acc old(1,3) by simp
    qed
  qed
  note 4 = collectedD(2,3) [OF st]
  have 5: "set (AccOrs ?st) = {(acc_insert_point f n, (L, ShadowTyV D), n) | D L n. D \<in> insert C Cs \<and> loop_of f LI D = Some (L, n)}"
    using C unfolding ors 4(1) by auto
  have 6: "set (Acc ?st) = {(L, ShadowTyV D) | D L n. D \<in> insert C Cs \<and> loop_of f LI D = Some (L, n)}"
    using C unfolding acc 4(2) by auto
  have 7: "{D \<in> insert C Cs. \<not> deferrable f D} = {D \<in> Cs. \<not> deferrable f D}"
    "{D \<in> insert C Cs. deferrable f D \<and> loop_of f LI D = None \<and> P D} = {D \<in> Cs. deferrable f D \<and> loop_of f LI D = None \<and> P D}"
    for P using C loop_of_deferrable [OF C] by auto
  have 8: "(\<exists>D \<in> insert C Cs. deferrable f D \<and> loop_of f LI D = None \<and> P D) \<longleftrightarrow>
      (\<exists>D \<in> Cs. deferrable f D \<and> loop_of f LI D = None \<and> P D)" for P using C by auto
  show ?thesis
    unfolding collected_def rest 7 8 by (intro conjI allI impI collectedD [OF st, rule_format] 1 2 3 5 6)
qed


lemma collected_anchor:
  assumes st: "collected f LI Cs st" and C: "loop_of f LI C = None" "deferrable f C"
  shows "collected f LI (insert C Cs) (to_anchor f C st)"
proof -
  let ?st = "to_anchor f C st"
  have rest: "Acc ?st = Acc st" "AccsByLoop ?st = AccsByLoop st" "AccOrs ?st = AccOrs st" "LoopSoundCache ?st = LoopSoundCache st"
    by (simp_all add: to_anchor_def split: option.split)
  have 1: "{F D L n | D L n. D \<in> insert C Cs \<and> loop_of f LI D = Some (L, n)} = {F D L n | D L n. D \<in> Cs \<and> loop_of f LI D = Some (L, n)}"
    for F :: "ShadowAndInsertPoint \<Rightarrow> nat \<Rightarrow> nat \<Rightarrow> 'b" using C(1) by auto
  have 2: "(\<exists>Ss. (A, Ss) \<in> set (ByAnchor ?st) \<and> S \<in> set Ss) \<longleftrightarrow>
      (\<exists>D \<in> insert C Cs. deferrable f D \<and> loop_of f LI D = None \<and> anchorFor f (OrigIns D) = Some A \<and> shadow_of D = S)" for A S
  proof -
    have "(\<exists>Ss. (A, Ss) \<in> set (ByAnchor st) \<and> S \<in> set Ss) \<longleftrightarrow>
        (\<exists>D \<in> Cs. deferrable f D \<and> loop_of f LI D = None \<and> anchorFor f (OrigIns D) = Some A \<and> shadow_of D = S)"
      using collectedD(7) [OF st] by blast
    then show ?thesis using C by (cases "anchorFor f (OrigIns C)") (auto simp: to_anchor_def mv_push_mem)
  qed
  have 3: "set (EssentialChecks ?st) = {D \<in> insert C Cs. \<not> deferrable f D} \<union>
       (\<lambda>D. D\<lparr>Essential := True\<rparr>) ` {D \<in> insert C Cs. deferrable f D \<and> loop_of f LI D = None \<and> anchorFor f (OrigIns D) = None}"
  proof -
    have "set (EssentialChecks st) = {D \<in> Cs. \<not> deferrable f D} \<union>
       (\<lambda>D. D\<lparr>Essential := True\<rparr>) ` {D \<in> Cs. deferrable f D \<and> loop_of f LI D = None \<and> anchorFor f (OrigIns D) = None}"
      by (rule collectedD(8) [OF st])
    moreover have "{D \<in> insert C Cs. \<not> deferrable f D} = {D \<in> Cs. \<not> deferrable f D}" using C(2) by auto
    moreover have "{D \<in> insert C Cs. deferrable f D \<and> loop_of f LI D = None \<and> anchorFor f (OrigIns D) = None} =
        (if anchorFor f (OrigIns C) = None then {C} else {}) \<union>
        {D \<in> Cs. deferrable f D \<and> loop_of f LI D = None \<and> anchorFor f (OrigIns D) = None}" using C by auto
    ultimately show ?thesis by (cases "anchorFor f (OrigIns C)") (simp_all add: to_anchor_def image_Un)
  qed
  show ?thesis unfolding collected_def rest 1 by (intro conjI allI 2 3 collectedD [OF st])
qed

lemma collected_essential:
  assumes st: "collected f LI Cs st" and C: "\<not> deferrable f C"
  shows "collected f LI (insert C Cs) (st\<lparr>EssentialChecks := EssentialChecks st @ [C]\<rparr>)"
proof -
  have n: "loop_of f LI C = None" using loop_of_deferrable [of f LI C] C by (cases "loop_of f LI C") auto
  have 1: "{F D L n | D L n. D \<in> insert C Cs \<and> loop_of f LI D = Some (L, n)} = {F D L n | D L n. D \<in> Cs \<and> loop_of f LI D = Some (L, n)}"
    for F :: "ShadowAndInsertPoint \<Rightarrow> nat \<Rightarrow> nat \<Rightarrow> 'b" using n by auto
  have 2: "{D \<in> insert C Cs. \<not> deferrable f D} = insert C {D \<in> Cs. \<not> deferrable f D}"
    "{D \<in> insert C Cs. deferrable f D \<and> P D} = {D \<in> Cs. deferrable f D \<and> P D}" for P using C by auto
  have 3: "(\<exists>D \<in> insert C Cs. deferrable f D \<and> P D) \<longleftrightarrow> (\<exists>D \<in> Cs. deferrable f D \<and> P D)" for P using C by auto
  have "set (EssentialChecks st @ [C]) = insert C (set (EssentialChecks st))" by simp
  then show ?thesis using collectedD [OF st] unfolding collected_def 1 2 3 by simp
qed

lemma collected_cache: "collected f LI Cs st \<Longrightarrow> cache_sound f LI m \<Longrightarrow> collected f LI Cs (st\<lparr>LoopSoundCache := m\<rparr>)"
  unfolding collected_def by simp

lemma collected_step:
  assumes st: "collected f LI Cs st"
  shows "collected f LI (insert C Cs) (loop_step f LI C st)"
proof -
  from loop_step_cases [OF collectedD(1) [OF st], of C] obtain m where m: "cache_sound f LI m" "loop_step f LI C st =
    (if \<not> deferrable f C then st\<lparr>EssentialChecks := EssentialChecks st @ [C]\<rparr>
     else case loop_of f LI C of
       Some (L, n) \<Rightarrow> accumulate f (L, ShadowTyV C) n (st\<lparr>LoopSoundCache := m\<rparr>)
     | None \<Rightarrow> to_anchor f C (st\<lparr>LoopSoundCache := m\<rparr>))" by blast
  note cs = collected_cache [OF st m(1)]
  show ?thesis
  proof (cases "deferrable f C")
    case True
    then show ?thesis using m(2) collected_anchor [OF cs _ True] collected_accumulate [OF cs, of C]
      by (cases "loop_of f LI C") auto
  next
    case False
    then show ?thesis using m(2) collected_essential [OF st False] by simp
  qed
qed

lemma loop_phase1_collected: "collected f LI (set Cs) (loop_phase1 f LI Cs)"
proof -
  have "collected f LI (set Cs \<union> X) (fold (loop_step f LI) Cs st)" if "collected f LI X st" for X st
    using that
  proof (induction Cs arbitrary: X st)
    case (Cons C Cs)
    from Cons.IH [OF collected_step [OF Cons.prems, of C]] show ?case by simp
  qed simp
  moreover have "collected f LI {}
      \<lparr>Acc = [], AccsByLoop = [], AccOrs = [], ByAnchor = [], EssentialChecks = [], LoopSoundCache = Map.empty\<rparr>"
    by (simp add: collected_def cache_sound_def)
  ultimately have "collected f LI (set Cs \<union> {}) (loop_phase1 f LI Cs)" unfolding loop_phase1_def by blast
  then show ?thesis by simp
qed


section \<open>The accumulators\<close>

lemma sval_or_ok:
  assumes "isIntOrIntVectorTy t" and "has_ty k x t" and "has_ty k y t"
  shows "has_ty k (sval_or x y) t \<and> (nz (sval_or x y) \<longleftrightarrow> nz x \<or> nz y)"
proof -
  have vec: "list_all (\<lambda>v. v < 2 ^ w) (map2 (OR) as bs) \<and>
      ((\<exists>y \<in> set (map2 (OR) as bs). y \<noteq> 0) \<longleftrightarrow> (\<exists>y \<in> set as. y \<noteq> 0) \<or> (\<exists>y \<in> set bs. y \<noteq> 0))"
    if "length as = length bs" "list_all (\<lambda>v. v < 2 ^ w) as" "list_all (\<lambda>v. v < 2 ^ w) bs" for w and as bs :: "nat list"
    using that by (induction as bs rule: list_induct2) (auto simp: or_eq_0_iff intro: or_less_exp)
  have int: "\<exists>a. v = IntV w a \<and> a < 2 ^ w" if "has_ty k v (IntegerTy w)" for v w using that by (cases v) auto
  have fv: "\<exists>as. v = VecV w as \<and> length as = n \<and> list_all (\<lambda>v. v < 2 ^ w) as" if "has_ty k v (FixedVectorTy n (IntegerTy w))" for v w n
    using that by (cases v) auto
  have sv: "\<exists>as. v = VecV w as \<and> length as = k * n \<and> list_all (\<lambda>v. v < 2 ^ w) as" if "has_ty k v (ScalableVectorTy n (IntegerTy w))" for v w n
    using that by (cases v) auto
  from assms(1) consider (i) w where "t = IntegerTy w" | (f) n w where "t = FixedVectorTy n (IntegerTy w)"
    | (s) n w where "t = ScalableVectorTy n (IntegerTy w)" by (cases t rule: isIntOrIntVectorTy.cases) auto
  then show ?thesis
  proof cases
    case (i w)
    from int [OF assms(2) [unfolded i]] int [OF assms(3) [unfolded i]] show ?thesis
      using or_less_exp by (auto simp: i or_eq_0_iff)
  next
    case (f n w)
    from fv [OF assms(2) [unfolded f]] fv [OF assms(3) [unfolded f]] show ?thesis using vec by (auto simp: f)
  next
    case (s n w)
    from sv [OF assms(2) [unfolded s]] sv [OF assms(3) [unfolded s]] show ?thesis using vec by (auto simp: s)
  qed
qed


lemma normalizeShadow_ok:
  assumes "isIntOrIntVectorTy t" and "has_ty k v t"
  shows "ev \<rho> (normalizeShadow False t (Const v)) = i1 (nz v)"
  using assms by (cases t rule: isIntOrIntVectorTy.cases; cases v) (auto simp: foldr_or_eq_0)

lemma clean_acc_ok:
  "isIntOrIntVectorTy (snd K) \<Longrightarrow> has_ty k (clean_acc False k K) (snd K) \<and> \<not> nz (clean_acc False k K)"
  by (cases "snd K" rule: isIntOrIntVectorTy.cases) (auto simp: clean_acc_def getCleanShadow_def list_all_iff)

lemma ors_ok:
  assumes K: "isIntOrIntVectorTy (snd K)"
  shows "has_ty k (acc K) (snd K) \<Longrightarrow> \<forall>ip n. (ip, K, n) \<in> set os \<and> parent f n = b \<longrightarrow> has_ty k (\<rho> n) (snd K) \<Longrightarrow>
    has_ty k (fold (acc_or f b \<rho>) os acc K) (snd K) \<and>
    (nz (fold (acc_or f b \<rho>) os acc K) \<longleftrightarrow> nz (acc K) \<or> (\<exists>ip n. (ip, K, n) \<in> set os \<and> parent f n = b \<and> nz (\<rho> n)))"
proof (induction os arbitrary: acc)
  case (Cons x os)
  obtain ip K' n where x: "x = (ip, K', n)" by (cases x)
  define acc' where "acc' = acc_or f b \<rho> x acc"
  have "has_ty k (acc' K) (snd K) \<and> (nz (acc' K) \<longleftrightarrow> nz (acc K) \<or> K' = K \<and> parent f n = b \<and> nz (\<rho> n))"
  proof (cases "K' = K \<and> parent f n = b")
    case True
    then have "has_ty k (\<rho> n) (snd K)" using Cons.prems(2) x by (metis list.set_intros(1))
    from sval_or_ok [OF K Cons.prems(1) this] True show ?thesis by (simp add: acc'_def acc_or_def x)
  next
    case False
    then show ?thesis using Cons.prems(1) by (auto simp: acc'_def acc_or_def x)
  qed
  moreover have "\<forall>ip n. (ip, K, n) \<in> set os \<and> parent f n = b \<longrightarrow> has_ty k (\<rho> n) (snd K)" using Cons.prems(2) by auto
  ultimately have "has_ty k (fold (acc_or f b \<rho>) os acc' K) (snd K) \<and> (nz (fold (acc_or f b \<rho>) os acc' K) \<longleftrightarrow>
      (nz (acc K) \<or> K' = K \<and> parent f n = b \<and> nz (\<rho> n)) \<or> (\<exists>ip n. (ip, K, n) \<in> set os \<and> parent f n = b \<and> nz (\<rho> n)))"
    using Cons.IH [of acc'] by simp
  then show ?case by (auto simp: acc'_def x)
qed simp

lemma visits_ok:
  assumes K: "isIntOrIntVectorTy (snd K)" "getLoopPreheader LI (fst K) = Some P"
  shows "has_ty k (acc K) (snd K) \<Longrightarrow> P \<notin> fst ` set vs \<Longrightarrow>
    \<forall>v \<in> set vs. \<forall>ip n. (ip, K, n) \<in> set (res_ors r) \<and> parent f n = fst v \<longrightarrow> has_ty k (snd v n) (snd K) \<Longrightarrow>
    has_ty k (fold (visit_block False k f LI r) vs acc K) (snd K) \<and>
    (nz (fold (visit_block False k f LI r) vs acc K) \<longleftrightarrow>
     nz (acc K) \<or> (\<exists>v \<in> set vs. \<exists>ip n. (ip, K, n) \<in> set (res_ors r) \<and> parent f n = fst v \<and> nz (snd v n)))"
proof (induction vs arbitrary: acc)
  case (Cons v vs)
  define acc' where "acc' = visit_block False k f LI r v acc"
  have e: "acc' K = fold (acc_or f (fst v) (snd v)) (res_ors r) acc K"
    using K(2) Cons.prems(2) by (auto simp: visit_block_def block_ors_def acc'_def)
  have o: "has_ty k (acc' K) (snd K) \<and> (nz (acc' K) \<longleftrightarrow>
      nz (acc K) \<or> (\<exists>ip n. (ip, K, n) \<in> set (res_ors r) \<and> parent f n = fst v \<and> nz (snd v n)))"
    unfolding e by (rule ors_ok [where acc = acc, OF K(1) Cons.prems(1)]) (use Cons.prems(3) [THEN bspec, of v] in auto)
  have "has_ty k (fold (visit_block False k f LI r) vs acc' K) (snd K) \<and>
    (nz (fold (visit_block False k f LI r) vs acc' K) \<longleftrightarrow>
     nz (acc' K) \<or> (\<exists>v \<in> set vs. \<exists>ip n. (ip, K, n) \<in> set (res_ors r) \<and> parent f n = fst v \<and> nz (snd v n)))"
    by (rule Cons.IH) (use o Cons.prems(2,3) in auto)
  with o show ?case by (simp add: acc'_def [symmetric] disj_assoc)
qed simp

lemma exit_test_ok:
  assumes "ks \<noteq> []" and "\<And>K. K \<in> set ks \<Longrightarrow> isIntOrIntVectorTy (snd K) \<and> has_ty k (acc K) (snd K)"
  shows "ev \<rho> (exit_test False acc ks) = i1 (\<exists>K \<in> set ks. nz (acc K))"
proof -
  have n: "ev \<rho> (normalizeShadow False (snd K) (Const (acc K))) = i1 (nz (acc K))" if "K \<in> set ks" for K
    using normalizeShadow_ok assms(2) [OF that] by blast
  have "ev \<rho> (fold (\<lambda>K c. Or c (normalizeShadow False (snd K) (Const (acc K)))) Ks e) = i1 (x \<or> (\<exists>K \<in> set Ks. nz (acc K)))"
    if "set Ks \<subseteq> set ks" and "ev \<rho> e = i1 x" for Ks e x
    using that
  proof (induction Ks arbitrary: e x)
    case (Cons K Ks)
    then have "ev \<rho> (Or e (normalizeShadow False (snd K) (Const (acc K)))) = i1 (x \<or> nz (acc K))" by (intro ev_Or_i1 n) auto
    from Cons.IH [OF _ this] Cons.prems(1) show ?case by (simp add: disj_assoc)
  qed simp
  from this [OF _ n, of "tl ks" "hd ks"] assms(1) show ?thesis by (cases ks) (auto simp: exit_test_def)
qed

lemma set_first_seen: "set (first_seen seen Es) = set Es - set seen"
  by (induction seen Es rule: first_seen.induct) auto

lemma in_exit_checks:
  "(L, E, ks) \<in> set (exit_checks f LI m) \<longleftrightarrow> (L, ks) \<in> set m \<and> E \<in> set (getExitBlocks LI L) \<and> flushable f E"
  by (auto simp: exit_checks_def set_first_seen)


lemma emit_plain_reports:
  assumes run: "run_ok E opts f b stop" and "\<forall>(A, Ss) \<in> set m. list_all (typed opts k \<rho>) Ss"
  shows "reports E f b stop \<rho> (fst (emit_plain opts m count)) \<longleftrightarrow>
    (\<exists>(A, Ss) \<in> set m. reached f b stop A \<and> (\<exists>S \<in> set Ss. nz (ev \<rho> (snd S))))"
  using assms(2)
proof (induction m arbitrary: count)
  case (Cons p m)
  obtain A Ss where p: "p = (A, Ss)" by fastforce
  show ?case
  proof (cases "Ss = []")
    case True
    then show ?thesis using Cons p by simp
  next
    case False
    obtain c n where c: "one_check opts A (IntegerTy 1, or_all False Ss) count = (c, n)" by fastforce
    obtain cs n' where cs: "emit_plain opts m n = (cs, n')" by fastforce
    have fl: "flipped opts = False" using run by (simp add: run_ok_def opts_ok_def)
    have "ev \<rho> (or_all False Ss) = i1 (\<exists>S \<in> set Ss. nz (ev \<rho> (snd S)))"
      using Cons.prems p by (intro or_all_ok [where opts = opts and k = k, OF False]) simp
    from one_or_check [OF run this c] have
      "reports E f b stop \<rho> c \<longleftrightarrow> reached f b stop A \<and> (\<exists>S \<in> set Ss. nz (ev \<rho> (snd S)))" .
    moreover have "reports E f b stop \<rho> cs \<longleftrightarrow> (\<exists>(A, Ss) \<in> set m. reached f b stop A \<and> (\<exists>S \<in> set Ss. nz (ev \<rho> (snd S))))"
      using Cons.IH [of n] Cons.prems cs by simp
    ultimately show ?thesis using p c cs False fl by (simp add: reports_append)
  qed
qed (simp add: reports_def)

text \<open>The checks that are not accumulated behave as in the other modes.\<close>

lemma loop_rest_reports:
  assumes run: "run_ok E opts f b stop" and ok: "list_all (request_ok opts f k \<rho>) Cs"
    and r: "materializeCoalescedLoopChecks opts f LI Cs count = Ok (r, n)"
  shows "reports E f b stop \<rho> (res_code r) \<longleftrightarrow>
    (\<exists>C \<in> set Cs. loop_of f LI C = None \<and> reached f b stop (OrigIns C) \<and> counts opts \<rho> C)"
proof -
  define st where "st = loop_phase1 f LI Cs"
  note col = collectedD [OF loop_phase1_collected, of f LI Cs, folded st_def]
  obtain c i where c: "emit_plain opts (ByAnchor st) count = (c, i)" by fastforce
  obtain cs j where cs: "materializeChecksLegacy opts f (EssentialChecks st) i = (cs, j)" by fastforce
  have code: "res_code r = c @ cs"
    using r c cs by (auto simp: materializeCoalescedLoopChecks_def st_def [symmetric] Let_def split: if_splits)
  let ?D = "{D \<in> set Cs. deferrable f D \<and> loop_of f LI D = None}"
  have D: "placed f D" "\<not> is_constant (ShadowV D)" "typed opts k \<rho> (shadow_of D)" if "D \<in> ?D" for D
    using that ok by (auto simp: list_all_iff request_ok_def)
  have okA: "\<forall>(A, Ss) \<in> set (ByAnchor st). list_all (typed opts k \<rho>) Ss"
  proof (clarify, unfold list_all_iff, rule ballI)
    fix A Ss S assume "(A, Ss) \<in> set (ByAnchor st)" "S \<in> set Ss"
    then have "\<exists>D \<in> set Cs. deferrable f D \<and> loop_of f LI D = None \<and> anchorFor f (OrigIns D) = Some A \<and> shadow_of D = S"
      using col(7) by blast
    then show "typed opts k \<rho> S" using D(3) by blast
  qed
  have "(\<exists>(A, Ss) \<in> set (ByAnchor st). reached f b stop A \<and> (\<exists>S \<in> set Ss. nz (ev \<rho> (snd S)))) \<longleftrightarrow>
      (\<exists>A S. (\<exists>Ss. (A, Ss) \<in> set (ByAnchor st) \<and> S \<in> set Ss) \<and> reached f b stop A \<and> nz (ev \<rho> (snd S)))" by fast
  also have "\<dots> \<longleftrightarrow> (\<exists>D \<in> ?D. \<exists>A. anchorFor f (OrigIns D) = Some A \<and> reached f b stop A \<and> nz (ev \<rho> (ShadowV D)))"
    unfolding col(7) [rule_format] by force
  also have "\<dots> \<longleftrightarrow> (\<exists>D \<in> ?D. anchorFor f (OrigIns D) \<noteq> None \<and> reached f b stop (OrigIns D) \<and> counts opts \<rho> D)"
    by (rule bex_cong [OF refl]) (rule anchored_request [OF run], use D in auto)
  finally have a: "reports E f b stop \<rho> c \<longleftrightarrow>
      (\<exists>D \<in> ?D. anchorFor f (OrigIns D) \<noteq> None \<and> reached f b stop (OrigIns D) \<and> counts opts \<rho> D)"
    using emit_plain_reports [OF run okA, of count] c by simp
  have okE: "list_all (request_ok opts f k \<rho>) (EssentialChecks st)"
    using ok request_ok_essential unfolding list_all_iff col(8) by blast
  have "reports E f b stop \<rho> cs \<longleftrightarrow> wanted opts f b stop \<rho> (EssentialChecks st)" using legacy_reports [OF run okE, of i] cs by simp
  also have "\<dots> \<longleftrightarrow> (\<exists>C \<in> set Cs. \<not> deferrable f C \<and> reached f b stop (OrigIns C) \<and> counts opts \<rho> C) \<or>
      (\<exists>D \<in> ?D. anchorFor f (OrigIns D) = None \<and> reached f b stop (OrigIns D) \<and> counts opts \<rho> D)"
    unfolding wanted_def col(8) bex_Un bex_simps by (auto simp: counts_def)
  finally have e: "reports E f b stop \<rho> cs \<longleftrightarrow>
      (\<exists>C \<in> set Cs. \<not> deferrable f C \<and> reached f b stop (OrigIns C) \<and> counts opts \<rho> C) \<or>
      (\<exists>D \<in> ?D. anchorFor f (OrigIns D) = None \<and> reached f b stop (OrigIns D) \<and> counts opts \<rho> D)" .
  have "\<not> deferrable f C \<Longrightarrow> loop_of f LI C = None" for C
    using loop_of_deferrable [of f LI C] by (cases "loop_of f LI C") auto
  then show ?thesis unfolding code reports_append a e by blast
qed


section \<open>Properties\<close>

text \<open>Every shadow the run computes has its type.\<close>

definition shadows_typed :: "nat \<Rightarrow> func \<Rightarrow> ShadowAndInsertPoint list \<Rightarrow> visits \<Rightarrow> bool" where
  "shadows_typed k f Cs vs \<longleftrightarrow> (\<forall>v \<in> set vs. \<forall>C \<in> set Cs. \<forall>n.
     shadow_inst (ShadowV C) = Some n \<and> parent f n = fst v \<longrightarrow> has_ty k (snd v n) (ShadowTyV C))"

lemma loop_ofD:
  assumes "loop_of f LI C = Some (L, n)"
  shows "isIntOrIntVectorTy (ShadowTyV C)" and "shadow_inst (ShadowV C) = Some n" and "loop_sound f LI L"
    and "parent f n \<in> set (loop_blocks LI L)"
  using assms by (auto simp: loop_of_def split: option.splits if_splits)

lemma exit_exact:
  assumes fl: "\<not> flipped opts" and r: "materializeCoalescedLoopChecks opts f LI Cs count = Ok (r, n)"
    and P: "getLoopPreheader LI L = Some P" "P \<notin> set (loop_blocks LI L)"
    and vs: "list_all (\<lambda>v. fst v \<in> set (loop_blocks LI L)) vs" and t: "shadows_typed k f Cs vs"
    and E: "E \<in> set (getExitBlocks LI L)"
  shows "exit_reports False r (fold (visit_block False k f LI r) ((P, pre) # vs) acc) L E \<longleftrightarrow>
    (\<exists>C \<in> set Cs. \<exists>m. loop_of f LI C = Some (L, m) \<and> (\<exists>v \<in> set vs. parent f m = fst v \<and> nz (snd v m)))"
proof -
  define st where "st = loop_phase1 f LI Cs"
  note col = collectedD [OF loop_phase1_collected, of f LI Cs, folded st_def]
  have res: "res_accs r = Acc st" "res_ors r = AccOrs st" "res_exits r = exit_checks f LI (AccsByLoop st)"
    using r by (auto simp: materializeCoalescedLoopChecks_def st_def [symmetric] Let_def split: if_splits prod.splits)
  define acc' where "acc' = fold (visit_block False k f LI r) ((P, pre) # vs) acc"
  have keyD: "\<exists>C \<in> set Cs. \<exists>m. K = (L, ShadowTyV C) \<and> loop_of f LI C = Some (L, m)" if "K \<in> set (Acc st)" "fst K = L" for K
    using that unfolding col(3) by auto
  have acc': "isIntOrIntVectorTy (snd K) \<and> has_ty k (acc' K) (snd K) \<and> (nz (acc' K) \<longleftrightarrow>
      (\<exists>v \<in> set vs. \<exists>ip m. (ip, K, m) \<in> set (AccOrs st) \<and> parent f m = fst v \<and> nz (snd v m)))"
    if K: "K \<in> set (Acc st)" "fst K = L" for K
  proof -
    have int: "isIntOrIntVectorTy (snd K)" using keyD [OF K] loop_ofD(1) by fastforce
    have clean: "visit_block False k f LI r (P, pre) acc K = clean_acc False k K" using K P(1) res(1) by (simp add: visit_block_def)
    have ty: "\<forall>v \<in> set vs. \<forall>ip m. (ip, K, m) \<in> set (res_ors r) \<and> parent f m = fst v \<longrightarrow> has_ty k (snd v m) (snd K)"
    proof (intro ballI allI impI)
      fix v ip m assume v: "v \<in> set vs" and m: "(ip, K, m) \<in> set (res_ors r) \<and> parent f m = fst v"
      then obtain C L' where "C \<in> set Cs" "loop_of f LI C = Some (L', m)" "K = (L', ShadowTyV C)" unfolding res(2) col(2) by blast
      then show "has_ty k (snd v m) (snd K)" using t v m loop_ofD(2) unfolding shadows_typed_def by simp
    qed
    have "P \<notin> fst ` set vs" using vs P(2) by (auto simp: list_all_iff)
    from visits_ok [OF int, of LI P k "visit_block False k f LI r (P, pre) acc" vs r f, OF _ _ this ty]
    show ?thesis using K(2) P(1) clean clean_acc_ok [OF int, of k] int by (simp add: acc'_def res(2))
  qed
  have "exit_reports False r acc' L E \<longleftrightarrow> (\<exists>ks. (L, ks) \<in> set (AccsByLoop st) \<and> flushable f E \<and> (\<exists>K \<in> set ks. nz (acc' K)))"
  proof -
    have "int_val (ev (\<lambda>_. AggV []) (exit_test False acc' ks)) \<noteq> 0 \<longleftrightarrow> (\<exists>K \<in> set ks. nz (acc' K))" if "(L, ks) \<in> set (AccsByLoop st)" for ks
    proof -
      have ks: "ks \<noteq> []" "set ks = {K \<in> set (Acc st). fst K = L}" using col(5) that by blast+
      then have "ev (\<lambda>_. AggV []) (exit_test False acc' ks) = i1 (\<exists>K \<in> set ks. nz (acc' K))"
        using acc' by (intro exit_test_ok [where k = k]) auto
      then show ?thesis by (simp add: i1_def)
    qed
    then show ?thesis using E unfolding exit_reports_def res(3) in_exit_checks by blast
  qed
  also have "\<dots> \<longleftrightarrow> (\<exists>K \<in> set (Acc st). fst K = L \<and> nz (acc' K))"
  proof
    assume "\<exists>ks. (L, ks) \<in> set (AccsByLoop st) \<and> flushable f E \<and> (\<exists>K \<in> set ks. nz (acc' K))"
    then show "\<exists>K \<in> set (Acc st). fst K = L \<and> nz (acc' K)" using col(5) by blast
  next
    assume "\<exists>K \<in> set (Acc st). fst K = L \<and> nz (acc' K)"
    then obtain K where K: "K \<in> set (Acc st)" "fst K = L" "nz (acc' K)" by blast
    then obtain ks where ks: "(L, ks) \<in> set (AccsByLoop st)" using col(6) by fastforce
    from keyD [OF K(1,2)] have "loop_sound f LI L" using loop_ofD(3) by blast
    then have "flushable f E" using E by (simp add: loop_sound_def loopFlushIsSound_def list_all_iff)
    then show "\<exists>ks. (L, ks) \<in> set (AccsByLoop st) \<and> flushable f E \<and> (\<exists>K \<in> set ks. nz (acc' K))" using ks K col(5) by blast
  qed
  also have "\<dots> \<longleftrightarrow> (\<exists>C \<in> set Cs. \<exists>m. loop_of f LI C = Some (L, m) \<and> (\<exists>v \<in> set vs. parent f m = fst v \<and> nz (snd v m)))"
  proof
    assume "\<exists>K \<in> set (Acc st). fst K = L \<and> nz (acc' K)"
    then obtain K v ip m where "fst K = L" "v \<in> set vs" "(ip, K, m) \<in> set (AccOrs st)" "parent f m = fst v" "nz (snd v m)"
      using acc' by blast
    then show "\<exists>C \<in> set Cs. \<exists>m. loop_of f LI C = Some (L, m) \<and> (\<exists>v \<in> set vs. parent f m = fst v \<and> nz (snd v m))"
      unfolding col(2) by fastforce
  next
    assume "\<exists>C \<in> set Cs. \<exists>m. loop_of f LI C = Some (L, m) \<and> (\<exists>v \<in> set vs. parent f m = fst v \<and> nz (snd v m))"
    then obtain C m v where *: "C \<in> set Cs" "loop_of f LI C = Some (L, m)" "v \<in> set vs" "parent f m = fst v" "nz (snd v m)" by blast
    then have "(L, ShadowTyV C) \<in> set (Acc st)" "(acc_insert_point f m, (L, ShadowTyV C), m) \<in> set (AccOrs st)"
      unfolding col(2,3) by blast+
    moreover from this have "nz (acc' (L, ShadowTyV C))" using acc' [of "(L, ShadowTyV C)"] *(3-5) by auto
    ultimately show "\<exists>K \<in> set (Acc st). fst K = L \<and> nz (acc' K)" by force
  qed
  finally show ?thesis by (simp only: acc'_def)
qed


text \<open>
  C34: merging the checks of a loop. Leaving the loop through any of its exits reports exactly
  when some accumulated shadow had a set bit in some iteration since the loop was entered, whatever
  the accumulators held before; and the checks that are not accumulated report exactly as the
  separate checks would.
\<close>

theorem loop_coalescing_exact:
  assumes "\<not> flipped opts" and "materializeCoalescedLoopChecks opts f LI Cs count = Ok (r, n)"
    and "getLoopPreheader LI L = Some P" and "P \<notin> set (loop_blocks LI L)"
    and "list_all (\<lambda>v. fst v \<in> set (loop_blocks LI L)) vs" and "shadows_typed k f Cs vs"
    and "E \<in> set (getExitBlocks LI L)"
  shows "(exit_reports (flipped opts) r (fold (visit_block (flipped opts) k f LI r) ((P, pre) # vs) acc) L E \<longleftrightarrow>
      (\<exists>C \<in> set Cs. \<exists>m. loop_of f LI C = Some (L, m) \<and> (\<exists>v \<in> set vs. parent f m = fst v \<and> nz (snd v m)))) \<and>
    (\<forall>env b stop \<rho>. run_ok env opts f b stop \<and> list_all (request_ok opts f k \<rho>) Cs \<longrightarrow>
      (reports env f b stop \<rho> (res_code r) \<longleftrightarrow>
       (\<exists>C \<in> set Cs. loop_of f LI C = None \<and> reached f b stop (OrigIns C) \<and> counts opts \<rho> C)))"
proof -
  have fl: "flipped opts = False" using assms(1) by simp
  show ?thesis unfolding fl using exit_exact [OF assms] loop_rest_reports [OF _ _ assms(2)] by blast
qed

text \<open>A loop of one block (0), entered from block 1 and left to block 2, that reads two words.\<close>

definition loop_func :: func where
  "loop_func = \<lparr>body = (\<lambda>i. [LoadI (VArg 0), LoadI (VArg 1), LoadI (VArg 2), LoadI (VArg 3), BrI (Some (VInst 2)),
       BrI None, RetI None] ! i),
     ity = (\<lambda>_. IntegerTy 32), blocks = (\<lambda>b. if b = 0 then [0, 1, 2, 3, 4] else if b = 1 then [5] else [6]),
     parent = (\<lambda>i. if i < 5 then 0 else if i = 5 then 1 else 2),
     succs = (\<lambda>b. if b = 0 then [0, 2] else if b = 1 then [0] else []), users = (\<lambda>_. []), nosanitize = (\<lambda>_. False),
     transfers = (\<lambda>i. i < 6)\<rparr>"

definition loop_li :: loop_info where
  "loop_li = \<lparr>getLoopFor = (\<lambda>b. if b = 0 then Some 0 else None), loop_blocks = (\<lambda>_. [0]),
     getLoopPreheader = (\<lambda>_. Some 1), getExitBlocks = (\<lambda>_. [2])\<rparr>"

definition loop_run :: visits where
  "loop_run = [(0, \<lambda>n. IntV 32 (if n = 3 then 4 else 0)), (0, \<lambda>n. IntV 32 0)]"

theorem loop_coalescing_exact_witness:
  "\<exists>r n. materializeCoalescedLoopChecks example_opts loop_func loop_li example_requests 0 = Ok (r, n) \<and> res_code r = [] \<and>
    exit_reports False r (fold (visit_block False 1 loop_func loop_li r) ((1, \<lambda>_. IntV 32 0) # loop_run) (\<lambda>_. IntV 32 9)) 0 2"
proof -
  obtain r n where r: "materializeCoalescedLoopChecks example_opts loop_func loop_li example_requests 0 = Ok (r, n)" "res_code r = []"
    by (simp add: materializeCoalescedLoopChecks_def loop_phase1_def loop_step_def deferrable_def example_requests_def example_opts_def
      loop_func_def loop_li_def loopFlushIsSound_def flushable_def block_isEHPad_def getFirstInsertionPt_def isBBBarrier_def
      accumulate_def Let_def)
  have "loop_of loop_func loop_li (example_requests ! 1) = Some (0, 3)"
    by (simp add: loop_of_def example_requests_def loop_func_def loop_li_def deferrable_def loop_sound_def loopFlushIsSound_def
      flushable_def block_isEHPad_def getFirstInsertionPt_def isBBBarrier_def Let_def)
  moreover have "example_requests ! 1 \<in> set example_requests" by (simp add: example_requests_def)
  moreover have "(0, \<lambda>n. IntV 32 (if n = 3 then 4 else 0)) \<in> set loop_run" by (simp add: loop_run_def)
  moreover have "shadows_typed 1 loop_func example_requests loop_run"
    by (simp add: shadows_typed_def loop_func_def example_requests_def loop_run_def)
  moreover have "flipped example_opts = False" by (simp add: example_opts_def)
  ultimately show ?thesis
    using r loop_coalescing_exact [OF _ r(1), where L = 0 and P = 1 and vs = loop_run and k = 1 and E = 2
        and pre = "\<lambda>_. IntV 32 0" and acc = "\<lambda>_. IntV 32 9"]
    by (fastforce simp: loop_li_def loop_run_def loop_func_def)
qed


lemma ones_or: "y < 2 ^ w \<Longrightarrow> (2 ^ w - Suc 0) OR y = 2 ^ w - Suc 0"
proof -
  assume "y < 2 ^ w"
  then have y: "take_bit w y = y" by (simp add: take_bit_nat_eq_self_iff)
  have "mask w OR take_bit w y = (mask w :: nat)" by (rule bit_eqI) (auto simp: bit_simps)
  then show ?thesis by (simp add: y mask_eq_exp_minus_1)
qed

lemma flip_acc:
  assumes "isIntOrIntVectorTy t" and "valid_ty t" and "0 < k"
  shows "has_ty k y t \<Longrightarrow> sval_or (clean_acc True k (L, t)) y = clean_acc True k (L, t)"
    and "ev \<rho> (normalizeShadow True t (Const (clean_acc True k (L, t)))) = i1 False"
proof -
  have or: "map2 (OR) (replicate n (2 ^ w - Suc 0)) bs = replicate n (2 ^ w - Suc 0)"
    if "length bs = n" "list_all (\<lambda>v. v < 2 ^ w) bs" for w n and bs :: "nat list"
    using that by (induction bs arbitrary: n) (auto simp: ones_or)
  have an: "((AND) (2 ^ w - Suc 0) ^^ n) (2 ^ w - Suc 0) = 2 ^ w - Suc 0" for n w by (induction n) auto
  have pos: "\<not> 2 ^ w \<le> Suc 0" if "0 < w" for w :: nat using one_less_power [of "2 :: nat" w] that by simp
  note c = clean_acc_def getCleanShadow_def
  show "has_ty k y t \<Longrightarrow> sval_or (clean_acc True k (L, t)) y = clean_acc True k (L, t)"
    using assms by (cases t rule: isIntOrIntVectorTy.cases; cases y) (auto simp: c ones_or or)
  show "ev \<rho> (normalizeShadow True t (Const (clean_acc True k (L, t)))) = i1 False"
    using assms by (cases t rule: isIntOrIntVectorTy.cases) (auto simp: c an pos i1_def)
qed


lemma acc_keys_typed:
  assumes "materializeCoalescedLoopChecks opts f LI Cs count = Ok (r, n)" and "K \<in> set (res_accs r)"
  shows "isIntOrIntVectorTy (snd K) \<and> (\<exists>C \<in> set Cs. snd K = ShadowTyV C)"
proof -
  have "res_accs r = Acc (loop_phase1 f LI Cs)"
    using assms(1) by (auto simp: materializeCoalescedLoopChecks_def Let_def split: if_splits prod.splits)
  then obtain C L m where "C \<in> set Cs" "K = (L, ShadowTyV C)" "loop_of f LI C = Some (L, m)"
    using assms(2) collectedD(3) [OF loop_phase1_collected, of f LI Cs] by auto
  then show ?thesis using loop_ofD(1) by fastforce
qed

lemma or_keys:
  assumes "materializeCoalescedLoopChecks opts f LI Cs count = Ok (r, n)" and "(ip, K, m) \<in> set (res_ors r)"
  shows "K \<in> set (res_accs r) \<and> (\<exists>C \<in> set Cs. shadow_inst (ShadowV C) = Some m \<and> snd K = ShadowTyV C)"
proof -
  have r: "res_accs r = Acc (loop_phase1 f LI Cs)" "res_ors r = AccOrs (loop_phase1 f LI Cs)"
    using assms(1) by (auto simp: materializeCoalescedLoopChecks_def Let_def split: if_splits prod.splits)
  show ?thesis using assms(2) loop_ofD(2) unfolding r collectedD(2,3) [OF loop_phase1_collected, of f LI Cs] by fastforce
qed

lemma flip_visit:
  assumes r: "materializeCoalescedLoopChecks opts f LI Cs count = Ok (r, n)" and k: "0 < k"
    and val: "list_all (\<lambda>C. valid_ty (ShadowTyV C)) Cs" and t: "shadows_typed k f Cs [v]"
    and acc: "\<forall>K \<in> set (res_accs r). acc K = clean_acc True k K"
  shows "\<forall>K \<in> set (res_accs r). visit_block True k f LI r v acc K = clean_acc True k K"
proof -
  have "\<forall>K \<in> set (res_accs r). fold (acc_or f (fst v) (snd v)) os acc K = clean_acc True k K"
    if "set os \<subseteq> set (res_ors r)" for os
    using that acc
  proof (induction os arbitrary: acc)
    case (Cons x os)
    obtain ip K m where x: "x = (ip, K, m)" by (cases x)
    obtain C where C: "K \<in> set (res_accs r)" "C \<in> set Cs" "shadow_inst (ShadowV C) = Some m" "snd K = ShadowTyV C"
      using or_keys [OF r, of ip K m] Cons.prems(1) x by auto
    have "sval_or (acc K) (snd v m) = clean_acc True k K" if "parent f m = fst v"
    proof -
      have "has_ty k (snd v m) (snd K)" using t C that by (simp add: shadows_typed_def)
      moreover have "valid_ty (snd K)" using val C by (simp add: list_all_iff)
      ultimately show ?thesis using flip_acc(1) [OF _ _ k, of "snd K" "snd v m" "fst K"] acc_keys_typed [OF r C(1)] Cons.prems(2) C(1)
        by simp
    qed
    then have "\<forall>K \<in> set (res_accs r). acc_or f (fst v) (snd v) x acc K = clean_acc True k K"
      using Cons.prems(2) by (auto simp: acc_or_def x)
    with Cons show ?case by simp
  qed simp
  then show ?thesis by (auto simp: visit_block_def block_ors_def)
qed

text \<open>
  Under the flipped convention the merged checks of a loop are silent: the accumulators start
  with all bits set, OR-ing never clears a bit, and the test at the exit looks for zero, so whatever
  the loop reads nothing is ever reported.
\<close>

theorem loop_coalescing_flip_silent:
  assumes "materializeCoalescedLoopChecks opts f LI Cs count = Ok (r, n)" and "0 < k"
    and "list_all (\<lambda>C. valid_ty (ShadowTyV C)) Cs" and "shadows_typed k f Cs vs"
  shows "\<not> exit_reports True r (fold (visit_block True k f LI r) vs (clean_acc True k)) L E"
proof -
  have "\<forall>K \<in> set (res_accs r). fold (visit_block True k f LI r) vs acc K = clean_acc True k K"
    if "\<forall>K \<in> set (res_accs r). acc K = clean_acc True k K" for acc
    using that assms(4)
  proof (induction vs arbitrary: acc)
    case (Cons v vs)
    have "shadows_typed k f Cs [v]" "shadows_typed k f Cs vs" using Cons.prems(2) by (simp_all add: shadows_typed_def)
    from Cons.IH [OF flip_visit [OF assms(1-3) this(1) Cons.prems(1)] this(2)] show ?case by simp
  qed simp
  from this [of "clean_acc True k"] have
    c: "fold (visit_block True k f LI r) vs (clean_acc True k) K = clean_acc True k K" if "K \<in> set (res_accs r)" for K
    using that by simp
  define acc where "acc = fold (visit_block True k f LI r) vs (clean_acc True k)"
  define st where "st = loop_phase1 f LI Cs"
  note col = collectedD [OF loop_phase1_collected, of f LI Cs, folded st_def]
  have res: "res_accs r = Acc st" "res_exits r = exit_checks f LI (AccsByLoop st)"
    using assms(1) by (auto simp: materializeCoalescedLoopChecks_def st_def [symmetric] Let_def split: if_splits prod.splits)
  have "ev \<rho> (exit_test True acc ks) = i1 False" if "(L, E, ks) \<in> set (res_exits r)" for ks \<rho>
  proof -
    have ks: "ks \<noteq> []" "set ks \<subseteq> set (res_accs r)" using that col(5) unfolding res in_exit_checks by blast+
    have n: "ev \<rho> (normalizeShadow True (snd K) (Const (acc K))) = i1 False" if "K \<in> set ks" for K
    proof -
      have K: "K \<in> set (res_accs r)" using that ks(2) by blast
      from acc_keys_typed [OF assms(1) this] obtain C where C: "isIntOrIntVectorTy (snd K)" "C \<in> set Cs" "snd K = ShadowTyV C" by blast
      then have "valid_ty (snd K)" using assms(3) by (simp add: list_all_iff)
      from flip_acc(2) [OF C(1) this assms(2), of \<rho> "fst K"] show ?thesis using c [OF K] by (simp add: acc_def)
    qed
    have "ev \<rho> (fold (\<lambda>K c. Or c (normalizeShadow True (snd K) (Const (acc K)))) Ks e) = i1 False"
      if "set Ks \<subseteq> set ks" and "ev \<rho> e = i1 False" for Ks e
      using that
    proof (induction Ks arbitrary: e)
      case (Cons K Ks)
      then have "ev \<rho> (Or e (normalizeShadow True (snd K) (Const (acc K)))) = i1 (False \<or> False)" by (intro ev_Or_i1 n) auto
      with Cons show ?case by simp
    qed simp
    from this [OF _ n, of "tl ks" "hd ks"] ks(1) show ?thesis by (cases ks) (auto simp: exit_test_def)
  qed
  then show ?thesis by (auto simp: exit_reports_def acc_def [symmetric] i1_def)
qed

theorem loop_coalescing_flip_silent_witness:
  "\<exists>r n. materializeCoalescedLoopChecks (example_opts\<lparr>flipped := True\<rparr>) loop_func loop_li example_requests 0 = Ok (r, n) \<and>
    \<not> exit_reports True r (fold (visit_block True 1 loop_func loop_li r) [(1, \<lambda>_. IntV 32 0), (0, \<lambda>_. IntV 32 0)] (clean_acc True 1)) 0 2"
proof -
  obtain r n where r: "materializeCoalescedLoopChecks (example_opts\<lparr>flipped := True\<rparr>) loop_func loop_li example_requests 0 = Ok (r, n)"
    by (simp add: materializeCoalescedLoopChecks_def loop_phase1_def loop_step_def deferrable_def example_requests_def example_opts_def
      loop_func_def loop_li_def loopFlushIsSound_def flushable_def block_isEHPad_def getFirstInsertionPt_def isBBBarrier_def
      accumulate_def Let_def)
  have "list_all (\<lambda>C. valid_ty (ShadowTyV C)) example_requests"
    "shadows_typed 1 loop_func example_requests [(1, \<lambda>_. IntV 32 0), (0, \<lambda>_. IntV 32 0)]"
    by (simp_all add: example_requests_def shadows_typed_def loop_func_def)
  from loop_coalescing_flip_silent [OF r zero_less_one this] r show ?thesis by blast
qed

end
