(* ===== verification/Worklist.thy ===== *)
theory Worklist
  imports Prelude
begin

text \<open>
  The worklist loops of the compiler pass, once for all: take the last element, visit it, which either
  ends the search with a result or names neighbours, and push those not seen before. A bound on the
  number of elements seen may end the search too. The loop ends on every finite graph, visits only
  what can be reached, and when it ends without a result it has seen everything that can be reached.
\<close>

section \<open>The loop\<close>

definition push_new :: "'a list \<Rightarrow> 'a list \<times> 'a list \<Rightarrow> 'a list \<times> 'a list" where
  "push_new = fold (\<lambda>n (seen, wl). if n \<in> set seen then (seen, wl) else (seen @ [n], wl @ [n]))"

text \<open>\<open>Inl r\<close> is a result, \<open>Inr seen\<close> the elements seen when nothing is left to visit.\<close>

partial_function (option) worklist ::
    "('a \<Rightarrow> 'r + 'a list) \<Rightarrow> ('a list \<Rightarrow> 'r option) \<Rightarrow> 'a list \<Rightarrow> 'a list \<Rightarrow> ('r + 'a list) option" where
  "worklist visit over seen wl =
    (if wl = [] then Some (Inr seen)
     else case visit (last wl) of
            Inl r \<Rightarrow> Some (Inl r)
          | Inr ns \<Rightarrow>
              let (seen', wl') = push_new ns (seen, butlast wl)
              in case over seen' of
                   Some r \<Rightarrow> Some (Inl r)
                 | None \<Rightarrow> worklist visit over seen' wl')"

declare worklist.simps [code]

lemma push_new_simps [simp]:
  "push_new [] p = p"
  "push_new (n # ns) (seen, wl) = push_new ns (if n \<in> set seen then (seen, wl) else (seen @ [n], wl @ [n]))"
  by (simp_all add: push_new_def)

section \<open>What it computes\<close>

text \<open>The elements reachable from a set through visits.\<close>

inductive_set reachable :: "('a \<Rightarrow> 'r + 'a list) \<Rightarrow> 'a set \<Rightarrow> 'a set" for visit :: "'a \<Rightarrow> 'r + 'a list" and A :: "'a set" where
  base: "x \<in> A \<Longrightarrow> x \<in> reachable visit A"
| step: "x \<in> reachable visit A \<Longrightarrow> visit x = Inr ns \<Longrightarrow> y \<in> set ns \<Longrightarrow> y \<in> reachable visit A"

lemma push_new_ok:
  assumes "push_new ns (seen, wl) = (seen', wl')"
  shows "set seen' = set seen \<union> set ns" and "\<exists>d. seen' = seen @ d \<and> wl' = wl @ d"
    and "distinct seen \<Longrightarrow> distinct seen'"
  using assms
proof (induction ns arbitrary: seen wl)
  case (Cons n ns)
  {
    case 1
    then show ?case using Cons.IH(1) by (auto split: if_splits)
  next
    case 2
    then show ?case
    proof (cases "n \<in> set seen")
      case False
      with 2 have "push_new ns (seen @ [n], wl @ [n]) = (seen', wl')" by simp
      from Cons.IH(2) [OF this] show ?thesis by auto
    qed (use Cons.IH(2) in auto)
  next
    case 3
    then show ?case using Cons.IH(3) [of seen wl] Cons.IH(3) [of "seen @ [n]" "wl @ [n]"] by (cases "n \<in> set seen") auto
  }
qed auto

text \<open>The invariant of the loop: everything seen is reachable, everything seen and no longer waiting is closed.\<close>

definition wl_inv :: "('a \<Rightarrow> 'r + 'a list) \<Rightarrow> 'a set \<Rightarrow> 'a list \<Rightarrow> 'a list \<Rightarrow> bool" where
  "wl_inv visit A seen wl \<longleftrightarrow> distinct seen \<and> A \<subseteq> set seen \<and> set seen \<subseteq> reachable visit A \<and> set wl \<subseteq> set seen \<and>
     (\<forall>x \<in> set seen - set wl. \<exists>ns. visit x = Inr ns \<and> set ns \<subseteq> set seen)"

lemma wl_inv_start: "distinct xs \<Longrightarrow> wl_inv visit (set xs) xs xs"
  by (auto simp: wl_inv_def intro: reachable.base)

lemma wl_inv_step:
  assumes inv: "wl_inv visit A seen wl" and "wl \<noteq> []" and v: "visit (last wl) = Inr ns"
    and p: "push_new ns (seen, butlast wl) = (seen', wl')"
  shows "wl_inv visit A seen' wl'"
proof -
  note ok = push_new_ok [OF p]
  obtain d where d: "seen' = seen @ d" "wl' = butlast wl @ d" using ok(2) by blast
  have wl: "set wl = insert (last wl) (set (butlast wl))" using assms(2) by (metis append_butlast_last_id list.set(2) rotate1.simps(2) set_rotate1)
  have r: "last wl \<in> reachable visit A" using inv wl unfolding wl_inv_def by blast
  have "set ns \<subseteq> reachable visit A" using reachable.step [OF r v] by blast
  moreover have "\<exists>ns'. visit x = Inr ns' \<and> set ns' \<subseteq> set seen'" if "x \<in> set seen' - set wl'" for x
  proof (cases "x = last wl")
    case True
    then show ?thesis using v ok(1) by auto
  next
    case False
    then have "x \<in> set seen - set wl" using that d wl by auto
    then obtain ns' where "visit x = Inr ns'" "set ns' \<subseteq> set seen" using inv unfolding wl_inv_def by blast
    then show ?thesis using d by auto
  qed
  moreover have "set wl' \<subseteq> set seen'" using inv wl d unfolding wl_inv_def by auto
  ultimately show ?thesis using inv ok(1,3) d unfolding wl_inv_def by auto
qed

lemma reachable_closed:
  assumes "A \<subseteq> S" and "\<And>x ns. x \<in> S \<Longrightarrow> visit x = Inr ns \<Longrightarrow> set ns \<subseteq> S"
  shows "reachable visit A \<subseteq> S"
proof
  fix x assume "x \<in> reachable visit A"
  then show "x \<in> S" by induction (use assms in blast)+
qed

lemma worklist_returns:
  assumes "finite U" and "reachable visit A \<subseteq> U" and "wl_inv visit A seen wl"
  shows "\<exists>res. worklist visit over seen wl = Some res \<and>
    (case res of
       Inl r \<Rightarrow> (\<exists>x \<in> reachable visit A. visit x = Inl r) \<or> (\<exists>s. over s = Some r \<and> set s \<subseteq> reachable visit A \<and> distinct s)
     | Inr S \<Rightarrow> distinct S \<and> set S = reachable visit A \<and> (\<forall>x \<in> set S. \<exists>ns. visit x = Inr ns))"
  using assms(3)
proof (induction "2 * (card U - card (set seen)) + length wl" arbitrary: seen wl rule: less_induct)
  case less
  note inv = less.prems
  show ?case
  proof (cases "wl = []")
    case True
    then have cl: "\<forall>x \<in> set seen. \<exists>ns. visit x = Inr ns \<and> set ns \<subseteq> set seen" using inv unfolding wl_inv_def by auto
    then have "reachable visit A \<subseteq> set seen" using inv unfolding wl_inv_def by (intro reachable_closed) fastforce+
    then show ?thesis using True inv cl unfolding wl_inv_def by (auto simp: worklist.simps [of visit over seen])
  next
    case False
    have lw: "last wl \<in> reachable visit A" using inv False last_in_set [OF False] unfolding wl_inv_def by blast
    show ?thesis
    proof (cases "visit (last wl)")
      case (Inl r)
      then show ?thesis using False lw by (auto simp: worklist.simps [of visit over seen])
    next
      case (Inr ns)
      obtain seen' wl' where p: "push_new ns (seen, butlast wl) = (seen', wl')" by fastforce
      note inv' = wl_inv_step [OF inv False Inr p]
      show ?thesis
      proof (cases "over seen'")
        case (Some r)
        then have "worklist visit over seen wl = Some (Inl r)" using False Inr p by (simp add: worklist.simps [of visit over seen])
        moreover have "set seen' \<subseteq> reachable visit A" "distinct seen'" using inv' unfolding wl_inv_def by blast+
        ultimately show ?thesis using Some by auto
      next
        case None
        then have e: "worklist visit over seen wl = worklist visit over seen' wl'"
          using False Inr p by (simp add: worklist.simps [of visit over seen])
        obtain d where d: "seen' = seen @ d" "wl' = butlast wl @ d" using push_new_ok(2) [OF p] by blast
        have "set seen' \<subseteq> U" "distinct seen'" using inv' assms(2) unfolding wl_inv_def by blast+
        then have "length seen' \<le> card U" using card_mono [OF assms(1), of "set seen'"] distinct_card [of seen'] by simp
        moreover have "card (set seen) = length seen" "card (set seen') = length seen'"
          using inv inv' distinct_card unfolding wl_inv_def by blast+
        moreover have "0 < length wl" using False by simp
        moreover have "length wl' = length wl - 1 + length d" "length seen' = length seen + length d" using d by simp_all
        ultimately have "2 * (card U - card (set seen')) + length wl' < 2 * (card U - card (set seen)) + length wl"
          by linarith
        from less.hyps [OF this inv'] show ?thesis unfolding e .
      qed
    qed
  qed
qed

text \<open>The form used by the clients.\<close>

lemma worklist_ok:
  assumes "finite (reachable visit (set xs))" and "distinct xs"
  obtains (result) r where "worklist visit over xs xs = Some (Inl r)"
      and "(\<exists>x \<in> reachable visit (set xs). visit x = Inl r) \<or> (\<exists>s. over s = Some r \<and> set s \<subseteq> reachable visit (set xs) \<and> distinct s)"
    | (all) S where "worklist visit over xs xs = Some (Inr S)" and "distinct S" and "set S = reachable visit (set xs)"
      and "\<forall>x \<in> set S. \<exists>ns. visit x = Inr ns"
proof -
  from worklist_returns [OF assms(1) order_refl wl_inv_start [OF assms(2)], of over]
  obtain res where res: "worklist visit over xs xs = Some res" and
    c: "case res of
       Inl r \<Rightarrow> (\<exists>x \<in> reachable visit (set xs). visit x = Inl r) \<or> (\<exists>s. over s = Some r \<and> set s \<subseteq> reachable visit (set xs) \<and> distinct s)
     | Inr S \<Rightarrow> distinct S \<and> set S = reachable visit (set xs) \<and> (\<forall>x \<in> set S. \<exists>ns. visit x = Inr ns)" by blast
  show thesis
  proof (cases res)
    case (Inl r)
    then show thesis using res c by (intro result [of r]) auto
  next
    case (Inr S)
    then show thesis using res c by (intro all [of S]) auto
  qed
qed

end
