(* ===== verification/Pass_Sinks.thy ===== *)
theory Pass_Sinks
  imports Pass_Loops Worklist
begin

text \<open>
  The compiler pass, sixth part: moving the check of a loaded value to the instruction that uses it
  (\<^verbatim>\<open>findSinkFor\<close>, \<^verbatim>\<open>guaranteedPathHasBarrier\<close>). The search for the use and the search for a barrier on
  the way are the worklist loops of the source; LLVM's post-dominator tree is the argument
  \<open>dominates\<close>.
\<close>

section \<open>A barrier on the way\<close>

definition block_visit :: "func \<Rightarrow> nat \<Rightarrow> nat \<Rightarrow> bool + nat list" where
  "block_visit f SBB B =
    (if list_ex (isBBBarrier f) (blocks f B) then Inl True else Inr (filter (\<lambda>S. S \<noteq> SBB) (succs f B)))"

text \<open>\<^term>\<open>None\<close>: the loop does not end; it always does on a finite function.\<close>

definition guaranteedPathHasBarrier :: "func \<Rightarrow> nat \<Rightarrow> nat \<Rightarrow> bool option" where
  "guaranteedPathHasBarrier f Ld Sink =
    (let LBB = parent f Ld; SBB = parent f Sink
     in if LBB = SBB then Some (list_ex (isBBBarrier f) (takeWhile (\<lambda>i. i \<noteq> Sink) (nodes_after f Ld)))
        else if list_ex (isBBBarrier f) (nodes_after f Ld) then Some True
        else (let (seen, wl) = push_new (filter (\<lambda>S. S \<noteq> SBB) (succs f LBB)) ([], [])
              in case worklist (block_visit f SBB) (\<lambda>_. None) seen wl of
                   None \<Rightarrow> None
                 | Some (Inl b) \<Rightarrow> Some b
                 | Some (Inr _) \<Rightarrow> Some (list_ex (isBBBarrier f) (takeWhile (\<lambda>i. i \<noteq> Sink) (blocks f SBB)))))"

section \<open>The sink of a load\<close>

datatype use_class = Candidate | Follow | Ignore

text \<open>What a use \<open>UI\<close> of the value \<open>V\<close> is: a possible sink, an instruction to look through, or neither.\<close>

fun call_use :: "intrinsic \<Rightarrow> val \<Rightarrow> val list \<Rightarrow> val \<Rightarrow> use_class" where
  "call_use ic callee args V =
    (if isMemIntrinsic ic then Ignore
     else if (case callee of VGlobal g \<Rightarrow> take 8 g = ''__cqmsan'' | _ \<Rightarrow> False) then Ignore
     else if V \<in> set args then Candidate else Ignore)"

fun classify_use :: "val \<Rightarrow> inst \<Rightarrow> use_class" where
  "classify_use V (LoadI p) = (if p = V then Candidate else Ignore)"
| "classify_use V (StoreI v p) = (if p = V then Candidate else Ignore)"
| "classify_use V (RetI r) = (if r = Some V then Candidate else Ignore)"
| "classify_use V (BrI c) = (if c = Some V then Candidate else Ignore)"
| "classify_use V (SwitchI c) = (if c = V then Candidate else Ignore)"
| "classify_use V (BinI b x y) = (if b \<in> {BSDiv, BUDiv, BSRem, BURem} \<and> y = V then Candidate else Follow)"
| "classify_use V (CallI fm ic callee args) = call_use ic callee args V"
| "classify_use V (CastI c x) = Follow"
| "classify_use V (GepI p is) = Follow"
| "classify_use V (ICmpI x y) = Follow"
| "classify_use V (FCmpI x y) = Follow"
| "classify_use V (ExtractValueI x) = Follow"
| "classify_use V (InsertValueI x y) = Follow"
| "classify_use V (ExtractElementI x y) = Follow"
| "classify_use V (InsertElementI x y z) = Follow"
| "classify_use V (ShuffleVectorI x y) = Follow"
| "classify_use V (UnI x) = Follow"
| "classify_use V (FreezeI x) = Follow"
| "classify_use V _ = Ignore"

text \<open>\<open>past\<close> is \<^verbatim>\<open>ClSinkPastBarriers\<close>, \<open>dominates a b\<close> the post-dominator tree's answer.\<close>

definition accept_sink :: "bool \<Rightarrow> (nat \<Rightarrow> nat \<Rightarrow> bool) \<Rightarrow> func \<Rightarrow> loop_info \<Rightarrow> nat \<Rightarrow> nat \<Rightarrow> bool" where
  "accept_sink past dominates f LI Ld cand \<longleftrightarrow>
    (let LBB = parent f Ld; CBB = parent f cand
     in \<not> isPHI (body f cand) \<and> \<not> isTerminator (body f cand) \<and> getLoopFor LI CBB = getLoopFor LI LBB \<and>
        (if CBB = LBB then comesBefore f Ld cand else dominates CBB LBB) \<and>
        (past \<or> guaranteedPathHasBarrier f Ld cand = Some False))"

text \<open>The loop over the users of one value: the first accepted sink, or the users to look through.\<close>

fun scan_users ::
    "bool \<Rightarrow> (nat \<Rightarrow> nat \<Rightarrow> bool) \<Rightarrow> func \<Rightarrow> loop_info \<Rightarrow> nat \<Rightarrow> nat \<Rightarrow> nat option list \<Rightarrow> nat list \<Rightarrow> nat + nat list" where
  "scan_users past dominates f LI Ld V [] fs = Inr fs"
| "scan_users past dominates f LI Ld V (None # us) fs = scan_users past dominates f LI Ld V us fs"
| "scan_users past dominates f LI Ld V (Some UI # us) fs =
    (case classify_use (VInst V) (body f UI) of
       Follow \<Rightarrow> scan_users past dominates f LI Ld V us (fs @ [UI])
     | Candidate \<Rightarrow> if accept_sink past dominates f LI Ld UI then Inl UI
                    else scan_users past dominates f LI Ld V us fs
     | Ignore \<Rightarrow> scan_users past dominates f LI Ld V us fs)"

definition findSinkFor :: "bool \<Rightarrow> (nat \<Rightarrow> nat \<Rightarrow> bool) \<Rightarrow> func \<Rightarrow> loop_info \<Rightarrow> nat \<Rightarrow> nat option option" where
  "findSinkFor past dominates f LI Ld =
    map_option (\<lambda>r. case r of Inl S \<Rightarrow> Some S | Inr _ \<Rightarrow> None)
      (worklist (\<lambda>V. scan_users past dominates f LI Ld V (users f (VInst V)) []) (\<lambda>_. None) [Ld] [Ld])"

text \<open>The step of \<^verbatim>\<open>runOnFunction\<close> that moves the deferrable checks of loads to their sinks.\<close>

definition sink_check :: "bool \<Rightarrow> (nat \<Rightarrow> nat \<Rightarrow> bool) \<Rightarrow> func \<Rightarrow> loop_info \<Rightarrow> ShadowAndInsertPoint \<Rightarrow> ShadowAndInsertPoint" where
  "sink_check past dominates f LI C =
    (if Essential C then C
     else case body f (OrigIns C) of
            LoadI p \<Rightarrow> (case findSinkFor past dominates f LI (OrigIns C) of
                          Some (Some S) \<Rightarrow> C\<lparr>OrigIns := S\<rparr>
                        | _ \<Rightarrow> C)
          | _ \<Rightarrow> C)"

definition sink_checks ::
    "bool \<Rightarrow> (nat \<Rightarrow> nat \<Rightarrow> bool) \<Rightarrow> func \<Rightarrow> loop_info \<Rightarrow> ShadowAndInsertPoint list \<Rightarrow> ShadowAndInsertPoint list" where
  "sink_checks past dominates f LI Cs = groupByOrigIns (map (sink_check past dominates f LI) Cs)"

section \<open>Executions\<close>

text \<open>
  An execution that has run the load and ends: the blocks it visits from the load's on, and the
  instruction at which it ends, one that does not pass control on.
\<close>

definition ends_at :: "func \<Rightarrow> nat \<Rightarrow> nat list \<Rightarrow> nat \<Rightarrow> bool" where
  "ends_at f Ld path q \<longleftrightarrow> path \<noteq> [] \<and> hd path = parent f Ld \<and>
     (\<forall>i. Suc i < length path \<longrightarrow> path ! Suc i \<in> set (succs f (path ! i))) \<and>
     q \<in> set (blocks f (last path)) \<and> isBBBarrier f q \<and> (length path = 1 \<longrightarrow> pos f Ld < pos f q)"

text \<open>The execution runs the instruction \<open>S\<close> after the load.\<close>

definition runs :: "func \<Rightarrow> nat \<Rightarrow> nat list \<Rightarrow> nat \<Rightarrow> nat \<Rightarrow> bool" where
  "runs f Ld path q S \<longleftrightarrow> (\<exists>i < length path. path ! i = parent f S \<and> (i = 0 \<longrightarrow> pos f Ld < pos f S) \<and>
     (Suc i = length path \<longrightarrow> pos f S \<le> pos f q))"

definition finite_func :: "func \<Rightarrow> nat set \<Rightarrow> bool" where
  "finite_func f U \<longleftrightarrow> finite U \<and> (\<forall>b \<in> U. set (succs f b) \<subseteq> U \<and> wf_block f b)"

lemma finite_funcD:
  assumes "finite_func f U"
  shows "finite U" and "b \<in> U \<Longrightarrow> set (succs f b) \<subseteq> U" and "b \<in> U \<Longrightarrow> wf_block f b"
  using assms unfolding finite_func_def by blast+

lemma push_new_start:
  assumes "push_new ns ([], []) = (seen, wl)"
  shows "wl = seen" and "distinct seen" and "set seen = set ns"
  using push_new_ok [OF assms] by auto

lemma block_reachable:
  assumes U: "finite_func f U" and "A \<subseteq> U"
  shows "reachable (block_visit f SBB) A \<subseteq> U"
  using assms(2)
proof (rule reachable_closed)
  fix x ns assume "x \<in> U" "block_visit f SBB x = Inr ns"
  then show "set ns \<subseteq> U" using finite_funcD(2) [OF U, of x] by (auto simp: block_visit_def split: if_splits)
qed

lemma path_barrier_decided:
  assumes U: "finite_func f U" and L: "parent f Ld \<in> U"
  shows "\<exists>b. guaranteedPathHasBarrier f Ld Sink = Some b"
proof -
  obtain seen wl where p: "push_new (filter (\<lambda>S. S \<noteq> parent f Sink) (succs f (parent f Ld))) ([], []) = (seen, wl)" by fastforce
  note s = push_new_start [OF p]
  have "set seen \<subseteq> U" using finite_funcD(2) [OF U L] unfolding s(3) by auto
  then have fin: "finite (reachable (block_visit f (parent f Sink)) (set seen))"
    by (rule finite_subset [OF block_reachable [OF U] finite_funcD(1) [OF U]])
  show ?thesis
    by (rule worklist_ok [OF fin s(2), of "\<lambda>_. None"])
       (auto simp: guaranteedPathHasBarrier_def Let_def p s(1) split: option.splits)
qed

text \<open>What the answer "no barrier" means.\<close>

lemma no_barrier_across:
  assumes U: "finite_func f U" and L: "parent f Ld \<in> U" and ne: "parent f Ld \<noteq> parent f Sink"
    and g: "guaranteedPathHasBarrier f Ld Sink = Some False"
  shows "\<forall>i \<in> set (nodes_after f Ld). \<not> isBBBarrier f i"
    and "\<forall>i \<in> set (takeWhile (\<lambda>i. i \<noteq> Sink) (blocks f (parent f Sink))). \<not> isBBBarrier f i"
    and "\<exists>R. set (succs f (parent f Ld)) - {parent f Sink} \<subseteq> R \<and>
      (\<forall>b \<in> R. (\<forall>i \<in> set (blocks f b). \<not> isBBBarrier f i) \<and> set (succs f b) - {parent f Sink} \<subseteq> R)"
proof -
  let ?v = "block_visit f (parent f Sink)"
  obtain seen wl where p: "push_new (filter (\<lambda>S. S \<noteq> parent f Sink) (succs f (parent f Ld))) ([], []) = (seen, wl)" by fastforce
  note s = push_new_start [OF p]
  have "set seen \<subseteq> U" using finite_funcD(2) [OF U L] unfolding s(3) by auto
  then have fin: "finite (reachable ?v (set seen))"
    by (rule finite_subset [OF block_reachable [OF U] finite_funcD(1) [OF U]])
  show 1: "\<forall>i \<in> set (nodes_after f Ld). \<not> isBBBarrier f i"
    using g ne by (auto simp: guaranteedPathHasBarrier_def Let_def list_ex_iff split: if_splits)
  have v: "?v x = Inl r \<Longrightarrow> r" for x r by (auto simp: block_visit_def split: if_splits)
  obtain S where S: "worklist ?v (\<lambda>_. None) seen seen = Some (Inr S)" "set S = reachable ?v (set seen)" "\<forall>x \<in> set S. \<exists>ns. ?v x = Inr ns"
  proof (rule worklist_ok [OF fin s(2), of "\<lambda>_. None"])
    fix r assume "worklist ?v (\<lambda>_. None) seen seen = Some (Inl r)"
      "(\<exists>x \<in> reachable ?v (set seen). ?v x = Inl r) \<or> (\<exists>s'. (None :: bool option) = Some r \<and> set s' \<subseteq> reachable ?v (set seen) \<and> distinct s')"
    then have "guaranteedPathHasBarrier f Ld Sink = Some True" using ne 1 p s(1) v
      by (auto simp: guaranteedPathHasBarrier_def Let_def list_ex_iff)
    then show ?thesis using g by simp
  qed (rule that)
  show "\<forall>i \<in> set (takeWhile (\<lambda>i. i \<noteq> Sink) (blocks f (parent f Sink))). \<not> isBBBarrier f i"
    using g ne 1 p s(1) S(1) by (auto simp: guaranteedPathHasBarrier_def Let_def list_ex_iff)
  have "(\<forall>i \<in> set (blocks f b). \<not> isBBBarrier f i) \<and> set (succs f b) - {parent f Sink} \<subseteq> set S" if "b \<in> set S" for b
  proof -
    from bspec [OF S(3) that] obtain ns where ns: "?v b = Inr ns" ..
    have r: "b \<in> reachable ?v (set seen)" using that S(2) by simp
    have "set ns \<subseteq> set S" using reachable.step [OF r ns] by (auto simp: S(2))
    then show ?thesis using ns by (auto simp: block_visit_def list_ex_iff split: if_splits)
  qed
  moreover have "set (succs f (parent f Ld)) - {parent f Sink} \<subseteq> set S" using s(3) by (auto simp: S(2) intro: reachable.base)
  ultimately show "\<exists>R. set (succs f (parent f Ld)) - {parent f Sink} \<subseteq> R \<and>
      (\<forall>b \<in> R. (\<forall>i \<in> set (blocks f b). \<not> isBBBarrier f i) \<and> set (succs f b) - {parent f Sink} \<subseteq> R)" by blast
qed


section \<open>The sink is reached\<close>

lemma first_at:
  assumes "x \<in> set xs"
  obtains i where "i < length xs" and "xs ! i = x" and "\<And>j. j < i \<Longrightarrow> xs ! j \<noteq> x"
proof -
  have "\<exists>i. i < length xs \<and> xs ! i = x" using assms by (simp add: in_set_conv_nth)
  from exists_least_iff [THEN iffD1, OF this] show thesis using that by (metis order_less_trans)
qed

lemma before_sink:
  assumes wf: "wf_block f b" and S: "S \<in> set (blocks f b)" and q: "q \<in> set (blocks f b)" "isBBBarrier f q"
    and no: "\<forall>i \<in> set (takeWhile (\<lambda>i. i \<noteq> S) (drop k (blocks f b))). \<not> isBBBarrier f i" and k: "k \<le> pos f q" "k \<le> pos f S"
  shows "pos f S \<le> pos f q"
proof (rule ccontr)
  assume "\<not> pos f S \<le> pos f q"
  then have lt: "pos f q < pos f S" by simp
  let ?B = "blocks f b"
  have len: "pos f S < length ?B" by (rule pos_less [OF wf S])
  have "takeWhile (\<lambda>i. i \<noteq> S) (drop k ?B) = take (pos f S - k) (drop k ?B)"
  proof (rule takeWhile_eq_take_P_nth)
    fix i assume i: "i < pos f S - k" "i < length (drop k ?B)"
    then have "pos f (?B ! (k + i)) = k + i" using len by (intro pos_nth [OF wf]) simp
    then have "?B ! (k + i) \<noteq> S" using i by auto
    then show "drop k ?B ! i \<noteq> S" using i by simp
  next
    show "\<not> drop k ?B ! (pos f S - k) \<noteq> S" using k(2) len nth_pos [OF wf S] by simp
  qed
  moreover have "q = take (pos f S - k) (drop k ?B) ! (pos f q - k)" using k lt len nth_pos [OF wf q(1)] by simp
  moreover have "pos f q - k < length (take (pos f S - k) (drop k ?B))" using k lt len by simp
  ultimately have "q \<in> set (takeWhile (\<lambda>i. i \<noteq> S) (drop k ?B))" by (metis nth_mem)
  then show False using no q(2) by blast
qed

lemma sink_reached:
  assumes U: "finite_func f U" and L: "parent f Ld \<in> U" "Ld \<in> set (blocks f (parent f Ld))"
    and S: "parent f S \<in> U" "S \<in> set (blocks f (parent f S))"
    and same: "parent f S = parent f Ld \<Longrightarrow> comesBefore f Ld S"
    and g: "guaranteedPathHasBarrier f Ld S = Some False" and e: "ends_at f Ld path q"
  shows "runs f Ld path q S"
proof -
  have ne: "path \<noteq> []" and hd: "path ! 0 = parent f Ld" and st: "\<And>i. Suc i < length path \<Longrightarrow> path ! Suc i \<in> set (succs f (path ! i))"
    and q: "q \<in> set (blocks f (last path))" "isBBBarrier f q" and one: "length path = 1 \<Longrightarrow> pos f Ld < pos f q"
    using e by (auto simp: ends_at_def hd_conv_nth)
  note wfL = finite_funcD(3) [OF U L(1)] and wfS = finite_funcD(3) [OF U S(1)]
  show ?thesis
  proof (cases "parent f Ld = parent f S")
    case True
    have "pos f S \<le> pos f q" if "length path = 1"
    proof (rule before_sink [OF wfS S(2), where k = "Suc (pos f Ld)"])
      show "q \<in> set (blocks f (parent f S))" using q(1) that hd True by (cases path) auto
      show "\<forall>i \<in> set (takeWhile (\<lambda>i. i \<noteq> S) (drop (Suc (pos f Ld)) (blocks f (parent f S)))). \<not> isBBBarrier f i"
        using g True by (simp add: guaranteedPathHasBarrier_def Let_def list_ex_iff nodes_after_def)
    qed (use q(2) one that same True in \<open>auto simp: comesBefore_def\<close>)
    then show ?thesis using ne hd True same unfolding runs_def by (intro exI [of _ 0]) (auto simp: comesBefore_def)
  next
    case False
    note nb = no_barrier_across [OF U L(1) False g]
    obtain R where R: "set (succs f (parent f Ld)) - {parent f S} \<subseteq> R"
      "\<And>b. b \<in> R \<Longrightarrow> (\<forall>i \<in> set (blocks f b). \<not> isBBBarrier f i) \<and> set (succs f b) - {parent f S} \<subseteq> R" using nb(3) by blast
    have two: "length path \<noteq> 1"
    proof
      assume l: "length path = 1"
      then have "q \<in> set (blocks f (parent f Ld))" using q(1) hd by (cases path) auto
      then have "q = blocks f (parent f Ld) ! pos f q" "pos f q < length (blocks f (parent f Ld))"
        using nth_pos [OF wfL] pos_less [OF wfL] by auto
      then have "q \<in> set (nodes_after f Ld)" using one [OF l] unfolding nodes_after_def in_set_conv_nth
        by (intro exI [of _ "pos f q - Suc (pos f Ld)"]) auto
      then show False using nb(1) q(2) by blast
    qed
    have inR: "path ! i \<in> R" if "0 < i" "i < length path" "\<And>j. 0 < j \<Longrightarrow> j \<le> i \<Longrightarrow> path ! j \<noteq> parent f S" for i
      using that
    proof (induction i)
      case (Suc i)
      show ?case
      proof (cases "i = 0")
        case True
        then show ?thesis using st [of 0] Suc.prems hd R(1) by auto
      next
        case i: False
        have "path ! i \<in> R" using Suc.IH i Suc.prems by auto
        then show ?thesis using R(2) [of "path ! i"] st [of i] Suc.prems by auto
      qed
    qed simp
    have "\<exists>i. 0 < i \<and> i < length path \<and> path ! i = parent f S"
    proof (rule ccontr)
      assume no: "\<not> ?thesis"
      have "length path - 1 < length path" "0 < length path - 1" using ne two by (cases path; cases "tl path"; auto)+
      moreover from this have "path ! j \<noteq> parent f S" if "0 < j" "j \<le> length path - 1" for j
        using no that by (metis order_le_less_trans)
      ultimately have "path ! (length path - 1) \<in> R" by (intro inR)
      then have "last path \<in> R" using ne by (simp add: last_conv_nth)
      then show False using R(2) q by blast
    qed
    then obtain i where i: "0 < i" "i < length path" "path ! i = parent f S" by blast
    have "pos f S \<le> pos f q" if "Suc i = length path"
    proof (rule before_sink [OF wfS S(2), where k = 0])
      have "last path = path ! i" using that ne by (metis diff_Suc_1 last_conv_nth)
      then show "q \<in> set (blocks f (parent f S))" using q(1) i(3) by simp
    qed (use q(2) nb(2) in auto)
    then show ?thesis using i unfolding runs_def by auto
  qed
qed


section \<open>The search\<close>

lemma scan_Inl:
  "scan_users past dominates f LI Ld V us fs = Inl S \<Longrightarrow>
   Some S \<in> set us \<and> classify_use (VInst V) (body f S) = Candidate \<and> accept_sink past dominates f LI Ld S"
  by (induction past dominates f LI Ld V us fs rule: scan_users.induct) (auto split: use_class.splits if_splits)

lemma scan_Inr:
  "scan_users past dominates f LI Ld V us fs = Inr ns \<Longrightarrow> x \<in> set ns \<Longrightarrow>
   x \<in> set fs \<or> Some x \<in> set us \<and> classify_use (VInst V) (body f x) = Follow"
proof (induction us arbitrary: fs)
  case (Cons u us)
  show ?case
  proof (cases u)
    case None
    then show ?thesis using Cons by auto
  next
    case (Some UI)
    show ?thesis
    proof (cases "classify_use (VInst V) (body f UI)")
      case Candidate
      then show ?thesis using Cons Some by (auto split: if_splits)
    next
      case Follow
      then have "scan_users past dominates f LI Ld V us (fs @ [UI]) = Inr ns" using Cons.prems(1) Some by simp
      from Cons.IH [OF this Cons.prems(2)] show ?thesis using Follow Some by auto
    next
      case Ignore
      then show ?thesis using Cons Some by auto
    qed
  qed
qed simp

text \<open>The values computed from a load through the instructions the search looks through.\<close>

inductive derived :: "func \<Rightarrow> nat \<Rightarrow> nat \<Rightarrow> bool" for f :: func and Ld :: nat where
  load: "derived f Ld Ld"
| through: "derived f Ld V \<Longrightarrow> Some UI \<in> set (users f (VInst V)) \<Longrightarrow> classify_use (VInst V) (body f UI) = Follow \<Longrightarrow>
    derived f Ld UI"

definition finite_users :: "func \<Rightarrow> nat set \<Rightarrow> nat set \<Rightarrow> bool" where
  "finite_users f U I \<longleftrightarrow> finite I \<and> (\<forall>i \<in> I. parent f i \<in> U \<and> i \<in> set (blocks f (parent f i)) \<and>
     (\<forall>u. Some u \<in> set (users f (VInst i)) \<longrightarrow> u \<in> I))"

lemma findSinkFor_ok:
  assumes I: "finite_users f U I" and Ld: "Ld \<in> I"
  shows "\<exists>r. findSinkFor past dominates f LI Ld = Some r \<and>
    (\<forall>S. r = Some S \<longrightarrow> S \<in> I \<and> accept_sink past dominates f LI Ld S \<and>
      (\<exists>V. derived f Ld V \<and> Some S \<in> set (users f (VInst V)) \<and> classify_use (VInst V) (body f S) = Candidate))"
proof -
  let ?v = "\<lambda>V. scan_users past dominates f LI Ld V (users f (VInst V)) []"
  have sub: "reachable ?v {Ld} \<subseteq> {V \<in> I. derived f Ld V}"
  proof (rule reachable_closed)
    show "{Ld} \<subseteq> {V \<in> I. derived f Ld V}" using Ld derived.load by simp
    fix x ns assume x: "x \<in> {V \<in> I. derived f Ld V}" and ns: "?v x = Inr ns"
    show "set ns \<subseteq> {V \<in> I. derived f Ld V}"
    proof
      fix u assume "u \<in> set ns"
      then have u: "Some u \<in> set (users f (VInst x))" "classify_use (VInst x) (body f u) = Follow" using scan_Inr [OF ns \<open>u \<in> set ns\<close>] by simp_all
      have "u \<in> I" using I x u(1) unfolding finite_users_def by blast
      moreover have "derived f Ld u" using derived.through [of f Ld x u] x u by blast
      ultimately show "u \<in> {V \<in> I. derived f Ld V}" by blast
    qed
  qed
  have "finite I" using I by (simp add: finite_users_def)
  then have fin: "finite (reachable ?v (set [Ld]))" using sub by (auto intro: finite_subset)
  show ?thesis
  proof (rule worklist_ok [OF fin, of "\<lambda>_. None"])
    show "distinct [Ld]" by simp
  next
    fix S assume w: "worklist ?v (\<lambda>_. None) [Ld] [Ld] = Some (Inl S)"
      and "(\<exists>x \<in> reachable ?v (set [Ld]). ?v x = Inl S) \<or> (\<exists>s. (None :: nat option) = Some S \<and> set s \<subseteq> reachable ?v (set [Ld]) \<and> distinct s)"
    then obtain V where V: "V \<in> reachable ?v {Ld}" "?v V = Inl S" by auto
    have s: "Some S \<in> set (users f (VInst V))" "classify_use (VInst V) (body f S) = Candidate" "accept_sink past dominates f LI Ld S"
      using scan_Inl [OF V(2)] by blast+
    have d: "V \<in> I" "derived f Ld V" using V(1) sub by blast+
    then have "S \<in> I" using I s(1) unfolding finite_users_def by blast
    then show ?thesis using w s d by (auto simp: findSinkFor_def)
  next
    fix S assume "worklist ?v (\<lambda>_. None) [Ld] [Ld] = Some (Inr S)"
    then show ?thesis by (simp add: findSinkFor_def)
  qed
qed

section \<open>Properties\<close>

text \<open>
  C35: moving the check of a load is safe. The search for a sink ends on every finite function; a
  sink it returns is an instruction that is not a terminator and consumes a value computed from the
  load; and every execution that runs the load and ends, by a return or at any instruction that
  does not pass control on, has run the sink after the load.
\<close>

theorem sink_deferral_live:
  assumes "finite_func f U" and "finite_users f U I" and "Ld \<in> I"
  shows "\<exists>r. findSinkFor False dominates f LI Ld = Some r \<and>
    (\<forall>S. r = Some S \<longrightarrow> \<not> isTerminator (body f S) \<and>
      (\<exists>V. derived f Ld V \<and> classify_use (VInst V) (body f S) = Candidate) \<and>
      (\<forall>path q. ends_at f Ld path q \<longrightarrow> runs f Ld path q S))"
proof -
  obtain r where r: "findSinkFor False dominates f LI Ld = Some r" and
    ok: "\<And>S. r = Some S \<Longrightarrow> S \<in> I \<and> accept_sink False dominates f LI Ld S \<and>
      (\<exists>V. derived f Ld V \<and> Some S \<in> set (users f (VInst V)) \<and> classify_use (VInst V) (body f S) = Candidate)"
    using findSinkFor_ok [OF assms(2,3)] by blast
  have place: "parent f i \<in> U" "i \<in> set (blocks f (parent f i))" if "i \<in> I" for i
    using assms(2) that unfolding finite_users_def by blast+
  have "runs f Ld path q S" if "r = Some S" "ends_at f Ld path q" for S path q
  proof (rule sink_reached [OF assms(1) place [OF assms(3)] place, OF _ _ _ _ that(2)])
    show "S \<in> I" "S \<in> I" using ok that(1) by blast+
    show "guaranteedPathHasBarrier f Ld S = Some False" using ok [OF that(1)] by (simp add: accept_sink_def Let_def)
    show "comesBefore f Ld S" if "parent f S = parent f Ld" using ok [OF \<open>r = Some S\<close>] that by (simp add: accept_sink_def Let_def)
  qed
  moreover have "\<not> isTerminator (body f S)" if "r = Some S" for S using ok [OF that] by (simp add: accept_sink_def Let_def)
  ultimately show ?thesis using r ok by blast
qed


text \<open>A load, a cast of it, a branch around an empty block, and a call that takes the value.\<close>

definition sink_func :: func where
  "sink_func = \<lparr>body = (\<lambda>i. [LoadI (VArg 0), CastI OtherCast (VInst 0), BrI (Some (VArg 1)), BrI None,
       CallI PlainCall NotIntrinsic (VGlobal ''use'') [VInst 1], RetI None] ! i),
     ity = (\<lambda>_. IntegerTy 32), blocks = (\<lambda>b. if b = 0 then [0, 1, 2] else if b = 1 then [3] else [4, 5]),
     parent = (\<lambda>i. if i < 3 then 0 else if i = 3 then 1 else 2),
     succs = (\<lambda>b. if b = 0 then [1, 2] else if b = 1 then [2] else []),
     users = (\<lambda>v. if v = VInst 0 then [Some 1] else if v = VInst 1 then [Some 4] else []), nosanitize = (\<lambda>_. False),
     transfers = (\<lambda>i. i < 4)\<rparr>"

definition no_loops :: loop_info where
  "no_loops = \<lparr>getLoopFor = (\<lambda>_. None), loop_blocks = (\<lambda>_. []), getLoopPreheader = (\<lambda>_. None), getExitBlocks = (\<lambda>_. [])\<rparr>"

theorem sink_deferral_live_witness:
  "findSinkFor False (\<lambda>a b. a = 2) sink_func no_loops 0 = Some (Some 4) \<and> runs sink_func 0 [0, 1, 2] 4 4"
proof -
  have f: "finite_func sink_func {0, 1, 2}" "finite_users sink_func {0, 1, 2} {0, 1, 2, 3, 4, 5}"
    by (auto simp: finite_func_def finite_users_def sink_func_def wf_block_def)
  have s: "findSinkFor False (\<lambda>a b. a = 2) sink_func no_loops 0 = Some (Some 4)" by code_simp
  have "ends_at sink_func 0 [0, 1, 2] 4"
    by (auto simp: ends_at_def sink_func_def isBBBarrier_def less_Suc_eq)
  then show ?thesis using sink_deferral_live [OF f, of 0 "\<lambda>a b. a = 2" no_loops] s by auto
qed

text \<open>
  The check moves with the value, so it sees the last one only. In the loop
  \<^verbatim>\<open>do { x = *p; if (c) continue; use (x); } while (d)\<close> the use is reached whenever the load runs, but
  an iteration that continues early discards its value: the check at the load reports an
  uninitialised read there, the moved check does not.
\<close>

definition skip_func :: func where
  "skip_func = \<lparr>body = (\<lambda>i. [LoadI (VArg 0), LoadI (VArg 9), BrI (Some (VArg 1)),
       CallI PlainCall NotIntrinsic (VGlobal ''use'') [VInst 0], BrI (Some (VArg 2)), RetI None] ! i),
     ity = (\<lambda>_. IntegerTy 32), blocks = (\<lambda>b. if b = 0 then [0, 1, 2] else if b = 1 then [3, 4] else [5]),
     parent = (\<lambda>i. if i < 3 then 0 else if i < 5 then 1 else 2),
     succs = (\<lambda>b. if b = 0 then [0, 1] else if b = 1 then [0, 2] else []),
     users = (\<lambda>v. if v = VInst 0 then [Some 3] else []), nosanitize = (\<lambda>_. False), transfers = (\<lambda>i. i < 5)\<rparr>"

definition skip_loops :: loop_info where
  "skip_loops = \<lparr>getLoopFor = (\<lambda>b. if b < 2 then Some 0 else None), loop_blocks = (\<lambda>_. [0, 1]),
     getLoopPreheader = (\<lambda>_. None), getExitBlocks = (\<lambda>_. [2])\<rparr>"

definition skip_request :: "ShadowAndInsertPoint list" where
  "skip_request = [\<lparr>ShadowTyV = IntegerTy 32, ShadowV = Val 1, OrigIns = 0, Essential = False\<rparr>]"

theorem sink_drops_iteration:
  "(\<forall>i < 3. [0, 0, 1, 2] ! Suc i \<in> set (succs skip_func ([0, 0, 1, 2] ! i))) \<and>
   reports example_env skip_func 0 None (\<lambda>_. IntV 32 1) (fst (materializeChecksLegacy example_opts skip_func skip_request 0)) \<and>
   (\<forall>b. \<not> reports example_env skip_func b None (if b = 0 then (\<lambda>_. IntV 32 1) else (\<lambda>_. IntV 32 0))
     (fst (materializeChecksLegacy example_opts skip_func (sink_checks False (\<lambda>a b. a = 1) skip_func skip_loops skip_request) 0)))"
proof -
  have p: "\<forall>i < 3. [0, 0, 1, 2] ! Suc i \<in> set (succs skip_func ([0, 0, 1, 2] ! i))"
    by (auto simp: skip_func_def less_Suc_eq numeral_eq_Suc)
  have a: "fst (materializeChecksLegacy example_opts skip_func skip_request 0) = [(2, BranchToWarning (ICmpNE0 (Val 1)))]" by code_simp
  have b: "fst (materializeChecksLegacy example_opts skip_func (sink_checks False (\<lambda>a b. a = 1) skip_func skip_loops skip_request) 0) =
      [(3, BranchToWarning (ICmpNE0 (Val 1)))]" by code_simp
  show ?thesis unfolding a b
    using p by (auto simp: reports_def reached_def skip_func_def i1_def)
qed

end
