(* ===== verification/Pass_Slice.thy ===== *)
theory Pass_Slice
  imports Pass_Sinks
begin

text \<open>
  The compiler pass, seventh part: the analyses that decide which values need a shadow. The undef
  slice (\<^verbatim>\<open>computeUndefSlice\<close>, \<^verbatim>\<open>handleUndefSliceInst\<close>, \<^verbatim>\<open>checkUndefSliceSinks\<close>) follows values that may be
  undefined without any load having seen them; the filter of return checks
  (\<^verbatim>\<open>returnShadowMayCarryUndef\<close>) drops those a load check subsumes; and loads that feed only
  instructions without instrumentation are recognised (\<^verbatim>\<open>onlyFeedsNoSanitize\<close>, \<^verbatim>\<open>isAFLRuntimeAccess\<close>).
\<close>

section \<open>The undef slice\<close>

fun isUndefSliceScalar :: "ty \<Rightarrow> bool" where
  "isUndefSliceScalar (IntegerTy w) = True"
| "isUndefSliceScalar PointerTy = True"
| "isUndefSliceScalar (FloatTy w) = True"
| "isUndefSliceScalar _ = False"

text \<open>The instructions through which a value flows; \<^verbatim>\<open>isUndefSliceTransfer\<close> leaves out the PHIs.\<close>

fun value_transfer :: "inst \<Rightarrow> bool" where
  "value_transfer (BinI b x y) = True"
| "value_transfer (UnI x) = True"
| "value_transfer (CastI c x) = True"
| "value_transfer (ICmpI x y) = True"
| "value_transfer (FCmpI x y) = True"
| "value_transfer (SelectI c x y) = True"
| "value_transfer (GepI p is) = True"
| "value_transfer _ = False"

definition isUndefSliceTransfer :: "func \<Rightarrow> nat list \<Rightarrow> nat \<Rightarrow> bool" where
  "isUndefSliceTransfer f UndefSlice i \<longleftrightarrow> i \<in> set UndefSlice \<and> value_transfer (body f i)"

definition slice_seed :: "func \<Rightarrow> nat \<Rightarrow> bool" where
  "slice_seed f i \<longleftrightarrow> isUndefSliceScalar (ity f i) \<and>
    (case body f i of PhiI vs \<Rightarrow> list_ex isUndef vs | SelectI c x y \<Rightarrow> isUndef x \<or> isUndef y | _ \<Rightarrow> False)"

definition slice_next :: "func \<Rightarrow> nat \<Rightarrow> bool" where
  "slice_next f u \<longleftrightarrow> \<not> nosanitize f u \<and> (isPHI (body f u) \<or> value_transfer (body f u)) \<and> isUndefSliceScalar (ity f u)"

definition slice_visit :: "func \<Rightarrow> nat \<Rightarrow> unit + nat list" where
  "slice_visit f V = Inr (map the (filter (\<lambda>u. u \<noteq> None \<and> slice_next f (the u)) (users f (VInst V))))"

text \<open>\<^term>\<open>None\<close>: the loop does not end; it always does on a finite function.\<close>

definition computeUndefSlice :: "func \<Rightarrow> nat list \<Rightarrow> nat list option" where
  "computeUndefSlice f Instructions =
    (let (slice, work) = push_new (filter (slice_seed f) Instructions) ([], [])
     in case worklist (slice_visit f) (\<lambda>_. None) slice work of
          Some (Inr S) \<Rightarrow> Some S
        | _ \<Rightarrow> None)"

section \<open>The shadow of a slice value\<close>

text \<open>
  The code generated for a slice value, over the shadows of its operands: \<open>UBool\<close> is \<^verbatim>\<open>convertToBool\<close>
  and \<open>USExt\<close> the sign extension of a bit to the shadow type.
\<close>

datatype uexpr = UShadow val | UClean | USelect val uexpr uexpr | UOr uexpr uexpr | UBool ty val | USExt uexpr

definition in_slice :: "nat list \<Rightarrow> val \<Rightarrow> bool" where
  "in_slice UndefSlice v = (case v of VInst i \<Rightarrow> i \<in> set UndefSlice | _ \<Rightarrow> False)"

definition getUndefSliceShadow :: "nat list \<Rightarrow> val \<Rightarrow> uexpr" where
  "getUndefSliceShadow UndefSlice v = (if isUndef v \<or> in_slice UndefSlice v then UShadow v else UClean)"

definition or_operands :: "(val \<Rightarrow> ty) \<Rightarrow> val list \<Rightarrow> uexpr" where
  "or_operands vty ops = (case ops of [] \<Rightarrow> UClean
     | v # vs \<Rightarrow> USExt (fold (\<lambda>v acc. UOr acc (UBool (vty v) v)) vs (UBool (vty v) v)))"

definition handleUndefSliceInst :: "(val \<Rightarrow> ty) \<Rightarrow> nat list \<Rightarrow> inst \<Rightarrow> uexpr" where
  "handleUndefSliceInst vty UndefSlice I =
    (case I of
       SelectI c x y \<Rightarrow>
         let S = USelect c (getUndefSliceShadow UndefSlice x) (getUndefSliceShadow UndefSlice y)
         in if in_slice UndefSlice c then UOr S (USExt (UBool (vty c) c)) else S
     | _ \<Rightarrow> or_operands vty (filter (\<lambda>v. (isUndef v \<or> in_slice UndefSlice v) \<and> isSized (vty v)) (operands I)))"

text \<open>Which operands of an instruction get a check because they are in the slice.\<close>

record call_facts =
  EagerChecks :: bool
  isInlineAsm :: bool
  paramNoUndef :: "nat \<Rightarrow> bool"
  paramByVal :: "nat \<Rightarrow> bool"

definition checkUndefSliceSinks :: "bool \<Rightarrow> call_facts \<Rightarrow> nat list \<Rightarrow> inst \<Rightarrow> val list" where
  "checkUndefSliceSinks ClCheckAccessAddress facts UndefSlice I =
    (case I of
       BrI (Some c) \<Rightarrow> if in_slice UndefSlice c then [c] else []
     | SwitchI c \<Rightarrow> if in_slice UndefSlice c then [c] else []
     | LoadI p \<Rightarrow> if \<not> ClCheckAccessAddress \<and> in_slice UndefSlice p then [p] else []
     | StoreI v p \<Rightarrow> if \<not> ClCheckAccessAddress \<and> in_slice UndefSlice p then [p] else []
     | CallI fm ic callee args \<Rightarrow>
         if EagerChecks facts \<or> isInlineAsm facts \<or> ic \<noteq> NotIntrinsic then []
         else map (\<lambda>i. args ! i)
           (filter (\<lambda>i. in_slice UndefSlice (args ! i) \<and> paramNoUndef facts i \<and> \<not> paramByVal facts i) [0..<length args])
     | _ \<Rightarrow> [])"

section \<open>Accesses of the fuzzer's runtime\<close>

text \<open>At most eight casts and additions of a constant are looked through.\<close>

definition add_const :: "binop \<Rightarrow> val \<Rightarrow> val \<Rightarrow> val option" where
  "add_const b x y =
    (if b \<noteq> BAdd then None
     else case y of VInt k \<Rightarrow> Some x | _ \<Rightarrow> (case x of VInt k \<Rightarrow> Some y | _ \<Rightarrow> None))"

definition strip_step :: "func \<Rightarrow> val \<Rightarrow> val option" where
  "strip_step f V =
    (case V of
       VCast c v \<Rightarrow> if c = OtherCast then None else Some v
     | VBin b x y \<Rightarrow> add_const b x y
     | VInst i \<Rightarrow>
         (case body f i of
            CastI c v \<Rightarrow> if c = OtherCast then None else Some v
          | BinI b x y \<Rightarrow> add_const b x y
          | _ \<Rightarrow> None)
     | _ \<Rightarrow> None)"

fun strip_depth :: "nat \<Rightarrow> func \<Rightarrow> val \<Rightarrow> val" where
  "strip_depth 0 f V = V"
| "strip_depth (Suc d) f V = (case strip_step f V of None \<Rightarrow> V | Some W \<Rightarrow> strip_depth d f W)"

definition stripIntPtrArithmetic :: "func \<Rightarrow> val \<Rightarrow> val" where
  "stripIntPtrArithmetic f V = strip_depth 8 f V"

definition starts_with :: "string \<Rightarrow> string \<Rightarrow> bool" where
  "starts_with s pre \<longleftrightarrow> take (length pre) s = pre"

text \<open>\<open>objs\<close> and \<open>obj\<close> are LLVM's \<^verbatim>\<open>getUnderlyingObjects\<close> and \<^verbatim>\<open>getUnderlyingObject\<close>.\<close>

definition afl_object :: "(val \<Rightarrow> val) \<Rightarrow> func \<Rightarrow> val \<Rightarrow> bool" where
  "afl_object obj f O' =
    (case obj (stripIntPtrArithmetic f O') of
       VGlobal g \<Rightarrow> starts_with g ''__afl_'' \<or> starts_with g ''__sancov_gen_''
     | VInst i \<Rightarrow>
         (case body f i of
            LoadI p \<Rightarrow> obj (stripIntPtrArithmetic f p) = VGlobal ''__afl_area_ptr''
          | _ \<Rightarrow> False)
     | _ \<Rightarrow> False)"

definition isAFLRuntimePointer :: "(val \<Rightarrow> val list) \<Rightarrow> (val \<Rightarrow> val) \<Rightarrow> func \<Rightarrow> val \<Rightarrow> bool" where
  "isAFLRuntimePointer objs obj f Ptr \<longleftrightarrow> objs Ptr \<noteq> [] \<and> list_all (afl_object obj f) (objs Ptr)"

definition isAFLRuntimeAccess :: "bool \<Rightarrow> (val \<Rightarrow> val list) \<Rightarrow> (val \<Rightarrow> val) \<Rightarrow> func \<Rightarrow> nat \<Rightarrow> bool" where
  "isAFLRuntimeAccess ClSkipAFLRuntimeAccesses objs obj f i \<longleftrightarrow> ClSkipAFLRuntimeAccesses \<and>
    (case body f i of
       LoadI p \<Rightarrow> isAFLRuntimePointer objs obj f p
     | StoreI v p \<Rightarrow> isAFLRuntimePointer objs obj f p
     | AtomicRMWI p v \<Rightarrow> isAFLRuntimePointer objs obj f p
     | _ \<Rightarrow> False)"

definition isNoSanitizeEquivalent :: "(nat \<Rightarrow> bool) \<Rightarrow> func \<Rightarrow> nat \<Rightarrow> bool" where
  "isNoSanitizeEquivalent afl f i \<longleftrightarrow> nosanitize f i \<or> afl i"

section \<open>Loads without a consumer\<close>

fun pure_value :: "inst \<Rightarrow> bool" where
  "pure_value (GepI p is) = True"
| "pure_value (CastI c x) = True"
| "pure_value (PhiI vs) = True"
| "pure_value (SelectI c x y) = True"
| "pure_value (BinI b x y) = True"
| "pure_value (ICmpI x y) = True"
| "pure_value (FreezeI x) = True"
| "pure_value (ExtractElementI x y) = True"
| "pure_value (InsertElementI x y z) = True"
| "pure_value (ShuffleVectorI x y) = True"
| "pure_value (UnI x) = True"
| "pure_value (CallI fm ic callee args) = (ic \<in> {umax, umin, smax, smin, abs_intr, ctpop, ctlz, cttz, bswap, fshl, fshr})"
| "pure_value _ = False"

definition feed_visit :: "(nat \<Rightarrow> bool) \<Rightarrow> func \<Rightarrow> nat \<Rightarrow> unit + nat list" where
  "feed_visit afl f i =
    (if isNoSanitizeEquivalent afl f i then Inr []
     else if \<not> pure_value (body f i) then Inl ()
     else if None \<in> set (users f (VInst i)) then Inl ()
     else Inr (map the (users f (VInst i))))"

definition feed_over :: "nat list \<Rightarrow> unit option" where
  "feed_over Seen = (if length Seen > 256 then Some () else None)"

definition onlyFeedsNoSanitize :: "(nat \<Rightarrow> bool) \<Rightarrow> func \<Rightarrow> val \<Rightarrow> bool option" where
  "onlyFeedsNoSanitize afl f V =
    (if None \<in> set (users f V) then Some False
     else let (Seen, Work) = push_new (map the (users f V)) ([], [])
          in if feed_over Seen \<noteq> None then Some False
             else case worklist (feed_visit afl f) feed_over Seen Work of
                    None \<Rightarrow> None
                  | Some (Inl _) \<Rightarrow> Some False
                  | Some (Inr _) \<Rightarrow> Some True)"

definition onlyFeedsCallee :: "func \<Rightarrow> val \<Rightarrow> bool" where
  "onlyFeedsCallee f V \<longleftrightarrow> users f V \<noteq> [] \<and>
    list_all (\<lambda>u. case u of None \<Rightarrow> False
      | Some i \<Rightarrow> (case body f i of CallI fm ic callee args \<Rightarrow> callee = V \<and> V \<notin> set args | _ \<Rightarrow> False)) (users f V)"

section \<open>The filter of return checks\<close>

text \<open>
  The shadow values of a function as a graph: a constant (with \<^verbatim>\<open>isNullValue\<close>), an instruction or
  something else; \<open>transparent\<close> instructions are the opcodes the filter looks through, their operands
  come with \<^verbatim>\<open>isSized\<close>, and \<open>CheckedLoadShadows\<close> are those already checked at their load.
\<close>

datatype shv = SvNull | SvConst bool | SvInst nat | SvOther

record shadow_graph =
  transparent :: "nat \<Rightarrow> bool"
  shadow_operands :: "nat \<Rightarrow> (shv \<times> bool) list"
  CheckedLoadShadows :: "nat \<Rightarrow> bool"

text \<open>The recursion of the source with its pending operands as a stack.\<close>

partial_function (option) may_carry :: "shadow_graph \<Rightarrow> shv list \<Rightarrow> shv list \<Rightarrow> bool option" where
  "may_carry g stack Seen =
    (case stack of
       [] \<Rightarrow> Some False
     | S # stack' \<Rightarrow>
         if S = SvNull then Some True
         else if S \<in> set Seen then may_carry g stack' Seen
         else (case S of
                 SvConst isNull \<Rightarrow> if isNull then may_carry g stack' (S # Seen) else Some True
               | SvInst i \<Rightarrow>
                   if CheckedLoadShadows g i then may_carry g stack' (S # Seen)
                   else if transparent g i
                   then may_carry g (map fst (filter snd (shadow_operands g i)) @ stack') (S # Seen)
                   else Some True
               | _ \<Rightarrow> Some True))"

declare may_carry.simps [code]

definition returnShadowMayCarryUndef :: "shadow_graph \<Rightarrow> shv \<Rightarrow> bool option" where
  "returnShadowMayCarryUndef g S = may_carry g [S] []"

text \<open>The return checks that are requested in the end.\<close>

definition filterPendingReturnChecks :: "shadow_graph \<Rightarrow> (shv \<times> 'i) list \<Rightarrow> (shv \<times> 'i) list" where
  "filterPendingReturnChecks g Pending = filter (\<lambda>p. returnShadowMayCarryUndef g (fst p) \<noteq> Some False) Pending"

section \<open>The slice is the least closed set\<close>

inductive_set undef_slice :: "func \<Rightarrow> nat set \<Rightarrow> nat set" for f :: func and Is :: "nat set" where
  seed: "i \<in> Is \<Longrightarrow> slice_seed f i \<Longrightarrow> i \<in> undef_slice f Is"
| flow: "v \<in> undef_slice f Is \<Longrightarrow> Some u \<in> set (users f (VInst v)) \<Longrightarrow> slice_next f u \<Longrightarrow> u \<in> undef_slice f Is"

lemma slice_visit_mem: "slice_visit f v = Inr ns \<Longrightarrow> u \<in> set ns \<longleftrightarrow> Some u \<in> set (users f (VInst v)) \<and> slice_next f u"
  by (force simp: slice_visit_def)

lemma slice_reachable: "reachable (slice_visit f) {i \<in> Is. slice_seed f i} = undef_slice f Is"
proof
  show "reachable (slice_visit f) {i \<in> Is. slice_seed f i} \<subseteq> undef_slice f Is"
  proof (rule reachable_closed)
    fix x ns assume "x \<in> undef_slice f Is" "slice_visit f x = Inr ns"
    then show "set ns \<subseteq> undef_slice f Is" using slice_visit_mem [of f x ns] undef_slice.flow [of x f Is] by blast
  qed (auto intro: undef_slice.seed)
  show "undef_slice f Is \<subseteq> reachable (slice_visit f) {i \<in> Is. slice_seed f i}"
  proof
    fix i assume "i \<in> undef_slice f Is"
    then show "i \<in> reachable (slice_visit f) {i \<in> Is. slice_seed f i}"
    proof induction
      case (seed i)
      then show ?case by (intro reachable.base) simp
    next
      case (flow v u)
      obtain ns where ns: "slice_visit f v = Inr ns" by (simp add: slice_visit_def)
      then have "u \<in> set ns" using slice_visit_mem [OF ns] flow by blast
      then show ?case by (rule reachable.step [OF flow.IH ns])
    qed
  qed
qed

lemma slice_in:
  assumes "finite_users f U I" and "set Is \<subseteq> I"
  shows "undef_slice f (set Is) \<subseteq> I"
proof
  fix i assume "i \<in> undef_slice f (set Is)"
  then show "i \<in> I"
  proof induction
    case (seed i)
    then show ?case using assms(2) by blast
  next
    case (flow v u)
    then show ?case using assms(1) unfolding finite_users_def by blast
  qed
qed

lemma computeUndefSlice_ok:
  assumes I: "finite_users f U I" and Is: "set Is \<subseteq> I"
  shows "\<exists>S. computeUndefSlice f Is = Some S \<and> distinct S \<and> set S = undef_slice f (set Is)"
proof -
  obtain sl wk where p: "push_new (filter (slice_seed f) Is) ([], []) = (sl, wk)" by fastforce
  note s = push_new_start [OF p]
  have e: "set sl = {i \<in> set Is. slice_seed f i}" using s(3) by simp
  have r: "reachable (slice_visit f) (set sl) = undef_slice f (set Is)" unfolding e by (rule slice_reachable)
  have "finite I" using I by (simp add: finite_users_def)
  then have fin: "finite (reachable (slice_visit f) (set sl))" unfolding r by (rule finite_subset [OF slice_in [OF I Is]])
  show ?thesis
  proof (rule worklist_ok [OF fin s(2), of "\<lambda>_. None"])
    fix x assume "(\<exists>v \<in> reachable (slice_visit f) (set sl). slice_visit f v = Inl x) \<or>
      (\<exists>s. (None :: unit option) = Some x \<and> set s \<subseteq> reachable (slice_visit f) (set sl) \<and> distinct s)"
    then show ?thesis by (simp add: slice_visit_def)
  next
    fix S assume "worklist (slice_visit f) (\<lambda>_. None) sl sl = Some (Inr S)" "distinct S" "set S = reachable (slice_visit f) (set sl)"
    then show ?thesis using p s(1) r by (simp add: computeUndefSlice_def)
  qed
qed

section \<open>The filter of return checks is sound\<close>

definition finite_graph :: "shadow_graph \<Rightarrow> shv set \<Rightarrow> bool" where
  "finite_graph g U \<longleftrightarrow> finite U \<and> (\<forall>i. SvInst i \<in> U \<longrightarrow> fst ` set (shadow_operands g i) \<subseteq> U)"

text \<open>What a set of values seen must satisfy for the filter to drop a check.\<close>

definition settled :: "shadow_graph \<Rightarrow> shv set \<Rightarrow> shv \<Rightarrow> bool" where
  "settled g X v \<longleftrightarrow> (case v of
     SvConst isNull \<Rightarrow> isNull
   | SvInst i \<Rightarrow> CheckedLoadShadows g i \<or> transparent g i \<and> (\<forall>(w, sized) \<in> set (shadow_operands g i). sized \<longrightarrow> w \<in> X)
   | _ \<Rightarrow> False)"

lemma settled_mono: "settled g X v \<Longrightarrow> X \<subseteq> Y \<Longrightarrow> settled g Y v"
  by (auto simp: settled_def split: shv.splits)

lemma may_carry_Cons:
  "may_carry g (S # rest) Seen =
    (if S = SvNull then Some True
     else if S \<in> set Seen then may_carry g rest Seen
     else (case S of
             SvConst isNull \<Rightarrow> if isNull then may_carry g rest (S # Seen) else Some True
           | SvInst i \<Rightarrow>
               if CheckedLoadShadows g i then may_carry g rest (S # Seen)
               else if transparent g i
               then may_carry g (map fst (filter snd (shadow_operands g i)) @ rest) (S # Seen)
               else Some True
           | _ \<Rightarrow> Some True))"
  by (subst may_carry.simps) simp

lemma may_carry_ok:
  assumes "finite_graph g U" and "set stack \<subseteq> U" and "\<forall>v \<in> set Seen. settled g (set Seen \<union> set stack) v"
  shows "\<exists>b. may_carry g stack Seen = Some b \<and>
    (\<not> b \<longrightarrow> (\<exists>X. set Seen \<union> set stack \<subseteq> X \<and> (\<forall>v \<in> X. settled g X v)))"
  using assms(2,3)
proof (induction "(card (U - set Seen), length stack)" arbitrary: stack Seen rule: wf_induct_rule [OF wf_lex_prod [OF wf_less_than wf_less_than]])
  case 1
  note IH = "1.hyps" and st = "1.prems"
  have finU: "finite U" using assms(1) by (simp add: finite_graph_def)
  show ?case
  proof (cases stack)
    case Nil
    then have "may_carry g stack Seen = Some False" by (simp add: may_carry.simps [of g "[]"])
    then show ?thesis using st Nil by auto
  next
    case (Cons S rest)
    have go: "\<exists>b. may_carry g stack' (S # Seen) = Some b \<and>
        (\<not> b \<longrightarrow> (\<exists>X. set Seen \<union> set stack \<subseteq> X \<and> (\<forall>v \<in> X. settled g X v)))"
      if new: "S \<notin> set Seen" and stack': "set stack' = set rest \<union> T" "T \<subseteq> U" and S: "settled g (insert S (set Seen) \<union> set stack') S" for stack' T
    proof -
      have "S \<in> U" using st Cons by simp
      then have "U - set (S # Seen) \<subset> U - set Seen" using new by auto
      then have less: "card (U - set (S # Seen)) < card (U - set Seen)" using finU by (intro psubset_card_mono) auto
      have "\<forall>v \<in> set (S # Seen). settled g (set (S # Seen) \<union> set stack') v"
      proof
        fix v assume "v \<in> set (S # Seen)"
        then consider "v = S" | "v \<in> set Seen" by auto
        then show "settled g (set (S # Seen) \<union> set stack') v"
        proof cases
          case 2
          then have "settled g (set Seen \<union> set stack) v" using st by blast
          then show ?thesis by (rule settled_mono) (use Cons stack'(1) in auto)
        qed (use S in simp)
      qed
      moreover have "set stack' \<subseteq> U" using st Cons stack' by auto
      ultimately obtain b where b: "may_carry g stack' (S # Seen) = Some b"
        "\<not> b \<longrightarrow> (\<exists>X. set (S # Seen) \<union> set stack' \<subseteq> X \<and> (\<forall>v \<in> X. settled g X v))"
        using IH [of "S # Seen" stack'] less by auto
      moreover have "set Seen \<union> set stack \<subseteq> set (S # Seen) \<union> set stack'" using Cons stack'(1) by auto
      ultimately show ?thesis by (meson order_trans)
    qed
    note unf = may_carry_Cons
    show ?thesis
    proof (cases "S = SvNull \<or> S = SvOther \<or> S \<in> set Seen")
      case True
      show ?thesis
      proof (cases "S \<in> set Seen \<and> S \<noteq> SvNull")
        case seen: True
        then have e: "may_carry g stack Seen = may_carry g rest Seen" using Cons by (simp add: unf)
        have "set Seen \<union> set stack = set Seen \<union> set rest" using Cons seen by auto
        then have "\<exists>b. may_carry g rest Seen = Some b \<and>
            (\<not> b \<longrightarrow> (\<exists>X. set Seen \<union> set rest \<subseteq> X \<and> (\<forall>v \<in> X. settled g X v)))"
          using IH [of Seen rest] st Cons by auto
        then show ?thesis unfolding e using \<open>set Seen \<union> set stack = set Seen \<union> set rest\<close> by simp
      next
        case False
        then have "may_carry g stack Seen = Some True" using True Cons by (auto simp: unf)
        then show ?thesis by auto
      qed
    next
      case False
      show ?thesis
      proof (cases S)
        case (SvConst z)
        show ?thesis
        proof (cases z)
          case True
          then have "may_carry g stack Seen = may_carry g rest (S # Seen)" using SvConst False Cons by (simp add: unf)
          then show ?thesis using go [of rest "{}"] False SvConst True by (simp add: settled_def)
        next
          case z: False
          then have "may_carry g stack Seen = Some True" using SvConst False Cons by (simp add: unf)
          then show ?thesis by auto
        qed
      next
        case (SvInst i)
        let ?ops = "map fst (filter snd (shadow_operands g i))"
        have ops: "set ?ops \<subseteq> U" using assms(1) st Cons SvInst by (auto simp: finite_graph_def)
        consider (checked) "CheckedLoadShadows g i" | (through) "\<not> CheckedLoadShadows g i" "transparent g i"
          | (unknown) "\<not> CheckedLoadShadows g i" "\<not> transparent g i" by blast
        then show ?thesis
        proof cases
          case checked
          then have "may_carry g stack Seen = may_carry g rest (S # Seen)" using SvInst False Cons by (simp add: unf)
          then show ?thesis using go [of rest "{}"] False SvInst checked by (simp add: settled_def)
        next
          case through
          then have e: "may_carry g stack Seen = may_carry g (?ops @ rest) (S # Seen)" using SvInst False Cons by (simp add: unf)
          have "settled g (insert S (set Seen) \<union> set (?ops @ rest)) S" using through SvInst by (force simp: settled_def)
          then show ?thesis unfolding e using False ops by (intro go [of "?ops @ rest" "set ?ops"]) auto
        next
          case unknown
          then have "may_carry g stack Seen = Some True" using SvInst False Cons by (simp add: unf)
          then show ?thesis by auto
        qed
      qed (use False in auto)
    qed
  qed
qed

text \<open>
  The runs in which no load check has fired, as far as the zero-ness of shadows goes: an instruction
  is executed by giving it a new shadow, which is zero for a checked load, and for the opcodes the
  filter looks through is zero when all (sized) operands are.
\<close>

definition shv_nz :: "(nat \<Rightarrow> bool) \<Rightarrow> shv \<Rightarrow> bool" where
  "shv_nz \<eta> v = (case v of SvConst isNull \<Rightarrow> \<not> isNull | SvInst i \<Rightarrow> \<eta> i | _ \<Rightarrow> True)"

inductive quiet_run :: "shadow_graph \<Rightarrow> (nat \<Rightarrow> bool) \<Rightarrow> bool" for g :: shadow_graph where
  start: "quiet_run g (\<lambda>_. False)"
| load: "quiet_run g \<eta> \<Longrightarrow> CheckedLoadShadows g i \<Longrightarrow> quiet_run g (\<eta>(i := False))"
| flow: "quiet_run g \<eta> \<Longrightarrow> \<not> CheckedLoadShadows g i \<Longrightarrow> transparent g i \<Longrightarrow>
    b \<longrightarrow> (\<exists>(v, sized) \<in> set (shadow_operands g i). sized \<and> shv_nz \<eta> v) \<Longrightarrow> quiet_run g (\<eta>(i := b))"
| other: "quiet_run g \<eta> \<Longrightarrow> \<not> CheckedLoadShadows g i \<Longrightarrow> \<not> transparent g i \<Longrightarrow> quiet_run g (\<eta>(i := b))"

lemma settled_zero:
  assumes "\<forall>v \<in> X. settled g X v"
  shows "quiet_run g \<eta> \<Longrightarrow> v \<in> X \<Longrightarrow> \<not> shv_nz \<eta> v"
proof (induction arbitrary: v rule: quiet_run.induct)
  case start
  then show ?case using assms by (auto simp: shv_nz_def settled_def split: shv.splits)
next
  case (load \<eta> i)
  then show ?case using load.IH [OF load.prems] by (cases v) (auto simp: shv_nz_def)
next
  case (flow \<eta> i b)
  show ?case
  proof (cases "v = SvInst i")
    case True
    then have "\<forall>(w, sized) \<in> set (shadow_operands g i). sized \<longrightarrow> w \<in> X"
      using bspec [OF assms flow.prems] flow.hyps by (simp add: settled_def)
    then have "\<not> b" using flow.IH flow.hyps(4) by blast
    then show ?thesis using True by (simp add: shv_nz_def)
  next
    case False
    then show ?thesis using flow.IH [OF flow.prems] by (auto simp: shv_nz_def split: shv.splits)
  qed
next
  case (other \<eta> i b)
  have "v \<noteq> SvInst i" using bspec [OF assms other.prems] other.hyps by (auto simp: settled_def)
  then show ?case using other.IH [OF other.prems] by (auto simp: shv_nz_def split: shv.splits)
qed

section \<open>The slice tracks undefined values\<close>

text \<open>
  Reference semantics: which values are undefined, following the instructions the slice follows.
  A step executes instruction \<open>i\<close>; \<open>n\<close> is the incoming edge of a PHI and \<open>c\<close> the condition of a select.
\<close>

definition ref_undef :: "(nat \<Rightarrow> bool) \<Rightarrow> val \<Rightarrow> bool" where
  "ref_undef \<delta> v = (case v of VUndef t \<Rightarrow> True | VInst j \<Rightarrow> \<delta> j | _ \<Rightarrow> False)"

definition ref_result :: "func \<Rightarrow> (nat \<Rightarrow> bool) \<Rightarrow> nat \<times> nat \<times> bool \<Rightarrow> bool" where
  "ref_result f \<delta> s = (case s of (i, n, c) \<Rightarrow>
     \<not> nosanitize f i \<and> isUndefSliceScalar (ity f i) \<and>
     (case body f i of
        PhiI vs \<Rightarrow> ref_undef \<delta> (vs ! n)
      | SelectI cv x y \<Rightarrow> ref_undef \<delta> (if c then x else y) \<or> ref_undef \<delta> cv
      | I \<Rightarrow> value_transfer I \<and> list_ex (ref_undef \<delta>) (operands I)))"

definition ref_step :: "func \<Rightarrow> nat \<times> nat \<times> bool \<Rightarrow> (nat \<Rightarrow> bool) \<Rightarrow> (nat \<Rightarrow> bool)" where
  "ref_step f s \<delta> = \<delta>(fst s := ref_result f \<delta> s)"

text \<open>The instrumented run: the shadow each executed instruction gets (loads are taken to be clean).\<close>

definition operand_shadow :: "nat \<Rightarrow> (val \<Rightarrow> ty) \<Rightarrow> (nat \<Rightarrow> sval) \<Rightarrow> val \<Rightarrow> sval" where
  "operand_shadow k vty \<sigma> v =
    (case v of VInst j \<Rightarrow> \<sigma> j | VUndef t \<Rightarrow> getAllOnesShadow k (shadow_ty t) | _ \<Rightarrow> getNullValue k (shadow_ty (vty v)))"

primrec u_ev :: "nat \<Rightarrow> (val \<Rightarrow> ty) \<Rightarrow> (nat \<Rightarrow> sval) \<Rightarrow> bool \<Rightarrow> ty \<Rightarrow> uexpr \<Rightarrow> sval" where
  "u_ev k vty \<sigma> c t (UShadow v) = operand_shadow k vty \<sigma> v"
| "u_ev k vty \<sigma> c t UClean = getNullValue k (shadow_ty t)"
| "u_ev k vty \<sigma> c t (USelect v a b) = (if c then u_ev k vty \<sigma> c t a else u_ev k vty \<sigma> c t b)"
| "u_ev k vty \<sigma> c t (UOr a b) = sval_or (u_ev k vty \<sigma> c t a) (u_ev k vty \<sigma> c t b)"
| "u_ev k vty \<sigma> c t (UBool tv v) = ev (\<lambda>_. operand_shadow k vty \<sigma> v) (convertToBool False (shadow_ty tv) (Val 0))"
| "u_ev k vty \<sigma> c t (USExt a) = (if nz (u_ev k vty \<sigma> c t a) then getAllOnesShadow k (shadow_ty t) else getNullValue k (shadow_ty t))"

definition code_step :: "nat \<Rightarrow> (val \<Rightarrow> ty) \<Rightarrow> func \<Rightarrow> nat list \<Rightarrow> nat \<times> nat \<times> bool \<Rightarrow> (nat \<Rightarrow> sval) \<Rightarrow> (nat \<Rightarrow> sval)" where
  "code_step k vty f S s \<sigma> = (case s of (i, n, c) \<Rightarrow> \<sigma>(i :=
     if nosanitize f i then getNullValue k (shadow_ty (ity f i))
     else case body f i of
       PhiI vs \<Rightarrow> operand_shadow k vty \<sigma> (vs ! n)
     | I \<Rightarrow> if isUndefSliceTransfer f S i then u_ev k vty \<sigma> c (ity f i) (handleUndefSliceInst vty S I)
            else getNullValue k (shadow_ty (ity f i))))"

text \<open>What the IR and LLVM promise about the function and the run.\<close>

definition undef_ok :: "ty \<Rightarrow> bool" where
  "undef_ok t \<longleftrightarrow> isSized t \<and> valid_ty t \<and> inhabited t"

definition slice_inst :: "func \<Rightarrow> (val \<Rightarrow> ty) \<Rightarrow> nat \<Rightarrow> bool" where
  "slice_inst f vty i \<longleftrightarrow>
     list_all (\<lambda>v. case v of VInst j \<Rightarrow> Some i \<in> set (users f v) | VUndef t \<Rightarrow> undef_ok t | _ \<Rightarrow> True) (operands (body f i)) \<and>
     (case body f i of
        PhiI vs \<Rightarrow> list_all (\<lambda>v. vty v = ity f i) vs
      | SelectI c x y \<Rightarrow> (vty x = ity f i \<and> vty y = ity f i) \<and> \<not> isUndef c
      | I \<Rightarrow> value_transfer I \<longrightarrow> \<not> list_ex isUndef (operands I))"

definition slice_func :: "func \<Rightarrow> (val \<Rightarrow> ty) \<Rightarrow> nat list \<Rightarrow> bool" where
  "slice_func f vty Is \<longleftrightarrow>
     (\<forall>i. vty (VInst i) = ity f i) \<and> (\<forall>t. vty (VUndef t) = t) \<and> (\<forall>i. isUndefSliceScalar (ity f i) \<longrightarrow> valid_ty (ity f i)) \<and>
     list_all (slice_inst f vty) Is"

definition slice_run :: "func \<Rightarrow> nat list \<Rightarrow> (nat \<times> nat \<times> bool) list \<Rightarrow> bool" where
  "slice_run f Is steps \<longleftrightarrow> list_all (\<lambda>(i, n, c). (i \<in> set Is \<or> nosanitize f i) \<and>
     (case body f i of PhiI vs \<Rightarrow> n < length vs | _ \<Rightarrow> True)) steps"

definition agree :: "nat \<Rightarrow> func \<Rightarrow> nat list \<Rightarrow> (nat \<Rightarrow> bool) \<Rightarrow> (nat \<Rightarrow> sval) \<Rightarrow> bool" where
  "agree k f S \<delta> \<sigma> \<longleftrightarrow> (\<forall>i. (\<delta> i \<longrightarrow> i \<in> set S \<and> isUndefSliceScalar (ity f i)) \<and>
     (isUndefSliceScalar (ity f i) \<longrightarrow> has_ty k (\<sigma> i) (shadow_ty (ity f i)) \<and> (nz (\<sigma> i) \<longleftrightarrow> \<delta> i)))"

lemma scalar_ok: "isUndefSliceScalar t \<Longrightarrow> valid_ty t \<Longrightarrow> undef_ok t"
  by (cases t) (auto simp: undef_ok_def)

lemma scalar_shadow: "isUndefSliceScalar t \<Longrightarrow> isIntOrIntVectorTy (shadow_ty t)"
  by (cases t) auto

lemma poison_ok: "undef_ok t \<Longrightarrow> 0 < k \<Longrightarrow> has_ty k (getAllOnesShadow k (shadow_ty t)) (shadow_ty t) \<and> nz (getAllOnesShadow k (shadow_ty t))"
  using constants_typed(2) [of t k] ones_poisoned [of t k] by (simp add: undef_ok_def)

lemma clean_ok: "undef_ok t \<Longrightarrow> has_ty k (getNullValue k (shadow_ty t)) (shadow_ty t) \<and> \<not> nz (getNullValue k (shadow_ty t))"
  using constants_typed(1) [of t k] null_clean [of k] by (simp add: undef_ok_def)

text \<open>An operand of an executed instruction, and its shadow.\<close>

definition operand_ok :: "nat \<Rightarrow> (nat \<Rightarrow> bool) \<Rightarrow> (val \<Rightarrow> ty) \<Rightarrow> (nat \<Rightarrow> sval) \<Rightarrow> val \<Rightarrow> bool" where
  "operand_ok k \<delta> vty \<sigma> v \<longleftrightarrow> has_ty k (operand_shadow k vty \<sigma> v) (shadow_ty (vty v)) \<and>
     (nz (operand_shadow k vty \<sigma> v) \<longleftrightarrow> ref_undef \<delta> v)"

lemma operand_typed:
  assumes "agree k f S \<delta> \<sigma>" and "0 < k" and "\<forall>i. vty (VInst i) = ity f i" and "\<forall>t. vty (VUndef t) = t"
    and "\<forall>t. v = VUndef t \<longrightarrow> undef_ok t" and "undef_ok (vty v)" and "\<forall>j. v = VInst j \<longrightarrow> isUndefSliceScalar (ity f j)"
  shows "operand_ok k \<delta> vty \<sigma> v"
proof (cases v)
  case (VInst j)
  then show ?thesis using assms(1,3,7) by (simp add: operand_ok_def operand_shadow_def ref_undef_def agree_def)
next
  case (VUndef t)
  then show ?thesis using assms(4,5) poison_ok [OF _ assms(2), of t] by (simp add: operand_ok_def operand_shadow_def ref_undef_def)
qed (use clean_ok [OF assms(6)] in \<open>simp_all add: operand_ok_def operand_shadow_def ref_undef_def\<close>)

lemma or_fold_ok:
  assumes "\<forall>v \<in> set vs. operand_ok k \<delta> vty \<sigma> v" and "u_ev k vty \<sigma> c t e = i1 b"
  shows "u_ev k vty \<sigma> c t (fold (\<lambda>v acc. UOr acc (UBool (vty v) v)) vs e) = i1 (b \<or> list_ex (ref_undef \<delta>) vs)"
  using assms
proof (induction vs arbitrary: e b)
  case (Cons v vs)
  have "u_ev k vty \<sigma> c t (UBool (vty v) v) = i1 (ref_undef \<delta> v)"
    using Cons.prems convertToBool_ok [of k "\<lambda>_. operand_shadow k vty \<sigma> v" "Val 0" "shadow_ty (vty v)"]
    by (simp add: operand_ok_def)
  then have "u_ev k vty \<sigma> c t (UOr e (UBool (vty v) v)) = i1 (b \<or> ref_undef \<delta> v)"
    using Cons.prems by (simp add: i1_def)
  then show ?case using Cons.IH [of "UOr e (UBool (vty v) v)" "b \<or> ref_undef \<delta> v"] Cons.prems by (simp add: disj_assoc)
qed simp

lemma or_operands_ok:
  assumes "\<forall>v \<in> set vs. operand_ok k \<delta> vty \<sigma> v" and "undef_ok t" and "0 < k"
  shows "has_ty k (u_ev k vty \<sigma> c t (or_operands vty vs)) (shadow_ty t) \<and>
    (nz (u_ev k vty \<sigma> c t (or_operands vty vs)) \<longleftrightarrow> list_ex (ref_undef \<delta>) vs)"
proof (cases vs)
  case Nil
  then show ?thesis using clean_ok [OF assms(2)] by (simp add: or_operands_def)
next
  case (Cons v ws)
  have "u_ev k vty \<sigma> c t (UBool (vty v) v) = i1 (ref_undef \<delta> v)"
    using Cons assms(1) convertToBool_ok [of k "\<lambda>_. operand_shadow k vty \<sigma> v" "Val 0" "shadow_ty (vty v)"]
    by (simp add: operand_ok_def)
  then have "u_ev k vty \<sigma> c t (fold (\<lambda>v acc. UOr acc (UBool (vty v) v)) ws (UBool (vty v) v)) = i1 (list_ex (ref_undef \<delta>) vs)"
    using or_fold_ok [of ws k \<delta> vty \<sigma> c t "UBool (vty v) v" "ref_undef \<delta> v"] Cons assms(1) by simp
  then show ?thesis using Cons clean_ok [OF assms(2)] poison_ok [OF assms(2,3)] by (simp add: or_operands_def)
qed

lemma slice_scalar: "i \<in> undef_slice f Is \<Longrightarrow> isUndefSliceScalar (ity f i)"
  by (induction rule: undef_slice.induct) (auto simp: slice_seed_def slice_next_def)

lemma undef_operand_seed:
  assumes "isPHI I \<or> value_transfer I"
    and "case I of PhiI vs \<Rightarrow> P vs | SelectI c x y \<Rightarrow> Q c x y \<and> \<not> isUndef c | I \<Rightarrow> value_transfer I \<longrightarrow> \<not> list_ex isUndef (operands I)"
    and "VUndef t \<in> set (operands I)"
  shows "case I of PhiI vs \<Rightarrow> list_ex isUndef vs | SelectI c x y \<Rightarrow> isUndef x \<or> isUndef y | _ \<Rightarrow> False"
proof (cases "isPHI I")
  case True
  then show ?thesis using assms(3) by (cases I) (simp_all add: list_ex_iff bexI [of _ "VUndef t"])
next
  case False
  then have v: "value_transfer I" using assms(1) by simp
  show ?thesis
  proof (cases "\<exists>c x y. I = SelectI c x y")
    case True
    then show ?thesis using assms(2,3) by auto
  next
    case False
    then have "\<not> list_ex isUndef (operands I)" using v assms(2) by (cases I) simp_all
    then show ?thesis using assms(3) by (metis isUndef.simps(1) list_ex_iff)
  qed
qed

lemma undef_reaches:
  assumes ag: "agree k f S \<delta> \<sigma>" and S: "set S = undef_slice f (set Is)" and i: "i \<in> set Is" "\<not> nosanitize f i" "isUndefSliceScalar (ity f i)"
    and tr: "isPHI (body f i) \<or> value_transfer (body f i)" and ok: "slice_inst f vty i"
    and v: "v \<in> set (operands (body f i))" "ref_undef \<delta> v"
  shows "i \<in> set S"
proof (cases v)
  case (VInst j)
  then have "j \<in> undef_slice f (set Is)" using v(2) ag S by (auto simp: ref_undef_def agree_def)
  moreover have "Some i \<in> set (users f (VInst j))" using ok v(1) VInst by (auto simp: slice_inst_def list_all_iff)
  moreover have "slice_next f i" using i tr by (simp add: slice_next_def)
  ultimately show ?thesis unfolding S by (rule undef_slice.flow)
next
  case (VUndef t)
  note c = conjunct2 [OF ok [unfolded slice_inst_def]]
  have "VUndef t \<in> set (operands (body f i))" using v(1) VUndef by simp
  then have "slice_seed f i" unfolding slice_seed_def using i(3) undef_operand_seed [OF tr c] by blast
  then show ?thesis unfolding S using i(1) by (rule undef_slice.seed [rotated])
qed (use v(2) in \<open>simp_all add: ref_undef_def\<close>)

lemma step_agree:
  assumes ag: "agree k f S \<delta> \<sigma>"
    and new: "isUndefSliceScalar (ity f i) \<Longrightarrow> has_ty k x (shadow_ty (ity f i)) \<and> (nz x \<longleftrightarrow> b)"
    and mem: "b \<Longrightarrow> i \<in> set S \<and> isUndefSliceScalar (ity f i)"
  shows "agree k f S (\<delta>(i := b)) (\<sigma>(i := x))"
  using ag new mem by (simp add: agree_def)

lemma select_ok:
  assumes k: "0 < k" and t: "undef_ok t" "isUndefSliceScalar t" and x: "operand_ok k \<delta> vty \<sigma> x" "vty x = t" and y: "operand_ok k \<delta> vty \<sigma> y" "vty y = t"
    and cv: "ref_undef \<delta> cv \<Longrightarrow> in_slice S cv" "in_slice S cv \<Longrightarrow> operand_ok k \<delta> vty \<sigma> cv"
    and in_S: "\<And>v. v \<in> {x, y} \<Longrightarrow> ref_undef \<delta> v \<Longrightarrow> isUndef v \<or> in_slice S v"
  shows "has_ty k (u_ev k vty \<sigma> c t (handleUndefSliceInst vty S (SelectI cv x y))) (shadow_ty t) \<and>
    (nz (u_ev k vty \<sigma> c t (handleUndefSliceInst vty S (SelectI cv x y))) \<longleftrightarrow> ref_undef \<delta> (if c then x else y) \<or> ref_undef \<delta> cv)"
proof -
  have arm: "has_ty k (u_ev k vty \<sigma> c t (getUndefSliceShadow S v)) (shadow_ty t) \<and>
      (nz (u_ev k vty \<sigma> c t (getUndefSliceShadow S v)) \<longleftrightarrow> ref_undef \<delta> v)" if "v \<in> {x, y}" for v
    using that x y in_S [OF that] clean_ok [OF t(1), of k] by (auto simp: getUndefSliceShadow_def operand_ok_def)
  let ?s = "USelect cv (getUndefSliceShadow S x) (getUndefSliceShadow S y)" and ?b = "USExt (UBool (vty cv) cv)"
  have s: "has_ty k (u_ev k vty \<sigma> c t ?s) (shadow_ty t) \<and> (nz (u_ev k vty \<sigma> c t ?s) \<longleftrightarrow> ref_undef \<delta> (if c then x else y))"
    using arm [of x] arm [of y] by (cases c) simp_all
  show ?thesis
  proof (cases "in_slice S cv")
    case True
    then have "u_ev k vty \<sigma> c t (UBool (vty cv) cv) = i1 (ref_undef \<delta> cv)"
      using cv(2) convertToBool_ok [of k "\<lambda>_. operand_shadow k vty \<sigma> cv" "Val 0" "shadow_ty (vty cv)"] by (simp add: operand_ok_def)
    then have "has_ty k (u_ev k vty \<sigma> c t ?b) (shadow_ty t) \<and> (nz (u_ev k vty \<sigma> c t ?b) \<longleftrightarrow> ref_undef \<delta> cv)"
      using clean_ok [OF t(1), of k] poison_ok [OF t(1) k] by simp
    then have "has_ty k (u_ev k vty \<sigma> c t (UOr ?s ?b)) (shadow_ty t) \<and>
        (nz (u_ev k vty \<sigma> c t (UOr ?s ?b)) \<longleftrightarrow> ref_undef \<delta> (if c then x else y) \<or> ref_undef \<delta> cv)"
      using s sval_or_ok [OF scalar_shadow [OF t(2)], of k "u_ev k vty \<sigma> c t ?s" "u_ev k vty \<sigma> c t ?b"] by (simp only: u_ev.simps)
    then show ?thesis using True by (simp only: handleUndefSliceInst_def inst.case Let_def if_True)
  next
    case False
    then have "\<not> ref_undef \<delta> cv" using cv(1) by blast
    then show ?thesis using False s by (simp only: handleUndefSliceInst_def inst.case Let_def if_False) blast
  qed
qed

text \<open>The operands of an instruction that is executed: those in the slice, and those of its own type.\<close>

definition slice_ctx :: "nat \<Rightarrow> func \<Rightarrow> (val \<Rightarrow> ty) \<Rightarrow> nat list \<Rightarrow> nat list \<Rightarrow> (nat \<Rightarrow> bool) \<Rightarrow> (nat \<Rightarrow> sval) \<Rightarrow> nat \<Rightarrow> bool" where
  "slice_ctx k f vty Is S \<delta> \<sigma> i \<longleftrightarrow> 0 < k \<and> slice_func f vty Is \<and> set S = undef_slice f (set Is) \<and> agree k f S \<delta> \<sigma> \<and>
     i \<in> set Is \<and> \<not> nosanitize f i \<and> isUndefSliceScalar (ity f i)"

lemma slice_ctx_facts:
  assumes "slice_ctx k f vty Is S \<delta> \<sigma> i"
  shows "0 < k" "set S = undef_slice f (set Is)" "agree k f S \<delta> \<sigma>" "i \<in> set Is" "\<not> nosanitize f i" "isUndefSliceScalar (ity f i)"
    "slice_inst f vty i" "\<forall>i. vty (VInst i) = ity f i" "\<forall>t. vty (VUndef t) = t"
    "isUndefSliceScalar (ity f j) \<Longrightarrow> undef_ok (ity f j)"
  using assms scalar_ok [of "ity f j"] by (auto simp: slice_ctx_def slice_func_def list_all_iff)

lemma undef_in_slice:
  assumes "slice_ctx k f vty Is S \<delta> \<sigma> i" and "ref_undef \<delta> v"
  shows "isUndef v \<or> in_slice S v"
  using assms(2) slice_ctx_facts(3) [OF assms(1)] by (auto simp: ref_undef_def agree_def in_slice_def split: val.splits)

lemma slice_operand_ok:
  assumes c: "slice_ctx k f vty Is S \<delta> \<sigma> i" and v: "in_slice S v"
  shows "operand_ok k \<delta> vty \<sigma> v" and "isSized (vty v)"
proof -
  note ctx = slice_ctx_facts [OF c]
  obtain j where j: "v = VInst j" "j \<in> undef_slice f (set Is)" using v ctx(2) by (auto simp: in_slice_def split: val.splits)
  note sc = slice_scalar [OF j(2)]
  show "operand_ok k \<delta> vty \<sigma> v" using ctx(10) [OF sc] sc j ctx(8,9) by (intro operand_typed [OF ctx(3,1,8,9)]) auto
  show "isSized (vty v)" using ctx(10) [OF sc] j ctx(8) by (simp add: undef_ok_def)
qed

lemma own_operand_ok:
  assumes c: "slice_ctx k f vty Is S \<delta> \<sigma> i" and v: "v \<in> set (operands (body f i))" "vty v = ity f i"
  shows "operand_ok k \<delta> vty \<sigma> v"
proof -
  note ctx = slice_ctx_facts [OF c]
  have "undef_ok t" if "v = VUndef t" for t using ctx(7) v(1) that by (force simp: slice_inst_def list_all_iff)
  then show ?thesis using ctx(10) [OF ctx(6)] v(2) ctx(6,8) by (intro operand_typed [OF ctx(3,1,8,9)]) auto
qed

lemma phi_step_ok:
  assumes c: "slice_ctx k f vty Is S \<delta> \<sigma> i" and b: "body f i = PhiI vs" "n < length vs"
  shows "agree k f S (ref_step f (i, n, c) \<delta>) (code_step k vty f S (i, n, c) \<sigma>)"
proof -
  note ctx = slice_ctx_facts [OF c]
  have m: "vs ! n \<in> set (operands (body f i))" and v: "vty (vs ! n) = ity f i" using ctx(7) b by (simp_all add: slice_inst_def list_all_iff)
  have "i \<in> set S" if "ref_undef \<delta> (vs ! n)" by (rule undef_reaches [OF ctx(3,2,4,5,6) _ ctx(7) m that]) (simp add: b)
  then have "agree k f S (\<delta>(i := ref_undef \<delta> (vs ! n))) (\<sigma>(i := operand_shadow k vty \<sigma> (vs ! n)))"
    using own_operand_ok [OF c m v] ctx(6) v by (intro step_agree [OF ctx(3)]) (simp_all add: operand_ok_def)
  then show ?thesis using b ctx(5,6) by (simp add: ref_step_def ref_result_def code_step_def)
qed

lemma select_step_ok:
  assumes c: "slice_ctx k f vty Is S \<delta> \<sigma> i" and b: "body f i = SelectI cv x y"
  shows "agree k f S (ref_step f (i, n, c) \<delta>) (code_step k vty f S (i, n, c) \<sigma>)"
proof -
  note ctx = slice_ctx_facts [OF c]
  note t = ctx(10) [OF ctx(6)]
  let ?r = "ref_undef \<delta> (if c then x else y) \<or> ref_undef \<delta> cv"
  let ?h = "u_ev k vty \<sigma> c (ity f i) (handleUndefSliceInst vty S (SelectI cv x y))"
  have ops: "vty x = ity f i" "vty y = ity f i" "\<not> isUndef cv" using ctx(7) b by (simp_all add: slice_inst_def)
  have mem: "i \<in> set S" if "v \<in> {cv, x, y}" "ref_undef \<delta> v" for v
    by (rule undef_reaches [OF ctx(3,2,4,5,6) _ ctx(7) _ that(2)]) (use b that(1) in auto)
  have x: "operand_ok k \<delta> vty \<sigma> x" by (rule own_operand_ok [OF c _ ops(1)]) (simp add: b)
  have y: "operand_ok k \<delta> vty \<sigma> y" by (rule own_operand_ok [OF c _ ops(2)]) (simp add: b)
  have e: "has_ty k ?h (shadow_ty (ity f i)) \<and> (nz ?h \<longleftrightarrow> ?r)"
    by (rule select_ok [OF ctx(1) t ctx(6) x ops(1) y ops(2)])
      (use ops(3) undef_in_slice [OF c] slice_operand_ok(1) [OF c] in auto)
  have "?r \<Longrightarrow> i \<in> set S" using mem [of cv] mem [of x] mem [of y] by (cases c) auto
  then have "agree k f S (\<delta>(i := ?r)) (\<sigma>(i := if i \<in> set S then ?h else getNullValue k (shadow_ty (ity f i))))"
    using e clean_ok [OF t, of k] ctx(6) by (intro step_agree [OF ctx(3)]) auto
  then show ?thesis using b ctx(5,6) by (simp add: ref_step_def ref_result_def code_step_def isUndefSliceTransfer_def)
qed

lemma op_step_ok:
  assumes c: "slice_ctx k f vty Is S \<delta> \<sigma> i" and b: "value_transfer (body f i)" "\<forall>cv x y. body f i \<noteq> SelectI cv x y"
  shows "agree k f S (ref_step f (i, n, c) \<delta>) (code_step k vty f S (i, n, c) \<sigma>)"
proof -
  note ctx = slice_ctx_facts [OF c]
  note t = ctx(10) [OF ctx(6)]
  let ?ops = "operands (body f i)" and ?flt = "filter (\<lambda>v. (isUndef v \<or> in_slice S v) \<and> isSized (vty v)) (operands (body f i))"
  have h: "handleUndefSliceInst vty S (body f i) = or_operands vty ?flt" using b by (cases "body f i") (simp_all add: handleUndefSliceInst_def)
  have no: "\<not> list_ex isUndef ?ops" using b ctx(7) by (cases "body f i") (simp_all add: slice_inst_def)
  have lx: "list_ex (ref_undef \<delta>) ?flt \<longleftrightarrow> list_ex (ref_undef \<delta>) ?ops"
    using undef_in_slice [OF c] slice_operand_ok(2) [OF c] no by (auto simp: list_ex_iff)
  have "\<forall>v \<in> set ?flt. operand_ok k \<delta> vty \<sigma> v" using slice_operand_ok(1) [OF c] no by (auto simp: list_ex_iff)
  note e = or_operands_ok [OF this t ctx(1), of c, unfolded lx]
  have "i \<in> set S" if "list_ex (ref_undef \<delta>) ?ops"
    using that undef_reaches [OF ctx(3,2,4,5,6) _ ctx(7)] b(1) by (auto simp: list_ex_iff)
  then have "agree k f S (\<delta>(i := list_ex (ref_undef \<delta>) ?ops))
      (\<sigma>(i := if i \<in> set S then u_ev k vty \<sigma> c (ity f i) (or_operands vty ?flt) else getNullValue k (shadow_ty (ity f i))))"
    using e clean_ok [OF t, of k] ctx(6) by (intro step_agree [OF ctx(3)]) auto
  moreover have "ref_step f (i, n, c) \<delta> = \<delta>(i := list_ex (ref_undef \<delta>) ?ops)"
    using b ctx(5,6) by (cases "body f i") (simp_all add: ref_step_def ref_result_def)
  moreover have "code_step k vty f S (i, n, c) \<sigma> = \<sigma>(i := if i \<in> set S then u_ev k vty \<sigma> c (ity f i) (or_operands vty ?flt) else getNullValue k (shadow_ty (ity f i)))"
    using b ctx(5) h by (cases "body f i") (simp_all add: code_step_def isUndefSliceTransfer_def)
  ultimately show ?thesis by simp
qed

lemma clean_step_ok:
  assumes "agree k f S \<delta> \<sigma>" and "isUndefSliceScalar (ity f i) \<Longrightarrow> undef_ok (ity f i)"
    and "nosanitize f i \<or> \<not> value_transfer (body f i) \<and> \<not> isPHI (body f i)"
  shows "agree k f S (ref_step f (i, n, c) \<delta>) (code_step k vty f S (i, n, c) \<sigma>)"
proof -
  have "ref_step f (i, n, c) \<delta> = \<delta>(i := False)" using assms(3) by (cases "body f i") (simp_all add: ref_step_def ref_result_def)
  moreover have "code_step k vty f S (i, n, c) \<sigma> = \<sigma>(i := getNullValue k (shadow_ty (ity f i)))"
    using assms(3) by (cases "body f i") (simp_all add: code_step_def isUndefSliceTransfer_def)
  ultimately show ?thesis using assms(2) clean_ok [of "ity f i" k] by (auto intro!: step_agree [OF assms(1)])
qed

lemma code_step_ok:
  assumes k: "0 < k" and fn: "slice_func f vty Is" and S: "set S = undef_slice f (set Is)" and ag: "agree k f S \<delta> \<sigma>"
    and run: "i \<in> set Is \<or> nosanitize f i" "\<And>vs. body f i = PhiI vs \<Longrightarrow> n < length vs"
  shows "agree k f S (ref_step f (i, n, c) \<delta>) (code_step k vty f S (i, n, c) \<sigma>)"
proof (cases "isUndefSliceScalar (ity f i) \<and> \<not> nosanitize f i \<and> (isPHI (body f i) \<or> value_transfer (body f i))")
  case True
  then have c: "slice_ctx k f vty Is S \<delta> \<sigma> i" using assms by (simp add: slice_ctx_def)
  consider (phi) vs where "body f i = PhiI vs" | (sel) cv x y where "body f i = SelectI cv x y"
    | (op) "value_transfer (body f i)" "\<forall>cv x y. body f i \<noteq> SelectI cv x y"
    using True by (cases "body f i") auto
  then show ?thesis
  proof cases
    case phi
    then show ?thesis using phi_step_ok [OF c] run(2) by blast
  next
    case sel
    then show ?thesis by (rule select_step_ok [OF c])
  next
    case op
    then show ?thesis by (rule op_step_ok [OF c])
  qed
next
  case False
  have ok: "isUndefSliceScalar (ity f i) \<Longrightarrow> undef_ok (ity f i)" using fn scalar_ok [of "ity f i"] by (simp add: slice_func_def)
  show ?thesis
  proof (cases "isUndefSliceScalar (ity f i)")
    case True
    then show ?thesis using False by (intro clean_step_ok [OF ag ok]) auto
  next
    case False
    then show ?thesis unfolding ref_step_def code_step_def by (auto simp: ref_result_def intro: step_agree [OF ag])
  qed
qed

lemma slice_runs:
  assumes "0 < k" and "slice_func f vty Is" and "set S = undef_slice f (set Is)"
  shows "slice_run f Is steps \<Longrightarrow> agree k f S \<delta> \<sigma> \<Longrightarrow> agree k f S (fold (ref_step f) steps \<delta>) (fold (code_step k vty f S) steps \<sigma>)"
proof (induction steps arbitrary: \<delta> \<sigma>)
  case (Cons s steps)
  obtain i n c where s: "s = (i, n, c)" by (cases s)
  have "agree k f S (ref_step f s \<delta>) (code_step k vty f S s \<sigma>)"
    unfolding s by (rule code_step_ok [OF assms Cons.prems(2)]) (use Cons.prems(1) s in \<open>auto simp: slice_run_def\<close>)
  then show ?case using Cons.IH Cons.prems(1) by (simp add: slice_run_def)
qed simp

definition clean_start :: "nat \<Rightarrow> func \<Rightarrow> nat \<Rightarrow> sval" where
  "clean_start k f = (\<lambda>i. getNullValue k (shadow_ty (ity f i)))"

lemma start_agree: "slice_func f vty Is \<Longrightarrow> agree k f S (\<lambda>_. False) (clean_start k f)"
  using clean_ok [of "ity f _" k] scalar_ok by (auto simp: agree_def clean_start_def slice_func_def)

section \<open>Loads that feed only uninstrumented code\<close>

text \<open>The instructions a value reaches through pure value instructions, up to the first uninstrumented one.\<close>

inductive feeds :: "(nat \<Rightarrow> bool) \<Rightarrow> func \<Rightarrow> val \<Rightarrow> nat option \<Rightarrow> bool" for afl :: "nat \<Rightarrow> bool" and f :: func and V :: val where
  direct: "u \<in> set (users f V) \<Longrightarrow> feeds afl f V u"
| through: "feeds afl f V (Some i) \<Longrightarrow> \<not> isNoSanitizeEquivalent afl f i \<Longrightarrow> u \<in> set (users f (VInst i)) \<Longrightarrow> feeds afl f V u"

lemma feed_visit_Inr:
  assumes "feed_visit afl f i = Inr ns"
  shows "isNoSanitizeEquivalent afl f i \<or> pure_value (body f i)"
    and "\<not> isNoSanitizeEquivalent afl f i \<Longrightarrow> u \<in> set (users f (VInst i)) \<Longrightarrow> \<exists>j. u = Some j \<and> j \<in> set ns"
  using assms by (auto simp: feed_visit_def split: if_splits option.splits) (metis image_eqI not_None_eq option.sel)

lemma feeds_closed:
  assumes all: "\<forall>x \<in> S. \<exists>ns. feed_visit afl f x = Inr ns \<and> set ns \<subseteq> S" and ini: "\<And>u. u \<in> set (users f V) \<Longrightarrow> \<exists>j \<in> S. u = Some j"
  shows "feeds afl f V u \<Longrightarrow> \<exists>j \<in> S. u = Some j"
proof (induction rule: feeds.induct)
  case (through i u)
  then obtain ns where ns: "feed_visit afl f i = Inr ns" "set ns \<subseteq> S" using all by auto
  then show ?case using feed_visit_Inr(2) [OF ns(1) through.hyps(2,3)] by blast
qed (rule ini)

lemma onlyFeedsNoSanitize_ok:
  assumes fin: "finite_users f U I" and V: "\<forall>u. Some u \<in> set (users f V) \<longrightarrow> u \<in> I"
  shows "\<exists>b. onlyFeedsNoSanitize afl f V = Some b \<and>
    (b \<longrightarrow> (\<forall>u. feeds afl f V u \<longrightarrow> (\<exists>i. u = Some i \<and> (isNoSanitizeEquivalent afl f i \<or> pure_value (body f i)))))"
proof (cases "None \<in> set (users f V)")
  case True
  then have "onlyFeedsNoSanitize afl f V = Some False" by (simp add: onlyFeedsNoSanitize_def)
  then show ?thesis by auto
next
  case False
  obtain Seen Work where p: "push_new (map the (users f V)) ([], []) = (Seen, Work)" by fastforce
  note s = push_new_start [OF p]
  have users: "\<exists>j. u = Some j \<and> j \<in> set Seen" if "u \<in> set (users f V)" for u
  proof -
    have "u \<noteq> None" using that False by metis
    then obtain j where "u = Some j" by blast
    then show ?thesis using that s(3) by force
  qed
  have sub: "reachable (feed_visit afl f) (set Seen) \<subseteq> I"
  proof (rule reachable_closed)
    show "set Seen \<subseteq> I"
    proof
      fix x assume "x \<in> set Seen"
      then obtain u where u: "u \<in> set (users f V)" "x = the u" using s(3) by auto
      then have "u \<noteq> None" using False by metis
      then obtain j where "u = Some j" by blast
      then show "x \<in> I" using V u by simp
    qed
    fix x ns assume x: "x \<in> I" "feed_visit afl f x = Inr ns"
    show "set ns \<subseteq> I"
    proof
      fix y assume "y \<in> set ns"
      then have "Some y \<in> set (users f (VInst x))" using x(2)
        by (auto simp: feed_visit_def split: if_splits) (metis option.exhaust_sel)
      then show "y \<in> I" using fin x(1) unfolding finite_users_def by blast
    qed
  qed
  have "finite I" using fin by (simp add: finite_users_def)
  then have f: "finite (reachable (feed_visit afl f) (set Seen))" by (rule finite_subset [OF sub])
  note unf = onlyFeedsNoSanitize_def [of afl f V]
  show ?thesis
  proof (rule worklist_ok [OF f s(2), of feed_over])
    fix r assume "worklist (feed_visit afl f) feed_over Seen Seen = Some (Inl r)"
    then have "onlyFeedsNoSanitize afl f V = Some False" using False p s(1) by (simp add: unf)
    then show ?thesis by auto
  next
    fix S assume w: "worklist (feed_visit afl f) feed_over Seen Seen = Some (Inr S)"
      and S: "set S = reachable (feed_visit afl f) (set Seen)" "\<forall>x \<in> set S. \<exists>ns. feed_visit afl f x = Inr ns"
    have cl: "\<forall>x \<in> set S. \<exists>ns. feed_visit afl f x = Inr ns \<and> set ns \<subseteq> set S"
    proof
      fix x assume x: "x \<in> set S"
      then obtain ns where ns: "feed_visit afl f x = Inr ns" using S(2) by blast
      then show "\<exists>ns. feed_visit afl f x = Inr ns \<and> set ns \<subseteq> set S" using reachable.step [of x "feed_visit afl f" "set Seen", OF _ ns] x S(1) by blast
    qed
    have ini: "\<exists>j \<in> set S. u = Some j" if u: "u \<in> set (users f V)" for u
    proof -
      obtain j where j: "u = Some j" "j \<in> set Seen" using users [OF u] by blast
      have "j \<in> set S" unfolding S(1) by (rule reachable.base [OF j(2)])
      then show ?thesis using j(1) by blast
    qed
    have "\<exists>i. u = Some i \<and> (isNoSanitizeEquivalent afl f i \<or> pure_value (body f i))" if u: "feeds afl f V u" for u
    proof -
      obtain i where i: "i \<in> set S" "u = Some i" using feeds_closed [OF cl ini u] by blast
      obtain ns where "feed_visit afl f i = Inr ns" using S(2) i(1) by blast
      then show ?thesis using feed_visit_Inr(1) i(2) by blast
    qed
    moreover have "\<exists>b. onlyFeedsNoSanitize afl f V = Some b" using False p s(1) w by (auto simp: unf)
    ultimately show ?thesis by auto
  qed
qed

section \<open>Properties\<close>

text \<open>
  The undef slice is computed in finitely many steps, in any function with finitely many
  instructions, cyclic PHIs included, and it is exactly the least set that contains the scalar PHIs and
  selects with an undef operand and is closed under the instructions a value flows through.
\<close>

theorem undef_slice_terminates:
  assumes "finite_users f U I" and "set Is \<subseteq> I"
  shows "\<exists>S. computeUndefSlice f Is = Some S \<and> distinct S \<and> set S = undef_slice f (set Is)"
  by (rule computeUndefSlice_ok [OF assms])

text \<open>A loop PHI that starts undefined, is increased in each round and decides the exit branch.\<close>

definition slice_example :: func where
  "slice_example = \<lparr>body = (\<lambda>i. [BrI None, PhiI [VUndef (IntegerTy 32), VInst 2], BinI BAdd (VInst 1) (VInt 1),
       ICmpI (VInst 2) (VInt 9), BrI (Some (VInst 3)), RetI None] ! i),
     ity = (\<lambda>i. if i = 3 then IntegerTy 1 else if i = 1 \<or> i = 2 then IntegerTy 32 else UnsizedTy),
     blocks = (\<lambda>b. if b = 0 then [0] else if b = 1 then [1, 2, 3, 4] else [5]),
     parent = (\<lambda>i. if i = 0 then 0 else if i < 5 then 1 else 2), succs = (\<lambda>b. if b = 0 then [1] else if b = 1 then [1, 2] else []),
     users = (\<lambda>v. if v = VInst 1 then [Some 2] else if v = VInst 2 then [Some 1, Some 3] else if v = VInst 3 then [Some 4] else []),
     nosanitize = (\<lambda>_. False), transfers = (\<lambda>_. True)\<rparr>"

lemma slice_example_finite: "finite_users slice_example {0, 1, 2} {0, 1, 2, 3, 4, 5}"
  by (auto simp: finite_users_def slice_example_def)

theorem undef_slice_terminates_witness:
  "\<exists>S. computeUndefSlice slice_example [0, 1, 2, 3, 4, 5] = Some S \<and> distinct S \<and> set S = undef_slice slice_example (set [0, 1, 2, 3, 4, 5])"
  by (rule undef_slice_terminates [OF slice_example_finite]) simp


definition slice_example_ty :: "val \<Rightarrow> ty" where
  "slice_example_ty v = (case v of VInst i \<Rightarrow> ity slice_example i | VUndef t \<Rightarrow> t | _ \<Rightarrow> IntegerTy 32)"

lemma slice_example_func: "slice_func slice_example slice_example_ty [0, 1, 2, 3, 4, 5]"
  by (auto simp: slice_func_def slice_inst_def slice_example_ty_def slice_example_def undef_ok_def split: if_splits)

definition slice_example_facts :: call_facts where
  "slice_example_facts = \<lparr>EagerChecks = False, isInlineAsm = False, paramNoUndef = (\<lambda>_. True), paramByVal = (\<lambda>_. False)\<rparr>"


text \<open>
  C38: the filter of return checks decides for every finite graph of shadows, and drops a check only
  when the shadow is zero on every run in which no load check has fired: the check could not report
  anything that has not been reported.
\<close>

theorem return_filter_sound:
  assumes "finite_graph g U" and "v \<in> U"
  shows "\<exists>b. returnShadowMayCarryUndef g v = Some b \<and> (\<not> b \<longrightarrow> (\<forall>\<eta>. quiet_run g \<eta> \<longrightarrow> \<not> shv_nz \<eta> v))"
proof -
  obtain b where b: "may_carry g [v] [] = Some b" "\<not> b \<longrightarrow> (\<exists>X. {v} \<subseteq> X \<and> (\<forall>w \<in> X. settled g X w))"
    using may_carry_ok [OF assms(1), of "[v]" "[]"] assms(2) by auto
  have "\<not> shv_nz \<eta> v" if "\<not> b" "quiet_run g \<eta>" for \<eta>
    using b(2) settled_zero [OF _ that(2)] that(1) by blast
  then show ?thesis using b(1) by (auto simp: returnShadowMayCarryUndef_def)
qed

text \<open>A loop PHI over a checked load and its own update.\<close>

definition filter_example :: shadow_graph where
  "filter_example = \<lparr>transparent = (\<lambda>i. i < 2),
     shadow_operands = (\<lambda>i. if i = 0 then [(SvInst 2, True), (SvInst 1, True)] else if i = 1 then [(SvInst 0, True), (SvConst True, True)] else []),
     CheckedLoadShadows = (\<lambda>i. i = 2)\<rparr>"

theorem return_filter_sound_witness:
  "returnShadowMayCarryUndef filter_example (SvInst 0) = Some False \<and> quiet_run filter_example ((\<lambda>_. False)(3 := True)) \<and>
   \<not> shv_nz ((\<lambda>_. False)(3 := True)) (SvInst 0)"
proof -
  have "finite_graph filter_example {SvInst 0, SvInst 1, SvInst 2, SvConst True}"
    by (auto simp: finite_graph_def filter_example_def)
  moreover have "returnShadowMayCarryUndef filter_example (SvInst 0) = Some False" by code_simp
  moreover have "quiet_run filter_example ((\<lambda>_. False)(3 := True))"
    by (rule quiet_run.other [OF quiet_run.start]) (simp_all add: filter_example_def)
  ultimately show ?thesis using return_filter_sound [of filter_example _ "SvInst 0"] by fastforce
qed

text \<open>
  Whether a loaded value feeds only uninstrumented code is decided in finitely many steps, and the
  check of the load is left out only when every instruction the value reaches is either marked (or a
  fuzzer runtime access) or computes a value from it: it never reaches a branch, a store, a call or a return.
\<close>

theorem feeds_only_nosanitize:
  assumes "finite_users f U I" and "\<forall>u. Some u \<in> set (users f V) \<longrightarrow> u \<in> I"
  shows "\<exists>b. onlyFeedsNoSanitize afl f V = Some b \<and>
    (b \<longrightarrow> (\<forall>u. feeds afl f V u \<longrightarrow> (\<exists>i. u = Some i \<and> (isNoSanitizeEquivalent afl f i \<or> pure_value (body f i)))))"
  by (rule onlyFeedsNoSanitize_ok [OF assms])

theorem feeds_only_nosanitize_witness:
  "onlyFeedsNoSanitize (\<lambda>i. i = 4) slice_example (VInst 2) = Some True \<and> feeds (\<lambda>i. i = 4) slice_example (VInst 2) (Some 3) \<and>
   (isNoSanitizeEquivalent (\<lambda>i. i = 4) slice_example 3 \<or> pure_value (body slice_example 3))"
proof -
  have "onlyFeedsNoSanitize (\<lambda>i. i = 4) slice_example (VInst 2) = Some True" by code_simp
  moreover have "\<forall>u. Some u \<in> set (users slice_example (VInst 2)) \<longrightarrow> u \<in> {0, 1, 2, 3, 4, 5}" by (simp add: slice_example_def)
  moreover have "feeds (\<lambda>i. i = 4) slice_example (VInst 2) (Some 3)" by (rule feeds.direct) (simp add: slice_example_def)
  ultimately show ?thesis using feeds_only_nosanitize [OF slice_example_finite, of "VInst 2" "\<lambda>i. i = 4"] by auto
qed

end
