(* ===== verification/Pass_VarArg.thy ===== *)
theory Pass_VarArg
  imports Pass_Shadow
begin

text \<open>
  The compiler pass: variadic calls on AMD64 (\<^verbatim>\<open>VarArgAMD64Helper\<close>). The caller counts, with the
  register classes of the ABI, how many bytes of variadic arguments go to the stack and leaves the
  number in a thread-local; the callee marks that many bytes as initialised at \<^verbatim>\<open>va_start\<close>.
\<close>

section \<open>The helper\<close>

datatype ArgKind = AK_GeneralPurpose | AK_FloatingPoint | AK_Memory

definition AMD64GpEndOffset :: u32 where "AMD64GpEndOffset = 48"
definition AMD64FpEndOffsetSSE :: u32 where "AMD64FpEndOffsetSSE = 176"
definition AMD64FpEndOffsetNoSSE :: u32 where "AMD64FpEndOffsetNoSSE = AMD64GpEndOffset"

lemmas amd64_defs = AMD64GpEndOffset_def AMD64FpEndOffsetSSE_def AMD64FpEndOffsetNoSSE_def

text \<open>\<^verbatim>\<open>StringRef::contains\<close>.\<close>

fun contains :: "string \<Rightarrow> string \<Rightarrow> bool" where
  "contains [] sub = (sub = [])"
| "contains (c # cs) sub = (take (length sub) (c # cs) = sub \<or> contains cs sub)"

text \<open>The constructor: the end of the register save area, from the string attributes of the function.\<close>

fun fp_end_offset :: "(string \<times> string) list \<Rightarrow> u32" where
  "fp_end_offset [] = AMD64FpEndOffsetSSE"
| "fp_end_offset ((kind, v) # attrs) =
    (if kind = ''target-features''
     then (if contains v ''-sse'' then AMD64FpEndOffsetNoSSE else AMD64FpEndOffsetSSE)
     else fp_end_offset attrs)"

fun isFPOrFPVectorTy :: "ty \<Rightarrow> bool" where
  "isFPOrFPVectorTy (FloatTy w) = True"
| "isFPOrFPVectorTy (FixedVectorTy n t) = (case t of FloatTy w \<Rightarrow> True | _ \<Rightarrow> False)"
| "isFPOrFPVectorTy (ScalableVectorTy n t) = (case t of FloatTy w \<Rightarrow> True | _ \<Rightarrow> False)"
| "isFPOrFPVectorTy _ = False"

text \<open>The 80-bit float is the x87 one.\<close>

definition classifyArgument :: "ty \<Rightarrow> ArgKind" where
  "classifyArgument T =
    (if T = FloatTy 80 then AK_Memory
     else if isFPOrFPVectorTy T then AK_FloatingPoint
     else case T of
            IntegerTy w \<Rightarrow> if w \<le> 64 then AK_GeneralPurpose else AK_Memory
          | PointerTy \<Rightarrow> AK_GeneralPurpose
          | _ \<Rightarrow> AK_Memory)"

text \<open>
  An argument: its type, whether it is passed by value, and the allocation size of its type, or of
  the pointee's when by value. \<open>alignTo\<close> is LLVM's rounding up.
\<close>

record vararg =
  arg_ty :: ty
  IsByVal :: bool
  arg_size :: u64

definition alignTo :: "u64 \<Rightarrow> u64 \<Rightarrow> u64" where
  "alignTo v a = (v + a - 1) div a * a"

text \<open>The state of the loop: \<^verbatim>\<open>GpOffset\<close>, \<^verbatim>\<open>FpOffset\<close>, \<^verbatim>\<open>OverflowOffset\<close>.\<close>

definition va_step :: "u32 \<Rightarrow> nat \<Rightarrow> nat \<times> vararg \<Rightarrow> u32 \<times> u32 \<times> u32 \<Rightarrow> u32 \<times> u32 \<times> u32" where
  "va_step FpEnd NumParams na st =
    (case (na, st) of ((ArgNo, A), (GpOffset, FpOffset, OverflowOffset)) \<Rightarrow>
       let IsFixed = ArgNo < NumParams;
           memory = (if IsFixed then (GpOffset, FpOffset, OverflowOffset)
                     else (GpOffset, FpOffset, OverflowOffset + ucast (alignTo (arg_size A) 8)))
       in if IsByVal A then memory
          else let AK = classifyArgument (arg_ty A);
                   AK1 = (if AK = AK_GeneralPurpose \<and> GpOffset \<ge> AMD64GpEndOffset then AK_Memory else AK);
                   AK2 = (if AK1 = AK_FloatingPoint \<and> FpOffset \<ge> FpEnd then AK_Memory else AK1)
               in case AK2 of
                    AK_GeneralPurpose \<Rightarrow> (GpOffset + 8, FpOffset, OverflowOffset)
                  | AK_FloatingPoint \<Rightarrow> (GpOffset, FpOffset + 16, OverflowOffset)
                  | AK_Memory \<Rightarrow> memory)"

text \<open>\<^verbatim>\<open>visitCallBase\<close>: the number stored to \<^verbatim>\<open>VAArgOverflowSizeTLS\<close>.\<close>

definition va_overflow_size :: "u32 \<Rightarrow> nat \<Rightarrow> vararg list \<Rightarrow> u64" where
  "va_overflow_size FpEnd NumParams args =
    (let (_, _, OverflowOffset) = fold (va_step FpEnd NumParams) (enumerate 0 args) (0, AMD64GpEndOffset, FpEnd)
     in ucast (OverflowOffset - FpEnd))"

section \<open>The ABI\<close>

text \<open>
  The calling convention, independently of offsets: six general purpose registers, \<open>fp_regs\<close> vector
  registers; an argument goes to the stack if it is passed by value, is of class memory, or its class
  has run out of registers.
\<close>

definition in_class :: "ArgKind \<Rightarrow> vararg \<Rightarrow> bool" where
  "in_class k A \<longleftrightarrow> \<not> IsByVal A \<and> classifyArgument (arg_ty A) = k"

definition fp_regs :: "u32 \<Rightarrow> nat" where
  "fp_regs FpEnd = (unat FpEnd - 48) div 16"

definition on_stack :: "nat \<Rightarrow> vararg list \<Rightarrow> vararg \<Rightarrow> bool" where
  "on_stack fp before A \<longleftrightarrow> IsByVal A \<or> in_class AK_Memory A \<or>
     in_class AK_GeneralPurpose A \<and> 6 \<le> length (filter (in_class AK_GeneralPurpose) before) \<or>
     in_class AK_FloatingPoint A \<and> fp \<le> length (filter (in_class AK_FloatingPoint) before)"

definition slot_bytes :: "vararg \<Rightarrow> nat" where
  "slot_bytes A = (unat (arg_size A) + 7) div 8 * 8"

fun stack_bytes :: "nat \<Rightarrow> nat \<Rightarrow> vararg list \<Rightarrow> vararg list \<Rightarrow> nat" where
  "stack_bytes fp NumParams before [] = 0"
| "stack_bytes fp NumParams before (A # As) =
    (if NumParams \<le> length before \<and> on_stack fp before A then slot_bytes A else 0) +
    stack_bytes fp NumParams (before @ [A]) As"

definition sizes_ok :: "vararg list \<Rightarrow> bool" where
  "sizes_ok args \<longleftrightarrow> sum_list (map slot_bytes args) < 2 ^ 31"

text \<open>The counters: registers used so far, and the stack bytes counted so far.\<close>

definition va_inv :: "u32 \<Rightarrow> vararg list \<Rightarrow> nat \<Rightarrow> u32 \<times> u32 \<times> u32 \<Rightarrow> bool" where
  "va_inv FpEnd before n st = (case st of (gp, fp, ov) \<Rightarrow>
     unat gp = 8 * min 6 (length (filter (in_class AK_GeneralPurpose) before)) \<and>
     unat fp = 48 + 16 * min (fp_regs FpEnd) (length (filter (in_class AK_FloatingPoint) before)) \<and>
     unat ov = unat FpEnd + n)"

lemma alignTo_slot: "slot_bytes A < 2 ^ 31 \<Longrightarrow> unat (ucast (alignTo (arg_size A) 8) :: u32) = slot_bytes A"
proof -
  assume small: "slot_bytes A < 2 ^ 31"
  have s: "unat (arg_size A) < 2 ^ 31" using small by (simp add: slot_bytes_def)
  have "unat (arg_size A + 8 - 1) = unat (arg_size A) + 7"
  proof -
    have "arg_size A + 8 - 1 = arg_size A + 7" by simp
    moreover have "unat (arg_size A + 7) = unat (arg_size A) + 7" using s by (subst unat_add_lem [THEN iffD1]) auto
    ultimately show ?thesis by metis
  qed
  then have "unat ((arg_size A + 8 - 1) div 8 * 8) = (unat (arg_size A) + 7) div 8 * 8"
    using s by (simp add: unat_mult_lem [THEN iffD1] unat_div)
  then show ?thesis using small by (simp add: alignTo_def slot_bytes_def unsigned_ucast_eq take_bit_eq_mod)
qed


lemma va_add:
  fixes ov :: u32
  assumes "unat ov = b + n" and "b \<le> 176" and "n + slot_bytes A < 2 ^ 31"
  shows "unat (ov + ucast (alignTo (arg_size A) 8)) = b + (n + slot_bytes A)"
proof -
  have a: "unat (ucast (alignTo (arg_size A) 8) :: u32) = slot_bytes A" using assms(3) by (intro alignTo_slot) simp
  then have "unat ov + unat (ucast (alignTo (arg_size A) 8) :: u32) < 2 ^ LENGTH(32)" using assms by simp
  then show ?thesis using a assms(1) by (simp add: unat_add_lem [THEN iffD1])
qed

lemma unat_small_add:
  fixes x :: u32
  assumes "unat x = n" and "n + m < 2 ^ 32" and "unat y = m"
  shows "unat (x + y) = n + m"
  using assms by (simp add: unat_add_lem [THEN iffD1])

lemma va_step_ok:
  assumes inv: "va_inv FpEnd before n st" and end_ok: "FpEnd \<in> {AMD64FpEndOffsetSSE, AMD64FpEndOffsetNoSSE}"
    and small: "n + slot_bytes A < 2 ^ 31"
  shows "va_inv FpEnd (before @ [A]) (n + (if NumParams \<le> length before \<and> on_stack (fp_regs FpEnd) before A then slot_bytes A else 0))
    (va_step FpEnd NumParams (length before, A) st)"
proof -
  obtain gp fp ov where st: "st = (gp, fp, ov)" by (cases st)
  let ?g = "length (filter (in_class AK_GeneralPurpose) before)" and ?f = "length (filter (in_class AK_FloatingPoint) before)"
  let ?mem = "if length before < NumParams then (gp, fp, ov) else (gp, fp, ov + ucast (alignTo (arg_size A) 8))"
  have e: "unat FpEnd = 48 + 16 * fp_regs FpEnd" "fp_regs FpEnd \<le> 8" using end_ok by (auto simp: fp_regs_def amd64_defs)
  have gp: "unat gp = 8 * min 6 ?g" and fp: "unat fp = 48 + 16 * min (fp_regs FpEnd) ?f" and ov: "unat ov = unat FpEnd + n"
    using inv st by (simp_all add: va_inv_def)
  have gfull: "gp \<ge> AMD64GpEndOffset \<longleftrightarrow> 6 \<le> ?g" using gp by (simp add: word_le_nat_alt AMD64GpEndOffset_def)
  have ffull: "fp \<ge> FpEnd \<longleftrightarrow> fp_regs FpEnd \<le> ?f" using fp e by (simp add: word_le_nat_alt)
  have add: "unat (ov + ucast (alignTo (arg_size A) 8)) = unat FpEnd + (n + slot_bytes A)"
    using ov e small by (intro va_add) simp_all
  have g8: "unat (gp + 8) = unat gp + 8" using gp by (intro unat_small_add) simp_all
  have f16: "unat (fp + 16) = unat fp + 16" using fp e by (intro unat_small_add) simp_all
  consider (byval) "IsByVal A" | (gp) "in_class AK_GeneralPurpose A" | (fp) "in_class AK_FloatingPoint A" | (mem) "in_class AK_Memory A"
    by (cases "classifyArgument (arg_ty A)") (auto simp: in_class_def)
  then show ?thesis
  proof cases
    case byval
    then have "va_step FpEnd NumParams (length before, A) st = ?mem" by (simp add: va_step_def st Let_def)
    then show ?thesis using byval gp fp ov add by (auto simp: va_inv_def on_stack_def in_class_def)
  next
    case gp': gp
    then have "va_step FpEnd NumParams (length before, A) st = (if 6 \<le> ?g then ?mem else (gp + 8, fp, ov))"
      using gfull by (simp add: va_step_def st Let_def in_class_def)
    then show ?thesis using gp' gp fp ov add g8 by (auto simp: va_inv_def on_stack_def in_class_def)
  next
    case fp': fp
    then have "va_step FpEnd NumParams (length before, A) st = (if fp_regs FpEnd \<le> ?f then ?mem else (gp, fp + 16, ov))"
      using ffull by (simp add: va_step_def st Let_def in_class_def)
    then show ?thesis using fp' gp fp ov add f16 by (auto simp: va_inv_def on_stack_def in_class_def)
  next
    case mem
    then have "va_step FpEnd NumParams (length before, A) st = ?mem" by (simp add: va_step_def st Let_def in_class_def)
    then show ?thesis using mem gp fp ov add by (auto simp: va_inv_def on_stack_def in_class_def)
  qed
qed

lemma va_loop_ok:
  assumes "va_inv FpEnd before n st" and "FpEnd \<in> {AMD64FpEndOffsetSSE, AMD64FpEndOffsetNoSSE}"
    and "n + sum_list (map slot_bytes args) < 2 ^ 31"
  shows "va_inv FpEnd (before @ args) (n + stack_bytes (fp_regs FpEnd) NumParams before args)
    (fold (va_step FpEnd NumParams) (enumerate (length before) args) st)"
  using assms
proof (induction args arbitrary: before n st)
  case (Cons A As)
  let ?m = "if NumParams \<le> length before \<and> on_stack (fp_regs FpEnd) before A then slot_bytes A else 0"
  have "va_inv FpEnd (before @ [A]) (n + ?m) (va_step FpEnd NumParams (length before, A) st)"
    using Cons.prems by (intro va_step_ok) simp_all
  from Cons.IH [OF this Cons.prems(2)] Cons.prems(3) show ?case by (simp add: add.assoc split: if_splits)
qed simp

section \<open>Properties\<close>



definition int_arg :: vararg where "int_arg = \<lparr>arg_ty = IntegerTy 32, IsByVal = False, arg_size = 4\<rparr>"
definition double_arg :: vararg where "double_arg = \<lparr>arg_ty = FloatTy 64, IsByVal = False, arg_size = 8\<rparr>"
definition long_double_arg :: vararg where "long_double_arg = \<lparr>arg_ty = FloatTy 80, IsByVal = False, arg_size = 16\<rparr>"
definition format_arg :: vararg where "format_arg = \<lparr>arg_ty = PointerTy, IsByVal = False, arg_size = 8\<rparr>"

lemmas example_args = int_arg_def double_arg_def long_double_arg_def format_arg_def


text \<open>
  The area itself: the ABI aligns the position of a stack argument of 16-byte alignment, such as a
  long double; \<open>aligns\<close> gives the alignment of each of the arguments on the stack.
\<close>

fun area_end :: "(vararg \<times> nat) list \<Rightarrow> nat \<Rightarrow> nat" where
  "area_end [] off = off"
| "area_end ((A, al) # As) off = area_end As ((off + al - 1) div al * al + slot_bytes A)"


end
