(* ===== verification/Pass_Visit.thy ===== *)
theory Pass_Visit
  imports Pass_Slice Pass_VarArg
begin

text \<open>
  The compiler pass: the visitor. Every \<^verbatim>\<open>visit\<close> and \<^verbatim>\<open>handle\<close> method is a function on the state of the
  visitor (\<^verbatim>\<open>ShadowMap\<close>, the lists of requested checks, stores, allocas, PHIs and return checks) that
  also appends the code it generates. The address of a shadow access is \<^term>\<open>getShadowPtr\<close> of the pointer
  named. The default build is modelled (without \<^verbatim>\<open>CQMSAN_FLIP_CONVENTION\<close>).
\<close>

section \<open>Options and facts about the function\<close>

record cl_opts =
  ClInstrumentLoads :: bool
  ClCheckLoads :: bool
  ClInstrumentStores :: bool
  ClUnpoisonStores :: bool
  ClCheckAccessAddress :: bool
  ClSkipNoSanitizeOnlyLoads :: bool
  ClSkipCalleeOnlyLoads :: bool
  ClSkipAFLRuntimeAccesses :: bool
  ClUndefSlice :: bool
  ClSinkChecks :: bool
  ClSinkPastBarriers :: bool
  ClTrustReturn :: bool
  ClCheckReturns :: bool
  ClHandleAsmConservative :: bool
  ClHandleLifetimeIntrinsics :: bool
  ClPoisonStackWithCall :: bool
  ClPoisonStackPattern :: int
  InsertChecks :: bool
  PoisonStack :: bool
  PoisonUndef :: bool

datatype libfunc = LibFunc_atomic_load | LibFunc_atomic_store | OtherLibFunc

text \<open>
  What LLVM says of a call: attributes, the library function it is, its prototype, the operands of
  inline assembly. \<open>normalDest\<close> is the normal destination of an invoke and whether that block has a
  single predecessor.
\<close>

record call_info = call_facts +
  LF :: libfunc
  calledName :: "string option"
  isVarArgCall :: bool
  numParams :: nat
  byValSize :: "nat \<Rightarrow> u64"
  isMustTailCall :: bool
  retNoUndef :: bool
  normalDest :: "nat \<times> bool"
  asmOutputs :: nat
  paramElementType :: "nat \<Rightarrow> ty"

text \<open>
  What LLVM says of the function: types, sizes, orderings, which alloca an address belongs to, the
  end of the prologue. \<open>fresh i k\<close> names the \<open>k\<close>-th further instruction generated for \<open>i\<close>; the shadow
  of \<open>i\<close> itself is \<open>Val i\<close>.
\<close>

record vctx =
  fn :: func
  clo :: cl_opts
  popts :: pass_opts
  value_ty :: "val \<Rightarrow> ty"
  vscale :: nat
  ordering :: "nat \<Rightarrow> AtomicOrdering"
  alloc_size :: "ty \<Rightarrow> u64"
  store_size :: "ty \<Rightarrow> u64"
  allocated :: "nat \<Rightarrow> ty"
  onlyReadsMemory :: "nat \<Rightarrow> bool"
  callinfo :: "nat \<Rightarrow> call_info"
  findAllocaForValue :: "val \<Rightarrow> nat option"
  underlyingObjects :: "val \<Rightarrow> val list"
  underlyingObject :: "val \<Rightarrow> val"
  FnPrologueEnd :: nat
  shouldExecute :: "nat \<Rightarrow> bool"
  isWin64 :: bool
  isX86_64 :: bool
  fn_attrs :: "(string \<times> string) list"
  fnRetNoUndef :: bool
  fresh :: "nat \<Rightarrow> nat \<Rightarrow> nat"

section \<open>Generated code\<close>

datatype place = Before nat | After nat | BlockStart nat

datatype glen = LenConst u64 | LenMul u64 val | LenVal val | LenOverflow

text \<open>
  The code generated besides the checks. A shadow is its type and its value; \<open>GShadow\<dots>\<close> operations
  work on the shadow of the memory at a pointer, the vector ones under a mask. \<open>GVaMemset v off\<close> marks the
  memory at the address that the word \<open>off\<close> of the va-list \<open>v\<close> holds.
\<close>

type_synonym shadow = "ty \<times> expr"

datatype gcode =
    GShadowLoad nat ty val
  | GShadowStore shadow val
  | GMaskedLoad nat ty val val "shadow option"
  | GMaskedExpandLoad nat ty val val "shadow option"
  | GMaskedGather nat ty val val "shadow option"
  | GMaskedStore shadow val val
  | GMaskedCompressStore shadow val val
  | GMaskedScatter shadow val val
  | GMaskSelect nat val "shadow option" shadow
  | GShadowMemset u8 val glen
  | GShadowMemcpy val val val
  | GVaMemset val nat u8 glen
  | GCall string "val list"
  | GPoisonStack nat glen
  | GStoreRetval shadow
  | GLoadRetval nat ty
  | GStoreOverflowSize u64
  | GLoadOverflowSize
  | GSetOrdering AtomicOrdering
  | GOrderingArg "nat list" val
  | GErase
  | GRemoveMemoryAttrs
  | GPhi nat ty nat
  | GPhiIncoming nat "shadow option list"
  | GSlice nat uexpr

section \<open>The state of the visitor\<close>

text \<open>
  \<open>ShadowMap i = Some None\<close> is an entry with a null shadow, that of a value without size. \<open>failed\<close> records
  that an assertion of the source would have stopped a debug build: two shadows for a value, no shadow
  for a value that is used, or a check of a null shadow.
\<close>

record vstate =
  Instructions :: "nat list"
  ShadowMap :: "nat \<Rightarrow> shadow option option"
  ShadowPHINodes :: "nat list"
  InstrumentationList :: "ShadowAndInsertPoint list"
  CheckedLoads :: "expr list"
  PendingReturnChecks :: "(val \<times> nat) list"
  UndefSlice :: "nat list"
  InstrumentLifetimeStart :: bool
  AllocaSet :: "nat list"
  LifetimeStartList :: "(nat \<times> nat) list"
  StoreList :: "nat list"
  VAStartInstrumentationList :: "(nat \<times> val) list"
  Code :: "(place \<times> gcode) list"
  failed :: bool

definition vstate0 :: "vctx \<Rightarrow> vstate" where
  "vstate0 cx = \<lparr>Instructions = [], ShadowMap = (\<lambda>_. None), ShadowPHINodes = [], InstrumentationList = [], CheckedLoads = [],
     PendingReturnChecks = [], UndefSlice = [], InstrumentLifetimeStart = ClHandleLifetimeIntrinsics (clo cx), AllocaSet = [],
     LifetimeStartList = [], StoreList = [], VAStartInstrumentationList = [], Code = [], failed = False\<rparr>"

definition emit :: "place \<Rightarrow> gcode \<Rightarrow> vstate \<Rightarrow> vstate" where
  "emit p g st = st\<lparr>Code := Code st @ [(p, g)]\<rparr>"

definition afl_access :: "vctx \<Rightarrow> nat \<Rightarrow> bool" where
  "afl_access cx i = isAFLRuntimeAccess (ClSkipAFLRuntimeAccesses (clo cx)) (underlyingObjects cx) (underlyingObject cx) (fn cx) i"

section \<open>Shadows\<close>

definition cleanShadowOf :: "vctx \<Rightarrow> ty \<Rightarrow> shadow option" where
  "cleanShadowOf cx t = map_option (\<lambda>c. (shadow_ty t, Const c)) (getCleanShadow False (vscale cx) t)"

definition poisonedShadowOf :: "vctx \<Rightarrow> ty \<Rightarrow> shadow option" where
  "poisonedShadowOf cx t = map_option (\<lambda>c. (shadow_ty t, Const c)) (getPoisonedShadow False (vscale cx) t)"

definition setShadow :: "nat \<Rightarrow> shadow option \<Rightarrow> vstate \<Rightarrow> vstate" where
  "setShadow i S st = st\<lparr>ShadowMap := (ShadowMap st)(i \<mapsto> S), failed := failed st \<or> ShadowMap st i \<noteq> None\<rparr>"

text \<open>Looking up a value without an entry leaves a null entry behind, as \<^verbatim>\<open>DenseMap\<close>'s \<^verbatim>\<open>[]\<close> does.\<close>

definition getShadow :: "vctx \<Rightarrow> val \<Rightarrow> vstate \<Rightarrow> shadow option \<times> vstate" where
  "getShadow cx V st =
    (case V of
       VInst i \<Rightarrow>
         if isNoSanitizeEquivalent (afl_access cx) (fn cx) i then (cleanShadowOf cx (value_ty cx V), st)
         else (case ShadowMap st i of
                 Some (Some S) \<Rightarrow> (Some S, st)
               | _ \<Rightarrow> (cleanShadowOf cx (value_ty cx V), st\<lparr>ShadowMap := (ShadowMap st)(i \<mapsto> None), failed := True\<rparr>))
     | VUndef t \<Rightarrow> ((if PoisonUndef (clo cx) then poisonedShadowOf cx t else cleanShadowOf cx t), st)
     | _ \<Rightarrow> (cleanShadowOf cx (value_ty cx V), st))"

definition pushShadowCheck :: "vctx \<Rightarrow> shadow option \<Rightarrow> nat \<Rightarrow> bool \<Rightarrow> vstate \<Rightarrow> vstate" where
  "pushShadowCheck cx S i ess st =
    (case S of None \<Rightarrow> st\<lparr>failed := True\<rparr>
     | Some (t, e) \<Rightarrow>
         if InsertChecks (clo cx)
         then st\<lparr>InstrumentationList := InstrumentationList st @ [\<lparr>ShadowTyV = t, ShadowV = e, OrigIns = i, Essential = ess\<rparr>]\<rparr>
         else st)"

definition insertShadowCheck :: "vctx \<Rightarrow> val \<Rightarrow> nat \<Rightarrow> vstate \<Rightarrow> vstate" where
  "insertShadowCheck cx V i st =
    (let (S, st1) = getShadow cx V st
     in case S of None \<Rightarrow> st1
        | Some (t, e) \<Rightarrow>
            if ClCheckConstantShadow (popts cx) \<or> \<not> is_constant e then pushShadowCheck cx S i True st1 else st1)"

definition checkAddress :: "vctx \<Rightarrow> val list \<Rightarrow> nat \<Rightarrow> vstate \<Rightarrow> vstate" where
  "checkAddress cx vs i st = (if ClCheckAccessAddress (clo cx) then fold (\<lambda>v. insertShadowCheck cx v i) vs st else st)"

section \<open>The first pass: collecting\<close>

definition isInPrologue :: "vctx \<Rightarrow> nat \<Rightarrow> bool" where
  "isInPrologue cx i \<longleftrightarrow> parent (fn cx) i = parent (fn cx) (FnPrologueEnd cx) \<and>
     (i = FnPrologueEnd cx \<or> comesBefore (fn cx) i (FnPrologueEnd cx))"

definition visit_collect :: "vctx \<Rightarrow> nat \<Rightarrow> vstate \<Rightarrow> vstate" where
  "visit_collect cx i st =
    (if nosanitize (fn cx) i then st
     else if afl_access cx i then st
     else if isInPrologue cx i then st
     else if \<not> shouldExecute cx i then setShadow i (cleanShadowOf cx (ity (fn cx) i)) st
     else st\<lparr>Instructions := Instructions st @ [i]\<rparr>)"

section \<open>Loads, stores and atomics\<close>

definition setClean :: "vctx \<Rightarrow> nat \<Rightarrow> vstate \<Rightarrow> vstate" where
  "setClean cx i st = setShadow i (cleanShadowOf cx (ity (fn cx) i)) st"

definition visitLoadInst :: "vctx \<Rightarrow> nat \<Rightarrow> val \<Rightarrow> vstate \<Rightarrow> vstate" where
  "visitLoadInst cx i Addr st =
    (let opt = clo cx; f = fn cx
     in if \<not> ClInstrumentLoads opt then setClean cx i st
        else if ClSkipNoSanitizeOnlyLoads opt \<and> onlyFeedsNoSanitize (afl_access cx) f (VInst i) = Some True
        then checkAddress cx [Addr] i (setClean cx i st)
        else if ClSkipCalleeOnlyLoads opt \<and> onlyFeedsCallee f (VInst i)
        then checkAddress cx [Addr] i (setClean cx i st)
        else
          let ShadowAfterLoad = (\<not> isUnsplittableTerminator (body f (getTerminator f (parent f i))));
              ShadowTy = shadow_ty (ity f i);
              S = (ShadowTy, Val i);
              st1 = setShadow i (Some S) (emit (if ShadowAfterLoad then After i else Before i) (GShadowLoad i ShadowTy Addr) st);
              st2 = (if ClCheckLoads opt
                     then (pushShadowCheck cx (Some S) i False st1)\<lparr>CheckedLoads := CheckedLoads st1 @ [Val i]\<rparr>
                     else st1);
              st3 = checkAddress cx [Addr] i st2
          in if ordering cx i \<noteq> NotAtomic then emit (Before i) (GSetOrdering (addAcquireOrdering (ordering cx i))) st3 else st3)"

definition visitStoreInst :: "vctx \<Rightarrow> nat \<Rightarrow> val \<Rightarrow> vstate \<Rightarrow> vstate" where
  "visitStoreInst cx i Addr st =
    (if \<not> ClInstrumentStores (clo cx) then st
     else checkAddress cx [Addr] i (st\<lparr>StoreList := StoreList st @ [i]\<rparr>))"

text \<open>The shadow a vector store writes: clean, or that of the value when stores propagate.\<close>

definition storedShadow :: "vctx \<Rightarrow> val \<Rightarrow> vstate \<Rightarrow> shadow option \<times> vstate" where
  "storedShadow cx V st = (if ClUnpoisonStores (clo cx) then (cleanShadowOf cx (value_ty cx V), st) else getShadow cx V st)"

definition emit_store :: "place \<Rightarrow> (shadow \<Rightarrow> gcode) \<Rightarrow> shadow option \<times> vstate \<Rightarrow> vstate" where
  "emit_store p g r = (case fst r of Some s \<Rightarrow> emit p (g s) (snd r) | None \<Rightarrow> snd r)"

definition handleCASOrRMW :: "vctx \<Rightarrow> nat \<Rightarrow> bool \<Rightarrow> val \<Rightarrow> val \<Rightarrow> vstate \<Rightarrow> vstate" where
  "handleCASOrRMW cx i isCmpXchg Addr V st =
    (let st1 = checkAddress cx [Addr] i st;
         st2 = (if isCmpXchg then insertShadowCheck cx V i st1 else st1);
         st3 = emit_store (Before i) (\<lambda>S. GShadowStore S Addr) (cleanShadowOf cx (value_ty cx V), st2)
     in setClean cx i st3)"

definition visitAtomicRMWInst :: "vctx \<Rightarrow> nat \<Rightarrow> val \<Rightarrow> val \<Rightarrow> vstate \<Rightarrow> vstate" where
  "visitAtomicRMWInst cx i Addr V st =
    emit (Before i) (GSetOrdering (addReleaseOrdering (ordering cx i))) (handleCASOrRMW cx i False Addr V st)"

definition visitAtomicCmpXchgInst :: "vctx \<Rightarrow> nat \<Rightarrow> val \<Rightarrow> val \<Rightarrow> vstate \<Rightarrow> vstate" where
  "visitAtomicCmpXchgInst cx i Addr V st =
    emit (Before i) (GSetOrdering (addReleaseOrdering (ordering cx i))) (handleCASOrRMW cx i True Addr V st)"

text \<open>The stores are instrumented after everything else.\<close>

definition materialize_store :: "vctx \<Rightarrow> nat \<Rightarrow> vstate \<Rightarrow> vstate" where
  "materialize_store cx i st =
    (case body (fn cx) i of
       StoreI V Addr \<Rightarrow>
         let atomic = (ordering cx i \<noteq> NotAtomic);
             clean = (ClUnpoisonStores (clo cx) \<or> atomic) \<and> \<not> (ClUnpoisonStores (clo cx) \<and> \<not> atomic \<and> in_slice (UndefSlice st) V);
             (S, st1) = (if clean then (cleanShadowOf cx (value_ty cx V), st) else getShadow cx V st);
             st2 = emit_store (Before i) (\<lambda>s. GShadowStore s Addr) (S, st1)
         in if atomic then emit (Before i) (GSetOrdering (addReleaseOrdering (ordering cx i))) st2 else st2
     | _ \<Rightarrow> st)"

definition materializeStores :: "vctx \<Rightarrow> vstate \<Rightarrow> vstate" where
  "materializeStores cx st = fold (materialize_store cx) (StoreList st) st"


section \<open>Memory and variadic intrinsics\<close>

text \<open>The intrinsics become calls of the runtime; \<^verbatim>\<open>getShadow\<close> of the source operand is called for its effect.\<close>

definition visitMemMoveInst :: "vctx \<Rightarrow> nat \<Rightarrow> val list \<Rightarrow> vstate \<Rightarrow> vstate" where
  "visitMemMoveInst cx i args st =
    emit (Before i) GErase (emit (Before i) (GCall ''__cqmsan_memmove'' (take 3 args)) (snd (getShadow cx (args ! 1) st)))"

definition visitMemCpyInst :: "vctx \<Rightarrow> nat \<Rightarrow> val list \<Rightarrow> vstate \<Rightarrow> vstate" where
  "visitMemCpyInst cx i args st =
    emit (Before i) GErase (emit (Before i) (GCall ''__cqmsan_memcpy'' (take 3 args)) (snd (getShadow cx (args ! 1) st)))"

definition visitMemSetInst :: "vctx \<Rightarrow> nat \<Rightarrow> val list \<Rightarrow> vstate \<Rightarrow> vstate" where
  "visitMemSetInst cx i args st = emit (Before i) GErase (emit (Before i) (GCall ''__cqmsan_memset'' (take 3 args)) st)"

definition unpoisonVAListTagForInst :: "u64 \<Rightarrow> nat \<Rightarrow> val \<Rightarrow> vstate \<Rightarrow> vstate" where
  "unpoisonVAListTagForInst VAListTagSize i VAListTag st = emit (Before i) (GShadowMemset 0 VAListTag (LenConst VAListTagSize)) st"

text \<open>On AMD64 the tag has 24 bytes; elsewhere 32 are marked and nothing else is done.\<close>

definition visitVAStartInst :: "vctx \<Rightarrow> nat \<Rightarrow> val list \<Rightarrow> vstate \<Rightarrow> vstate" where
  "visitVAStartInst cx i args st =
    (if isX86_64 cx
     then (if isWin64 cx then st
           else unpoisonVAListTagForInst 24 i (args ! 0) (st\<lparr>VAStartInstrumentationList := VAStartInstrumentationList st @ [(i, args ! 0)]\<rparr>))
     else unpoisonVAListTagForInst 32 i (args ! 0) st)"

definition visitVACopyInst :: "vctx \<Rightarrow> nat \<Rightarrow> val list \<Rightarrow> vstate \<Rightarrow> vstate" where
  "visitVACopyInst cx i args st =
    (if isX86_64 cx \<and> \<not> isWin64 cx then unpoisonVAListTagForInst 24 i (args ! 0) st else st)"

definition va_visitCallBase :: "vctx \<Rightarrow> nat \<Rightarrow> val list \<Rightarrow> vstate \<Rightarrow> vstate" where
  "va_visitCallBase cx i args st =
    (if isX86_64 cx
     then let ci = callinfo cx i;
              arg = (\<lambda>n. let A = args ! n; bv = paramByVal ci n
                         in \<lparr>arg_ty = value_ty cx A, IsByVal = bv, arg_size = (if bv then byValSize ci n else alloc_size cx (value_ty cx A))\<rparr>)
          in emit (Before i) (GStoreOverflowSize (va_overflow_size (fp_end_offset (fn_attrs cx)) (numParams ci) (map arg [0..<length args]))) st
     else st)"

definition finalize_va_start :: "vctx \<Rightarrow> nat \<times> val \<Rightarrow> vstate \<Rightarrow> vstate" where
  "finalize_va_start cx p st =
    emit (After (fst p)) (GVaMemset (snd p) 8 0 LenOverflow)
      (emit (After (fst p)) (GVaMemset (snd p) 16 0 (LenConst (ucast (fp_end_offset (fn_attrs cx))))) st)"

definition finalizeInstrumentation :: "vctx \<Rightarrow> vstate \<Rightarrow> vstate" where
  "finalizeInstrumentation cx st =
    (if \<not> isX86_64 cx then st
     else let st1 = (if VAStartInstrumentationList st \<noteq> [] then emit (Before (FnPrologueEnd cx)) GLoadOverflowSize st else st)
          in fold (finalize_va_start cx) (VAStartInstrumentationList st) st1)"

section \<open>Vector and other intrinsics\<close>

definition handleVectorStoreIntrinsic :: "vctx \<Rightarrow> nat \<Rightarrow> val list \<Rightarrow> vstate \<Rightarrow> vstate" where
  "handleVectorStoreIntrinsic cx i args st =
    (if \<not> ClInstrumentStores (clo cx) then st
     else let Addr = args ! 0; V = args ! 1
          in checkAddress cx [Addr] i (emit_store (Before i) (\<lambda>s. GShadowStore s Addr) (storedShadow cx V st)))"

definition handleVectorLoadIntrinsic :: "vctx \<Rightarrow> nat \<Rightarrow> val list \<Rightarrow> vstate \<Rightarrow> vstate" where
  "handleVectorLoadIntrinsic cx i args st =
    (let ShadowTy = shadow_ty (ity (fn cx) i);
         S = Some (ShadowTy, Val i);
         st1 = setShadow i S (emit (Before i) (GShadowLoad i ShadowTy (args ! 0)) st)
     in checkAddress cx [args ! 0] i (pushShadowCheck cx S i False st1))"

fun isVectorTy :: "ty \<Rightarrow> bool" where
  "isVectorTy (FixedVectorTy n t) = True"
| "isVectorTy (ScalableVectorTy n t) = True"
| "isVectorTy _ = False"

text \<open>\<^term>\<open>None\<close>: the intrinsic is not recognised. A void result is the type without size.\<close>

definition handleUnknownIntrinsic :: "vctx \<Rightarrow> nat \<Rightarrow> val list \<Rightarrow> vstate \<Rightarrow> vstate option" where
  "handleUnknownIntrinsic cx i args st =
    (let t = ity (fn cx) i
     in if length args = 0 then None
        else if length args = 2 \<and> value_ty cx (args ! 0) = PointerTy \<and> isVectorTy (value_ty cx (args ! 1)) \<and>
                t = UnsizedTy \<and> \<not> onlyReadsMemory cx i
        then Some (handleVectorStoreIntrinsic cx i args st)
        else if length args = 1 \<and> value_ty cx (args ! 0) = PointerTy \<and> isVectorTy t \<and> onlyReadsMemory cx i
        then Some (handleVectorLoadIntrinsic cx i args st)
        else None)"

definition handleLifetimeStart :: "vctx \<Rightarrow> nat \<Rightarrow> val list \<Rightarrow> vstate \<Rightarrow> vstate" where
  "handleLifetimeStart cx i args st =
    (if \<not> PoisonStack (clo cx) then st
     else case findAllocaForValue cx (args ! 1) of
            None \<Rightarrow> st\<lparr>InstrumentLifetimeStart := False\<rparr>
          | Some AI \<Rightarrow> st\<lparr>LifetimeStartList := LifetimeStartList st @ [(i, AI)]\<rparr>)"

definition handleStmxcsr :: "vctx \<Rightarrow> nat \<Rightarrow> val list \<Rightarrow> vstate \<Rightarrow> vstate" where
  "handleStmxcsr cx i args st =
    checkAddress cx [args ! 0] i
      (emit_store (Before i) (\<lambda>S. GShadowStore S (args ! 0)) (cleanShadowOf cx (IntegerTy 32), st))"

definition handleLdmxcsr :: "vctx \<Rightarrow> nat \<Rightarrow> val list \<Rightarrow> vstate \<Rightarrow> vstate" where
  "handleLdmxcsr cx i args st =
    (if \<not> InsertChecks (clo cx) then st
     else let st1 = checkAddress cx [args ! 0] i st
          in pushShadowCheck cx (Some (IntegerTy 32, Val (fresh cx i 1))) i False
               (emit (Before i) (GShadowLoad (fresh cx i 1) (IntegerTy 32) (args ! 0)) st1))"

text \<open>The check at a masked load: the lanes that are not loaded count as initialised.\<close>

definition checkActiveLanes :: "vctx \<Rightarrow> nat \<Rightarrow> val \<Rightarrow> vstate \<Rightarrow> vstate" where
  "checkActiveLanes cx i Mask st =
    (let t = shadow_ty (ity (fn cx) i)
     in if ClCheckLoads (clo cx)
        then case cleanShadowOf cx t of
               Some C \<Rightarrow> pushShadowCheck cx (Some (t, Val (fresh cx i 1))) i False
                           (emit (Before i) (GMaskSelect (fresh cx i 1) Mask (Some (t, Val i)) C) st)
             | None \<Rightarrow> st
        else st)"

text \<open>The check of the pointers of a gather or scatter, again for the active lanes.\<close>

definition checkMaskedPointers :: "vctx \<Rightarrow> nat \<Rightarrow> val \<Rightarrow> val \<Rightarrow> vstate \<Rightarrow> vstate" where
  "checkMaskedPointers cx i Mask Ptrs st =
    (if ClCheckAccessAddress (clo cx)
     then let st1 = insertShadowCheck cx Mask i st;
              t = shadow_ty (value_ty cx Ptrs);
              (S, st2) = getShadow cx Ptrs st1
          in pushShadowCheck cx (Some (t, Val (fresh cx i 2))) i True
               (emit (Before i) (GMaskSelect (fresh cx i 2) Mask S (t, Const (getNullValue (vscale cx) t))) st2)
     else st)"

definition handleMaskedExpandLoad :: "vctx \<Rightarrow> nat \<Rightarrow> val list \<Rightarrow> vstate \<Rightarrow> vstate" where
  "handleMaskedExpandLoad cx i args st =
    (let Ptr = args ! 0; Mask = args ! 1; PassThru = args ! 2; t = shadow_ty (ity (fn cx) i);
         (P, st1) = getShadow cx PassThru (checkAddress cx [Ptr, Mask] i st)
     in checkActiveLanes cx i Mask (setShadow i (Some (t, Val i)) (emit (Before i) (GMaskedExpandLoad i t Ptr Mask P) st1)))"

definition handleMaskedCompressStore :: "vctx \<Rightarrow> nat \<Rightarrow> val list \<Rightarrow> vstate \<Rightarrow> vstate" where
  "handleMaskedCompressStore cx i args st =
    (if \<not> ClInstrumentStores (clo cx) then st
     else let Values = args ! 0; Ptr = args ! 1; Mask = args ! 2
          in emit_store (Before i) (\<lambda>S. GMaskedCompressStore S Ptr Mask) (storedShadow cx Values (checkAddress cx [Ptr, Mask] i st)))"

definition handleMaskedGather :: "vctx \<Rightarrow> nat \<Rightarrow> val list \<Rightarrow> vstate \<Rightarrow> vstate" where
  "handleMaskedGather cx i args st =
    (let Ptrs = args ! 0; Mask = args ! 2; PassThru = args ! 3; t = shadow_ty (ity (fn cx) i);
         (P, st1) = getShadow cx PassThru (checkMaskedPointers cx i Mask Ptrs st)
     in checkActiveLanes cx i Mask (setShadow i (Some (t, Val i)) (emit (Before i) (GMaskedGather i t Ptrs Mask P) st1)))"

definition handleMaskedScatter :: "vctx \<Rightarrow> nat \<Rightarrow> val list \<Rightarrow> vstate \<Rightarrow> vstate" where
  "handleMaskedScatter cx i args st =
    (if \<not> ClInstrumentStores (clo cx) then st
     else let Values = args ! 0; Ptrs = args ! 1; Mask = args ! 3
          in emit_store (Before i) (\<lambda>S. GMaskedScatter S Ptrs Mask) (storedShadow cx Values (checkMaskedPointers cx i Mask Ptrs st)))"

definition handleMaskedStore :: "vctx \<Rightarrow> nat \<Rightarrow> val list \<Rightarrow> vstate \<Rightarrow> vstate" where
  "handleMaskedStore cx i args st =
    (if \<not> ClInstrumentStores (clo cx) then st
     else let V = args ! 0; Ptr = args ! 1; Mask = args ! 3;
              (S, st1) = storedShadow cx V st
          in emit_store (Before i) (\<lambda>S. GMaskedStore S Ptr Mask) (S, checkAddress cx [Ptr, Mask] i st1))"

definition handleMaskedLoad :: "vctx \<Rightarrow> nat \<Rightarrow> val list \<Rightarrow> vstate \<Rightarrow> vstate" where
  "handleMaskedLoad cx i args st =
    (let Ptr = args ! 0; Mask = args ! 2; PassThru = args ! 3; t = shadow_ty (ity (fn cx) i);
         (P, st1) = getShadow cx PassThru (checkAddress cx [Ptr, Mask] i st)
     in checkActiveLanes cx i Mask (setShadow i (Some (t, Val i)) (emit (Before i) (GMaskedLoad i t Ptr Mask P) st1)))"

text \<open>Everything else: the result counts as initialised.\<close>

definition visitInstruction :: "vctx \<Rightarrow> nat \<Rightarrow> vstate \<Rightarrow> vstate" where
  "visitInstruction cx i st = (if isSized (ity (fn cx) i) then setClean cx i st else st)"

definition visitIntrinsicInst :: "vctx \<Rightarrow> nat \<Rightarrow> intrinsic \<Rightarrow> val list \<Rightarrow> vstate \<Rightarrow> vstate" where
  "visitIntrinsicInst cx i ic args st =
    (case ic of
       lifetime_start \<Rightarrow> handleLifetimeStart cx i args st
     | launder_invariant_group \<Rightarrow> (let (S, st1) = getShadow cx (args ! 0) st in setShadow i S st1)
     | strip_invariant_group \<Rightarrow> (let (S, st1) = getShadow cx (args ! 0) st in setShadow i S st1)
     | masked_compressstore \<Rightarrow> handleMaskedCompressStore cx i args st
     | masked_expandload \<Rightarrow> handleMaskedExpandLoad cx i args st
     | masked_gather \<Rightarrow> handleMaskedGather cx i args st
     | masked_scatter \<Rightarrow> handleMaskedScatter cx i args st
     | masked_store \<Rightarrow> handleMaskedStore cx i args st
     | masked_load \<Rightarrow> handleMaskedLoad cx i args st
     | is_constant_intr \<Rightarrow> setClean cx i st
     | x86_sse_stmxcsr \<Rightarrow> handleStmxcsr cx i args st
     | x86_sse_ldmxcsr \<Rightarrow> handleLdmxcsr cx i args st
     | _ \<Rightarrow> (case handleUnknownIntrinsic cx i args st of Some st1 \<Rightarrow> st1 | None \<Rightarrow> visitInstruction cx i st))"


section \<open>Calls, returns and PHIs\<close>

definition visitLibAtomicLoad :: "vctx \<Rightarrow> nat \<Rightarrow> val list \<Rightarrow> vstate \<Rightarrow> vstate" where
  "visitLibAtomicLoad cx i args st =
    emit (After i) (GShadowMemcpy (args ! 2) (args ! 1) (args ! 0))
      (emit (Before i) (GOrderingArg makeAddAcquireOrderingTable (args ! 3)) st)"

definition visitLibAtomicStore :: "vctx \<Rightarrow> nat \<Rightarrow> val list \<Rightarrow> vstate \<Rightarrow> vstate" where
  "visitLibAtomicStore cx i args st =
    emit (Before i) (GShadowMemset 0 (args ! 2) (LenVal (args ! 0)))
      (emit (Before i) (GOrderingArg makeAddReleaseOrderingTable (args ! 3)) st)"

text \<open>
  Inline assembly: only the memory outputs matter, their shadow is cleaned, by a store up to 32 bytes
  and a fill beyond. The inputs are passed through the same function without effect.
\<close>

definition instrumentAsmArgument :: "vctx \<Rightarrow> val \<Rightarrow> ty \<Rightarrow> nat \<Rightarrow> bool \<Rightarrow> vstate \<Rightarrow> vstate" where
  "instrumentAsmArgument cx Operand ElemTy i isOutput st =
    (if value_ty cx Operand \<noteq> PointerTy \<or> \<not> isOutput then (if isOutput then st\<lparr>failed := True\<rparr> else st)
     else if \<not> isSized ElemTy then st
     else let Size = store_size cx ElemTy
          in if Size \<le> 32 then emit_store (Before i) (\<lambda>S. GShadowStore S Operand) (cleanShadowOf cx ElemTy, st)
             else emit (Before i) (GShadowMemset 0 Operand (LenConst Size)) st)"

definition getNumOutputArgs :: "vctx \<Rightarrow> nat \<Rightarrow> int" where
  "getNumOutputArgs cx i =
    (let NumRetOutputs = (case ity (fn cx) i of UnsizedTy \<Rightarrow> 0 | StructTy pk ts \<Rightarrow> int (length ts) | _ \<Rightarrow> 1)
     in int (asmOutputs (callinfo cx i)) - NumRetOutputs)"

definition visitAsmInstruction :: "vctx \<Rightarrow> nat \<Rightarrow> val list \<Rightarrow> vstate \<Rightarrow> vstate" where
  "visitAsmInstruction cx i args st =
    (let OutputArgs = nat (getNumOutputArgs cx i);
         arg = (\<lambda>out n. instrumentAsmArgument cx (args ! n) (paramElementType (callinfo cx i) n) i out)
     in setClean cx i (fold (arg True) [0..<OutputArgs] (fold (arg False) [OutputArgs..<length args] st)))"

text \<open>The value returned by a call when returns are not trusted.\<close>

definition retval_shadow :: "vctx \<Rightarrow> nat \<Rightarrow> callform \<Rightarrow> vstate \<Rightarrow> vstate" where
  "retval_shadow cx i fm st =
    (let t = ity (fn cx) i; S = (shadow_ty t, Val i);
         st1 = emit_store (Before i) GStoreRetval (cleanShadowOf cx t, st);
         (dest, single) = normalDest (callinfo cx i)
     in if fm = PlainCall then setShadow i (Some S) (emit (After i) (GLoadRetval i (shadow_ty t)) st1)
        else if \<not> single then setClean cx i st1
        else setShadow i (Some S) (emit (BlockStart dest) (GLoadRetval i (shadow_ty t)) st1))"

definition eagerChecks :: "vctx \<Rightarrow> nat \<Rightarrow> val list \<Rightarrow> vstate \<Rightarrow> vstate" where
  "eagerChecks cx i args st =
    fold (\<lambda>n st. if isSized (value_ty cx (args ! n)) \<and> \<not> paramByVal (callinfo cx i) n \<and> paramNoUndef (callinfo cx i) n
                 then insertShadowCheck cx (args ! n) i st else st) [0..<length args] st"

definition visitCallBase :: "vctx \<Rightarrow> nat \<Rightarrow> callform \<Rightarrow> val list \<Rightarrow> vstate \<Rightarrow> vstate" where
  "visitCallBase cx i fm args st =
    (let ci = callinfo cx i
     in if isInlineAsm ci
        then (if ClHandleAsmConservative (clo cx) then visitAsmInstruction cx i args st else visitInstruction cx i st)
        else if LF ci = LibFunc_atomic_load \<and> fm = PlainCall then visitLibAtomicLoad cx i args st
        else if LF ci = LibFunc_atomic_store then visitLibAtomicStore cx i args st
        else
          let st1 = (if fm = PlainCall then emit (Before i) GRemoveMemoryAttrs st else st);
              MayCheckCall = (EagerChecks ci \<and>
                (case calledName ci of Some g \<Rightarrow> \<not> starts_with g ''__sanitizer_unaligned_'' | None \<Rightarrow> True));
              st2 = (if MayCheckCall then eagerChecks cx i args st1 else st1);
              st3 = (if isVarArgCall ci then va_visitCallBase cx i args st2 else st2)
          in if \<not> isSized (ity (fn cx) i) then st3
             else if fm = PlainCall \<and> isMustTailCall ci then st3
             else if MayCheckCall \<and> retNoUndef ci then setClean cx i st3
             else if ClTrustReturn (clo cx) then setClean cx i st3
             else retval_shadow cx i fm st3)"

definition isAMustTailRetVal :: "vctx \<Rightarrow> val \<Rightarrow> bool" where
  "isAMustTailRetVal cx RetVal =
    (let V = (case RetVal of VInst i \<Rightarrow> (case body (fn cx) i of CastI BitCastOp x \<Rightarrow> x | _ \<Rightarrow> RetVal) | _ \<Rightarrow> RetVal)
     in case V of
          VInst j \<Rightarrow> (case body (fn cx) j of CallI PlainCall ic callee args \<Rightarrow> isMustTailCall (callinfo cx j) | _ \<Rightarrow> False)
        | _ \<Rightarrow> False)"

definition visitReturnInst :: "vctx \<Rightarrow> nat \<Rightarrow> val option \<Rightarrow> vstate \<Rightarrow> vstate" where
  "visitReturnInst cx i R st =
    (case R of
       None \<Rightarrow> st
     | Some RetVal \<Rightarrow>
         if isAMustTailRetVal cx RetVal then st
         else if (if ClCheckReturns (clo cx) then isUndefSliceScalar (value_ty cx RetVal) else fnRetNoUndef cx)
         then st\<lparr>PendingReturnChecks := PendingReturnChecks st @ [(RetVal, i)]\<rparr>
         else st)"

definition visitPHINode :: "vctx \<Rightarrow> nat \<Rightarrow> val list \<Rightarrow> vstate \<Rightarrow> vstate" where
  "visitPHINode cx i vs st =
    (let t = shadow_ty (ity (fn cx) i)
     in setShadow i (Some (t, Val i))
          (emit (Before i) (GPhi i t (length vs)) (st\<lparr>ShadowPHINodes := ShadowPHINodes st @ [i]\<rparr>)))"

section \<open>Stack variables\<close>

definition poisonAllocaUserspace :: "vctx \<Rightarrow> place \<Rightarrow> nat \<Rightarrow> glen \<Rightarrow> vstate \<Rightarrow> vstate" where
  "poisonAllocaUserspace cx p i Len st =
    (if PoisonStack (clo cx) \<and> ClPoisonStackWithCall (clo cx) then emit p (GPoisonStack i Len) st
     else emit p (GShadowMemset (if PoisonStack (clo cx) then word_of_int (ClPoisonStackPattern (clo cx)) else 0) (VInst i) Len) st)"

definition instrumentAlloca :: "vctx \<Rightarrow> nat \<Rightarrow> nat \<Rightarrow> vstate \<Rightarrow> vstate" where
  "instrumentAlloca cx i InsPoint st =
    (let TS = alloc_size cx (allocated cx i);
         Len = (case body (fn cx) i of AllocaI n \<Rightarrow> if n = VInt 1 then LenConst TS else LenMul TS n | _ \<Rightarrow> LenConst TS)
     in poisonAllocaUserspace cx (After InsPoint) i Len st)"

text \<open>\<^verbatim>\<open>AllocaSet\<close> is a set in insertion order.\<close>

definition visitAllocaInst :: "vctx \<Rightarrow> nat \<Rightarrow> vstate \<Rightarrow> vstate" where
  "visitAllocaInst cx i st =
    (let st1 = setClean cx i st
     in if i \<in> set (AllocaSet st1) then st1 else st1\<lparr>AllocaSet := AllocaSet st1 @ [i]\<rparr>)"

definition instrumentAllocas :: "vctx \<Rightarrow> vstate \<Rightarrow> vstate" where
  "instrumentAllocas cx st =
    (let st1 = (if InstrumentLifetimeStart st
                then fold (\<lambda>(ins, AI) st. (instrumentAlloca cx AI ins st)\<lparr>AllocaSet := removeAll AI (AllocaSet st)\<rparr>) (LifetimeStartList st) st
                else st)
     in fold (\<lambda>AI. instrumentAlloca cx AI AI) (AllocaSet st1) st1)"

section \<open>The visitor\<close>

definition dispatch :: "vctx \<Rightarrow> nat \<Rightarrow> vstate \<Rightarrow> vstate" where
  "dispatch cx i st =
    (case body (fn cx) i of
       LoadI p \<Rightarrow> visitLoadInst cx i p st
     | StoreI v p \<Rightarrow> visitStoreInst cx i p st
     | AtomicRMWI p v \<Rightarrow> visitAtomicRMWInst cx i p v st
     | AtomicCmpXchgI p v w \<Rightarrow> visitAtomicCmpXchgInst cx i p v st
     | RetI r \<Rightarrow> visitReturnInst cx i r st
     | PhiI vs \<Rightarrow> visitPHINode cx i vs st
     | AllocaI n \<Rightarrow> visitAllocaInst cx i st
     | CallI fm ic callee args \<Rightarrow>
         if fm \<noteq> PlainCall \<or> ic = NotIntrinsic then visitCallBase cx i fm args st
         else if ic = memmove_intr then visitMemMoveInst cx i args st
         else if ic = memcpy_intr then visitMemCpyInst cx i args st
         else if ic = memset_intr then visitMemSetInst cx i args st
         else if ic = va_start_intr then visitVAStartInst cx i args st
         else if ic = va_copy_intr then visitVACopyInst cx i args st
         else visitIntrinsicInst cx i ic args st
     | _ \<Rightarrow> visitInstruction cx i st)"

text \<open>
  An instruction in the undef slice gets its shadow from \<^term>\<open>handleUndefSliceInst\<close>, for which the
  shadows of its slice operands are looked up.
\<close>

definition slice_operands :: "nat list \<Rightarrow> (val \<Rightarrow> ty) \<Rightarrow> inst \<Rightarrow> val list" where
  "slice_operands U vty I =
    (case I of SelectI c x y \<Rightarrow> filter (\<lambda>v. isUndef v \<or> in_slice U v) [x, y] @ (if in_slice U c then [c] else [])
     | _ \<Rightarrow> filter (\<lambda>v. (isUndef v \<or> in_slice U v) \<and> isSized (vty v)) (operands I))"

definition visitSliceInst :: "vctx \<Rightarrow> nat \<Rightarrow> vstate \<Rightarrow> vstate" where
  "visitSliceInst cx i st =
    (let I = body (fn cx) i; U = UndefSlice st; ops = slice_operands U (value_ty cx) I;
         st1 = fold (\<lambda>v st. snd (getShadow cx v st)) ops st;
         e = handleUndefSliceInst (value_ty cx) U I
     in if e = UClean then setClean cx i st1
        else setShadow i (Some (shadow_ty (ity (fn cx) i), Val i)) (emit (Before i) (GSlice i e) st1))"

definition visit_one :: "vctx \<Rightarrow> nat \<Rightarrow> vstate \<Rightarrow> vstate" where
  "visit_one cx i st =
    (if UndefSlice st = [] then dispatch cx i st
     else let facts = call_facts.truncate (callinfo cx i);
              st1 = fold (\<lambda>v. insertShadowCheck cx v i)
                      (checkUndefSliceSinks (ClCheckAccessAddress (clo cx)) facts (UndefSlice st) (body (fn cx) i)) st
          in if isUndefSliceTransfer (fn cx) (UndefSlice st) i then visitSliceInst cx i st1 else dispatch cx i st1)"

definition finalize_phi :: "vctx \<Rightarrow> nat \<Rightarrow> vstate \<Rightarrow> vstate" where
  "finalize_phi cx i st =
    (case body (fn cx) i of
       PhiI vs \<Rightarrow>
         let (Ss, st1) = fold (\<lambda>v (Ss, st). let (S, st') = getShadow cx v st in (Ss @ [S], st')) vs ([], st)
         in emit (Before i) (GPhiIncoming i Ss) st1
     | _ \<Rightarrow> st)"

text \<open>
  The shadows as the filter of return checks sees them. The condition of a select is an application
  value and counts as unknown.
\<close>

definition shv_of :: "shadow option \<Rightarrow> shv" where
  "shv_of S = (case S of None \<Rightarrow> SvNull | Some (t, Const c) \<Rightarrow> SvConst (\<not> nz c) | Some (t, Val n) \<Rightarrow> SvInst n | _ \<Rightarrow> SvOther)"

fun slice_leaves :: "vctx \<Rightarrow> vstate \<Rightarrow> uexpr \<Rightarrow> shv list" where
  "slice_leaves cx st (UShadow v) = [shv_of (fst (getShadow cx v st))]"
| "slice_leaves cx st UClean = [SvConst True]"
| "slice_leaves cx st (USelect c a b) = SvOther # slice_leaves cx st a @ slice_leaves cx st b"
| "slice_leaves cx st (UOr a b) = slice_leaves cx st a @ slice_leaves cx st b"
| "slice_leaves cx st (UBool t v) = (if fst (convertShadowToScalar False (shadow_ty t) (Val 0)) = 1 then [shv_of (fst (getShadow cx v st))] else [SvOther])"
| "slice_leaves cx st (USExt a) = slice_leaves cx st a"

definition graph_of :: "vctx \<Rightarrow> vstate \<Rightarrow> shadow_graph" where
  "graph_of cx st = \<lparr>transparent = (\<lambda>i. isPHI (body (fn cx) i) \<or> isUndefSliceTransfer (fn cx) (UndefSlice st) i),
     shadow_operands = (\<lambda>i. case body (fn cx) i of
         PhiI vs \<Rightarrow> map (\<lambda>v. (shv_of (fst (getShadow cx v st)), True)) vs
       | I \<Rightarrow> map (\<lambda>s. (s, True)) (slice_leaves cx st (handleUndefSliceInst (value_ty cx) (UndefSlice st) I))),
     CheckedLoadShadows = (\<lambda>i. Val i \<in> set (CheckedLoads st))\<rparr>"

definition filter_returns :: "vctx \<Rightarrow> vstate \<Rightarrow> vstate" where
  "filter_returns cx st =
    (let g = graph_of cx st;
         st1 = fold (\<lambda>(V, i) st. let (S, st') = getShadow cx V st
                 in if returnShadowMayCarryUndef g (shv_of S) \<noteq> Some False then pushShadowCheck cx S i True st' else st')
               (PendingReturnChecks st) st
     in st1\<lparr>PendingReturnChecks := []\<rparr>)"

text \<open>
  The whole of \<^verbatim>\<open>runOnFunction\<close>: \<open>bbs\<close> are the blocks in depth-first order, \<open>dominates\<close> and \<open>LI\<close> LLVM's
  post-dominator tree and loop analysis. \<^term>\<open>None\<close>: a loop of the pass would not end.
\<close>

definition visit_phase :: "vctx \<Rightarrow> nat list \<Rightarrow> vstate option" where
  "visit_phase cx bbs =
    (let st0 = fold (visit_collect cx) (concat (map (blocks (fn cx)) bbs)) (vstate0 cx)
     in case (if ClUndefSlice (clo cx) then computeUndefSlice (fn cx) (Instructions st0) else Some []) of
          None \<Rightarrow> None
        | Some U \<Rightarrow> Some (fold (visit_one cx) (Instructions st0) (st0\<lparr>UndefSlice := U\<rparr>)))"

definition runOnFunction ::
    "vctx \<Rightarrow> (nat \<Rightarrow> nat \<Rightarrow> bool) \<Rightarrow> loop_info \<Rightarrow> nat list \<Rightarrow> ((loop_result \<times> int) outcome \<times> vstate) option" where
  "runOnFunction cx dominates LI bbs =
    map_option (\<lambda>st.
      let st1 = fold (finalize_phi cx) (ShadowPHINodes st) st;
          st2 = finalizeInstrumentation cx (filter_returns cx st1);
          st3 = instrumentAllocas cx st2;
          st4 = (if ClSinkChecks (clo cx)
                 then st3\<lparr>InstrumentationList := sink_checks (ClSinkPastBarriers (clo cx)) dominates (fn cx) LI (InstrumentationList st3)\<rparr>
                 else st3)
      in (materializeChecks (popts cx) (fn cx) LI (InstrumentationList st4) 0, materializeStores cx st4))
    (visit_phase cx bbs)"

end
