(* ===== verification/Pass_Assign.thy ===== *)
theory Pass_Assign
  imports Pass_Visit
begin

text \<open>
  The compiler pass: the visitor gives every value a shadow. The visits leave the shadows of other
  instructions alone and set the one of the instruction visited, exactly once, so that neither of the
  assertions in \<^verbatim>\<open>setShadow\<close> and \<^verbatim>\<open>getShadow\<close> can fail.
\<close>

section \<open>Looking up and requesting\<close>

lemma emit_sel [simp]:
  "ShadowMap (emit p g st) = ShadowMap st" "failed (emit p g st) = failed st" "UndefSlice (emit p g st) = UndefSlice st"
  "ShadowPHINodes (emit p g st) = ShadowPHINodes st" "StoreList (emit p g st) = StoreList st"
  "PendingReturnChecks (emit p g st) = PendingReturnChecks st" "Instructions (emit p g st) = Instructions st"
  by (simp_all add: emit_def)

text \<open>What the later phases read of the state, besides the shadows.\<close>

definition same :: "vstate \<Rightarrow> vstate \<Rightarrow> bool" where
  "same st st' \<longleftrightarrow> ShadowMap st' = ShadowMap st \<and> failed st' = failed st \<and> UndefSlice st' = UndefSlice st \<and>
     ShadowPHINodes st' = ShadowPHINodes st \<and> StoreList st' = StoreList st \<and> PendingReturnChecks st' = PendingReturnChecks st"

lemma same_refl [simp]: "same st st"
  by (simp add: same_def)

lemma same_trans: "same a b \<Longrightarrow> same b c \<Longrightarrow> same a c"
  by (simp add: same_def)

lemma same_emit [simp]: "same st (emit p g st') \<longleftrightarrow> same st st'"
  by (simp add: same_def)

lemma same_emit_store [simp]: "same st (emit_store p g (S, st')) \<longleftrightarrow> same st st'"
  by (cases S) (simp_all add: emit_store_def)

text \<open>A shadow of the type the value needs; a value whose shadow can be looked up.\<close>

definition typed_entry :: "vctx \<Rightarrow> vstate \<Rightarrow> nat \<Rightarrow> bool" where
  "typed_entry cx st j \<longleftrightarrow> (\<exists>e. ShadowMap st j = Some (Some (shadow_ty (ity (fn cx) j), e)))"

definition skipped :: "vctx \<Rightarrow> nat \<Rightarrow> bool" where
  "skipped cx i \<longleftrightarrow> isNoSanitizeEquivalent (afl_access cx) (fn cx) i"

definition avail :: "vctx \<Rightarrow> vstate \<Rightarrow> val \<Rightarrow> bool" where
  "avail cx st v = (case v of VInst j \<Rightarrow> value_ty cx v = ity (fn cx) j \<and> (skipped cx j \<or> typed_entry cx st j) | VUndef t \<Rightarrow> value_ty cx v = t | _ \<Rightarrow> True)"

lemma avail_same: "same st st' \<Longrightarrow> avail cx st' v = avail cx st v"
  by (simp add: avail_def typed_entry_def same_def split: val.splits)

lemma cleanShadowOf_sized: "isSized t \<Longrightarrow> \<exists>c. cleanShadowOf cx t = Some (shadow_ty t, c) \<and> is_constant c"
  by (simp add: cleanShadowOf_def getCleanShadow_def getShadowTy_shadow_ty)

lemma getShadow_ok:
  assumes "avail cx st v"
  shows "snd (getShadow cx v st) = st" and "isSized (value_ty cx v) \<Longrightarrow> \<exists>e. fst (getShadow cx v st) = Some (shadow_ty (value_ty cx v), e)"
proof -
  show "snd (getShadow cx v st) = st" using assms by (cases v) (auto simp: getShadow_def avail_def typed_entry_def skipped_def)
  assume "isSized (value_ty cx v)"
  moreover have "\<exists>e. poisonedShadowOf cx t = Some (shadow_ty t, e)" if "isSized t" for t
    using that by (simp add: poisonedShadowOf_def getPoisonedShadow_def getShadowTy_shadow_ty)
  ultimately show "\<exists>e. fst (getShadow cx v st) = Some (shadow_ty (value_ty cx v), e)"
    using assms cleanShadowOf_sized [of "value_ty cx v" cx]
    by (cases v) (auto simp: getShadow_def avail_def typed_entry_def skipped_def)
qed

lemma pushShadowCheck_same [simp]: "same st (pushShadowCheck cx (Some S) i ess st') \<longleftrightarrow> same st st'"
  by (cases S) (simp add: pushShadowCheck_def same_def)

lemma insertShadowCheck_same:
  assumes "avail cx st v"
  shows "same st (insertShadowCheck cx v i st)"
proof -
  obtain S where g: "getShadow cx v st = (S, st)" using getShadow_ok(1) [OF assms] by (metis prod.collapse)
  show ?thesis by (cases S) (auto simp: insertShadowCheck_def g)
qed

lemma fold_same:
  assumes "\<And>x st'. x \<in> set xs \<Longrightarrow> same st st' \<Longrightarrow> same st' (f x st')"
  shows "same st (fold f xs st)"
proof -
  have "same st (fold f xs st')" if "same st st'" for st'
    using assms that
  proof (induction xs arbitrary: st')
    case (Cons x xs)
    have "same st (f x st')" using Cons.prems same_trans by (meson list.set_intros(1))
    then show ?case using Cons.IH [of "f x st'"] Cons.prems by simp
  qed simp
  then show ?thesis by simp
qed

lemma fold_checks_same:
  assumes "\<forall>v \<in> set vs. avail cx st v"
  shows "same st (fold (\<lambda>v. insertShadowCheck cx v i) vs st)"
  by (rule fold_same) (use assms insertShadowCheck_same avail_same in blast)

lemma checkAddress_same: "\<forall>v \<in> set vs. avail cx st v \<Longrightarrow> same st (checkAddress cx vs i st)"
  by (simp add: checkAddress_def fold_checks_same)

lemma storedShadow_same: "avail cx st v \<Longrightarrow> \<exists>S. storedShadow cx v st = (S, st)"
  using getShadow_ok(1) [of cx st v] by (auto simp: storedShadow_def) (metis prod.collapse)

lemma checkActiveLanes_same [simp]: "same st (checkActiveLanes cx i m st') \<longleftrightarrow> same st st'"
  by (auto simp: checkActiveLanes_def Let_def split: option.splits)

lemma checkMaskedPointers_same:
  assumes "avail cx st m" and "avail cx st p"
  shows "same st (checkMaskedPointers cx i m p st)"
proof -
  let ?st1 = "insertShadowCheck cx m i st"
  have s: "same st ?st1" by (rule insertShadowCheck_same [OF assms(1)])
  then have "avail cx ?st1 p" using assms(2) avail_same by blast
  then obtain S where "getShadow cx p ?st1 = (S, ?st1)" using getShadow_ok(1) by (metis prod.collapse)
  then show ?thesis using s by (simp add: checkMaskedPointers_def Let_def)
qed


text \<open>A musttail call has no shadow: only a return, or a cast before it, may use the call.\<close>

definition must_tail :: "vctx \<Rightarrow> nat \<Rightarrow> bool" where
  "must_tail cx i = (case body (fn cx) i of
     CallI fm ic callee args \<Rightarrow> fm = PlainCall \<and> ic = NotIntrinsic \<and> isMustTailCall (callinfo cx i) | _ \<Rightarrow> False)"

definition has_result :: "vctx \<Rightarrow> nat \<Rightarrow> bool" where
  "has_result cx i \<longleftrightarrow> isSized (ity (fn cx) i) \<and> \<not> must_tail cx i"

text \<open>The visit of \<open>i\<close> has gone well: it got its shadow and nothing else did.\<close>

definition stepped :: "vctx \<Rightarrow> nat \<Rightarrow> vstate \<Rightarrow> vstate \<Rightarrow> bool" where
  "stepped cx i st st' \<longleftrightarrow> failed st' = failed st \<and> UndefSlice st' = UndefSlice st \<and>
     (\<forall>j. j \<noteq> i \<longrightarrow> ShadowMap st' j = ShadowMap st j) \<and> (has_result cx i \<longrightarrow> typed_entry cx st' i) \<and>
     set (ShadowPHINodes st') \<subseteq> insert i (set (ShadowPHINodes st)) \<and> set (StoreList st') \<subseteq> insert i (set (StoreList st)) \<and>
     set (PendingReturnChecks st') \<subseteq> set (PendingReturnChecks st) \<union>
       {(V, i) | V. body (fn cx) i = RetI (Some V) \<and> \<not> isAMustTailRetVal cx V}"

lemma stepped_same: "same st st' \<Longrightarrow> \<not> has_result cx i \<Longrightarrow> stepped cx i st st'"
  by (auto simp: stepped_def same_def)

lemma stepped_after: "stepped cx i st st1 \<Longrightarrow> same st1 st2 \<Longrightarrow> stepped cx i st st2"
  by (simp add: stepped_def same_def typed_entry_def)

lemma stepped_emit [simp]: "stepped cx i st (emit p g st') \<longleftrightarrow> stepped cx i st st'"
  by (simp add: stepped_def typed_entry_def)

lemma stepped_set:
  assumes "same st st1" and "ShadowMap st i = None" and "isSized (ity (fn cx) i) \<Longrightarrow> \<exists>e. S = Some (shadow_ty (ity (fn cx) i), e)"
  shows "stepped cx i st (setShadow i S st1)"
  using assms by (auto simp: stepped_def same_def setShadow_def typed_entry_def has_result_def)

lemma stepped_clean:
  assumes "same st st1" and "ShadowMap st i = None"
  shows "stepped cx i st (setClean cx i st1)"
  unfolding setClean_def using cleanShadowOf_sized [of "ity (fn cx) i" cx] by (intro stepped_set [OF assms]) blast

lemma visitInstruction_stepped: "ShadowMap st i = None \<Longrightarrow> stepped cx i st (visitInstruction cx i st)"
  by (auto simp: visitInstruction_def has_result_def intro: stepped_clean stepped_same)

text \<open>The handlers, one by one.\<close>

lemma visitLoadInst_stepped:
  assumes "ShadowMap st i = None" and "avail cx st p" and "\<not> skipped cx i"
  shows "stepped cx i st (visitLoadInst cx i p st)"
proof -
  have av: "avail cx st' p" if "stepped cx i st st'" "p \<noteq> VInst i" for st'
    using assms(2) that by (auto simp: avail_def stepped_def typed_entry_def split: val.splits)
  have ne: "p \<noteq> VInst i" using assms by (auto simp: avail_def typed_entry_def)
  have addr: "stepped cx i st (checkAddress cx [p] i st')" if "stepped cx i st st'" for st'
    by (rule stepped_after [OF that checkAddress_same]) (use av [OF that ne] in simp)
  have clean: "stepped cx i st (setClean cx i st)" by (rule stepped_clean [OF same_refl assms(1)])
  let ?t = "shadow_ty (ity (fn cx) i)"
  have ld: "stepped cx i st (setShadow i (Some (?t, Val i)) (emit pl (GShadowLoad i ?t p) st))" for pl
    by (rule stepped_set [OF _ assms(1)]) simp_all
  have chk: "stepped cx i st ((pushShadowCheck cx (Some S) i False st')\<lparr>CheckedLoads := cs\<rparr>)" if "stepped cx i st st'" for st' S cs
    by (rule stepped_after [OF that]) (cases S, simp add: same_def pushShadowCheck_def)
  show ?thesis unfolding visitLoadInst_def Let_def
    by (simp add: clean addr ld chk)
qed

lemma visitStoreInst_stepped:
  assumes "avail cx st p" and "\<not> has_result cx i"
  shows "stepped cx i st (visitStoreInst cx i p st)"
proof -
  let ?st = "st\<lparr>StoreList := StoreList st @ [i]\<rparr>"
  have "stepped cx i st ?st" using assms(2) by (auto simp: stepped_def)
  moreover have "same ?st (checkAddress cx [p] i ?st)"
    by (rule checkAddress_same) (use assms(1) in \<open>simp add: avail_def typed_entry_def split: val.splits\<close>)
  ultimately show ?thesis using assms(2) by (auto simp: visitStoreInst_def intro: stepped_after stepped_same)
qed

lemma handleCASOrRMW_stepped:
  assumes "ShadowMap st i = None" and "avail cx st p" and "avail cx st v"
  shows "stepped cx i st (handleCASOrRMW cx i cas p v st)"
proof -
  let ?st1 = "checkAddress cx [p] i st"
  have s1: "same st ?st1" by (rule checkAddress_same) (simp add: assms(2))
  have "same ?st1 (insertShadowCheck cx v i ?st1)" by (rule insertShadowCheck_same) (use s1 assms(3) avail_same in blast)
  then have "same st (if cas then insertShadowCheck cx v i ?st1 else ?st1)" using s1 same_trans by auto
  then show ?thesis unfolding handleCASOrRMW_def Let_def by (intro stepped_clean [OF _ assms(1)]) simp
qed

lemma visitReturnInst_stepped:
  assumes "\<not> has_result cx i" and "body (fn cx) i = RetI r"
  shows "stepped cx i st (visitReturnInst cx i r st)"
  using assms by (cases r) (auto simp: visitReturnInst_def stepped_def)

lemma visitPHINode_stepped:
  assumes "ShadowMap st i = None"
  shows "stepped cx i st (visitPHINode cx i vs st)"
  using assms by (auto simp: visitPHINode_def Let_def setShadow_def stepped_def typed_entry_def)

lemma visitAllocaInst_stepped:
  assumes "ShadowMap st i = None"
  shows "stepped cx i st (visitAllocaInst cx i st)"
  using stepped_clean [OF same_refl assms, of cx] by (auto simp: visitAllocaInst_def Let_def stepped_def typed_entry_def)


text \<open>How many arguments an intrinsic has at least, and which ones return nothing.\<close>

definition arity :: "intrinsic \<Rightarrow> nat" where
  "arity ic = (if ic \<in> {memmove_intr, memcpy_intr, memset_intr, masked_expandload, masked_compressstore} then 3
     else if ic \<in> {masked_gather, masked_scatter, masked_store, masked_load} then 4
     else if ic = lifetime_start then 2
     else if ic \<in> {va_start_intr, va_copy_intr, launder_invariant_group, strip_invariant_group, x86_sse_stmxcsr, x86_sse_ldmxcsr} then 1
     else 0)"

definition returns_nothing :: "intrinsic \<Rightarrow> bool" where
  "returns_nothing ic \<longleftrightarrow> ic \<in> {memmove_intr, memcpy_intr, memset_intr, va_start_intr, va_copy_intr, lifetime_start, masked_compressstore,
     masked_scatter, masked_store, x86_sse_stmxcsr, x86_sse_ldmxcsr}"

text \<open>The typing rules of LLVM that the visitor relies on.\<close>

definition inst_ok :: "vctx \<Rightarrow> nat \<Rightarrow> bool" where
  "inst_ok cx i = (case body (fn cx) i of
     StoreI v p \<Rightarrow> \<not> isSized (ity (fn cx) i)
   | RetI r \<Rightarrow> \<not> isSized (ity (fn cx) i) \<and> (case r of Some v \<Rightarrow> isSized (value_ty cx v) | None \<Rightarrow> True)
   | CallI fm ic callee args \<Rightarrow>
       if fm \<noteq> PlainCall \<or> ic = NotIntrinsic
       then (LF (callinfo cx i) \<noteq> OtherLibFunc \<longrightarrow> \<not> isSized (ity (fn cx) i)) \<and>
            (isInlineAsm (callinfo cx i) \<longrightarrow> list_all (\<lambda>n. value_ty cx (args ! n) = PointerTy) [0..<nat (getNumOutputArgs cx i)])
       else arity ic \<le> length args \<and> (returns_nothing ic \<longrightarrow> \<not> isSized (ity (fn cx) i)) \<and>
            (ic \<in> {launder_invariant_group, strip_invariant_group} \<longrightarrow> value_ty cx (args ! 0) = ity (fn cx) i)
   | _ \<Rightarrow> True)"

lemma avail_nth: "\<forall>v \<in> set args. avail cx st v \<Longrightarrow> n < length args \<Longrightarrow> avail cx st (args ! n)"
  by simp

lemma avail_0: "\<forall>v \<in> set args. avail cx st v \<Longrightarrow> 1 \<le> length args \<Longrightarrow> avail cx st (args ! 0)"
  by (simp add: Suc_le_eq)

lemma masked_load_stepped:
  assumes "same st st1" and "ShadowMap st i = None" and "avail cx st q"
  shows "stepped cx i st (let (P, st2) = getShadow cx q st1
     in checkActiveLanes cx i m (setShadow i (Some (shadow_ty (ity (fn cx) i), Val i)) (emit pl (g P) st2)))"
proof -
  have "avail cx st1 q" using assms(1,3) avail_same by blast
  then obtain P where g: "getShadow cx q st1 = (P, st1)" using getShadow_ok(1) by (metis prod.collapse)
  have "stepped cx i st (setShadow i (Some (shadow_ty (ity (fn cx) i), Val i)) (emit pl (g P) st1))"
    by (rule stepped_set [OF _ assms(2)]) (use assms(1) in simp_all)
  then show ?thesis unfolding g by (auto intro: stepped_after)
qed

lemma stored_same:
  assumes "same st st1" and "avail cx st v"
  shows "same st (emit_store p g (storedShadow cx v st1))"
proof -
  obtain S where "storedShadow cx v st1 = (S, st1)" using storedShadow_same [of cx st1 v] assms avail_same by blast
  then show ?thesis using assms(1) by simp
qed

lemma vector_intrinsics_stepped:
  assumes new: "ShadowMap st i = None" and args: "\<forall>v \<in> set args. avail cx st v" and un: "\<not> has_result cx i" and ne: "args \<noteq> []"
  shows "2 \<le> length args \<Longrightarrow> stepped cx i st (handleVectorStoreIntrinsic cx i args st)"
    and "3 \<le> length args \<Longrightarrow> stepped cx i st (handleMaskedCompressStore cx i args st)"
    and "4 \<le> length args \<Longrightarrow> stepped cx i st (handleMaskedScatter cx i args st)"
    and "4 \<le> length args \<Longrightarrow> stepped cx i st (handleMaskedStore cx i args st)"
    and "1 \<le> length args \<Longrightarrow> stepped cx i st (handleStmxcsr cx i args st)"
    and "1 \<le> length args \<Longrightarrow> stepped cx i st (handleLdmxcsr cx i args st)"
proof -
  note av = avail_nth [OF args]
  have a0: "avail cx st (args ! 0)" using args ne by simp
  have chk: "same st (checkAddress cx [args ! m, args ! n] i st)" if "m < length args" "n < length args" for m n
    by (rule checkAddress_same) (use av that in simp)
  have chk1: "same st (checkAddress cx [args ! 0] i st)" if "1 \<le> length args"
    by (rule checkAddress_same) (use av [of 0] that in \<open>simp add: Suc_le_eq\<close>)
  have after: "same st (checkAddress cx [args ! 0] i st1)" if "same st st1" "1 \<le> length args" for st1
    by (rule same_trans [OF that(1) checkAddress_same]) (use avail_0 [OF args that(2)] avail_same [OF that(1)] in simp)
  show "stepped cx i st (handleVectorStoreIntrinsic cx i args st)" if l: "2 \<le> length args"
    by (rule stepped_same [OF _ un]) (use l in \<open>simp add: handleVectorStoreIntrinsic_def Let_def after stored_same [OF same_refl] av a0\<close>)
  show "stepped cx i st (handleMaskedCompressStore cx i args st)" if l: "3 \<le> length args"
    by (rule stepped_same [OF _ un]) (use l in \<open>simp add: handleMaskedCompressStore_def Let_def chk stored_same av a0\<close>)
  show "stepped cx i st (handleMaskedScatter cx i args st)" if l: "4 \<le> length args"
    by (rule stepped_same [OF _ un]) (use l in \<open>simp add: handleMaskedScatter_def Let_def checkMaskedPointers_same stored_same av a0\<close>)
  show "stepped cx i st (handleMaskedStore cx i args st)" if l: "4 \<le> length args"
  proof (rule stepped_same [OF _ un])
    obtain S where "storedShadow cx (args ! 0) st = (S, st)" using storedShadow_same [OF a0] by blast
    then show "same st (handleMaskedStore cx i args st)" using l by (simp add: handleMaskedStore_def Let_def chk)
  qed
  show "stepped cx i st (handleStmxcsr cx i args st)" if l: "1 \<le> length args"
    by (rule stepped_same [OF _ un]) (use l in \<open>simp add: handleStmxcsr_def Let_def after\<close>)
  show "stepped cx i st (handleLdmxcsr cx i args st)" if l: "1 \<le> length args"
    by (rule stepped_same [OF _ un]) (use l in \<open>simp add: handleLdmxcsr_def Let_def chk1\<close>)
qed

lemma masked_loads_stepped:
  assumes new: "ShadowMap st i = None" and args: "\<forall>v \<in> set args. avail cx st v"
  shows "3 \<le> length args \<Longrightarrow> stepped cx i st (handleMaskedExpandLoad cx i args st)"
    and "4 \<le> length args \<Longrightarrow> stepped cx i st (handleMaskedGather cx i args st)"
    and "4 \<le> length args \<Longrightarrow> stepped cx i st (handleMaskedLoad cx i args st)"
    and "1 \<le> length args \<Longrightarrow> \<not> skipped cx i \<Longrightarrow> stepped cx i st (handleVectorLoadIntrinsic cx i args st)"
proof -
  note av = avail_nth [OF args]
  have chk: "same st (checkAddress cx [args ! m, args ! n] i st)" if "m < length args" "n < length args" for m n
    by (rule checkAddress_same) (use av that in simp)
  show "stepped cx i st (handleMaskedExpandLoad cx i args st)" if l: "3 \<le> length args"
    unfolding handleMaskedExpandLoad_def Let_def
    by (rule masked_load_stepped [unfolded Let_def, OF chk new av]) (use l in auto)
  show "stepped cx i st (handleMaskedGather cx i args st)" if l: "4 \<le> length args"
    unfolding handleMaskedGather_def Let_def
    by (rule masked_load_stepped [unfolded Let_def, OF checkMaskedPointers_same [OF av av] new av]) (use l in auto)
  show "stepped cx i st (handleMaskedLoad cx i args st)" if l: "4 \<le> length args"
    unfolding handleMaskedLoad_def Let_def
    by (rule masked_load_stepped [unfolded Let_def, OF chk new av]) (use l in auto)
  show "stepped cx i st (handleVectorLoadIntrinsic cx i args st)" if l: "1 \<le> length args" and sk: "\<not> skipped cx i"
  proof -
    let ?S = "(shadow_ty (ity (fn cx) i), Val i)"
    let ?st = "pushShadowCheck cx (Some ?S) i False (setShadow i (Some ?S) (emit (Before i) (GShadowLoad i (fst ?S) (args ! 0)) st))"
    have a0: "avail cx st (args ! 0)" using av [of 0] l by (simp add: Suc_le_eq)
    have "stepped cx i st (setShadow i (Some ?S) (emit (Before i) (GShadowLoad i (fst ?S) (args ! 0)) st))"
      by (rule stepped_set [OF _ new]) simp_all
    then have s: "stepped cx i st ?st" by (rule stepped_after) simp
    have ne: "args ! 0 \<noteq> VInst i" using a0 sk new by (auto simp: avail_def typed_entry_def)
    have "avail cx ?st (args ! 0)" using a0 s ne by (auto simp: avail_def stepped_def typed_entry_def split: val.splits)
    then show ?thesis unfolding handleVectorLoadIntrinsic_def Let_def using stepped_after [OF s checkAddress_same] by simp
  qed
qed


lemma handleUnknownIntrinsic_stepped:
  assumes "ShadowMap st i = None" and "\<forall>v \<in> set args. avail cx st v" and "\<not> skipped cx i"
    and h: "handleUnknownIntrinsic cx i args st = Some st'"
  shows "stepped cx i st st'"
proof (cases "length args = 2 \<and> value_ty cx (args ! 0) = PointerTy \<and> isVectorTy (value_ty cx (args ! 1)) \<and>
    ity (fn cx) i = UnsizedTy \<and> \<not> onlyReadsMemory cx i")
  case True
  then have "st' = handleVectorStoreIntrinsic cx i args st" using h by (simp add: handleUnknownIntrinsic_def)
  moreover have "\<not> has_result cx i" using True by (simp add: has_result_def)
  ultimately show ?thesis using vector_intrinsics_stepped(1) [OF assms(1,2)] True by force
next
  case False
  then have "st' = handleVectorLoadIntrinsic cx i args st" and "length args = 1"
    using h unfolding handleUnknownIntrinsic_def Let_def by (metis option.distinct(1) option.inject)+
  then show ?thesis using masked_loads_stepped(4) [OF assms(1,2) _ assms(3)] by simp
qed

lemma visitIntrinsicInst_stepped:
  assumes new: "ShadowMap st i = None" and args: "\<forall>v \<in> set args. avail cx st v" and sk: "\<not> skipped cx i"
    and ar: "arity ic \<le> length args" and un: "returns_nothing ic \<Longrightarrow> \<not> isSized (ity (fn cx) i)"
    and ty: "ic \<in> {launder_invariant_group, strip_invariant_group} \<Longrightarrow> value_ty cx (args ! 0) = ity (fn cx) i"
  shows "stepped cx i st (visitIntrinsicInst cx i ic args st)"
proof -
  have nores: "returns_nothing ic \<Longrightarrow> \<not> has_result cx i" using un by (simp add: has_result_def)
  have unknown: "stepped cx i st (case handleUnknownIntrinsic cx i args st of Some st1 \<Rightarrow> st1 | None \<Rightarrow> visitInstruction cx i st)"
    using handleUnknownIntrinsic_stepped [OF new args sk] visitInstruction_stepped [OF new] by (simp split: option.splits)
  have launder: "stepped cx i st (let (S, st1) = getShadow cx (args ! 0) st in setShadow i S st1)"
    if "ic \<in> {launder_invariant_group, strip_invariant_group}"
  proof -
    have a: "avail cx st (args ! 0)" using avail_0 [OF args] ar that by (auto simp: arity_def)
    obtain S where g: "getShadow cx (args ! 0) st = (S, st)" using getShadow_ok(1) [OF a] by (metis prod.collapse)
    have "stepped cx i st (setShadow i S st)"
      by (rule stepped_set [OF same_refl new]) (use getShadow_ok(2) [OF a] ty [OF that] g in simp)
    then show ?thesis by (simp add: g)
  qed
  have ne: "args \<noteq> []" if "arity ic \<noteq> 0" using ar that by auto
  note vec = vector_intrinsics_stepped [OF new args nores ne] and mld = masked_loads_stepped [OF new args]
  show ?thesis
  proof (cases ic)
    case lifetime_start
    then have "\<not> has_result cx i" using nores by (simp add: returns_nothing_def)
    then show ?thesis using lifetime_start
      by (auto simp: visitIntrinsicInst_def handleLifetimeStart_def same_def intro!: stepped_same split: option.splits)
  qed (use unknown launder vec mld ar stepped_clean [OF same_refl new] in \<open>simp_all add: visitIntrinsicInst_def arity_def returns_nothing_def\<close>)
qed

section \<open>Calls\<close>

lemma asm_argument_same:
  assumes "out \<Longrightarrow> value_ty cx V = PointerTy"
  shows "same st (instrumentAsmArgument cx V t i out st') \<longleftrightarrow> same st st'"
  using assms by (auto simp: instrumentAsmArgument_def Let_def)

lemma visitAsmInstruction_stepped:
  assumes "ShadowMap st i = None" and "list_all (\<lambda>n. value_ty cx (args ! n) = PointerTy) [0..<nat (getNumOutputArgs cx i)]"
  shows "stepped cx i st (visitAsmInstruction cx i args st)"
proof -
  let ?n = "nat (getNumOutputArgs cx i)"
  let ?arg = "\<lambda>out n. instrumentAsmArgument cx (args ! n) (paramElementType (callinfo cx i) n) i out"
  have "same st (fold (?arg False) ns st)" for ns by (rule fold_same) (simp add: asm_argument_same)
  moreover have "same st' (fold (?arg True) [0..<?n] st')" for st'
    by (rule fold_same) (use assms(2) in \<open>auto simp: asm_argument_same list_all_iff\<close>)
  ultimately show ?thesis unfolding visitAsmInstruction_def Let_def
    by (intro stepped_clean [OF _ assms(1)]) (rule same_trans)
qed

lemma eagerChecks_same:
  assumes "\<forall>v \<in> set args. avail cx st v"
  shows "same st (eagerChecks cx i args st)"
  unfolding eagerChecks_def
proof (rule fold_same)
  fix n st' assume n: "n \<in> set [0..<length args]" and s: "same st st'"
  then have "avail cx st' (args ! n)" using assms avail_same by auto
  then show "same st' (if isSized (value_ty cx (args ! n)) \<and> \<not> paramByVal (callinfo cx i) n \<and> paramNoUndef (callinfo cx i) n
      then insertShadowCheck cx (args ! n) i st' else st')" by (simp add: insertShadowCheck_same)
qed

lemma retval_shadow_stepped:
  assumes "same st st1" and "ShadowMap st i = None"
  shows "stepped cx i st (retval_shadow cx i fm st1)"
  unfolding retval_shadow_def Let_def using assms
  by (auto split: prod.splits intro!: stepped_set [OF _ assms(2)] stepped_clean [OF _ assms(2)])

lemma visitCallBase_stepped:
  assumes new: "ShadowMap st i = None" and args: "\<forall>v \<in> set args. avail cx st v"
    and lib: "LF (callinfo cx i) \<noteq> OtherLibFunc \<Longrightarrow> \<not> isSized (ity (fn cx) i)"
    and asm: "isInlineAsm (callinfo cx i) \<Longrightarrow> list_all (\<lambda>n. value_ty cx (args ! n) = PointerTy) [0..<nat (getNumOutputArgs cx i)]"
    and mt: "fm = PlainCall \<Longrightarrow> isMustTailCall (callinfo cx i) \<Longrightarrow> must_tail cx i"
  shows "stepped cx i st (visitCallBase cx i fm args st)"
proof -
  let ?ci = "callinfo cx i"
  let ?may = "EagerChecks ?ci \<and> (case calledName ?ci of Some g \<Rightarrow> \<not> starts_with g ''__sanitizer_unaligned_'' | None \<Rightarrow> True)"
  define st1 where "st1 = (if fm = PlainCall then emit (Before i) GRemoveMemoryAttrs st else st)"
  define st2 where "st2 = (if ?may then eagerChecks cx i args st1 else st1)"
  define st3 where "st3 = (if isVarArgCall ?ci then va_visitCallBase cx i args st2 else st2)"
  have s1: "same st st1" by (simp add: st1_def)
  have "\<forall>v \<in> set args. avail cx st1 v" using args avail_same [OF s1] by simp
  then have "same st (eagerChecks cx i args st1)" by (rule same_trans [OF s1 eagerChecks_same])
  then have s2: "same st st2" using s1 by (simp add: st2_def)
  have s3: "same st st3" using s2 by (simp add: st3_def va_visitCallBase_def Let_def)
  consider (asm) "isInlineAsm ?ci" | (libload) "\<not> isInlineAsm ?ci" "LF ?ci = LibFunc_atomic_load \<and> fm = PlainCall"
    | (libstore) "\<not> isInlineAsm ?ci" "LF ?ci = LibFunc_atomic_store"
    | (other) "\<not> isInlineAsm ?ci" "\<not> (LF ?ci = LibFunc_atomic_load \<and> fm = PlainCall)" "LF ?ci \<noteq> LibFunc_atomic_store" by blast
  then show ?thesis
  proof cases
    case asm': asm
    then show ?thesis using visitAsmInstruction_stepped [OF new asm] visitInstruction_stepped [OF new] by (simp add: visitCallBase_def)
  next
    case libload
    then have "\<not> has_result cx i" using lib by (simp add: has_result_def)
    then show ?thesis using libload by (simp add: visitCallBase_def visitLibAtomicLoad_def stepped_same)
  next
    case libstore
    then have "\<not> has_result cx i" using lib by (simp add: has_result_def)
    then show ?thesis using libstore by (simp add: visitCallBase_def visitLibAtomicStore_def stepped_same)
  next
    case other
    have nores: "stepped cx i st st3" if "\<not> has_result cx i" by (rule stepped_same [OF s3 that])
    have e: "visitCallBase cx i fm args st =
        (if \<not> isSized (ity (fn cx) i) then st3
         else if fm = PlainCall \<and> isMustTailCall ?ci then st3
         else if ?may \<and> retNoUndef ?ci then setClean cx i st3
         else if ClTrustReturn (clo cx) then setClean cx i st3
         else retval_shadow cx i fm st3)" unfolding st3_def st2_def st1_def using other by (simp only: visitCallBase_def Let_def if_False simp_thms)
    show ?thesis unfolding e using nores mt stepped_clean [OF s3 new, of cx] retval_shadow_stepped [OF s3 new, of cx fm]
      by (simp add: has_result_def)
  qed
qed


section \<open>The visits\<close>

text \<open>The operands whose shadow a handler may look up.\<close>

definition looked_up :: "inst \<Rightarrow> val list" where
  "looked_up I = (case I of RetI r \<Rightarrow> [] | PhiI vs \<Rightarrow> [] | CastI c x \<Rightarrow> [] | _ \<Rightarrow> operands I)"

lemma dispatch_stepped:
  assumes new: "ShadowMap st i = None" and sk: "\<not> skipped cx i" and ok: "inst_ok cx i"
    and ops: "\<forall>v \<in> set (looked_up (body (fn cx) i)). avail cx st v"
  shows "stepped cx i st (dispatch cx i st)"
proof (cases "body (fn cx) i")
  case (CallI fm ic callee args)
  then have args: "\<forall>v \<in> set args. avail cx st v" using ops by (simp add: looked_up_def)
  show ?thesis
  proof (cases "fm \<noteq> PlainCall \<or> ic = NotIntrinsic")
    case True
    have "stepped cx i st (visitCallBase cx i fm args st)"
      by (rule visitCallBase_stepped [OF new args]) (use True ok CallI in \<open>auto simp: inst_ok_def must_tail_def\<close>)
    then show ?thesis using True CallI by (simp add: dispatch_def)
  next
    case False
    then have a: "arity ic \<le> length args" "returns_nothing ic \<Longrightarrow> \<not> isSized (ity (fn cx) i)"
      "ic \<in> {launder_invariant_group, strip_invariant_group} \<Longrightarrow> value_ty cx (args ! 0) = ity (fn cx) i"
      using ok CallI by (simp_all add: inst_ok_def)
    have un: "returns_nothing ic \<Longrightarrow> \<not> has_result cx i" using a(2) by (simp add: has_result_def)
    have mem: "snd (getShadow cx (args ! 1) st) = st" if "ic \<in> {memmove_intr, memcpy_intr}"
      using getShadow_ok(1) avail_nth [OF args, of 1] a(1) that by (auto simp: arity_def)
    consider (mem) "ic \<in> {memmove_intr, memcpy_intr, memset_intr}" | (va) "ic \<in> {va_start_intr, va_copy_intr}"
      | (other) "ic \<notin> {memmove_intr, memcpy_intr, memset_intr, va_start_intr, va_copy_intr}" by blast
    then show ?thesis
    proof cases
      case m: mem
      then have "same st (dispatch cx i st)" using False CallI mem
        by (auto simp: dispatch_def visitMemMoveInst_def visitMemCpyInst_def visitMemSetInst_def)
      then show ?thesis using un m by (intro stepped_same) (auto simp: returns_nothing_def)
    next
      case va
      then have "same st (dispatch cx i st)" using False CallI
        by (auto simp: dispatch_def visitVAStartInst_def visitVACopyInst_def unpoisonVAListTagForInst_def same_def)
      then show ?thesis using un va by (intro stepped_same) (auto simp: returns_nothing_def)
    next
      case other
      then show ?thesis using False CallI visitIntrinsicInst_stepped [OF new args sk a] by (simp add: dispatch_def)
    qed
  qed
next
  case (StoreI v p)
  then have "\<not> has_result cx i" using ok by (simp add: inst_ok_def has_result_def)
  then show ?thesis using StoreI ops by (simp add: dispatch_def looked_up_def visitStoreInst_stepped)
next
  case (RetI r)
  then have "\<not> has_result cx i" using ok by (simp add: inst_ok_def has_result_def)
  then show ?thesis using RetI visitReturnInst_stepped by (simp add: dispatch_def)
qed (use new sk ops in \<open>simp_all add: dispatch_def looked_up_def visitInstruction_stepped visitLoadInst_stepped handleCASOrRMW_stepped
   visitPHINode_stepped visitAllocaInst_stepped visitAtomicRMWInst_def visitAtomicCmpXchgInst_def\<close>)

lemma sinks_looked_up: "v \<in> set (checkUndefSliceSinks ca facts U I) \<Longrightarrow> v \<in> set (looked_up I)"
  by (cases I) (auto simp: checkUndefSliceSinks_def looked_up_def split: if_splits option.splits)

lemma slice_operands_sub: "v \<in> set (slice_operands U vty I) \<Longrightarrow> v \<in> set (operands I) \<and> (isUndef v \<or> in_slice U v)"
  by (cases I) (auto simp: slice_operands_def split: if_splits)

lemma visitSliceInst_stepped: "isSized (ity (fn cx) i) \<Longrightarrow> ShadowMap st i = None \<Longrightarrow> same st st1 \<Longrightarrow>
  (\<forall>v \<in> set (slice_operands (UndefSlice st1) (value_ty cx) (body (fn cx) i)). avail cx st1 v) \<Longrightarrow> stepped cx i st (visitSliceInst cx i st1)"
proof -
  assume sz: "isSized (ity (fn cx) i)" and new: "ShadowMap st i = None" and s1: "same st st1"
    and ops: "\<forall>v \<in> set (slice_operands (UndefSlice st1) (value_ty cx) (body (fn cx) i)). avail cx st1 v"
  let ?ops = "slice_operands (UndefSlice st1) (value_ty cx) (body (fn cx) i)"
  have "same st1 (fold (\<lambda>v st. snd (getShadow cx v st)) ?ops st1)"
  proof (rule fold_same)
    fix v st' assume "v \<in> set ?ops" "same st1 st'"
    then have "avail cx st' v" using ops avail_same by blast
    then show "same st' (snd (getShadow cx v st'))" using getShadow_ok(1) by simp
  qed
  then have s2: "same st (fold (\<lambda>v st. snd (getShadow cx v st)) ?ops st1)" using s1 same_trans by blast
  show ?thesis unfolding visitSliceInst_def Let_def
    using stepped_clean [OF s2 new, of cx] by (auto intro!: stepped_set [OF _ new] simp: s2)
qed

lemma visit_one_stepped:
  assumes new: "ShadowMap st i = None" and sk: "\<not> skipped cx i" and ok: "inst_ok cx i"
    and ops: "\<forall>v \<in> set (looked_up (body (fn cx) i)). avail cx st v"
    and slice: "\<forall>v \<in> set (operands (body (fn cx) i)). value_transfer (body (fn cx) i) \<and> (isUndef v \<or> in_slice (UndefSlice st) v) \<longrightarrow> avail cx st v"
    and sized: "isUndefSliceTransfer (fn cx) (UndefSlice st) i \<Longrightarrow> isSized (ity (fn cx) i)"
  shows "stepped cx i st (visit_one cx i st)"
proof (cases "UndefSlice st = []")
  case True
  then show ?thesis using dispatch_stepped [OF new sk ok ops] by (simp add: visit_one_def)
next
  case False
  let ?facts = "call_facts.truncate (callinfo cx i)"
  define st1 where "st1 = fold (\<lambda>v. insertShadowCheck cx v i) (checkUndefSliceSinks (ClCheckAccessAddress (clo cx)) ?facts (UndefSlice st) (body (fn cx) i)) st"
  have s1: "same st st1" unfolding st1_def by (rule fold_checks_same) (use ops sinks_looked_up in blast)
  have U: "UndefSlice st1 = UndefSlice st" and new1: "ShadowMap st1 i = None" using s1 new by (simp_all add: same_def)
  have ops1: "\<forall>v \<in> set (looked_up (body (fn cx) i)). avail cx st1 v" using ops avail_same [OF s1] by simp
  have e: "visit_one cx i st = (if isUndefSliceTransfer (fn cx) (UndefSlice st) i then visitSliceInst cx i st1 else dispatch cx i st1)"
    using False by (simp add: visit_one_def st1_def)
  show ?thesis
  proof (cases "isUndefSliceTransfer (fn cx) (UndefSlice st) i")
    case True
    then have "value_transfer (body (fn cx) i)" by (simp add: isUndefSliceTransfer_def)
    then have "\<forall>v \<in> set (slice_operands (UndefSlice st1) (value_ty cx) (body (fn cx) i)). avail cx st1 v"
      using slice slice_operands_sub avail_same [OF s1] U by metis
    from visitSliceInst_stepped [OF sized [OF True] new s1 this] show ?thesis using e True by simp
  next
    case False
    have "stepped cx i st1 (dispatch cx i st1)" by (rule dispatch_stepped [OF new1 sk ok ops1])
    then show ?thesis using e False s1 by (simp add: stepped_def same_def)
  qed
qed


section \<open>The function\<close>

text \<open>
  What LLVM guarantees of the function: an operand is defined before its use (in a PHI, somewhere),
  outside the prologue, and has a value; only a return or a cast uses a musttail call.
\<close>

definition ready :: "vctx \<Rightarrow> nat list \<Rightarrow> val \<Rightarrow> bool" where
  "ready cx P v = (case v of VInst j \<Rightarrow> skipped cx j \<or> j \<in> set P \<and> \<not> isInPrologue cx j \<and> has_result cx j | _ \<Rightarrow> True)"

definition tail_use :: "vctx \<Rightarrow> inst \<Rightarrow> val \<Rightarrow> bool" where
  "tail_use cx I v = ((case v of VInst j \<Rightarrow> must_tail cx j | _ \<Rightarrow> False) \<and> (case I of RetI r \<Rightarrow> True | CastI c x \<Rightarrow> True | _ \<Rightarrow> False))"

definition inert :: "vctx \<Rightarrow> nat \<Rightarrow> bool" where
  "inert cx i \<longleftrightarrow> skipped cx i \<or> isInPrologue cx i"

fun defs_before :: "vctx \<Rightarrow> nat list \<Rightarrow> nat list \<Rightarrow> nat list \<Rightarrow> bool" where
  "defs_before cx all seen [] \<longleftrightarrow> True"
| "defs_before cx all seen (i # is) \<longleftrightarrow>
    (inert cx i \<or> inst_ok cx i \<and>
       list_all (\<lambda>v. ready cx (if isPHI (body (fn cx) i) then all else seen) v \<or> tail_use cx (body (fn cx) i) v) (operands (body (fn cx) i))) \<and>
    defs_before cx all (i # seen) is"

definition types_ok :: "vctx \<Rightarrow> bool" where
  "types_ok cx \<longleftrightarrow> (\<forall>j. value_ty cx (VInst j) = ity (fn cx) j) \<and> (\<forall>t. value_ty cx (VUndef t) = t)"

abbreviation all_insts :: "vctx \<Rightarrow> nat list \<Rightarrow> nat list" where
  "all_insts cx bbs \<equiv> concat (map (blocks (fn cx)) bbs)"

definition wf_visit :: "vctx \<Rightarrow> nat list \<Rightarrow> bool" where
  "wf_visit cx bbs \<longleftrightarrow> types_ok cx \<and> distinct (all_insts cx bbs) \<and> defs_before cx (all_insts cx bbs) [] (all_insts cx bbs)"

definition gathered :: "vctx \<Rightarrow> nat \<Rightarrow> bool" where
  "gathered cx i \<longleftrightarrow> \<not> inert cx i \<and> shouldExecute cx i"

text \<open>The state after the instructions \<open>seen\<close>, of those \<open>all\<close>, have been visited.\<close>

definition vinv :: "vctx \<Rightarrow> nat list \<Rightarrow> nat list \<Rightarrow> vstate \<Rightarrow> bool" where
  "vinv cx all seen st \<longleftrightarrow> \<not> failed st \<and>
     (\<forall>j \<in> set all. (j \<in> set seen \<or> \<not> gathered cx j) \<and> \<not> inert cx j \<and> has_result cx j \<longrightarrow> typed_entry cx st j) \<and>
     (\<forall>j \<in> set all. j \<notin> set seen \<and> gathered cx j \<longrightarrow> ShadowMap st j = None) \<and>
     (\<forall>i \<in> set (ShadowPHINodes st) \<union> set (StoreList st). i \<in> set all \<and> \<not> inert cx i) \<and>
     (\<forall>(V, i) \<in> set (PendingReturnChecks st). i \<in> set all \<and> \<not> inert cx i \<and> body (fn cx) i = RetI (Some V) \<and> \<not> isAMustTailRetVal cx V)"

lemma ready_avail:
  assumes "types_ok cx" and "vinv cx all seen st" and "ready cx P v" and "set P \<subseteq> set all" and "\<forall>j \<in> set P. j \<in> set seen \<or> \<not> gathered cx j"
  shows "avail cx st v"
  using assms by (auto simp: ready_def avail_def types_ok_def vinv_def inert_def split: val.splits)

lemma collect_ok:
  assumes "distinct is"
  shows "let st = fold (visit_collect cx) is (vstate0 cx) in Instructions st = filter (gathered cx) is \<and> \<not> failed st \<and>
     (\<forall>j. ShadowMap st j = (if j \<in> set is \<and> \<not> inert cx j \<and> \<not> shouldExecute cx j then Some (cleanShadowOf cx (ity (fn cx) j)) else None)) \<and>
     ShadowPHINodes st = [] \<and> StoreList st = [] \<and> PendingReturnChecks st = []"
  using assms
proof (induction "is" rule: rev_induct)
  case (snoc i "is")
  have e: "visit_collect cx i st = (if inert cx i then st else if \<not> shouldExecute cx i then setShadow i (cleanShadowOf cx (ity (fn cx) i)) st
      else st\<lparr>Instructions := Instructions st @ [i]\<rparr>)" for st
    by (auto simp: visit_collect_def inert_def skipped_def isNoSanitizeEquivalent_def)
  show ?case using snoc by (auto simp: Let_def e gathered_def setShadow_def)
qed (simp add: vstate0_def)

lemma vinv_start:
  assumes "distinct all"
  shows "let st = fold (visit_collect cx) all (vstate0 cx) in Instructions st = filter (gathered cx) all \<and> (\<forall>U. vinv cx all [] (st\<lparr>UndefSlice := U\<rparr>))"
proof -
  note c = collect_ok [OF assms, of cx, unfolded Let_def]
  have "typed_entry cx (fold (visit_collect cx) all (vstate0 cx)) j"
    if "j \<in> set all" "\<not> shouldExecute cx j" "\<not> inert cx j" "has_result cx j" for j
    using c that cleanShadowOf_sized [of "ity (fn cx) j" cx] by (auto simp: vstate0_def typed_entry_def has_result_def)
  then show ?thesis using c by (auto simp: Let_def vinv_def vstate0_def gathered_def typed_entry_def)
qed


lemma looked_up_ops: "v \<in> set (looked_up I) \<Longrightarrow> v \<in> set (operands I) \<and> \<not> isPHI I \<and> \<not> tail_use cx I v"
  by (cases I) (simp_all add: looked_up_def tail_use_def)

definition slice_ok :: "vctx \<Rightarrow> nat list \<Rightarrow> bool" where
  "slice_ok cx U \<longleftrightarrow> (\<forall>j \<in> set U. (isPHI (body (fn cx) j) \<or> value_transfer (body (fn cx) j)) \<and> isUndefSliceScalar (ity (fn cx) j))"

lemma slice_not_tail:
  assumes "slice_ok cx U" and "in_slice U v"
  shows "\<not> tail_use cx I v"
proof -
  obtain j where j: "v = VInst j" "isPHI (body (fn cx) j) \<or> value_transfer (body (fn cx) j)"
    using assms by (auto simp: in_slice_def slice_ok_def split: val.splits)
  then show ?thesis by (cases "body (fn cx) j") (auto simp: tail_use_def must_tail_def)
qed

lemma vinv_step:
  assumes inv: "vinv cx all seen st" and s: "stepped cx i st st'" and i: "i \<in> set all" "\<not> inert cx i"
  shows "vinv cx all (i # seen) st'"
proof -
  have ent: "typed_entry cx st' j" if "j \<noteq> i" "typed_entry cx st j" for j using s that by (simp add: stepped_def typed_entry_def)
  have own: "typed_entry cx st' i" if "has_result cx i" using s that by (simp add: stepped_def)
  have lists: "set (ShadowPHINodes st') \<union> set (StoreList st') \<subseteq> insert i (set (ShadowPHINodes st) \<union> set (StoreList st))"
    and pend: "set (PendingReturnChecks st') \<subseteq> set (PendingReturnChecks st) \<union> {(V, i) | V. body (fn cx) i = RetI (Some V) \<and> \<not> isAMustTailRetVal cx V}"
    and map: "\<And>j. j \<noteq> i \<Longrightarrow> ShadowMap st' j = ShadowMap st j" and nf: "failed st' = failed st"
    using s unfolding stepped_def by blast+
  show ?thesis unfolding vinv_def
  proof (intro conjI ballI impI)
    show "\<not> failed st'" using inv nf by (simp add: vinv_def)
    fix j assume "j \<in> set all" "(j \<in> set (i # seen) \<or> \<not> gathered cx j) \<and> \<not> inert cx j \<and> has_result cx j"
    then show "typed_entry cx st' j" using inv ent own unfolding vinv_def by (cases "j = i") auto
  next
    fix j assume "j \<in> set all" "j \<notin> set (i # seen) \<and> gathered cx j"
    then show "ShadowMap st' j = None" using inv map unfolding vinv_def by simp
  next
    fix j assume "j \<in> set (ShadowPHINodes st') \<union> set (StoreList st')"
    then show "j \<in> set all" and "\<not> inert cx j" using lists i inv unfolding vinv_def by blast+
  next
    fix p assume "p \<in> set (PendingReturnChecks st')"
    then show "case p of (V, i) \<Rightarrow> i \<in> set all \<and> \<not> inert cx i \<and> body (fn cx) i = RetI (Some V) \<and> \<not> isAMustTailRetVal cx V"
      using pend i inv unfolding vinv_def by blast
  qed
qed

lemma visit_loop:
  assumes ty: "types_ok cx" and d: "distinct all" and sl: "slice_ok cx U"
  shows "all = rev seen @ rest \<Longrightarrow> defs_before cx all seen rest \<Longrightarrow> vinv cx all seen st \<Longrightarrow> UndefSlice st = U \<Longrightarrow>
    vinv cx all (rev rest @ seen) (fold (visit_one cx) (filter (gathered cx) rest) st)"
proof (induction rest arbitrary: seen st)
  case (Cons i rest)
  have i: "i \<in> set all" "i \<notin> set seen" using Cons.prems(1) d by auto
  have next_all: "all = rev (i # seen) @ rest" using Cons.prems(1) by simp
  have defs: "defs_before cx all (i # seen) rest" using Cons.prems(2) by simp
  show ?case
  proof (cases "gathered cx i")
    case True
    then have live: "\<not> inert cx i" "\<not> skipped cx i" by (auto simp: gathered_def inert_def)
    then have ok: "inst_ok cx i" and use: "\<And>v. v \<in> set (operands (body (fn cx) i)) \<Longrightarrow>
        ready cx (if isPHI (body (fn cx) i) then all else seen) v \<or> tail_use cx (body (fn cx) i) v"
      using Cons.prems(2) by (simp_all add: list_all_iff)
    have rdy: "avail cx st v" if "ready cx seen v" for v
      by (rule ready_avail [OF ty Cons.prems(3) that]) (use Cons.prems(1) in auto)
    have "stepped cx i st (visit_one cx i st)"
    proof (rule visit_one_stepped [OF _ live(2) ok])
      show "ShadowMap st i = None" using Cons.prems(3) i True unfolding vinv_def by blast
      show "\<forall>v \<in> set (looked_up (body (fn cx) i)). avail cx st v"
        using use looked_up_ops rdy by (metis (full_types))
      show "\<forall>v \<in> set (operands (body (fn cx) i)). value_transfer (body (fn cx) i) \<and> (isUndef v \<or> in_slice (UndefSlice st) v) \<longrightarrow> avail cx st v"
      proof (intro ballI impI)
        fix v assume v: "v \<in> set (operands (body (fn cx) i))" "value_transfer (body (fn cx) i) \<and> (isUndef v \<or> in_slice (UndefSlice st) v)"
        then have np: "\<not> isPHI (body (fn cx) i)" by (cases "body (fn cx) i") auto
        show "avail cx st v"
        proof (cases "isUndef v")
          case True
          then show ?thesis using ty by (cases v) (auto simp: avail_def types_ok_def)
        next
          case False
          then have "\<not> tail_use cx (body (fn cx) i) v" using v(2) Cons.prems(4) slice_not_tail [OF sl] by blast
          then show ?thesis using use [OF v(1)] np rdy by simp
        qed
      qed
      assume "isUndefSliceTransfer (fn cx) (UndefSlice st) i"
      then have "isUndefSliceScalar (ity (fn cx) i)" using sl Cons.prems(4) by (auto simp: isUndefSliceTransfer_def slice_ok_def)
      then show "isSized (ity (fn cx) i)" by (cases "ity (fn cx) i") auto
    qed
    then have "vinv cx all (i # seen) (visit_one cx i st)" and "UndefSlice (visit_one cx i st) = U"
      using vinv_step [OF Cons.prems(3) _ i(1) live(1)] Cons.prems(4) by (simp_all add: stepped_def)
    from Cons.IH [OF next_all defs this] show ?thesis using True by simp
  next
    case False
    have "vinv cx all (i # seen) st" using Cons.prems(3) i False unfolding vinv_def by auto
    from Cons.IH [OF next_all defs this Cons.prems(4)] show ?thesis using False by simp
  qed
qed simp


lemma defs_before_mem:
  assumes "defs_before cx all seen is" and "set seen \<subseteq> set all" and "set is \<subseteq> set all" and "i \<in> set is" and "\<not> inert cx i"
  shows "inst_ok cx i" and "v \<in> set (operands (body (fn cx) i)) \<Longrightarrow> ready cx all v \<or> tail_use cx (body (fn cx) i) v"
proof -
  have mono: "ready cx P v \<Longrightarrow> set P \<subseteq> set all \<Longrightarrow> ready cx all v" for P v by (auto simp: ready_def split: val.splits)
  have "inst_ok cx i \<and> (\<forall>v \<in> set (operands (body (fn cx) i)). ready cx all v \<or> tail_use cx (body (fn cx) i) v)"
    using assms
  proof (induction "is" arbitrary: seen)
    case (Cons k ks)
    show ?case
    proof (cases "i = k")
      case True
      then show ?thesis using Cons.prems mono [of seen] mono [of all] by (simp add: list_all_iff) metis
    next
      case False
      then show ?thesis using Cons.IH [of "k # seen"] Cons.prems by simp
    qed
  qed simp
  then show "inst_ok cx i" and "v \<in> set (operands (body (fn cx) i)) \<Longrightarrow> ready cx all v \<or> tail_use cx (body (fn cx) i) v" by blast+
qed

lemma incoming_same: "\<forall>v \<in> set vs. avail cx st v \<Longrightarrow>
  \<exists>Rs. fold (\<lambda>v (Ss, st). let (S, st') = getShadow cx v st in (Ss @ [S], st')) vs (Ss, st) = (Rs, st)"
proof (induction vs arbitrary: Ss)
  case (Cons v vs)
  then obtain S where "getShadow cx v st = (S, st)" using getShadow_ok(1) [of cx st v] by (metis list.set_intros(1) prod.collapse)
  then show ?case using Cons by simp
qed simp

lemma finalize_phi_same:
  assumes "\<And>vs v. body (fn cx) i = PhiI vs \<Longrightarrow> v \<in> set vs \<Longrightarrow> avail cx st v"
  shows "same st (finalize_phi cx i st)"
proof (cases "body (fn cx) i")
  case (PhiI vs)
  then obtain Rs where "fold (\<lambda>v (Ss, st). let (S, st') = getShadow cx v st in (Ss @ [S], st')) vs ([], st) = (Rs, st)"
    using incoming_same [of vs cx st "[]"] assms by blast
  then show ?thesis using PhiI by (simp add: finalize_phi_def)
qed (simp_all add: finalize_phi_def)

lemma return_check_same:
  assumes "avail cx st V" and "isSized (value_ty cx V)"
  shows "same st (let (S, st') = getShadow cx V st in if c S then pushShadowCheck cx S i True st' else st')"
proof -
  obtain e where "getShadow cx V st = (Some (shadow_ty (value_ty cx V), e), st)"
    using getShadow_ok [OF assms(1)] assms(2) by (metis prod.collapse)
  then show ?thesis by simp
qed

lemma materialize_store_same:
  assumes "\<And>V p. body (fn cx) i = StoreI V p \<Longrightarrow> avail cx st V"
  shows "same st (materialize_store cx i st)"
proof (cases "body (fn cx) i")
  case (StoreI V p)
  then obtain S where "getShadow cx V st = (S, st)" using getShadow_ok(1) [of cx st V] assms by (metis prod.collapse)
  then show ?thesis using StoreI by (auto simp: materialize_store_def Let_def)
qed (simp_all add: materialize_store_def)

lemma instrumentAlloca_same: "same st (instrumentAlloca cx i p st') \<longleftrightarrow> same st st'"
  by (simp add: instrumentAlloca_def poisonAllocaUserspace_def Let_def)

lemma same_update: "same st (st'\<lparr>AllocaSet := a\<rparr>) \<longleftrightarrow> same st st'" "same st (st'\<lparr>InstrumentationList := l\<rparr>) \<longleftrightarrow> same st st'"
  by (simp_all add: same_def)

lemma instrumentAllocas_same: "same st (instrumentAllocas cx st)"
proof -
  have a: "same st' (fold (\<lambda>AI. instrumentAlloca cx AI AI) xs st')" for xs st' by (rule fold_same) (simp add: instrumentAlloca_same)
  have "same st (fold (\<lambda>(ins, AI) st. (instrumentAlloca cx AI ins st)\<lparr>AllocaSet := removeAll AI (AllocaSet st)\<rparr>) (LifetimeStartList st) st)"
    by (rule fold_same) (auto simp: instrumentAlloca_same same_update)
  then show ?thesis unfolding instrumentAllocas_def Let_def using a same_trans by auto
qed

lemma finalizeInstrumentation_same: "same st (finalizeInstrumentation cx st)"
proof -
  have f: "same st' (fold (finalize_va_start cx) xs st')" for xs st' by (rule fold_same) (simp add: finalize_va_start_def)
  have "same st (fold (finalize_va_start cx) xs (emit p g st))" for xs p g by (rule same_trans [OF _ f]) simp
  then show ?thesis unfolding finalizeInstrumentation_def Let_def using f by simp
qed

lemma slice_kind: "i \<in> undef_slice f Is \<Longrightarrow> isPHI (body f i) \<or> value_transfer (body f i)"
  by (induction rule: undef_slice.induct) (auto simp: slice_seed_def slice_next_def split: inst.splits)

lemma tail_return: "tail_use cx I (v) \<Longrightarrow> isAMustTailRetVal cx v"
  by (cases v) (auto simp: tail_use_def must_tail_def isAMustTailRetVal_def split: inst.splits)

text \<open>The state when everything has been visited.\<close>

definition visited :: "vctx \<Rightarrow> nat list \<Rightarrow> vstate \<Rightarrow> bool" where
  "visited cx bbs st \<longleftrightarrow> wf_visit cx bbs \<and> vinv cx (all_insts cx bbs) (rev (all_insts cx bbs)) st"

lemma visited_operand:
  assumes "visited cx bbs st" and "i \<in> set (all_insts cx bbs)" and "\<not> inert cx i" and "v \<in> set (operands (body (fn cx) i))"
  shows "avail cx st v \<or> tail_use cx (body (fn cx) i) v"
proof -
  let ?all = "all_insts cx bbs"
  have wf: "types_ok cx" "defs_before cx ?all [] ?all" and inv: "vinv cx ?all (rev ?all) st"
    using assms(1) by (simp_all add: visited_def wf_visit_def)
  have "ready cx ?all v \<or> tail_use cx (body (fn cx) i) v"
    using defs_before_mem(2) [OF wf(2) _ _ assms(2,3,4)] by simp
  then show ?thesis using ready_avail [OF wf(1) inv, of ?all v] by auto
qed

lemma visited_same: "visited cx bbs st \<Longrightarrow> same st st' \<Longrightarrow> visited cx bbs st'"
  by (simp add: visited_def vinv_def same_def typed_entry_def)


lemma visit_phase_ok:
  assumes wf: "wf_visit cx bbs" and fin: "finite_users (fn cx) B I" "set (all_insts cx bbs) \<subseteq> I"
  shows "\<exists>st. visit_phase cx bbs = Some st \<and> visited cx bbs st"
proof -
  let ?all = "all_insts cx bbs"
  let ?st0 = "fold (visit_collect cx) ?all (vstate0 cx)"
  have w: "types_ok cx" "distinct ?all" "defs_before cx ?all [] ?all" using wf by (simp_all add: wf_visit_def)
  note st0 = vinv_start [OF w(2), of cx, unfolded Let_def]
  have sub: "set (Instructions ?st0) \<subseteq> I" using st0 fin(2) by auto
  obtain S where S: "computeUndefSlice (fn cx) (Instructions ?st0) = Some S" "set S = undef_slice (fn cx) (set (Instructions ?st0))"
    using computeUndefSlice_ok [OF fin(1) sub] by blast
  define U where "U = (if ClUndefSlice (clo cx) then S else [])"
  have sl: "slice_ok cx U" using S(2) slice_kind slice_scalar by (fastforce simp: U_def slice_ok_def)
  have "vinv cx ?all (rev ?all @ []) (fold (visit_one cx) (filter (gathered cx) ?all) (?st0\<lparr>UndefSlice := U\<rparr>))"
    by (rule visit_loop [OF w(1,2) sl _ w(3)]) (use st0 in simp_all)
  moreover have "visit_phase cx bbs = Some (fold (visit_one cx) (filter (gathered cx) ?all) (?st0\<lparr>UndefSlice := U\<rparr>))"
    using S(1) st0 by (simp add: visit_phase_def U_def Let_def)
  ultimately show ?thesis using wf by (simp add: visited_def)
qed

lemma phis_same:
  assumes v: "visited cx bbs st"
  shows "same st (fold (finalize_phi cx) (ShadowPHINodes st) st)"
proof (rule fold_same)
  fix i st' assume i: "i \<in> set (ShadowPHINodes st)" and s: "same st st'"
  have m: "i \<in> set (all_insts cx bbs)" "\<not> inert cx i" using v i unfolding visited_def vinv_def by blast+
  show "same st' (finalize_phi cx i st')"
  proof (rule finalize_phi_same)
    fix vs x assume b: "body (fn cx) i = PhiI vs" "x \<in> set vs"
    then show "avail cx st' x" using visited_operand [OF visited_same [OF v s] m, of x] by (simp add: tail_use_def)
  qed
qed

lemma returns_same:
  assumes v: "visited cx bbs st"
  shows "same (st\<lparr>PendingReturnChecks := []\<rparr>) (filter_returns cx st)"
proof -
  let ?f = "\<lambda>(V, i) st'. let (S, st'') = getShadow cx V st'
     in if returnShadowMayCarryUndef (graph_of cx st) (shv_of S) \<noteq> Some False then pushShadowCheck cx S i True st'' else st''"
  have "same st (fold ?f (PendingReturnChecks st) st)"
  proof (rule fold_same)
    fix p st' assume p: "p \<in> set (PendingReturnChecks st)" and s: "same st st'"
    obtain V i where Vi: "p = (V, i)" by (cases p)
    then have m: "i \<in> set (all_insts cx bbs)" "\<not> inert cx i" "body (fn cx) i = RetI (Some V)" "\<not> isAMustTailRetVal cx V"
      using v p unfolding visited_def vinv_def by blast+
    have "avail cx st' V" using visited_operand [OF visited_same [OF v s] m(1,2), of V] m(3,4) tail_return by auto
    moreover have "inst_ok cx i" using defs_before_mem(1) [of cx "all_insts cx bbs" "[]", OF _ _ _ m(1,2)] v by (simp add: visited_def wf_visit_def)
    then have "isSized (value_ty cx V)" using m(3) by (simp add: inst_ok_def)
    ultimately show "same st' (?f p st')" unfolding Vi prod.case by (rule return_check_same)
  qed
  then show ?thesis unfolding filter_returns_def Let_def by (simp add: same_def)
qed

lemma stores_same:
  assumes v: "visited cx bbs st"
  shows "same st (materializeStores cx st)"
  unfolding materializeStores_def
proof (rule fold_same)
  fix i st' assume i: "i \<in> set (StoreList st)" and s: "same st st'"
  have m: "i \<in> set (all_insts cx bbs)" "\<not> inert cx i" using v i unfolding visited_def vinv_def by blast+
  show "same st' (materialize_store cx i st')"
    by (rule materialize_store_same) (use visited_operand [OF visited_same [OF v s] m] in \<open>force simp: tail_use_def\<close>)
qed

section \<open>Properties\<close>

text \<open>
  C36: the visitor never fails one of its assertions and leaves no value without a shadow: every
  value is given a shadow at most once, a shadow is there whenever one is looked up, in the visits and in
  the phases after them, and in the end every instruction that was not skipped and produces a value has
  a shadow, of the shadow type of its own type.
\<close>

theorem shadows_assigned:
  assumes "wf_visit cx bbs" and "finite_users (fn cx) B I" and "set (all_insts cx bbs) \<subseteq> I"
  shows "\<exists>r st. runOnFunction cx dominates LI bbs = Some (r, st) \<and> \<not> failed st \<and>
    (\<forall>i \<in> set (all_insts cx bbs). \<not> inert cx i \<and> has_result cx i \<longrightarrow>
       (\<exists>e. ShadowMap st i = Some (Some (shadow_ty (ity (fn cx) i), e))))"
proof -
  obtain st where st: "visit_phase cx bbs = Some st" "visited cx bbs st" using visit_phase_ok [OF assms] by blast
  define st1 where "st1 = fold (finalize_phi cx) (ShadowPHINodes st) st"
  define st2 where "st2 = finalizeInstrumentation cx (filter_returns cx st1)"
  define st3 where "st3 = instrumentAllocas cx st2"
  define st4 where "st4 = (if ClSinkChecks (clo cx)
    then st3\<lparr>InstrumentationList := sink_checks (ClSinkPastBarriers (clo cx)) dominates (fn cx) LI (InstrumentationList st3)\<rparr> else st3)"
  have v1: "visited cx bbs st1" unfolding st1_def by (rule visited_same [OF st(2) phis_same [OF st(2)]])
  then have "visited cx bbs (st1\<lparr>PendingReturnChecks := []\<rparr>)" by (auto simp: visited_def vinv_def typed_entry_def)
  then have "visited cx bbs (filter_returns cx st1)" by (rule visited_same [OF _ returns_same [OF v1]])
  then have "visited cx bbs st3" unfolding st3_def st2_def
    by (intro visited_same [OF _ instrumentAllocas_same] visited_same [OF _ finalizeInstrumentation_same])
  then have v4: "visited cx bbs st4" unfolding st4_def by (auto intro: visited_same simp: same_update)
  then have "visited cx bbs (materializeStores cx st4)" by (rule visited_same [OF _ stores_same [OF v4]])
  moreover have "runOnFunction cx dominates LI bbs = Some (materializeChecks (popts cx) (fn cx) LI (InstrumentationList st4) 0, materializeStores cx st4)"
    by (simp add: runOnFunction_def st(1) Let_def st4_def st3_def st2_def st1_def)
  ultimately show ?thesis by (auto simp: visited_def vinv_def typed_entry_def)
qed


text \<open>A function that keeps its argument in a stack variable, reads it back and returns it.\<close>

definition visit_func :: func where
  "visit_func = \<lparr>body = (\<lambda>i. [CallI PlainCall OtherIntrinsic (VGlobal ''llvm.donothing'') [], AllocaI (VInt 1), StoreI (VArg 0) (VInst 1),
       LoadI (VInst 1), RetI (Some (VInst 3))] ! i),
     ity = (\<lambda>i. if i = 1 then PointerTy else if i = 3 then IntegerTy 32 else UnsizedTy),
     blocks = (\<lambda>b. [0, 1, 2, 3, 4]), parent = (\<lambda>_. 0), succs = (\<lambda>_. []),
     users = (\<lambda>v. if v = VInst 1 then [Some 2, Some 3] else if v = VInst 3 then [Some 4] else []),
     nosanitize = (\<lambda>_. False), transfers = (\<lambda>i. i < 4)\<rparr>"

definition default_opts :: cl_opts where
  "default_opts = \<lparr>ClInstrumentLoads = True, ClCheckLoads = True, ClInstrumentStores = True, ClUnpoisonStores = True,
     ClCheckAccessAddress = False, ClSkipNoSanitizeOnlyLoads = True, ClSkipCalleeOnlyLoads = False, ClSkipAFLRuntimeAccesses = True,
     ClUndefSlice = True, ClSinkChecks = True, ClSinkPastBarriers = False, ClTrustReturn = True, ClCheckReturns = True,
     ClHandleAsmConservative = True, ClHandleLifetimeIntrinsics = True, ClPoisonStackWithCall = False, ClPoisonStackPattern = 255,
     InsertChecks = True, PoisonStack = True, PoisonUndef = True\<rparr>"

definition plain_call :: call_info where
  "plain_call = \<lparr>EagerChecks = False, isInlineAsm = False, paramNoUndef = (\<lambda>_. False), paramByVal = (\<lambda>_. False),
     LF = OtherLibFunc, calledName = None, isVarArgCall = False, numParams = 0, byValSize = (\<lambda>_. 0), isMustTailCall = False,
     retNoUndef = False, normalDest = (0, False), asmOutputs = 0, paramElementType = (\<lambda>_. UnsizedTy)\<rparr>"

definition visit_example :: vctx where
  "visit_example = \<lparr>fn = visit_func, clo = default_opts, popts = example_opts,
     value_ty = (\<lambda>v. case v of VInst i \<Rightarrow> ity visit_func i | VUndef t \<Rightarrow> t | _ \<Rightarrow> IntegerTy 32), vscale = 1,
     ordering = (\<lambda>_. NotAtomic), alloc_size = (\<lambda>_. 4), store_size = (\<lambda>_. 4), allocated = (\<lambda>_. IntegerTy 32), onlyReadsMemory = (\<lambda>_. True),
     callinfo = (\<lambda>_. plain_call), findAllocaForValue = (\<lambda>_. None), underlyingObjects = (\<lambda>_. []), underlyingObject = (\<lambda>v. v),
     FnPrologueEnd = 0, shouldExecute = (\<lambda>_. True), isWin64 = False, isX86_64 = True, fn_attrs = [], fnRetNoUndef = False,
     fresh = (\<lambda>i k. 100 * k + i)\<rparr>"

lemmas visit_example_defs = visit_example_def visit_func_def default_opts_def plain_call_def

lemma visit_example_wf: "wf_visit visit_example [0]"
  by (simp add: wf_visit_def types_ok_def visit_example_defs inert_def skipped_def isNoSanitizeEquivalent_def afl_access_def isAFLRuntimeAccess_def
      isAFLRuntimePointer_def isInPrologue_def comesBefore_def pos_def inst_ok_def ready_def tail_use_def has_result_def must_tail_def)

theorem shadows_assigned_witness:
  "\<exists>r st. runOnFunction visit_example (\<lambda>_ _. False) no_loops [0] = Some (r, st) \<and> \<not> failed st \<and>
    (\<exists>e. ShadowMap st 3 = Some (Some (IntegerTy 32, e)))"
proof -
  have "finite_users (fn visit_example) {0} {0, 1, 2, 3, 4}" by (auto simp: finite_users_def visit_example_def visit_func_def)
  moreover have "set (all_insts visit_example [0]) \<subseteq> {0, 1, 2, 3, 4}" "3 \<in> set (all_insts visit_example [0])"
    by (simp_all add: visit_example_def visit_func_def)
  moreover have "\<not> inert visit_example 3" "has_result visit_example 3" "shadow_ty (ity (fn visit_example) 3) = IntegerTy 32"
    by (simp_all add: visit_example_defs inert_def skipped_def isNoSanitizeEquivalent_def afl_access_def isAFLRuntimeAccess_def
        isAFLRuntimePointer_def isInPrologue_def comesBefore_def pos_def has_result_def must_tail_def)
  ultimately show ?thesis using shadows_assigned [OF visit_example_wf] by fastforce
qed

end
