(* ===== verification/Pass_Refine.thy ===== *)
theory Pass_Refine
  imports Pass_Assign
begin

text \<open>
  The compiler pass: what the generated code does. The code of loads, stores, atomics and stack
  variables, run on the shadow memory, implements the set of uninitialised bytes: a stack variable adds
  its bytes, a store removes those it writes, and a load reports exactly when it reads one of them.
\<close>

section \<open>Running generated code\<close>

text \<open>
  LLVM's data layout: the offsets of the bytes a value of a type occupies in memory, and how a value
  is read from and written to them. A shadow type has the layout of its type.
\<close>

record layout =
  offsets :: "ty \<Rightarrow> nat list"
  read_ty :: "ty \<Rightarrow> (nat \<Rightarrow> u8) \<Rightarrow> sval"
  write_ty :: "ty \<Rightarrow> sval \<Rightarrow> nat \<Rightarrow> u8"

definition layout_ok :: "layout \<Rightarrow> nat \<Rightarrow> ty \<Rightarrow> bool" where
  "layout_ok dl k t \<longleftrightarrow> isSized t \<and> offsets dl (shadow_ty t) = offsets dl t \<and>
     (\<forall>b. nz (read_ty dl (shadow_ty t) b) \<longleftrightarrow> (\<exists>n \<in> set (offsets dl t). b n \<noteq> 0)) \<and>
     (\<forall>n \<in> set (offsets dl t). write_ty dl (shadow_ty t) (getNullValue k (shadow_ty t)) n = 0)"

text \<open>The addresses of a value at \<open>a\<close>, and of a range.\<close>

definition cells :: "layout \<Rightarrow> ty \<Rightarrow> u64 \<Rightarrow> u64 set" where
  "cells dl t a = (\<lambda>n. a + of_nat n) ` set (offsets dl t)"

definition extent :: "u64 \<Rightarrow> u64 \<Rightarrow> u64 set" where
  "extent a len = {x. x - a < len}"

definition len_of :: "(val \<Rightarrow> u64) \<Rightarrow> glen \<Rightarrow> u64" where
  "len_of \<pi> l = (case l of LenConst n \<Rightarrow> n | LenMul n v \<Rightarrow> n * \<pi> v | LenVal v \<Rightarrow> \<pi> v | LenOverflow \<Rightarrow> 0)"

text \<open>
  The shadow memory by application address, and the values of generated instructions. \<open>\<pi>\<close> gives the
  values of pointers and sizes. Orderings do not change what is computed.
\<close>

type_synonym smem = "u64 \<Rightarrow> u8"

definition run_code :: "layout \<Rightarrow> (val \<Rightarrow> u64) \<Rightarrow> gcode \<Rightarrow> smem \<times> (nat \<Rightarrow> sval) \<Rightarrow> smem \<times> (nat \<Rightarrow> sval)" where
  "run_code dl \<pi> g s = (case (g, s) of (g, (m, \<rho>)) \<Rightarrow>
     (case g of
        GShadowLoad n t p \<Rightarrow> (m, \<rho>(n := read_ty dl t (\<lambda>k. m (\<pi> p + of_nat k))))
      | GShadowStore S p \<Rightarrow>
          (fold (\<lambda>k m. m(\<pi> p + of_nat k := write_ty dl (fst S) (ev \<rho> (snd S)) k)) (offsets dl (fst S)) m, \<rho>)
      | GShadowMemset b p l \<Rightarrow> ((\<lambda>a. if a \<in> extent (\<pi> p) (len_of \<pi> l) then b else m a), \<rho>)
      | GPoisonStack i l \<Rightarrow> ((\<lambda>a. if a \<in> extent (\<pi> (VInst i)) (len_of \<pi> l) then 255 else m a), \<rho>)
      | _ \<Rightarrow> (m, \<rho>)))"

text \<open>The state a visit of one instruction leaves, with the code it generates.\<close>

definition instrument :: "vctx \<Rightarrow> nat \<Rightarrow> vstate" where
  "instrument cx i = (case body (fn cx) i of
     StoreI v p \<Rightarrow> materialize_store cx i (vstate0 cx)
   | AllocaI n \<Rightarrow> instrumentAlloca cx i i (visitAllocaInst cx i (vstate0 cx))
   | _ \<Rightarrow> dispatch cx i (vstate0 cx))"

text \<open>An event executes an instruction: the memory, the values and the reports (one entry per event).\<close>

definition code_event :: "vctx \<Rightarrow> layout \<Rightarrow> nat \<times> (val \<Rightarrow> u64) \<Rightarrow> (smem \<times> (nat \<Rightarrow> sval)) \<times> bool list \<Rightarrow> (smem \<times> (nat \<Rightarrow> sval)) \<times> bool list" where
  "code_event cx dl e s =
    (let st = instrument cx (fst e);
         s' = fold (\<lambda>(p, g). run_code dl (snd e) g) (Code st) (fst s)
     in (s', snd s @ [list_ex (\<lambda>C. nz (ev (snd s') (ShadowV C))) (InstrumentationList st)]))"

section \<open>The reference\<close>

definition ref_event :: "vctx \<Rightarrow> layout \<Rightarrow> nat \<times> (val \<Rightarrow> u64) \<Rightarrow> u64 set \<times> bool list \<Rightarrow> u64 set \<times> bool list" where
  "ref_event cx dl e s = (case (e, s) of ((i, \<pi>), (U, rs)) \<Rightarrow>
     (case body (fn cx) i of
        LoadI p \<Rightarrow> (U, rs @ [cells dl (ity (fn cx) i) (\<pi> p) \<inter> U \<noteq> {}])
      | StoreI v p \<Rightarrow> (U - cells dl (value_ty cx v) (\<pi> p), rs @ [False])
      | AtomicRMWI p v \<Rightarrow> (U - cells dl (value_ty cx v) (\<pi> p), rs @ [False])
      | AllocaI n \<Rightarrow> (U \<union> extent (\<pi> (VInst i)) (alloc_size cx (allocated cx i) * (if n = VInt 1 then 1 else \<pi> n)), rs @ [False])
      | _ \<Rightarrow> (U, rs @ [False])))"

text \<open>The instructions treated, in the default configuration.\<close>

definition event_ok :: "vctx \<Rightarrow> layout \<Rightarrow> nat \<Rightarrow> bool" where
  "event_ok cx dl i = (case body (fn cx) i of
     LoadI p \<Rightarrow> layout_ok dl (vscale cx) (ity (fn cx) i) \<and>
       \<not> (ClSkipNoSanitizeOnlyLoads (clo cx) \<and> onlyFeedsNoSanitize (afl_access cx) (fn cx) (VInst i) = Some True) \<and>
       \<not> (ClSkipCalleeOnlyLoads (clo cx) \<and> onlyFeedsCallee (fn cx) (VInst i))
   | StoreI v p \<Rightarrow> layout_ok dl (vscale cx) (value_ty cx v)
   | AtomicRMWI p v \<Rightarrow> layout_ok dl (vscale cx) (value_ty cx v)
   | AllocaI n \<Rightarrow> True
   | _ \<Rightarrow> False)"

definition tracking :: "cl_opts \<Rightarrow> bool" where
  "tracking opt \<longleftrightarrow> ClInstrumentLoads opt \<and> ClCheckLoads opt \<and> ClUnpoisonStores opt \<and> \<not> ClCheckAccessAddress opt \<and> InsertChecks opt \<and>
     PoisonStack opt \<and> (word_of_int (ClPoisonStackPattern opt) :: u8) \<noteq> 0"

section \<open>One event\<close>

definition uninit :: "smem \<Rightarrow> u64 set" where
  "uninit m = {a. m a \<noteq> 0}"

lemma clean_store:
  assumes "\<forall>n \<in> set ns. w n = (0 :: u8)"
  shows "uninit (fold (\<lambda>k m. m(a + of_nat k := w k)) ns m) = uninit m - (\<lambda>n. a + of_nat n) ` set ns"
  using assms
proof (induction ns arbitrary: m)
  case (Cons n ns)
  have "uninit (fold (\<lambda>k m. m(a + of_nat k := w k)) ns (m(a + of_nat n := w n))) = uninit (m(a + of_nat n := w n)) - (\<lambda>n. a + of_nat n) ` set ns"
    by (rule Cons.IH) (use Cons.prems in simp)
  moreover have "w n = 0" using Cons.prems by simp
  then have "uninit (m(a + of_nat n := w n)) = uninit m - {a + of_nat n}" by (auto simp: uninit_def)
  ultimately have "uninit (fold (\<lambda>k m. m(a + of_nat k := w k)) (n # ns) m) = uninit m - {a + of_nat n} - (\<lambda>n. a + of_nat n) ` set ns"
    by (simp only: fold_simps)
  also have "\<dots> = uninit m - (\<lambda>n. a + of_nat n) ` set (n # ns)" by auto
  finally show ?case .
qed simp

lemma run_clean_store:
  assumes "layout_ok dl k t" and "vscale cx = k"
  shows "\<exists>S. cleanShadowOf cx t = Some S \<and> uninit (fst (run_code dl \<pi> (GShadowStore S p) (m, \<rho>))) = uninit m - cells dl t (\<pi> p)"
proof -
  have "cleanShadowOf cx t = Some (shadow_ty t, Const (getNullValue k (shadow_ty t)))"
    using assms by (simp add: cleanShadowOf_def getCleanShadow_def getShadowTy_shadow_ty layout_ok_def)
  moreover have "uninit (fst (run_code dl \<pi> (GShadowStore (shadow_ty t, Const (getNullValue k (shadow_ty t))) p) (m, \<rho>))) = uninit m - cells dl t (\<pi> p)"
    using clean_store [of "offsets dl t" "write_ty dl (shadow_ty t) (getNullValue k (shadow_ty t))" "\<pi> p" m] assms(1)
    by (simp add: run_code_def layout_ok_def cells_def)
  ultimately show ?thesis by blast
qed

lemma store_snd: "snd (run_code dl \<pi> (GShadowStore S p) (m, \<rho>)) = \<rho>"
  by (simp add: run_code_def)

lemma memset_uninit: "b \<noteq> 0 \<Longrightarrow> {a. (if a \<in> X then b else m a) \<noteq> (0 :: u8)} = uninit m \<union> X"
  by (auto simp: uninit_def)

lemma load_event:
  assumes b: "body (fn cx) i = LoadI p" and ok: "event_ok cx dl i" and tr: "tracking (clo cx)"
  shows "\<exists>\<rho>'. code_event cx dl (i, \<pi>) ((m, \<rho>), rs) = ((m, \<rho>'), rs @ [cells dl (ity (fn cx) i) (\<pi> p) \<inter> uninit m \<noteq> {}])"
proof -
  let ?t = "shadow_ty (ity (fn cx) i)"
  have lay: "layout_ok dl (vscale cx) (ity (fn cx) i)" using ok b by (simp add: event_ok_def)
  let ?v = "read_ty dl ?t (\<lambda>k. m (\<pi> p + of_nat k))"
  obtain pl os where c: "Code (instrument cx i) = (pl, GShadowLoad i ?t p) # os" "\<forall>(p, g) \<in> set os. \<exists>ord. g = GSetOrdering ord"
    and l: "InstrumentationList (instrument cx i) = [\<lparr>ShadowTyV = ?t, ShadowV = Val i, OrigIns = i, Essential = False\<rparr>]"
  proof -
    define pl where "pl = (if \<not> isUnsplittableTerminator (body (fn cx) (getTerminator (fn cx) (parent (fn cx) i))) then After i else Before i)"
    have "instrument cx i = visitLoadInst cx i p (vstate0 cx)" using b by (simp add: instrument_def dispatch_def)
    then have "Code (instrument cx i) = (pl, GShadowLoad i ?t p) # (if ordering cx i \<noteq> NotAtomic then [(Before i, GSetOrdering (addAcquireOrdering (ordering cx i)))] else [])"
      and "InstrumentationList (instrument cx i) = [\<lparr>ShadowTyV = ?t, ShadowV = Val i, OrigIns = i, Essential = False\<rparr>]"
      using ok b tr by (auto simp: visitLoadInst_def Let_def event_ok_def tracking_def checkAddress_def pushShadowCheck_def emit_def setShadow_def vstate0_def pl_def)
    then show thesis by (intro that [of pl "if ordering cx i \<noteq> NotAtomic then [(Before i, GSetOrdering (addAcquireOrdering (ordering cx i)))] else []"]) auto
  qed
  have "fold (\<lambda>(p, g). run_code dl \<pi> g) os s = s" for s
    using c(2) by (induction os arbitrary: s) (auto simp: run_code_def)
  then have "fold (\<lambda>(p, g). run_code dl \<pi> g) (Code (instrument cx i)) (m, \<rho>) = (m, \<rho>(i := ?v))"
    using c(1) by (simp add: run_code_def)
  moreover have "nz ?v \<longleftrightarrow> cells dl (ity (fn cx) i) (\<pi> p) \<inter> uninit m \<noteq> {}"
    using lay by (auto simp: layout_ok_def cells_def uninit_def)
  ultimately show ?thesis using l by (simp add: code_event_def Let_def)
qed


text \<open>The code of the other instructions is one shadow operation, orderings apart, and requests no check.\<close>

lemma write_event:
  assumes c: "Code (instrument cx i) = (pl, g) # os" and o: "\<forall>(p, g) \<in> set os. \<exists>ord. g = GSetOrdering ord"
    and l: "InstrumentationList (instrument cx i) = []" and u: "uninit (fst (run_code dl \<pi> g (m, \<rho>))) = U"
  shows "\<exists>m' \<rho>'. code_event cx dl (i, \<pi>) ((m, \<rho>), rs) = ((m', \<rho>'), rs @ [False]) \<and> uninit m' = U"
proof -
  obtain m' \<rho>' where r: "run_code dl \<pi> g (m, \<rho>) = (m', \<rho>')" by (cases "run_code dl \<pi> g (m, \<rho>)")
  have "fold (\<lambda>(p, g). run_code dl \<pi> g) os s = s" for s
    using o by (induction os arbitrary: s) (auto simp: run_code_def)
  then have "fold (\<lambda>(p, g). run_code dl \<pi> g) (Code (instrument cx i)) (m, \<rho>) = (m', \<rho>')" using c r by simp
  then show ?thesis using l u r by (simp add: code_event_def Let_def)
qed

lemma store_code:
  assumes b: "body (fn cx) i = StoreI v p" and tr: "tracking (clo cx)" and S: "cleanShadowOf cx (value_ty cx v) = Some S"
  shows "\<exists>os. Code (instrument cx i) = (Before i, GShadowStore S p) # os \<and> (\<forall>(p, g) \<in> set os. \<exists>ord. g = GSetOrdering ord) \<and>
    InstrumentationList (instrument cx i) = []"
  using assms by (simp add: instrument_def materialize_store_def Let_def tracking_def in_slice_def emit_store_def emit_def vstate0_def split: val.splits)

lemma rmw_code:
  assumes b: "body (fn cx) i = AtomicRMWI p v" and tr: "tracking (clo cx)" and S: "cleanShadowOf cx (value_ty cx v) = Some S"
  shows "\<exists>os. Code (instrument cx i) = (Before i, GShadowStore S p) # os \<and> (\<forall>(p, g) \<in> set os. \<exists>ord. g = GSetOrdering ord) \<and>
    InstrumentationList (instrument cx i) = []"
  using assms by (simp add: instrument_def dispatch_def visitAtomicRMWInst_def handleCASOrRMW_def Let_def tracking_def checkAddress_def
      emit_store_def emit_def setClean_def setShadow_def vstate0_def)

definition stack_code :: "vctx \<Rightarrow> nat \<Rightarrow> glen \<Rightarrow> gcode" where
  "stack_code cx i l = (if ClPoisonStackWithCall (clo cx) then GPoisonStack i l
     else GShadowMemset (word_of_int (ClPoisonStackPattern (clo cx))) (VInst i) l)"

lemma alloca_code:
  assumes b: "body (fn cx) i = AllocaI n" and tr: "tracking (clo cx)"
  shows "\<exists>l. Code (instrument cx i) = [(After i, stack_code cx i l)] \<and> InstrumentationList (instrument cx i) = [] \<and>
    len_of \<pi> l = alloc_size cx (allocated cx i) * (if n = VInt 1 then 1 else \<pi> n)"
proof -
  let ?T = "alloc_size cx (allocated cx i)"
  have "Code (instrument cx i) = [(After i, stack_code cx i (if n = VInt 1 then LenConst ?T else LenMul ?T n))] \<and> InstrumentationList (instrument cx i) = []"
    using assms by (simp add: instrument_def instrumentAlloca_def visitAllocaInst_def poisonAllocaUserspace_def Let_def tracking_def stack_code_def
        emit_def setClean_def setShadow_def vstate0_def)
  then show ?thesis by (intro exI [of _ "if n = VInt 1 then LenConst ?T else LenMul ?T n"]) (simp add: len_of_def)
qed

lemma stack_uninit:
  assumes "tracking (clo cx)"
  shows "uninit (fst (run_code dl \<pi> (stack_code cx i l) (m, \<rho>))) = uninit m \<union> extent (\<pi> (VInst i)) (len_of \<pi> l)"
  using assms by (auto simp: stack_code_def run_code_def tracking_def uninit_def)

lemma event_refines:
  assumes ok: "event_ok cx dl i" and tr: "tracking (clo cx)"
  shows "\<exists>m' \<rho>' rs'. code_event cx dl (i, \<pi>) ((m, \<rho>), rs) = ((m', \<rho>'), rs') \<and> ref_event cx dl (i, \<pi>) (uninit m, rs) = (uninit m', rs')"
proof (cases "body (fn cx) i")
  case (LoadI p)
  then show ?thesis using load_event [OF LoadI ok tr, of \<pi> m \<rho> rs] by (auto simp: ref_event_def)
next
  case (StoreI v p)
  then have "layout_ok dl (vscale cx) (value_ty cx v)" using ok by (simp add: event_ok_def)
  then obtain S where S: "cleanShadowOf cx (value_ty cx v) = Some S"
    "uninit (fst (run_code dl \<pi> (GShadowStore S p) (m, \<rho>))) = uninit m - cells dl (value_ty cx v) (\<pi> p)"
    using run_clean_store [OF _ refl] by blast
  then show ?thesis using store_code [OF StoreI tr S(1)] write_event [OF _ _ _ S(2)] StoreI by (fastforce simp: ref_event_def)
next
  case (AtomicRMWI p v)
  then have "layout_ok dl (vscale cx) (value_ty cx v)" using ok by (simp add: event_ok_def)
  then obtain S where S: "cleanShadowOf cx (value_ty cx v) = Some S"
    "uninit (fst (run_code dl \<pi> (GShadowStore S p) (m, \<rho>))) = uninit m - cells dl (value_ty cx v) (\<pi> p)"
    using run_clean_store [OF _ refl] by blast
  then show ?thesis using rmw_code [OF AtomicRMWI tr S(1)] write_event [OF _ _ _ S(2)] AtomicRMWI by (fastforce simp: ref_event_def)
next
  case (AllocaI n)
  obtain l where l: "Code (instrument cx i) = [(After i, stack_code cx i l)]" "InstrumentationList (instrument cx i) = []"
    "len_of \<pi> l = alloc_size cx (allocated cx i) * (if n = VInt 1 then 1 else \<pi> n)" using alloca_code [OF AllocaI tr] by blast
  then show ?thesis using write_event [OF l(1) _ l(2) stack_uninit [OF tr], of dl \<pi> m \<rho> rs] AllocaI by (fastforce simp: ref_event_def)
qed (use ok in \<open>simp_all add: event_ok_def\<close>)

section \<open>Properties\<close>


text \<open>A stack variable of four bytes read before and after it is written.\<close>

definition word_layout :: layout where
  "word_layout = \<lparr>offsets = (\<lambda>_. [0, 1, 2, 3]), read_ty = (\<lambda>t b. IntV 32 (pack 8 (map (\<lambda>n. unat (b n)) [0, 1, 2, 3]))),
     write_ty = (\<lambda>t v n. case v of IntV w x \<Rightarrow> of_nat (x div 2 ^ (8 * n)) | _ \<Rightarrow> 0)\<rparr>"

lemma word_layout_ok: "layout_ok word_layout k (IntegerTy 32)"
proof -
  have "unat x = 0 \<longleftrightarrow> x = 0" for x :: u8 by (simp add: unat_eq_0)
  then show ?thesis by (auto simp: layout_ok_def word_layout_def pack_eq_0)
qed


end
