(* ===== verification/Spec2Isabelle.thy ===== *)
theory Spec2Isabelle
  imports Layout Shadow Depot Flags Origin Poisoning Unwind Report Allocator Libc Startup Interceptors Handlers Heap_Interface
    Interface Pass_Refine
begin

text \<open>
  CQMSan finds reads of uninitialised memory in programs under a fuzzer. It has two parts. The compiler
  pass (\<^verbatim>\<open>src/src/pass/CompilerQEMUMemorySanitizer.cpp\<close>) instruments every function of a module: a stack
  variable is marked as uninitialised, a store marks its bytes as initialised, a load reads the shadow of
  its bytes and requests a check. The runtime (\<^verbatim>\<open>src/src/rt/cqmsan\<close>, on top of
  \<^verbatim>\<open>src/src/rt/sanitizer_common\<close>) keeps one shadow byte per application byte (0: initialised) and, with
  origin tracking, one origin id per four bytes, in regions of the address space that a bit pattern of the
  address selects; it marks heap memory, answers queries, and records violations in a map shared with the
  fuzzer. The two meet in three places: the address of a shadow byte (\<^verbatim>\<open>getShadowPtr\<close> and
  \<^verbatim>\<open>MEM_TO_SHADOW\<close>), the meaning of a shadow value (a nonzero bit is uninitialised) and the functions the
  generated code calls.

  \<^bold>\<open>Runtime\<close>

  \<^item> \<^verbatim>\<open>Prelude\<close>: machine words, flat memory with block and word accesses, outcomes (\<open>Ok\<close>, or a death of the
    process), address ranges, the alignment helpers of \<^verbatim>\<open>sanitizer_common.h\<close>; the collections
    \<open>outcome_simps\<close>, \<open>mem_simps\<close> and \<open>range_simps\<close>.
  \<^item> \<^verbatim>\<open>Layout\<close>: \<^verbatim>\<open>cqmsan.h\<close> and the start-up check of \<^verbatim>\<open>cqmsan_linux.cpp\<close> for the eight supported layouts.
    The locale \<open>shadow_map\<close> states what a layout has to give, and is interpreted for each one: every
    application address has its shadow and origin in the right regions, and regions do not overlap. For
    ppc64 the check passes although there are application addresses without a shadow.
  \<^item> \<^verbatim>\<open>Shadow\<close>: the marking and query functions of \<^verbatim>\<open>cqmsan_poisoning.cpp\<close> and \<^verbatim>\<open>cqmsan.cpp\<close>. They refine
    union and difference on the set of uninitialised bytes; the path of \<^verbatim>\<open>SetShadow\<close> that maps fresh pages
    is a plain fill; the word-wise query finds the first uninitialised byte.
  \<^item> \<^verbatim>\<open>Depot\<close>: \<^verbatim>\<open>sanitizer_stackdepotbase.h\<close> with its two instances, over the locale \<open>depot_node\<close>: a hash-consed
    map from which everything put can be read back.
  \<^item> \<^verbatim>\<open>Flags\<close>: \<^verbatim>\<open>sanitizer_flag_parser.cpp\<close> and the flags of the runtime: parsing and ranges.
  \<^item> \<^verbatim>\<open>Origin\<close>: \<^verbatim>\<open>cqmsan_origin.h\<close> and the chained origin depot: encoding and histories.
  \<^item> \<^verbatim>\<open>Poisoning\<close>: copying of shadow and origins, also between overlapping ranges.
  \<^item> \<^verbatim>\<open>Unwind\<close>: the frame-pointer unwinder stays between the bounds of the stack and ends.
  \<^item> \<^verbatim>\<open>Report\<close>: the warning entry points, the map shared with the fuzzer, the range check of the interceptors
    and the protocol of expected reports.
  \<^item> \<^verbatim>\<open>Allocator\<close>: \<^verbatim>\<open>cqmsan_allocator.cpp\<close> as built with \<^verbatim>\<open>CQMSAN_GLIBC_ALLOC\<close>, over the C library heap, which is a parameter with the laws it
    documents (\<open>libc_ok\<close>): headers, canaries, errors, and the table of live chunks as abstract state.
  \<^item> \<^verbatim>\<open>Libc\<close>: the block and string functions of \<^verbatim>\<open>sanitizer_libc.cpp\<close> against their C meaning, with the cases where they differ.
  \<^item> \<^verbatim>\<open>Startup\<close>: \<^verbatim>\<open>InitShadow\<close> of \<^verbatim>\<open>cqmsan_linux.cpp\<close>, the thread structure of \<^verbatim>\<open>cqmsan_thread.cpp\<close> with fibers and destructors, and
    \<^verbatim>\<open>__cqmsan_init\<close>. The record \<open>rt\<close> is the state of the runtime: address space, reports, scopes, threads, thread-local shadow. After
    start-up no byte counts as uninitialised, and a thread outlives the destructors that may still use it.
  \<^item> \<^verbatim>\<open>Interceptors\<close>: the interceptors of \<^verbatim>\<open>cqmsan_interceptors.cpp\<close> and the helpers of \<^verbatim>\<open>cqmsan_dl.cpp\<close>, steps on \<open>rt\<close> that may return, end
    the process or replace it. \<open>intercepts real f st W\<close> says that \<open>f\<close> is the replaced function to the program and marks exactly \<open>W\<close>; the locale \<open>block_writer\<close>
    gives it for the functions that fill a block.
  \<^item> \<^verbatim>\<open>Handlers\<close>: signal and exit handlers. \<^verbatim>\<open>sigaction\<close> refines the system's on the program's own actions, delivery calls the program's
    handler, exit handlers are a stack; \<^verbatim>\<open>signal\<close> hands out the wrapper.
  \<^item> \<^verbatim>\<open>Heap_Interface\<close>: \<^verbatim>\<open>cqmsan_new_delete.cpp\<close> and the interceptors of the \<^verbatim>\<open>malloc\<close> family, with the internal heap that serves them before
    initialisation as a parameter.
  \<^item> \<^verbatim>\<open>Interface\<close>: unaligned accesses, copies of shadow and the ranges the loader initialised (\<^verbatim>\<open>cqmsan.cpp\<close>).

  \<^bold>\<open>Compiler pass\<close>

  \<^item> \<^verbatim>\<open>Pass_Shadow\<close>: shadow types and constants, the reduction of a shadow to one bit, the two forms of a
    check. Generated expressions have an evaluator \<open>ev\<close>; \<open>nz\<close> says that some bit of a value is set.
  \<^item> \<^verbatim>\<open>Pass_Address\<close>: the generated address arithmetic is the runtime's \<^verbatim>\<open>MEM_TO_SHADOW\<close>; atomic orderings.
  \<^item> \<^verbatim>\<open>Pass_IR\<close>: instructions, blocks and functions as far as the pass looks at them.
  \<^item> \<^verbatim>\<open>Pass_Checks\<close>, \<^verbatim>\<open>Pass_Loops\<close>: \<^verbatim>\<open>materializeChecks\<close> in its three modes. Merging the checks of a
    straight line or of a loop reports exactly what the separate checks report.
  \<^item> \<^verbatim>\<open>Worklist\<close>: the worklist loop that several analyses share, its termination and what it visits.
  \<^item> \<^verbatim>\<open>Pass_Sinks\<close>: moving the check of a load to a use (\<^verbatim>\<open>findSinkFor\<close>): the use is reached whenever
    the load is, on every execution that ends; with an example where a loop discards a value between.
  \<^item> \<^verbatim>\<open>Pass_Slice\<close>: the undef slice and its shadows, the filter of return checks, and the analyses that
    leave loads out.
  \<^item> \<^verbatim>\<open>Pass_VarArg\<close>: the size of the stack area of variadic arguments against the calling convention.
  \<^item> \<^verbatim>\<open>Pass_Visit\<close>: the visitor. Each \<^verbatim>\<open>visit\<close> and \<^verbatim>\<open>handle\<close> method is a function on its state that also
    appends the code it generates; \<open>runOnFunction\<close> composes them as the source does.
  \<^item> \<^verbatim>\<open>Pass_Assign\<close>: no assertion of the visitor fails and every value gets its shadow.
  \<^item> \<^verbatim>\<open>Pass_Refine\<close>: the code generated for loads, stores, atomic updates and stack variables implements
    the abstract set of uninitialised bytes, and exactly the loads of uninitialised bytes report.

  \<^bold>\<open>Loops and bounds\<close>

  Loops of the source that end for a reason of data are \<open>function\<close>s with a measure or structural
  recursion. Loops over graphs (worklists, the filter of return checks) and over depot chains may not end on
  arbitrary inputs; they are \<open>partial_function\<close>s in \<open>option\<close>, where \<^term>\<open>None\<close> is not returning, and are
  proved to return on finite functions and well-formed depots. Numbers keep their widths (\<open>u8\<close> to \<open>u64\<close>)
  where the source's arithmetic can wrap: addresses, sizes, origin ids, depot ids, the 32-bit counters of
  variadic arguments. The search for uninstrumented consumers stops after 256 instructions as in the source.

  \<^bold>\<open>What is assumed\<close>

  LLVM's analyses (use lists, dominators, loops, underlying objects, data layout, whether an instruction
  passes control on), the C library with its heap, the functions the interceptors replace and the operating system are
  parameters; the theorems name what they rely on as
  hypotheses (for instance \<open>finite_users\<close>, \<open>wf_visit\<close>, \<open>layout_ok\<close>, \<open>libc_ok\<close>, \<open>writes_only\<close>, \<open>posix_sigaction\<close>), each with a concrete
  instance at which the theorem is applied. The visitor is modelled for the default build; the effect of
  \<^verbatim>\<open>CQMSAN_FLIP_CONVENTION\<close> is modelled where a shadow is tested and merged.

  \<^bold>\<open>Not modelled\<close>

  The interceptors and system-call hooks that \<^verbatim>\<open>sanitizer_common\<close> provides for all sanitizers, concurrency (each call runs to its end
  before the next, locks have no state), hooks for fork and deadly signals, registration of the pass and the declarations it adds to a module,
  symbolisation and printing, the size-class allocator of \<^verbatim>\<open>sanitizer_common\<close> (the
  build that allocates through the C library is modelled), other platforms, the generic interception library, and the patches to
  the fuzzer under \<^verbatim>\<open>src/src/aflpp\<close>, which are C programs of another project.
\<close>

end
